(* ===== verification/Prelude.thy ===== *)
theory Prelude
  imports Main "HOL-Library.Word" "HOL-Library.Sublist" "HOL-Library.AList"
begin

text \<open>
  Shared vocabulary of the development: the machine integer types of the Rust
  sources, bits of bytes and byte strings read most significant bit first (the order
  every tree of the program uses), longest common prefixes of lists, and the
  named collections the component proofs draw on.
\<close>

unbundle bit_operations_syntax

section \<open>Machine integers\<close>

type_synonym u8 = "8 word"
type_synonym u16 = "16 word"
type_synonym u32 = "32 word"
type_synonym u64 = "64 word"
type_synonym u128 = "128 word"
type_synonym usize = "64 word"

named_theorems bits_simps "bit-level characterisations of the byte-level operations"
named_theorems node_laws "what the readers of a node return after its writers"
named_theorems code_defs "unfolding rules used when a witness is evaluated"

section \<open>Single bits\<close>

lemma and_one_of_bool: "(w AND 1 :: 'a::len word) = of_bool (bit w 0)"
  by (simp add: and_one_eq mod_2_eq_odd bit_0)

lemma drop_bit_and_one [bits_simps]:
  "(drop_bit n w AND 1 :: 'a::len word) = of_bool (bit w n)"
  by (simp add: and_one_of_bool bit_drop_bit_eq)

lemma of_bool_word_eq_iff [simp]:
  "(of_bool a = (of_bool b :: 'a::len word)) \<longleftrightarrow> a = b"
  by (cases a; cases b) auto

lemma of_bool_word_eq_0_iff [simp]: "(of_bool a = (0 :: 'a::len word)) \<longleftrightarrow> \<not> a"
  by (cases a) auto

section \<open>Byte strings as bit strings\<close>

text \<open>Bit \<open>p\<close> of a byte string, most significant bit of the first byte first;
  positions past the end read as \<^const>\<open>False\<close>.\<close>

definition bytes_bit :: "u8 list \<Rightarrow> nat \<Rightarrow> bool" where
  "bytes_bit bs p \<longleftrightarrow> p div 8 < length bs \<and> bit (bs ! (p div 8)) (7 - p mod 8)"

text \<open>The first \<open>n\<close> bits of a byte string.\<close>

definition bits_of_bytes :: "u8 list \<Rightarrow> nat \<Rightarrow> bool list" where
  "bits_of_bytes bs n = map (bytes_bit bs) [0..<n]"

lemma length_bits_of_bytes [simp]: "length (bits_of_bytes bs n) = n"
  by (simp add: bits_of_bytes_def)

lemma nth_bits_of_bytes [simp]: "i < n \<Longrightarrow> bits_of_bytes bs n ! i = bytes_bit bs i"
  by (simp add: bits_of_bytes_def)

lemma take_bits_of_bytes: "m \<le> n \<Longrightarrow> take m (bits_of_bytes bs n) = bits_of_bytes bs m"
  by (simp add: bits_of_bytes_def take_map)

lemma drop_bits_of_bytes:
  "drop m (bits_of_bytes bs n) = map (\<lambda>i. bytes_bit bs (m + i)) [0..<n - m]"
  by (rule nth_equalityI) simp_all

lemma byte_eqI:
  assumes "\<And>i. i < 8 \<Longrightarrow> bit a (7 - i) = bit (b :: u8) (7 - i)"
  shows "a = b"
proof (rule bit_word_eqI)
  fix n
  assume n: "n < LENGTH(8)"
  then have "7 - (7 - n) = n" by simp
  with n assms [of "7 - n"] show "bit a n = bit b n" by simp
qed

lemma bytes_eqI:
  assumes "length as = length bs"
    and "\<And>p. p < 8 * length as \<Longrightarrow> bytes_bit as p = bytes_bit bs p"
  shows "as = bs"
proof (rule nth_equalityI [OF assms(1)])
  fix i
  assume i: "i < length as"
  show "as ! i = bs ! i"
  proof (rule byte_eqI)
    fix j :: nat
    assume j: "j < 8"
    have "8 * i + j < 8 * length as" using i j by simp
    from assms(2) [OF this] i j assms(1) show "bit (as ! i) (7 - j) = bit (bs ! i) (7 - j)"
      by (simp add: bytes_bit_def)
  qed
qed

section \<open>Big-endian byte strings of words\<close>

text \<open>\<open>to_be_bytes\<close> of the Rust integers: the \<open>k\<close> bytes of a word, most significant first.\<close>

definition be_bytes :: "nat \<Rightarrow> 'a::len word \<Rightarrow> u8 list" where
  "be_bytes k w = map (\<lambda>i. ucast (drop_bit (8 * (k - 1 - i)) w)) [0..<k]"

text \<open>\<open>from_be_bytes\<close>.\<close>

definition of_be_bytes :: "u8 list \<Rightarrow> 'a::len word" where
  "of_be_bytes bs = foldl (\<lambda>acc b. push_bit 8 acc OR ucast b) 0 bs"

lemma length_be_bytes [simp]: "length (be_bytes k w) = k"
  by (simp add: be_bytes_def)

lemma bytes_bit_be_bytes:
  assumes "8 * k = LENGTH('a)"
  shows "bytes_bit (be_bytes k (w :: 'a::len word)) p \<longleftrightarrow>
    p < LENGTH('a) \<and> bit w (LENGTH('a) - 1 - p)"
proof (cases "p < 8 * k")
  case True
  then have d: "p div 8 < k" by auto
  have m: "p mod 8 < 8" by simp
  have e: "8 * (k - 1 - p div 8) + (7 - p mod 8) = 8 * k - 1 - p"
    using d m div_mult_mod_eq [of p 8] by linarith
  have "bytes_bit (be_bytes k w) p \<longleftrightarrow> bit w (8 * (k - 1 - p div 8) + (7 - p mod 8))"
    using d less_Suc_eq_le [of "7 - p mod 8" 7]
    by (simp add: bytes_bit_def be_bytes_def bit_unsigned_iff bit_drop_bit_eq)
  then show ?thesis using e True assms by simp
next
  case False
  then have "\<not> p div 8 < k" by auto
  with False assms show ?thesis by (simp add: bytes_bit_def)
qed

lemma be_bytes_inj:
  assumes "8 * k = LENGTH('a)" and "be_bytes k v = be_bytes k (w :: 'a::len word)"
  shows "v = w"
proof (rule bit_word_eqI)
  fix n
  assume n: "n < LENGTH('a)"
  have "bytes_bit (be_bytes k v) (LENGTH('a) - 1 - n)
      \<longleftrightarrow> bytes_bit (be_bytes k w) (LENGTH('a) - 1 - n)"
    using assms(2) by simp
  with n show "bit v n = bit w n"
    by (simp add: bytes_bit_be_bytes [OF assms(1)])
qed

section \<open>Longest common prefixes of bit strings\<close>

fun lcp_len :: "'a list \<Rightarrow> 'a list \<Rightarrow> nat" where
  "lcp_len (x # xs) (y # ys) = (if x = y then Suc (lcp_len xs ys) else 0)"
| "lcp_len _ _ = 0"

lemma lcp_len_le1: "lcp_len xs ys \<le> length xs"
  by (induction xs ys rule: lcp_len.induct) auto

lemma lcp_len_le2: "lcp_len xs ys \<le> length ys"
  by (induction xs ys rule: lcp_len.induct) auto

lemma take_lcp_len: "take (lcp_len xs ys) xs = take (lcp_len xs ys) ys"
  by (induction xs ys rule: lcp_len.induct) auto

lemma lcp_len_diff:
  "lcp_len xs ys < length xs \<Longrightarrow> lcp_len xs ys < length ys
    \<Longrightarrow> xs ! lcp_len xs ys \<noteq> ys ! lcp_len xs ys"
  by (induction xs ys rule: lcp_len.induct) auto

lemma lcp_len_full_iff: "lcp_len xs ys = length xs \<longleftrightarrow> prefix xs ys"
  by (induction xs ys rule: lcp_len.induct) auto

lemma take_eq_prefix: "prefix xs ys \<longleftrightarrow> take (length xs) ys = xs"
  by (metis append_eq_conv_conj append_take_drop_id prefixE prefixI)

section \<open>Options and lists\<close>

text \<open>Rust's \<open>Option::or_else\<close>: the first value if there is one.\<close>

fun or_else :: "'a option \<Rightarrow> 'a option \<Rightarrow> 'a option" where
  "or_else (Some x) _ = Some x"
| "or_else None y = y"

lemma or_else_eq_None [simp]: "or_else a b = None \<longleftrightarrow> a = None \<and> b = None"
  by (cases a) auto

lemma or_else_None2 [simp]: "or_else a None = a"
  by (cases a) auto

lemma or_else_assoc [simp]: "or_else (or_else a b) c = or_else a (or_else b c)"
  by (cases a) auto

lemma map_of_size_list:
  "map_of xs k = Some c \<Longrightarrow> f c < Suc (size_list (size_prod (\<lambda>_. 0) f) xs)"
  by (induction xs) (auto split: if_splits)

end
