(* ===== verification/TokenBucket.thy ===== *)
theory TokenBucket
  imports Prelude
begin

text \<open>
  The token bucket of \<open>policy/src/token_bucket.rs\<close>: one 64-bit word holding a timestamp and
  a fixed-point token count. \<open>TokenBucket_allow\<close> is a call that meets no interference (its
  first compare-exchange succeeds); the last section has the compare-exchange loop itself, as
  steps of several threads over one word. The lemmas bound what a bucket admits.
\<close>

section \<open>Saturating arithmetic\<close>

definition saturating_sub :: "'a::len word \<Rightarrow> 'a word \<Rightarrow> 'a word" where
  "saturating_sub a b = (if a < b then 0 else a - b)"

definition saturating_add :: "'a::len word \<Rightarrow> 'a word \<Rightarrow> 'a word" where
  "saturating_add a b = (if unat a + unat b < 2 ^ LENGTH('a) then a + b else - 1)"

definition saturating_mul :: "'a::len word \<Rightarrow> 'a word \<Rightarrow> 'a word" where
  "saturating_mul a b = (if unat a * unat b < 2 ^ LENGTH('a) then a * b else - 1)"

lemma unat_saturating_sub: "unat (saturating_sub a b) = unat a - unat b"
  by (auto simp: saturating_sub_def unat_sub_if' word_less_nat_alt word_le_nat_alt not_less)

lemma unat_max_word [simp]: "unat (- 1 :: 'a::len word) = 2 ^ LENGTH('a) - 1"
  by (simp add: unsigned_minus_1_eq_mask mask_eq_exp_minus_1)

lemma unat_saturating_add:
  "unat (saturating_add a b) = min (unat a + unat b) (2 ^ LENGTH('a) - 1)" for a b :: "'a::len word"
  by (auto simp: saturating_add_def unat_word_ariths min_def)

lemma unat_saturating_mul:
  "unat (saturating_mul a b) = min (unat a * unat b) (2 ^ LENGTH('a) - 1)" for a b :: "'a::len word"
proof (cases "unat a * unat b < 2 ^ LENGTH('a)")
  case True
  then have "unat a * unat b \<le> 2 ^ LENGTH('a) - 1" by linarith
  with True show ?thesis by (simp add: saturating_mul_def unat_word_ariths)
qed (simp add: saturating_mul_def)

section \<open>The packed word\<close>

definition pack :: "u32 \<Rightarrow> u32 \<Rightarrow> u64" where
  "pack ts tokens_fp = push_bit 32 (ucast ts) OR ucast tokens_fp"

definition unpack :: "u64 \<Rightarrow> u32 \<times> u32" where
  "unpack v = (ucast (drop_bit 32 v), ucast v)"

lemma unpack_pack [simp]: "unpack (pack ts tk) = (ts, tk)"
proof -
  have "\<not> bit tk (32 + n)" for n using bit_imp_le_length [of tk "32 + n"] by auto
  then show ?thesis
    unfolding unpack_def pack_def
    by (auto intro!: bit_word_eqI simp: bit_ucast_iff bit_or_iff bit_push_bit_iff bit_drop_bit_eq)
qed

lemma pack_unpack: "pack (fst (unpack v)) (snd (unpack v)) = v"
  unfolding unpack_def pack_def
  by (rule bit_word_eqI)
     (auto simp: bit_ucast_iff bit_or_iff bit_push_bit_iff bit_drop_bit_eq)

section \<open>Sequential operations\<close>

text \<open>\<open>(capacity * 1000).min(u32::MAX as u64) as u32\<close>; the product wraps in the release build.\<close>

definition capacity_fp :: "u64 \<Rightarrow> u32" where
  "capacity_fp capacity = ucast (min (capacity * 1000) 0xFFFFFFFF)"

definition TokenBucket_new :: "u32 \<Rightarrow> u64 \<Rightarrow> u64" where
  "TokenBucket_new now capacity = pack now (capacity_fp capacity)"

text \<open>The token count after the refill computed at \<open>now\<close>.\<close>

definition refilled :: "u32 \<Rightarrow> u64 \<Rightarrow> u64 \<Rightarrow> u64 \<Rightarrow> u32" where
  "refilled now capacity tokens_per_sec old =
     (let cap_fp = capacity_fp capacity; (ts, raw_fp) = unpack old;
          elapsed = saturating_sub now ts;
          refill_fp = ucast (min (saturating_mul (ucast elapsed) (tokens_per_sec * 1000)) 0xFFFFFFFF) :: u32
      in min (saturating_add raw_fp refill_fp) cap_fp)"

definition TokenBucket_allow :: "u32 \<Rightarrow> u64 \<Rightarrow> u64 \<Rightarrow> u64 \<Rightarrow> bool \<times> u64" where
  "TokenBucket_allow now capacity tokens_per_sec old =
     (let tokens_fp = refilled now capacity tokens_per_sec old in
      if tokens_fp < 1000 then (False, old)
      else (True, pack now (tokens_fp - 1000)))"

section \<open>What one call does\<close>

definition tb_ts :: "u64 \<Rightarrow> nat" where
  "tb_ts b = unat (fst (unpack b))"

definition tb_tokens :: "u64 \<Rightarrow> nat" where
  "tb_tokens b = unat (snd (unpack b))"

lemma tb_pack [simp]: "tb_ts (pack ts tk) = unat ts" "tb_tokens (pack ts tk) = unat tk"
  by (simp_all add: tb_ts_def tb_tokens_def)

lemma unat_min_word: "unat (min a b) = min (unat a) (unat b)" for a b :: "'a::len word"
  by (auto simp: min_def word_le_nat_alt)

lemma unat_ucast_min32:
  "unat (ucast (min x 0xFFFFFFFF) :: u32) = min (unat x) (2 ^ 32 - 1)" for x :: u64
proof -
  have "unat (min x 0xFFFFFFFF) < 2 ^ 32" by (simp add: unat_min_word)
  then have "unat (ucast (min x 0xFFFFFFFF) :: u32) = unat (min x 0xFFFFFFFF)"
    by (simp add: unsigned_ucast_eq take_bit_nat_eq_self)
  then show ?thesis by (simp add: unat_min_word)
qed

lemma unat_capacity_fp: "unat (capacity_fp c) = min (unat (c * 1000)) (2 ^ 32 - 1)"
  by (simp add: capacity_fp_def unat_ucast_min32)

lemma unat_refilled:
  "unat (refilled now c r b) =
     min (min (tb_tokens b + min (min ((unat now - tb_ts b) * unat (r * 1000)) (2 ^ 64 - 1)) (2 ^ 32 - 1)) (2 ^ 32 - 1))
       (unat (capacity_fp c))"
proof -
  obtain ts tk where b: "unpack b = (ts, tk)" by (cases "unpack b")
  have "unat (ucast (saturating_sub now ts) :: u64) = unat now - unat ts"
    using unsigned_less [of "saturating_sub now ts", where 'a = nat]
    by (simp add: unsigned_ucast_eq take_bit_nat_eq_self unat_saturating_sub)
  then show ?thesis
    by (simp add: refilled_def b tb_ts_def tb_tokens_def unat_min_word unat_saturating_add
        unat_ucast_min32 unat_saturating_mul)
qed

lemma refilled_le_cap: "unat (refilled now c r b) \<le> unat (capacity_fp c)"
  by (simp add: unat_refilled)

lemma refilled_le:
  "unat (refilled now c r b) \<le> tb_tokens b + (unat now - tb_ts b) * unat (r * 1000)"
  unfolding unat_refilled by linarith

lemma allow_True:
  assumes "TokenBucket_allow now c r b = (True, b')"
  shows "tb_ts b' = unat now" and "tb_tokens b' + 1000 = unat (refilled now c r b)"
  using assms
  by (auto simp: TokenBucket_allow_def Let_def not_less word_le_nat_alt unat_sub_if' split: if_splits)

lemma allow_False:
  assumes "TokenBucket_allow now c r b = (False, b')"
  shows "b' = b" and "unat (refilled now c r b) < 1000"
  using assms by (auto simp: TokenBucket_allow_def Let_def word_less_nat_alt split: if_splits)

lemma allow_iff: "fst (TokenBucket_allow now c r b) \<longleftrightarrow> 1000 \<le> unat (refilled now c r b)"
  by (auto simp: TokenBucket_allow_def Let_def word_less_nat_alt)

section \<open>What a sequence of calls admits\<close>

text \<open>The number of admitted calls and the final bucket for a list of clock readings.\<close>

fun allow_run :: "u64 \<Rightarrow> u64 \<Rightarrow> u32 list \<Rightarrow> u64 \<Rightarrow> nat \<times> u64" where
  "allow_run c r [] b = (0, b)"
| "allow_run c r (now # nows) b =
     (let (ok, b1) = TokenBucket_allow now c r b; (k, b2) = allow_run c r nows b1
      in (if ok then Suc k else k, b2))"

lemma allow_run_potential:
  "sorted (tb_ts b # map unat nows) \<Longrightarrow>
     fst (allow_run c r nows b) * 1000
       \<le> tb_tokens b + (last (tb_ts b # map unat nows) - tb_ts b) * unat (r * 1000)"
proof (induction nows arbitrary: b)
  case (Cons now nows)
  let ?R = "unat (r * 1000)" and ?stop = "last (unat now # map unat nows)"
  obtain ok b1 where step: "TokenBucket_allow now c r b = (ok, b1)" by fastforce
  have ord: "tb_ts b \<le> unat now" "sorted (unat now # map unat nows)"
    "sorted (tb_ts b # map unat nows)" "unat now \<le> ?stop"
    using Cons.prems by (auto simp: last_map)
  show ?case
  proof (cases ok)
    case True
    have "TokenBucket_allow now c r b = (True, b1)" using step True by simp
    note b1 = allow_True [OF this]
    have "fst (allow_run c r nows b1) * 1000 \<le> tb_tokens b1 + (?stop - unat now) * ?R"
      using Cons.IH [of b1] ord(2) b1(1) by simp
    moreover have "tb_tokens b1 + 1000 \<le> tb_tokens b + (unat now - tb_ts b) * ?R"
      using b1(2) refilled_le [of now c r b] by simp
    moreover have "(unat now - tb_ts b) * ?R + (?stop - unat now) * ?R = (?stop - tb_ts b) * ?R"
      using ord(1,4) by (simp flip: add_mult_distrib)
    ultimately show ?thesis using step True by (auto simp: case_prod_unfold Let_def)
  next
    case False
    have "TokenBucket_allow now c r b = (False, b1)" using step False by simp
    note b1 = allow_False [OF this]
    have "fst (allow_run c r nows b) * 1000 \<le> tb_tokens b + (last (tb_ts b # map unat nows) - tb_ts b) * ?R"
      by (rule Cons.IH) (rule ord(3))
    moreover have "last (tb_ts b # map unat nows) \<le> ?stop" using ord(1) by simp
    then have "(last (tb_ts b # map unat nows) - tb_ts b) * ?R \<le> (?stop - tb_ts b) * ?R"
      by (intro mult_right_mono diff_le_mono) simp_all
    ultimately have "fst (allow_run c r nows b) * 1000 \<le> tb_tokens b + (?stop - tb_ts b) * ?R"
      by linarith
    then show ?thesis using step False b1(1) by (auto simp: case_prod_unfold Let_def)
  qed
qed simp

text \<open>Whatever the bucket held, calls at clock readings that do not decrease are admitted at
  most capacity plus rate times elapsed time.\<close>

lemma allow_run_bound:
  "sorted (map unat (now # nows)) \<Longrightarrow>
     fst (allow_run c r (now # nows) b) * 1000
       \<le> unat (capacity_fp c) + (unat (last (now # nows)) - unat now) * unat (r * 1000)"
proof (induction nows arbitrary: now)
  case Nil
  show ?case
    using allow_True [of now c r b] refilled_le_cap [of now c r b]
    by (cases "TokenBucket_allow now c r b") (auto split: if_splits)
next
  case (Cons n nows)
  let ?R = "unat (r * 1000)" and ?stop = "unat (last (n # nows))"
  obtain ok b1 where step: "TokenBucket_allow now c r b = (ok, b1)" by fastforce
  show ?case
  proof (cases ok)
    case True
    have "TokenBucket_allow now c r b = (True, b1)" using step True by simp
    note b1 = allow_True [OF this]
    have "sorted (tb_ts b1 # map unat (n # nows))" using Cons.prems b1(1) by simp
    moreover have "last (tb_ts b1 # map unat (n # nows)) = ?stop" by (simp add: last_map)
    ultimately have "fst (allow_run c r (n # nows) b1) * 1000 \<le> tb_tokens b1 + (?stop - unat now) * ?R"
      using allow_run_potential [of b1 "n # nows" c r] unfolding b1(1) by metis
    moreover have "tb_tokens b1 + 1000 \<le> unat (capacity_fp c)"
      using b1(2) refilled_le_cap [of now c r b] by simp
    ultimately show ?thesis
      using step True by (auto simp: case_prod_unfold Let_def simp del: allow_run.simps(2)
          simp: allow_run.simps(2) [of c r now])
  next
    case False
    have "TokenBucket_allow now c r b = (False, b1)" using step False by simp
    note b1 = allow_False [OF this]
    have "fst (allow_run c r (n # nows) b) * 1000 \<le> unat (capacity_fp c) + (?stop - unat n) * ?R"
      by (rule Cons.IH) (use Cons.prems in simp)
    moreover have "(?stop - unat n) * ?R \<le> (?stop - unat now) * ?R"
      using Cons.prems by (intro mult_right_mono diff_le_mono2) simp_all
    ultimately have "fst (allow_run c r (n # nows) b) * 1000 \<le> unat (capacity_fp c) + (?stop - unat now) * ?R"
      by linarith
    then show ?thesis
      using step False b1(1) by (auto simp: case_prod_unfold Let_def simp del: allow_run.simps(2)
          simp: allow_run.simps(2) [of c r now])
  qed
qed

section \<open>The compare-exchange loop under interleaving\<close>

text \<open>Where a thread is in \<open>allow\<close>: before the load, after it, or returned. The clock is
  read once, before the loop.\<close>

datatype AllowPc = Start | Loaded u64 | Returned bool

inductive allow_step ::
  "u64 \<Rightarrow> u64 \<Rightarrow> (nat \<Rightarrow> u32) \<Rightarrow> u64 \<times> (nat \<Rightarrow> AllowPc) \<Rightarrow> u64 \<times> (nat \<Rightarrow> AllowPc) \<Rightarrow> bool"
  for c r clk where
  load: "pcs i = Start \<Longrightarrow> allow_step c r clk (b, pcs) (b, pcs(i := Loaded b))"
| reject: "pcs i = Loaded old \<Longrightarrow> refilled (clk i) c r old < 1000 \<Longrightarrow>
    allow_step c r clk (b, pcs) (b, pcs(i := Returned False))"
| exchange: "pcs i = Loaded old \<Longrightarrow> \<not> refilled (clk i) c r old < 1000 \<Longrightarrow> b = old \<Longrightarrow>
    allow_step c r clk (b, pcs) (pack (clk i) (refilled (clk i) c r old - 1000), pcs(i := Returned True))"
| retry: "pcs i = Loaded old \<Longrightarrow> \<not> refilled (clk i) c r old < 1000 \<Longrightarrow> b \<noteq> old \<Longrightarrow>
    allow_step c r clk (b, pcs) (b, pcs(i := Start))"

definition admitted :: "(nat \<Rightarrow> AllowPc) \<Rightarrow> nat set" where
  "admitted pcs = {i. pcs i = Returned True}"

lemma admitted_same:
  "pcs i \<noteq> Returned True \<Longrightarrow> pc \<noteq> Returned True \<Longrightarrow> admitted (pcs(i := pc)) = admitted pcs"
  by (auto simp: admitted_def)

text \<open>Every change of the word is one uninterrupted call on its current value.\<close>

lemma allow_step_atomic:
  assumes "allow_step c r clk (b, pcs) (b', pcs')"
  shows "(b' = b \<and> admitted pcs' = admitted pcs)
    \<or> (\<exists>i. pcs i \<noteq> Returned True \<and> pcs' = pcs(i := Returned True)
          \<and> TokenBucket_allow (clk i) c r b = (True, b'))"
  using assms
proof (cases rule: allow_step.cases)
  case (exchange i old)
  then show ?thesis by (intro disjI2 exI [of _ i]) (simp add: TokenBucket_allow_def Let_def)
qed (simp_all add: admitted_same)

lemma admitted_upd:
  assumes "finite (admitted pcs)" and "pcs i \<noteq> Returned True"
  shows "card (admitted (pcs(i := Returned True))) = Suc (card (admitted pcs))"
proof -
  have "admitted (pcs(i := Returned True)) = insert i (admitted pcs)" by (auto simp: admitted_def)
  with assms show ?thesis by (simp add: admitted_def)
qed

text \<open>Threads that read the same clock value: each admission takes one token from the bucket,
  in every interleaving, so no token is spent twice.\<close>

definition bucket_balance :: "u32 \<Rightarrow> u64 \<Rightarrow> nat \<Rightarrow> u64 \<times> (nat \<Rightarrow> AllowPc) \<Rightarrow> bool" where
  "bucket_balance now c supply0 s \<longleftrightarrow>
     (case s of (b, pcs) \<Rightarrow> tb_ts b = unat now \<and> tb_tokens b \<le> unat (capacity_fp c)
       \<and> finite (admitted pcs) \<and> tb_tokens b + 1000 * card (admitted pcs) = supply0)"

lemma bucket_balance_step:
  assumes "allow_step c r (\<lambda>_. now) s s'" and "bucket_balance now c supply0 s"
  shows "bucket_balance now c supply0 s'"
proof -
  obtain b pcs b' pcs' where s: "s = (b, pcs)" "s' = (b', pcs')" by fastforce
  have bal: "tb_ts b = unat now" "tb_tokens b \<le> unat (capacity_fp c)" "finite (admitted pcs)"
      "tb_tokens b + 1000 * card (admitted pcs) = supply0"
    using assms(2) s by (simp_all add: bucket_balance_def)
  from allow_step_atomic [OF assms(1) [unfolded s]] show ?thesis
  proof (elim disjE conjE exE)
    assume "b' = b" and "admitted pcs' = admitted pcs"
    with bal s show ?thesis by (simp add: bucket_balance_def)
  next
    fix i assume i: "pcs i \<noteq> Returned True" "pcs' = pcs(i := Returned True)"
      and call: "TokenBucket_allow now c r b = (True, b')"
    have fin: "finite (admitted pcs')"
      by (rule finite_subset [of _ "insert i (admitted pcs)"]) (use bal(3) i(2) in \<open>auto simp: admitted_def\<close>)
    have "unat (refilled now c r b) \<le> tb_tokens b"
      using refilled_le [of now c r b] bal(1) by simp
    moreover have "tb_tokens b \<le> unat (refilled now c r b)"
      using bal(1,2) by (simp add: unat_refilled) (use unsigned_less [of "snd (unpack b)", where 'a = nat] in \<open>simp add: tb_tokens_def\<close>)
    ultimately have "tb_tokens b' + 1000 = tb_tokens b" using allow_True(2) [OF call] by simp
    then show ?thesis
      using bal i admitted_upd [OF bal(3) i(1)] allow_True(1) [OF call] fin s
      by (simp add: bucket_balance_def)
  qed
qed

lemma bucket_balance_reach:
  "(allow_step c r (\<lambda>_. now))\<^sup>*\<^sup>* s s' \<Longrightarrow> bucket_balance now c supply0 s \<Longrightarrow> bucket_balance now c supply0 s'"
  by (induction rule: rtranclp_induct) (auto intro: bucket_balance_step)

section \<open>The loop ends\<close>

text \<open>A compare-exchange fails only after another thread's succeeded, and a thread succeeds once:
  the threads that are still in the loop, and how stale what they loaded is, bound the steps
  left.\<close>

definition running :: "(nat \<Rightarrow> AllowPc) \<Rightarrow> nat set" where
  "running pcs = {i. \<forall>r. pcs i \<noteq> Returned r}"

fun pc_weight :: "u64 \<Rightarrow> AllowPc \<Rightarrow> nat" where
  "pc_weight b Start = 2"
| "pc_weight b (Loaded old) = (if old = b then 1 else 3)"
| "pc_weight b (Returned r) = 0"

definition steps_left :: "u64 \<times> (nat \<Rightarrow> AllowPc) \<Rightarrow> nat" where
  "steps_left s = (case s of (b, pcs) \<Rightarrow> 3 * card (running pcs) * card (running pcs) + (\<Sum>i\<in>running pcs. pc_weight b (pcs i)))"

lemma pc_weight_le: "pc_weight b pc \<le> 3"
  by (cases pc) simp_all

lemma running_stays:
  assumes "i \<in> running pcs" and "\<forall>r. pc \<noteq> Returned r"
  shows "running (pcs(i := pc)) = running pcs"
  using assms by (auto simp: running_def)

lemma running_leaves: "running (pcs(i := Returned r)) = running pcs - {i}"
  by (auto simp: running_def)

lemma steps_left_stay:
  assumes "finite (running pcs)" and "i \<in> running pcs" and "\<forall>r. pc \<noteq> Returned r" and "pc_weight b pc < pc_weight b (pcs i)"
  shows "steps_left (b, pcs(i := pc)) < steps_left (b, pcs)"
proof -
  have "(\<Sum>j\<in>running pcs - {i}. pc_weight b ((pcs(i := pc)) j)) = (\<Sum>j\<in>running pcs - {i}. pc_weight b (pcs j))"
    by (rule sum.cong) auto
  then show ?thesis
    using assms by (simp add: steps_left_def running_stays sum.remove [OF assms(1,2)])
qed

lemma steps_left_return:
  assumes "finite (running pcs)" and "i \<in> running pcs"
  shows "steps_left (b', pcs(i := Returned r)) < steps_left (b, pcs)"
proof -
  obtain k where k: "card (running pcs) = Suc k" using assms by (metis card_Suc_Diff1)
  have c: "card (running pcs - {i}) = k" using k assms by simp
  have "(\<Sum>j\<in>running pcs - {i}. pc_weight b' ((pcs(i := Returned r)) j)) \<le> (\<Sum>j\<in>running pcs - {i}. 3)"
    by (rule sum_mono) (rule pc_weight_le)
  then have "(\<Sum>j\<in>running pcs - {i}. pc_weight b' ((pcs(i := Returned r)) j)) \<le> 3 * k" using c by simp
  then show ?thesis by (simp add: steps_left_def running_leaves k c algebra_simps)
qed

lemma allow_step_decreases:
  assumes "allow_step c r clk s s'" and "finite (running (snd s))"
  shows "steps_left s' < steps_left s \<and> finite (running (snd s'))"
  using assms
proof (cases rule: allow_step.cases)
  case (load pcs i b)
  then have "i \<in> running pcs" by (simp add: running_def)
  then show ?thesis using load assms(2) steps_left_stay [of pcs i "Loaded b" b] by (simp add: running_stays)
next
  case (reject pcs i old b)
  then have "i \<in> running pcs" by (simp add: running_def)
  then show ?thesis using reject assms(2) steps_left_return [of pcs i b False b] by (simp add: running_leaves)
next
  case (exchange pcs i old b)
  then have "i \<in> running pcs" by (simp add: running_def)
  then show ?thesis using exchange assms(2) steps_left_return [of pcs i _ True b] by (simp add: running_leaves)
next
  case (retry pcs i old b)
  then have "i \<in> running pcs" by (simp add: running_def)
  then show ?thesis using retry assms(2) steps_left_stay [of pcs i Start b] by (simp add: running_stays)
qed

lemma allow_steps_bound:
  "(allow_step c r clk ^^ n) s s' \<Longrightarrow> finite (running (snd s)) \<Longrightarrow> n + steps_left s' \<le> steps_left s"
proof (induction n arbitrary: s')
  case (Suc n)
  then obtain u where u: "(allow_step c r clk ^^ n) s u" "allow_step c r clk u s'" by auto
  have "finite (running (snd u))"
    using u(1) Suc.prems(2) by (induction n arbitrary: u) (auto dest: allow_step_decreases)
  then show ?case using Suc.IH [OF u(1) Suc.prems(2)] allow_step_decreases [OF u(2)] by linarith
qed simp

text \<open>A thread that has not returned can always take a step.\<close>

lemma allow_step_progress: "i \<in> running pcs \<Longrightarrow> \<exists>s. allow_step c r clk (b, pcs) s"
proof (cases "pcs i")
  case (Loaded old)
  then show ?thesis
    using allow_step.reject [of pcs i old clk c r b] allow_step.exchange [of pcs i old clk c r b]
      allow_step.retry [of pcs i old clk c r b] by blast
qed (auto simp: running_def intro: allow_step.load)

lemma steps_left_initial: "finite (running pcs) \<Longrightarrow> steps_left (b, pcs) \<le> 3 * card (running pcs) * (card (running pcs) + 1)"
proof -
  have "(\<Sum>i\<in>running pcs. pc_weight b (pcs i)) \<le> (\<Sum>i\<in>running pcs. 3)" by (rule sum_mono) (rule pc_weight_le)
  then show ?thesis by (simp add: steps_left_def)
qed

end
