(* ===== verification/IpNet.thy ===== *)
theory IpNet
  imports Prelude
begin

text \<open>
  Addresses and networks. \<open>IpAddr\<close> is the address type of the Rust standard library.
  \<open>IpNetwork\<close> comes from the crate \<open>ipnetwork\<close>, whose source is not part of the
  repository: its operations are a parameter of every definition that uses them, a
  record of type \<open>'n ipnet_ops\<close>, and what the program relies on of them is the locale
  \<open>ipnetwork\<close>, one assumption per documented behaviour. The last section interprets
  the locale for networks stored as an address and a prefix length.
\<close>

section \<open>Addresses\<close>

datatype IpAddr = V4 u32 | V6 u128

fun octets :: "IpAddr \<Rightarrow> u8 list" where
  "octets (V4 a) = be_bytes 4 a"
| "octets (V6 a) = be_bytes 16 a"

fun is_ipv4 :: "IpAddr \<Rightarrow> bool" where
  "is_ipv4 (V4 _) = True"
| "is_ipv4 (V6 _) = False"

fun ip_width :: "IpAddr \<Rightarrow> nat" where
  "ip_width (V4 _) = 32"
| "ip_width (V6 _) = 128"

text \<open>The bits of an address, most significant first.\<close>

definition ip_bits :: "IpAddr \<Rightarrow> bool list" where
  "ip_bits ip = bits_of_bytes (octets ip) (ip_width ip)"

lemma length_octets: "8 * length (octets ip) = ip_width ip"
  by (cases ip) simp_all

lemma length_ip_bits [simp]: "length (ip_bits ip) = ip_width ip"
  by (simp add: ip_bits_def)

lemma ip_width_family: "is_ipv4 a = is_ipv4 b \<Longrightarrow> ip_width a = ip_width b"
  by (cases a; cases b) simp_all

lemma ip_width_le [simp]: "ip_width ip \<le> 128"
  by (cases ip) simp_all

lemma bytes_bit_octets_beyond: "ip_width ip \<le> p \<Longrightarrow> \<not> bytes_bit (octets ip) p"
  by (cases ip) (auto simp: bytes_bit_def)

lemma ip_bits_nth: "p < ip_width ip \<Longrightarrow> ip_bits ip ! p = bytes_bit (octets ip) p"
  by (simp add: ip_bits_def)

lemma ip_bits_V4_nth: "p < 32 \<Longrightarrow> ip_bits (V4 a) ! p = bit a (31 - p)"
  by (simp add: ip_bits_def bytes_bit_be_bytes)

lemma ip_bits_V6_nth: "p < 128 \<Longrightarrow> ip_bits (V6 a) ! p = bit a (127 - p)"
  by (simp add: ip_bits_def bytes_bit_be_bytes)

lemma ip_bits_inj:
  assumes "is_ipv4 a = is_ipv4 b" and "ip_bits a = ip_bits b"
  shows "a = b"
proof -
  have "octets a = octets b"
  proof (rule bytes_eqI)
    show "length (octets a) = length (octets b)"
      using assms(1) by (cases a; cases b) simp_all
    fix p
    assume "p < 8 * length (octets a)"
    then show "bytes_bit (octets a) p = bytes_bit (octets b) p"
      using assms ip_bits_nth [of p a] ip_bits_nth [of p b]
        ip_width_family [OF assms(1)]
      by (simp add: length_octets)
  qed
  moreover have "be_bytes 4 x = be_bytes 4 y \<Longrightarrow> x = y" for x y :: u32
    by (rule be_bytes_inj) simp_all
  moreover have "be_bytes 16 x = be_bytes 16 y \<Longrightarrow> x = y" for x y :: u128
    by (rule be_bytes_inj) simp_all
  ultimately show ?thesis using assms(1) by (cases a; cases b) simp_all
qed

section \<open>Networks\<close>

record 'n ipnet_ops =
  net_ip :: "'n \<Rightarrow> IpAddr"
  net_network :: "'n \<Rightarrow> IpAddr"
  net_prefix :: "'n \<Rightarrow> nat"
  net_contains :: "'n \<Rightarrow> IpAddr \<Rightarrow> bool"
  net_new :: "IpAddr \<Rightarrow> nat \<Rightarrow> 'n option"

text \<open>
  The documented behaviour of the crate: \<open>prefix()\<close> is at most the width of the
  address family; \<open>network()\<close> is the address with the host bits cleared;
  \<open>contains()\<close> compares the leading \<open>prefix()\<close> bits within one family; \<open>new()\<close>
  accepts exactly the prefix lengths that fit and keeps address and length; two
  networks with the same address and prefix length are equal.
\<close>

locale ipnetwork =
  fixes N :: "'n ipnet_ops"
  assumes net_prefix_le: "net_prefix N n \<le> ip_width (net_ip N n)"
    and net_network_family: "is_ipv4 (net_network N n) = is_ipv4 (net_ip N n)"
    and net_network_bits: "ip_bits (net_network N n) =
      take (net_prefix N n) (ip_bits (net_ip N n))
        @ replicate (ip_width (net_ip N n) - net_prefix N n) False"
    and net_contains_iff: "net_contains N n ip \<longleftrightarrow>
      is_ipv4 ip = is_ipv4 (net_ip N n)
      \<and> take (net_prefix N n) (ip_bits ip) = take (net_prefix N n) (ip_bits (net_ip N n))"
    and net_new_Some: "net_new N ip p = Some n \<Longrightarrow> net_ip N n = ip \<and> net_prefix N n = p"
    and net_new_None_iff: "net_new N ip p = None \<longleftrightarrow> ip_width ip < p"
    and net_ext: "net_ip N n = net_ip N n' \<Longrightarrow> net_prefix N n = net_prefix N n' \<Longrightarrow> n = n'"

text \<open>The bit string under which a network is filed: its leading \<open>prefix()\<close> bits.\<close>

definition net_bits :: "'n ipnet_ops \<Rightarrow> 'n \<Rightarrow> bool list" where
  "net_bits N n = take (net_prefix N n) (ip_bits (net_network N n))"

definition net_v4 :: "'n ipnet_ops \<Rightarrow> 'n \<Rightarrow> bool" where
  "net_v4 N n = is_ipv4 (net_network N n)"

context ipnetwork
begin

lemma net_prefix_le_network: "net_prefix N n \<le> ip_width (net_network N n)"
  using net_prefix_le [of n] ip_width_family [OF net_network_family [of n]] by simp

lemma length_net_bits [simp]: "length (net_bits N n) = net_prefix N n"
  using net_prefix_le_network [of n] by (simp add: net_bits_def)

lemma net_bits_ip: "net_bits N n = take (net_prefix N n) (ip_bits (net_ip N n))"
  using net_prefix_le [of n] by (simp add: net_bits_def net_network_bits)

lemma net_contains_prefix:
  "net_contains N n ip \<longleftrightarrow> is_ipv4 ip = net_v4 N n \<and> prefix (net_bits N n) (ip_bits ip)"
proof -
  have "take (net_prefix N n) (ip_bits ip) = net_bits N n \<longleftrightarrow> prefix (net_bits N n) (ip_bits ip)"
    by (simp add: take_eq_prefix)
  then show ?thesis
    by (simp add: net_contains_iff net_bits_ip net_v4_def net_network_family)
qed

lemma net_contains_network: "net_contains N n (net_network N n)"
  by (auto simp: net_contains_prefix net_v4_def net_bits_def intro: take_is_prefix)

end

section \<open>Networks stored as address and prefix length\<close>

text \<open>\<open>cidr\<close> values keep an address and a prefix length within the width of its family.\<close>

typedef cidr = "{(ip :: IpAddr, p :: nat). p \<le> ip_width ip}"
  by (rule exI [of _ "(V4 0, 0)"]) simp

setup_lifting type_definition_cidr

lift_definition cidr_ip :: "cidr \<Rightarrow> IpAddr" is fst .

lift_definition cidr_prefix :: "cidr \<Rightarrow> nat" is snd .

fun clear_host :: "IpAddr \<Rightarrow> nat \<Rightarrow> IpAddr" where
  "clear_host (V4 a) p = V4 (push_bit (32 - p) (drop_bit (32 - p) a))"
| "clear_host (V6 a) p = V6 (push_bit (128 - p) (drop_bit (128 - p) a))"

definition cidr_network :: "cidr \<Rightarrow> IpAddr" where
  "cidr_network c = clear_host (cidr_ip c) (cidr_prefix c)"

definition cidr_contains :: "cidr \<Rightarrow> IpAddr \<Rightarrow> bool" where
  "cidr_contains c ip \<longleftrightarrow> is_ipv4 ip = is_ipv4 (cidr_ip c)
     \<and> clear_host ip (cidr_prefix c) = cidr_network c"

lift_definition cidr_new :: "IpAddr \<Rightarrow> nat \<Rightarrow> cidr option" is
  "\<lambda>ip p. if p \<le> ip_width ip then Some (ip, p) else None"
  by auto

definition cidr_ops :: "cidr ipnet_ops" where
  "cidr_ops = \<lparr>net_ip = cidr_ip, net_network = cidr_network, net_prefix = cidr_prefix,
     net_contains = cidr_contains, net_new = cidr_new\<rparr>"

text \<open>A network literal.\<close>

definition cidr_of :: "IpAddr \<Rightarrow> nat \<Rightarrow> cidr" where
  "cidr_of ip p = the (cidr_new ip (min p (ip_width ip)))"

lemma cidr_new_fits:
  "p \<le> ip_width ip \<Longrightarrow> \<exists>c. cidr_new ip p = Some c \<and> cidr_ip c = ip \<and> cidr_prefix c = p"
  by transfer auto

lemma cidr_of_simps [simp]:
  assumes "p \<le> ip_width ip"
  shows "cidr_ip (cidr_of ip p) = ip" and "cidr_prefix (cidr_of ip p) = p"
  using cidr_new_fits [OF assms] assms by (auto simp: cidr_of_def min_def)

lemma is_ipv4_clear_host [simp]: "is_ipv4 (clear_host ip p) = is_ipv4 ip"
  by (cases ip) simp_all

lemma ip_bits_clear_host:
  assumes "p \<le> ip_width ip"
  shows "ip_bits (clear_host ip p) = take p (ip_bits ip) @ replicate (ip_width ip - p) False"
proof (cases ip)
  case (V4 a)
  show ?thesis
  proof (rule nth_equalityI)
    fix i
    assume "i < length (ip_bits (clear_host ip p))"
    then have "i < 32" using V4 by simp
    then show "ip_bits (clear_host ip p) ! i = (take p (ip_bits ip) @ replicate (ip_width ip - p) False) ! i"
      using assms V4
      by (auto simp: ip_bits_V4_nth nth_append bit_push_bit_iff bit_drop_bit_eq)
  qed (use assms V4 in simp)
next
  case (V6 a)
  show ?thesis
  proof (rule nth_equalityI)
    fix i
    assume "i < length (ip_bits (clear_host ip p))"
    then have "i < 128" using V6 by simp
    then show "ip_bits (clear_host ip p) ! i = (take p (ip_bits ip) @ replicate (ip_width ip - p) False) ! i"
      using assms V6
      by (auto simp: ip_bits_V6_nth nth_append bit_push_bit_iff bit_drop_bit_eq)
  qed (use assms V6 in simp)
qed

lemma cidr_prefix_le: "cidr_prefix c \<le> ip_width (cidr_ip c)"
  by transfer auto

lemma clear_host_eq_iff:
  assumes "is_ipv4 a = is_ipv4 b" and "p \<le> ip_width a"
  shows "clear_host a p = clear_host b p \<longleftrightarrow> take p (ip_bits a) = take p (ip_bits b)"
proof -
  have w: "ip_width a = ip_width b" using assms(1) by (rule ip_width_family)
  have "clear_host a p = clear_host b p \<longleftrightarrow> ip_bits (clear_host a p) = ip_bits (clear_host b p)"
    using ip_bits_inj [of "clear_host a p" "clear_host b p"] assms(1) by auto
  then show ?thesis using assms(2) w by (simp add: ip_bits_clear_host)
qed

lemma cidr_contains_prefix:
  "cidr_contains c ip \<longleftrightarrow> is_ipv4 ip = is_ipv4 (cidr_ip c)
     \<and> take (cidr_prefix c) (ip_bits ip) = take (cidr_prefix c) (ip_bits (cidr_ip c))"
proof (cases "is_ipv4 ip = is_ipv4 (cidr_ip c)")
  case True
  then have "cidr_prefix c \<le> ip_width ip"
    using cidr_prefix_le [of c] ip_width_family [OF True] by simp
  from clear_host_eq_iff [OF True this] True show ?thesis
    by (simp add: cidr_contains_def cidr_network_def)
qed (simp add: cidr_contains_def)

interpretation cidr: ipnetwork cidr_ops
proof unfold_locales
  fix n n' :: cidr and ip p
  show "net_prefix cidr_ops n \<le> ip_width (net_ip cidr_ops n)"
    by (simp add: cidr_ops_def cidr_prefix_le)
  show "is_ipv4 (net_network cidr_ops n) = is_ipv4 (net_ip cidr_ops n)"
    by (simp add: cidr_ops_def cidr_network_def)
  show "ip_bits (net_network cidr_ops n) =
      take (net_prefix cidr_ops n) (ip_bits (net_ip cidr_ops n))
        @ replicate (ip_width (net_ip cidr_ops n) - net_prefix cidr_ops n) False"
    by (simp add: cidr_ops_def cidr_network_def ip_bits_clear_host cidr_prefix_le)
  show "net_contains cidr_ops n ip \<longleftrightarrow>
      is_ipv4 ip = is_ipv4 (net_ip cidr_ops n)
      \<and> take (net_prefix cidr_ops n) (ip_bits ip) = take (net_prefix cidr_ops n) (ip_bits (net_ip cidr_ops n))"
    by (simp add: cidr_ops_def cidr_contains_prefix)
  show "net_new cidr_ops ip p = Some n \<Longrightarrow> net_ip cidr_ops n = ip \<and> net_prefix cidr_ops n = p"
    unfolding cidr_ops_def ipnet_ops.select_convs by transfer (auto split: if_splits)
  show "net_new cidr_ops ip p = None \<longleftrightarrow> ip_width ip < p"
    unfolding cidr_ops_def ipnet_ops.select_convs by transfer auto
  show "net_ip cidr_ops n = net_ip cidr_ops n' \<Longrightarrow> net_prefix cidr_ops n = net_prefix cidr_ops n' \<Longrightarrow> n = n'"
    unfolding cidr_ops_def ipnet_ops.select_convs by transfer auto
qed

lemma cidr_literal [simp]:
  assumes "p \<le> ip_width ip"
  shows "net_v4 cidr_ops (cidr_of ip p) = is_ipv4 ip" and "net_prefix cidr_ops (cidr_of ip p) = p"
    and "net_ip cidr_ops (cidr_of ip p) = ip" and "net_network cidr_ops (cidr_of ip p) = clear_host ip p"
  using assms by (simp_all add: net_v4_def cidr_ops_def cidr_network_def)

lemma cidr_literal_contains:
  "p \<le> ip_width ip \<Longrightarrow> net_contains cidr_ops (cidr_of ip p) a \<longleftrightarrow>
     is_ipv4 a = is_ipv4 ip \<and> clear_host a p = clear_host ip p"
  by (simp add: cidr_ops_def cidr_contains_def cidr_network_def)

end
