(* ===== verification/Config.thy ===== *)
theory Config
  imports IpNet
begin

text \<open>
  The configuration crate (\<open>config/src/lib.rs\<close>): the typed settings of the engine, the
  middleware, the blocklist, the rate limiter, auto-banning and the XDP filter, with their
  defaults, the builder of \<open>RateLimitConfig\<close> and the validation. Reading a file and parsing
  YAML are parameters of \<open>from_file\<close>. Network-valued settings have the type \<open>'n\<close> of the
  crate \<open>ipnetwork\<close>.
\<close>

section \<open>Errors and modes\<close>

datatype ConfigError = Io string | Yaml string | Validation string

datatype RateLimitAlgorithm = TokenBucketAlgorithm

datatype BucketKeyMode = Ip | Subnet u8 u8 | Both u8 u8

datatype IpSource = XForwardedFor | XRealIp | RemoteAddr

datatype 'n BlocklistSource = Inline "'n list" | File string

section \<open>Settings\<close>

record XdpRedisConfig =
  xr_url :: string
  xr_channel :: string
  xr_snapshot_key :: string

definition XdpRedisConfig_default :: XdpRedisConfig where
  "XdpRedisConfig_default = \<lparr>xr_url = ''redis://127.0.0.1:6379'', xr_channel = ''security:blocklist'',
     xr_snapshot_key = ''security:blocklist:set''\<rparr>"

record XdpConfig =
  xc_enabled :: bool
  xc_interface :: string
  xc_mode :: string
  xc_pin_dir :: string
  xc_fail_closed :: bool
  xc_min_v4_prefix :: u8
  xc_min_v6_prefix :: u8
  xc_never_block :: "string list"
  xc_redis :: XdpRedisConfig

definition XdpConfig_default :: XdpConfig where
  "XdpConfig_default = \<lparr>xc_enabled = False, xc_interface = ''eth0'', xc_mode = ''skb'',
     xc_pin_dir = ''/sys/fs/bpf/radixip/v1'', xc_fail_closed = False, xc_min_v4_prefix = 8,
     xc_min_v6_prefix = 16, xc_never_block = [], xc_redis = XdpRedisConfig_default\<rparr>"

record CacheSettings =
  cs_enabled :: bool
  cs_max_entries :: usize
  cs_ttl_seconds :: "u64 option"

definition CacheSettings_default :: CacheSettings where
  "CacheSettings_default = \<lparr>cs_enabled = True, cs_max_entries = 10000, cs_ttl_seconds = Some 3600\<rparr>"

record EngineConfig =
  ec_variant :: string
  ec_node_variant :: string
  ec_num_shards :: "usize option"
  ec_cache :: CacheSettings

definition EngineConfig_default :: EngineConfig where
  "EngineConfig_default = \<lparr>ec_variant = ''concurrent'', ec_node_variant = ''atomic'',
     ec_num_shards = Some 16, ec_cache = CacheSettings_default\<rparr>"

record ResponseConfig =
  rs_blocked :: u16
  rs_rate_limited :: u16

definition ResponseConfig_default :: ResponseConfig where
  "ResponseConfig_default = \<lparr>rs_blocked = 403, rs_rate_limited = 429\<rparr>"

record 'n MiddlewareConfig =
  mw_ip_source :: IpSource
  mw_trusted_proxies :: "'n list"
  mw_responses :: ResponseConfig

definition MiddlewareConfig_default :: "'n MiddlewareConfig" where
  "MiddlewareConfig_default = \<lparr>mw_ip_source = XForwardedFor, mw_trusted_proxies = [],
     mw_responses = ResponseConfig_default\<rparr>"

record 'n BlocklistConfig =
  bl_enabled :: bool
  bl_sources :: "'n BlocklistSource list"

definition BlocklistConfig_default :: "'n BlocklistConfig" where
  "BlocklistConfig_default = \<lparr>bl_enabled = False, bl_sources = []\<rparr>"

record RateLimitConfig =
  rl_enabled :: bool
  rl_algorithm :: RateLimitAlgorithm
  rl_bucket_mode :: BucketKeyMode
  rl_capacity :: u64
  rl_refill_rate :: u64
  rl_max_buckets :: usize
  rl_ttl_seconds :: u64

definition RateLimitConfig_default :: RateLimitConfig where
  "RateLimitConfig_default = \<lparr>rl_enabled = False, rl_algorithm = TokenBucketAlgorithm,
     rl_bucket_mode = Ip, rl_capacity = 100, rl_refill_rate = 10, rl_max_buckets = 1000000,
     rl_ttl_seconds = 60\<rparr>"

record MetricsConfig =
  mc_enabled :: bool
  mc_prometheus_path :: string

definition MetricsConfig_default :: MetricsConfig where
  "MetricsConfig_default = \<lparr>mc_enabled = False, mc_prometheus_path = ''/metrics''\<rparr>"

record AutoBanConfig =
  ab_enabled :: bool
  ab_threshold_violations :: u64
  ab_window_seconds :: u64
  ab_ban_duration_seconds :: u64

definition AutoBanConfig_default :: AutoBanConfig where
  "AutoBanConfig_default = \<lparr>ab_enabled = False, ab_threshold_violations = 100,
     ab_window_seconds = 60, ab_ban_duration_seconds = 3600\<rparr>"

record RouteConfig =
  rt_path :: string
  rt_methods :: "string list"
  rt_rate_limit :: RateLimitConfig

definition RouteConfig_default :: RouteConfig where
  "RouteConfig_default = \<lparr>rt_path = [], rt_methods = [], rt_rate_limit = RateLimitConfig_default\<rparr>"

record RateLimitRoutesConfig =
  rr_enabled :: bool
  rr_routes :: "RouteConfig list"

definition RateLimitRoutesConfig_default :: RateLimitRoutesConfig where
  "RateLimitRoutesConfig_default = \<lparr>rr_enabled = False, rr_routes = []\<rparr>"

record 'n RootConfig =
  root_engine :: EngineConfig
  root_middleware :: "'n MiddlewareConfig"
  root_blocklist :: "'n BlocklistConfig"
  root_xdp :: XdpConfig
  root_rate_limit :: RateLimitConfig
  root_metrics :: MetricsConfig
  root_auto_ban :: AutoBanConfig
  root_rate_limit_routes :: RateLimitRoutesConfig

text \<open>The settings a YAML document without any key under \<open>radixip\<close> gets (\<open>serde(default)\<close>).\<close>

definition RootConfig_defaults :: "'n RootConfig" where
  "RootConfig_defaults = \<lparr>root_engine = EngineConfig_default, root_middleware = MiddlewareConfig_default,
     root_blocklist = BlocklistConfig_default, root_xdp = XdpConfig_default,
     root_rate_limit = RateLimitConfig_default, root_metrics = MetricsConfig_default,
     root_auto_ban = AutoBanConfig_default, root_rate_limit_routes = RateLimitRoutesConfig_default\<rparr>"

record 'n RadixIpConfig =
  radixip :: "'n RootConfig"

section \<open>Validation and loading\<close>

definition validate :: "'n RadixIpConfig \<Rightarrow> ConfigError + unit" where
  "validate c =
     (let rl = root_rate_limit (radixip c) in
      if rl_enabled rl then
        (if rl_capacity rl = 0 then Inl (Validation ''rate_limit.capacity must be > 0'')
         else if rl_refill_rate rl = 0 then Inl (Validation ''rate_limit.refill_rate must be > 0'')
         else Inr ())
      else Inr ())"

definition config_from_file ::
  "(string \<Rightarrow> string + string) \<Rightarrow> (string \<Rightarrow> string + 'n RadixIpConfig) \<Rightarrow> string \<Rightarrow> ConfigError + 'n RadixIpConfig" where
  "config_from_file read_to_string from_str path =
     (case read_to_string path of
        Inl e \<Rightarrow> Inl (Io e)
      | Inr raw \<Rightarrow>
          (case from_str raw of
             Inl e \<Rightarrow> Inl (Yaml e)
           | Inr cfg \<Rightarrow> (case validate cfg of Inl e \<Rightarrow> Inl e | Inr _ \<Rightarrow> Inr cfg)))"

definition from_root_config :: "'n RootConfig \<Rightarrow> ConfigError + 'n RadixIpConfig" where
  "from_root_config c =
     (let this = \<lparr>radixip = c\<rparr> in case validate this of Inl e \<Rightarrow> Inl e | Inr _ \<Rightarrow> Inr this)"

section \<open>Builder\<close>

record RateLimitConfigBuilder =
  rb_capacity :: "u64 option"
  rb_refill_rate :: "u64 option"
  rb_bucket_mode :: "BucketKeyMode option"
  rb_max_buckets :: "usize option"
  rb_ttl_seconds :: "u64 option"

definition RateLimitConfig_builder :: RateLimitConfigBuilder where
  "RateLimitConfig_builder = \<lparr>rb_capacity = None, rb_refill_rate = None, rb_bucket_mode = None,
     rb_max_buckets = None, rb_ttl_seconds = None\<rparr>"

definition rb_with_capacity :: "u64 \<Rightarrow> RateLimitConfigBuilder \<Rightarrow> RateLimitConfigBuilder" where
  "rb_with_capacity v b = b\<lparr>rb_capacity := Some v\<rparr>"

definition rb_with_refill_rate :: "u64 \<Rightarrow> RateLimitConfigBuilder \<Rightarrow> RateLimitConfigBuilder" where
  "rb_with_refill_rate v b = b\<lparr>rb_refill_rate := Some v\<rparr>"

definition rb_with_bucket_mode :: "BucketKeyMode \<Rightarrow> RateLimitConfigBuilder \<Rightarrow> RateLimitConfigBuilder" where
  "rb_with_bucket_mode v b = b\<lparr>rb_bucket_mode := Some v\<rparr>"

definition rb_with_max_buckets :: "usize \<Rightarrow> RateLimitConfigBuilder \<Rightarrow> RateLimitConfigBuilder" where
  "rb_with_max_buckets v b = b\<lparr>rb_max_buckets := Some v\<rparr>"

definition rb_with_ttl_seconds :: "u64 \<Rightarrow> RateLimitConfigBuilder \<Rightarrow> RateLimitConfigBuilder" where
  "rb_with_ttl_seconds v b = b\<lparr>rb_ttl_seconds := Some v\<rparr>"

definition unwrap_or :: "'a option \<Rightarrow> 'a \<Rightarrow> 'a" where
  "unwrap_or x d = (case x of Some v \<Rightarrow> v | None \<Rightarrow> d)"

definition rb_build :: "RateLimitConfigBuilder \<Rightarrow> RateLimitConfig" where
  "rb_build b = \<lparr>rl_enabled = True, rl_algorithm = TokenBucketAlgorithm,
     rl_bucket_mode = unwrap_or (rb_bucket_mode b) Ip, rl_capacity = unwrap_or (rb_capacity b) 100,
     rl_refill_rate = unwrap_or (rb_refill_rate b) 10, rl_max_buckets = unwrap_or (rb_max_buckets b) 1000000,
     rl_ttl_seconds = unwrap_or (rb_ttl_seconds b) 60\<rparr>"

section \<open>What validation guarantees\<close>

lemma validate_ok_iff:
  "validate c = Inr () \<longleftrightarrow>
     (rl_enabled (root_rate_limit (radixip c)) \<longrightarrow>
        rl_capacity (root_rate_limit (radixip c)) \<noteq> 0 \<and> rl_refill_rate (root_rate_limit (radixip c)) \<noteq> 0)"
  by (auto simp: validate_def Let_def)

lemma from_root_config_ok:
  "from_root_config c = Inr cfg \<longleftrightarrow> cfg = \<lparr>radixip = c\<rparr> \<and> validate cfg = Inr ()"
  by (auto simp: from_root_config_def Let_def split: sum.splits)

lemma config_from_file_ok:
  "config_from_file rd parse path = Inr cfg \<longleftrightarrow>
     (\<exists>raw. rd path = Inr raw \<and> parse raw = Inr cfg \<and> validate cfg = Inr ())"
  by (auto simp: config_from_file_def split: sum.splits)

end
