(* ===== verification/Types.thy ===== *)
theory Types
  imports IpNet
begin

text \<open>
  The plain data of the engine crate: the metadata attached to a prefix, subnet rules,
  engine statistics, the error type, the node and engine variants and the runtime
  configuration with its presets
  (\<open>types.rs\<close>, \<open>errors.rs\<close>, \<open>traits.rs\<close>, \<open>config.rs\<close> of \<open>lib/rust/engine\<close> and
  the Redis settings of \<open>lib/rust/cache\<close>).
\<close>

section \<open>Metadata and rules\<close>

record Metadata =
  md_value :: string
  md_attributes :: "string \<rightharpoonup> string"

definition Metadata_new :: "string \<Rightarrow> Metadata" where
  "Metadata_new v = \<lparr>md_value = v, md_attributes = Map.empty\<rparr>"

definition with_attribute :: "Metadata \<Rightarrow> string \<Rightarrow> string \<Rightarrow> Metadata" where
  "with_attribute md k v = md\<lparr>md_attributes := (md_attributes md)(k \<mapsto> v)\<rparr>"

definition Metadata_from :: "string \<Rightarrow> Metadata" where
  "Metadata_from v = Metadata_new v"

record 'n SubnetRule =
  sr_prefix :: 'n
  sr_metadata :: Metadata

definition SubnetRule_new :: "'n \<Rightarrow> Metadata \<Rightarrow> 'n SubnetRule" where
  "SubnetRule_new p md = \<lparr>sr_prefix = p, sr_metadata = md\<rparr>"

section \<open>Statistics\<close>

text \<open>Counters of type \<open>usize\<close>; additions wrap as the release build's do.\<close>

record EngineStats =
  st_inserts :: usize
  st_lookups :: usize
  st_hits :: usize
  st_misses :: usize
  st_removals :: usize
  st_size :: usize

definition EngineStats_default :: EngineStats where
  "EngineStats_default = \<lparr>st_inserts = 0, st_lookups = 0, st_hits = 0, st_misses = 0,
     st_removals = 0, st_size = 0\<rparr>"

section \<open>Errors\<close>

datatype RadixError =
    InvalidPrefix string
  | InvalidIp string
  | EngineError string
  | Serialization string

section \<open>Variants\<close>

datatype NodeVariant =
    NV_NormalTrieNode | NV_AtomicTrieNode | NV_PaddedTrieNode | NV_LockFreeTrieNode
  | NV_NormalRadixNode | NV_AtomicRadixNode | NV_PaddedRadixNode | NV_LockFreeRadixNode

fun is_compressed :: "NodeVariant \<Rightarrow> bool" where
  "is_compressed NV_NormalRadixNode = True"
| "is_compressed NV_AtomicRadixNode = True"
| "is_compressed NV_PaddedRadixNode = True"
| "is_compressed NV_LockFreeRadixNode = True"
| "is_compressed _ = False"

datatype EngineVariant = Standard | Concurrent | LockFree | Adaptive | ART

section \<open>Configuration\<close>

text \<open>The connection timeout is in nanoseconds.\<close>

record RedisConfig =
  rc_url :: string
  rc_pool_size :: usize
  rc_connect_timeout :: nat
  rc_max_retries :: usize

definition RedisConfig_default :: RedisConfig where
  "RedisConfig_default = \<lparr>rc_url = ''redis://127.0.0.1:6379'', rc_pool_size = 10,
     rc_connect_timeout = 5000000000, rc_max_retries = 3\<rparr>"

record RadixConfig =
  cfg_engine_variant :: EngineVariant
  cfg_node_variant :: NodeVariant
  cfg_cache_enabled :: bool
  cfg_cache_max_entries :: usize
  cfg_cache_ttl_seconds :: "u64 option"
  cfg_redis :: "RedisConfig option"
  cfg_redis_channel :: string
  cfg_num_shards :: "usize option"
  cfg_enable_stats :: bool
  cfg_enable_split_plane :: bool
  cfg_write_compressed :: bool
  cfg_read_compressed :: bool

definition RadixConfig_default :: RadixConfig where
  "RadixConfig_default = \<lparr>
     cfg_engine_variant = Concurrent, cfg_node_variant = NV_AtomicTrieNode,
     cfg_cache_enabled = True, cfg_cache_max_entries = 10000, cfg_cache_ttl_seconds = Some 3600,
     cfg_redis = None, cfg_redis_channel = ''radixip:updates'', cfg_num_shards = None,
     cfg_enable_stats = True, cfg_enable_split_plane = False,
     cfg_write_compressed = False, cfg_read_compressed = True\<rparr>"

definition with_engine :: "RadixConfig \<Rightarrow> EngineVariant \<Rightarrow> RadixConfig" where
  "with_engine c v = c\<lparr>cfg_engine_variant := v\<rparr>"

definition with_node :: "RadixConfig \<Rightarrow> NodeVariant \<Rightarrow> RadixConfig" where
  "with_node c v = c\<lparr>cfg_node_variant := v\<rparr>"

definition with_cache :: "RadixConfig \<Rightarrow> bool \<Rightarrow> usize \<Rightarrow> RadixConfig" where
  "with_cache c enabled max_entries =
     c\<lparr>cfg_cache_enabled := enabled, cfg_cache_max_entries := max_entries\<rparr>"

definition with_redis :: "RadixConfig \<Rightarrow> RedisConfig \<Rightarrow> string \<Rightarrow> RadixConfig" where
  "with_redis c r channel = c\<lparr>cfg_redis := Some r, cfg_redis_channel := channel\<rparr>"

definition high_performance :: RadixConfig where
  "high_performance = \<lparr>
     cfg_engine_variant = LockFree, cfg_node_variant = NV_LockFreeTrieNode,
     cfg_cache_enabled = True, cfg_cache_max_entries = 100000, cfg_cache_ttl_seconds = None,
     cfg_redis = None, cfg_redis_channel = ''radixip:updates'', cfg_num_shards = Some 32,
     cfg_enable_stats = False, cfg_enable_split_plane = False,
     cfg_write_compressed = False, cfg_read_compressed = True\<rparr>"

definition memory_efficient :: RadixConfig where
  "memory_efficient = \<lparr>
     cfg_engine_variant = Standard, cfg_node_variant = NV_NormalTrieNode,
     cfg_cache_enabled = False, cfg_cache_max_entries = 0, cfg_cache_ttl_seconds = None,
     cfg_redis = None, cfg_redis_channel = ''radixip:updates'', cfg_num_shards = None,
     cfg_enable_stats = False, cfg_enable_split_plane = False,
     cfg_write_compressed = False, cfg_read_compressed = True\<rparr>"

definition balanced :: RadixConfig where
  "balanced = \<lparr>
     cfg_engine_variant = Concurrent, cfg_node_variant = NV_AtomicTrieNode,
     cfg_cache_enabled = True, cfg_cache_max_entries = 10000, cfg_cache_ttl_seconds = Some 3600,
     cfg_redis = None, cfg_redis_channel = ''radixip:updates'', cfg_num_shards = Some 16,
     cfg_enable_stats = True, cfg_enable_split_plane = False,
     cfg_write_compressed = False, cfg_read_compressed = True\<rparr>"

end
