(* ===== verification/Nodes.thy ===== *)
theory Nodes
  imports Types
begin

text \<open>
  The nodes of the two binary trees (\<open>node/uncompressed.rs\<close>, \<open>node/compressed.rs\<close>,
  \<open>node/mod.rs\<close> and the trait \<open>Node\<close> of \<open>traits.rs\<close>).

  A node struct is a datatype with one constructor; the type of its children,
  \<open>Arc<dyn Node>\<close>, is the parameter \<open>'c\<close>. An \<open>impl Node for\<close> block is a record of
  type \<open>Node\<close>: the methods of the trait over the struct, a method that mutates the
  node returning the new one. Locks and atomics guard single fields and are the fields
  themselves here; a \<open>DashMap\<close> is the association list of its entries. The one
  method that can panic, \<open>set_edge\<close>, returns an option. Every node reachable in a tree
  has one parent, so a tree of \<open>Arc\<close>s is a value of the recursive type
  \<open>NodeWrapper\<close>, and updating a shared child in place is storing the updated child.

  The locale \<open>node_api\<close> states what the trees rely on: each reader returns what the
  matching writer stored and no writer disturbs another field; \<open>trie_node\<close> and
  \<open>radix_node\<close> add how the edge methods behave. All eight variants, and the wrapper
  that dispatches between them, are interpretations.
\<close>

section \<open>The trait\<close>

record ('s, 'c, 'n) Node =
  n_bit :: "'s \<Rightarrow> u8 option"
  n_left :: "'s \<Rightarrow> 'c option"
  n_right :: "'s \<Rightarrow> 'c option"
  n_metadata :: "'s \<Rightarrow> Metadata option"
  n_prefix :: "'s \<Rightarrow> 'n option"
  n_set_left :: "'c option \<Rightarrow> 's \<Rightarrow> 's"
  n_set_right :: "'c option \<Rightarrow> 's \<Rightarrow> 's"
  n_set_metadata :: "Metadata \<Rightarrow> 's \<Rightarrow> 's"
  n_clear_metadata :: "'s \<Rightarrow> 's"
  n_set_bit :: "u8 \<Rightarrow> 's \<Rightarrow> 's"
  n_set_prefix :: "'n \<Rightarrow> 's \<Rightarrow> 's"
  n_edge_bits :: "'s \<Rightarrow> u8 list option"
  n_edge_len :: "'s \<Rightarrow> nat option"
  n_set_edge :: "u8 list \<Rightarrow> nat \<Rightarrow> 's \<Rightarrow> 's option"

text \<open>The default methods of the trait, which uncompressed nodes inherit: no edge, and
  a panic when one is set.\<close>

definition default_edge_bits :: "'s \<Rightarrow> u8 list option" where
  "default_edge_bits s = None"

definition default_edge_len :: "'s \<Rightarrow> nat option" where
  "default_edge_len s = None"

definition default_set_edge :: "u8 list \<Rightarrow> nat \<Rightarrow> 's \<Rightarrow> 's option" where
  "default_set_edge bits len s = None"

locale node_api =
  fixes I :: "('s, 'c, 'n) Node"
  assumes set_left: "n_left I (n_set_left I c s) = c"
      "n_right I (n_set_left I c s) = n_right I s"
      "n_metadata I (n_set_left I c s) = n_metadata I s"
      "n_prefix I (n_set_left I c s) = n_prefix I s"
      "n_edge_bits I (n_set_left I c s) = n_edge_bits I s"
      "n_edge_len I (n_set_left I c s) = n_edge_len I s"
    and set_right: "n_right I (n_set_right I c s) = c"
      "n_left I (n_set_right I c s) = n_left I s"
      "n_metadata I (n_set_right I c s) = n_metadata I s"
      "n_prefix I (n_set_right I c s) = n_prefix I s"
      "n_edge_bits I (n_set_right I c s) = n_edge_bits I s"
      "n_edge_len I (n_set_right I c s) = n_edge_len I s"
    and set_metadata: "n_metadata I (n_set_metadata I m s) = Some m"
      "n_left I (n_set_metadata I m s) = n_left I s"
      "n_right I (n_set_metadata I m s) = n_right I s"
      "n_prefix I (n_set_metadata I m s) = n_prefix I s"
      "n_edge_bits I (n_set_metadata I m s) = n_edge_bits I s"
      "n_edge_len I (n_set_metadata I m s) = n_edge_len I s"
    and clear_metadata: "n_metadata I (n_clear_metadata I s) = None"
      "n_left I (n_clear_metadata I s) = n_left I s"
      "n_right I (n_clear_metadata I s) = n_right I s"
      "n_prefix I (n_clear_metadata I s) = n_prefix I s"
      "n_edge_bits I (n_clear_metadata I s) = n_edge_bits I s"
      "n_edge_len I (n_clear_metadata I s) = n_edge_len I s"
    and set_prefix: "n_prefix I (n_set_prefix I p s) = Some p"
      "n_left I (n_set_prefix I p s) = n_left I s"
      "n_right I (n_set_prefix I p s) = n_right I s"
      "n_metadata I (n_set_prefix I p s) = n_metadata I s"
      "n_edge_bits I (n_set_prefix I p s) = n_edge_bits I s"
      "n_edge_len I (n_set_prefix I p s) = n_edge_len I s"

locale trie_node = node_api +
  assumes no_edge: "n_edge_bits I s = None" "n_edge_len I s = None"
    and set_edge_panics: "n_set_edge I bits len s = None"
    and set_bit: "x \<noteq> 255 \<Longrightarrow> n_bit I (n_set_bit I x s) = Some x"

locale radix_node = node_api +
  assumes has_edge: "n_edge_bits I s \<noteq> None" "n_edge_len I s \<noteq> None"
    and set_edge: "\<exists>s'. n_set_edge I bits len s = Some s'
      \<and> n_edge_bits I s' = Some bits \<and> n_edge_len I s' = Some len
      \<and> n_left I s' = n_left I s \<and> n_right I s' = n_right I s
      \<and> n_metadata I s' = n_metadata I s \<and> n_prefix I s' = n_prefix I s"
    and no_bit: "n_bit I s = None" "n_set_bit I x s = s"

section \<open>Uncompressed nodes\<close>

datatype ChildKey = Left | Right

text \<open>The encoding of an optional \<open>u8\<close> in an \<open>AtomicU8\<close>: 0 for none, \<open>n + 1\<close> for \<open>n\<close>.\<close>

definition load_bit :: "u8 \<Rightarrow> u8 option" where
  "load_bit b = (if b = 0 then None else Some (b - 1))"

text \<open>\<open>set_left\<close> and \<open>set_right\<close> on a \<open>DashMap\<close> of children.\<close>

definition dash_set :: "ChildKey \<Rightarrow> 'c option \<Rightarrow> (ChildKey \<times> 'c) list \<Rightarrow> (ChildKey \<times> 'c) list" where
  "dash_set k c m = (case c of Some n \<Rightarrow> AList.update k n m | None \<Rightarrow> AList.delete k m)"

lemma map_of_dash_set: "map_of (dash_set k c m) = (map_of m)(k := c)"
  by (cases c) (simp_all add: dash_set_def update_conv' delete_conv')

lemma load_bit_store: "b \<noteq> 255 \<Longrightarrow> load_bit (b + 1) = Some b"
proof -
  assume b: "b \<noteq> 255"
  have "b + 1 \<noteq> 0"
  proof
    assume "b + 1 = 0"
    then have "b = - 1" by (simp add: eq_neg_iff_add_eq_0)
    with b show False by simp
  qed
  then show ?thesis by (simp add: load_bit_def)
qed

datatype ('c, 'n) NormalTrieNode = NormalTrieNode
  (ntn_bit: "u8 option")
  (ntn_left: "'c option")
  (ntn_right: "'c option")
  (ntn_metadata: "Metadata option")
  (ntn_prefix: "'n option")

definition NormalTrieNode_new :: "('c, 'n) NormalTrieNode" where
  "NormalTrieNode_new = NormalTrieNode None None None None None"

definition NormalTrieNode_Node :: "(('c, 'n) NormalTrieNode, 'c, 'n) Node" where
  "NormalTrieNode_Node = \<lparr>
     n_bit = ntn_bit,
     n_left = ntn_left,
     n_right = ntn_right,
     n_metadata = ntn_metadata,
     n_prefix = ntn_prefix,
     n_set_left = (\<lambda>c s. case s of NormalTrieNode b l r m p \<Rightarrow>
       NormalTrieNode b c r m p),
     n_set_right = (\<lambda>c s. case s of NormalTrieNode b l r m p \<Rightarrow>
       NormalTrieNode b l c m p),
     n_set_metadata = (\<lambda>x s. case s of NormalTrieNode b l r m p \<Rightarrow>
       NormalTrieNode b l r (Some x) p),
     n_clear_metadata = (\<lambda>s. case s of NormalTrieNode b l r m p \<Rightarrow>
       NormalTrieNode b l r None p),
     n_set_bit = (\<lambda>x s. case s of NormalTrieNode b l r m p \<Rightarrow>
       NormalTrieNode (Some x) l r m p),
     n_set_prefix = (\<lambda>x s. case s of NormalTrieNode b l r m p \<Rightarrow>
       NormalTrieNode b l r m (Some x)),
     n_edge_bits = default_edge_bits,
     n_edge_len = default_edge_len,
     n_set_edge = default_set_edge\<rparr>"

interpretation ntn: trie_node NormalTrieNode_Node
  by unfold_locales
    (simp_all add: NormalTrieNode_Node_def default_edge_bits_def default_edge_len_def default_set_edge_def split: NormalTrieNode.split)

datatype ('c, 'n) AtomicTrieNode = AtomicTrieNode
  (atn_bit: u8)
  (atn_left: "'c option")
  (atn_right: "'c option")
  (atn_metadata: "Metadata option")
  (atn_prefix: "'n option")

definition AtomicTrieNode_new :: "('c, 'n) AtomicTrieNode" where
  "AtomicTrieNode_new = AtomicTrieNode 0 None None None None"

definition AtomicTrieNode_Node :: "(('c, 'n) AtomicTrieNode, 'c, 'n) Node" where
  "AtomicTrieNode_Node = \<lparr>
     n_bit = (\<lambda>s. load_bit (atn_bit s)),
     n_left = atn_left,
     n_right = atn_right,
     n_metadata = atn_metadata,
     n_prefix = atn_prefix,
     n_set_left = (\<lambda>c s. case s of AtomicTrieNode b l r m p \<Rightarrow>
       AtomicTrieNode b c r m p),
     n_set_right = (\<lambda>c s. case s of AtomicTrieNode b l r m p \<Rightarrow>
       AtomicTrieNode b l c m p),
     n_set_metadata = (\<lambda>x s. case s of AtomicTrieNode b l r m p \<Rightarrow>
       AtomicTrieNode b l r (Some x) p),
     n_clear_metadata = (\<lambda>s. case s of AtomicTrieNode b l r m p \<Rightarrow>
       AtomicTrieNode b l r None p),
     n_set_bit = (\<lambda>x s. case s of AtomicTrieNode b l r m p \<Rightarrow>
       AtomicTrieNode (x + 1) l r m p),
     n_set_prefix = (\<lambda>x s. case s of AtomicTrieNode b l r m p \<Rightarrow>
       AtomicTrieNode b l r m (Some x)),
     n_edge_bits = default_edge_bits,
     n_edge_len = default_edge_len,
     n_set_edge = default_set_edge\<rparr>"

interpretation atn: trie_node AtomicTrieNode_Node
  by unfold_locales
    (simp_all add: AtomicTrieNode_Node_def default_edge_bits_def default_edge_len_def default_set_edge_def load_bit_store split: AtomicTrieNode.split)

datatype ('c, 'n) PaddedTrieNode = PaddedTrieNode
  (ptn_bit: "u8 option")
  (ptn_left: "'c option")
  (ptn_right: "'c option")
  (ptn_metadata: "Metadata option")
  (ptn_prefix: "'n option")

definition PaddedTrieNode_new :: "('c, 'n) PaddedTrieNode" where
  "PaddedTrieNode_new = PaddedTrieNode None None None None None"

definition PaddedTrieNode_Node :: "(('c, 'n) PaddedTrieNode, 'c, 'n) Node" where
  "PaddedTrieNode_Node = \<lparr>
     n_bit = ptn_bit,
     n_left = ptn_left,
     n_right = ptn_right,
     n_metadata = ptn_metadata,
     n_prefix = ptn_prefix,
     n_set_left = (\<lambda>c s. case s of PaddedTrieNode b l r m p \<Rightarrow>
       PaddedTrieNode b c r m p),
     n_set_right = (\<lambda>c s. case s of PaddedTrieNode b l r m p \<Rightarrow>
       PaddedTrieNode b l c m p),
     n_set_metadata = (\<lambda>x s. case s of PaddedTrieNode b l r m p \<Rightarrow>
       PaddedTrieNode b l r (Some x) p),
     n_clear_metadata = (\<lambda>s. case s of PaddedTrieNode b l r m p \<Rightarrow>
       PaddedTrieNode b l r None p),
     n_set_bit = (\<lambda>x s. case s of PaddedTrieNode b l r m p \<Rightarrow>
       PaddedTrieNode (Some x) l r m p),
     n_set_prefix = (\<lambda>x s. case s of PaddedTrieNode b l r m p \<Rightarrow>
       PaddedTrieNode b l r m (Some x)),
     n_edge_bits = default_edge_bits,
     n_edge_len = default_edge_len,
     n_set_edge = default_set_edge\<rparr>"

interpretation ptn: trie_node PaddedTrieNode_Node
  by unfold_locales
    (simp_all add: PaddedTrieNode_Node_def default_edge_bits_def default_edge_len_def default_set_edge_def split: PaddedTrieNode.split)

datatype ('c, 'n) LockFreeTrieNode = LockFreeTrieNode
  (ltn_bit: u8)
  (ltn_children: "(ChildKey \<times> 'c) list")
  (ltn_metadata: "Metadata option")
  (ltn_prefix: "'n option")

definition LockFreeTrieNode_new :: "('c, 'n) LockFreeTrieNode" where
  "LockFreeTrieNode_new = LockFreeTrieNode 0 [] None None"

definition LockFreeTrieNode_Node :: "(('c, 'n) LockFreeTrieNode, 'c, 'n) Node" where
  "LockFreeTrieNode_Node = \<lparr>
     n_bit = (\<lambda>s. load_bit (ltn_bit s)),
     n_left = (\<lambda>s. map_of (ltn_children s) Left),
     n_right = (\<lambda>s. map_of (ltn_children s) Right),
     n_metadata = ltn_metadata,
     n_prefix = ltn_prefix,
     n_set_left = (\<lambda>c s. case s of LockFreeTrieNode b cs m p \<Rightarrow>
       LockFreeTrieNode b (dash_set Left c cs) m p),
     n_set_right = (\<lambda>c s. case s of LockFreeTrieNode b cs m p \<Rightarrow>
       LockFreeTrieNode b (dash_set Right c cs) m p),
     n_set_metadata = (\<lambda>x s. case s of LockFreeTrieNode b cs m p \<Rightarrow>
       LockFreeTrieNode b cs (Some x) p),
     n_clear_metadata = (\<lambda>s. case s of LockFreeTrieNode b cs m p \<Rightarrow>
       LockFreeTrieNode b cs None p),
     n_set_bit = (\<lambda>x s. case s of LockFreeTrieNode b cs m p \<Rightarrow>
       LockFreeTrieNode (x + 1) cs m p),
     n_set_prefix = (\<lambda>x s. case s of LockFreeTrieNode b cs m p \<Rightarrow>
       LockFreeTrieNode b cs m (Some x)),
     n_edge_bits = default_edge_bits,
     n_edge_len = default_edge_len,
     n_set_edge = default_set_edge\<rparr>"

interpretation ltn: trie_node LockFreeTrieNode_Node
  by unfold_locales
    (simp_all add: LockFreeTrieNode_Node_def default_edge_bits_def default_edge_len_def default_set_edge_def load_bit_store map_of_dash_set split: LockFreeTrieNode.split)

section \<open>Compressed nodes\<close>

datatype ('c, 'n) NormalRadixNode = NormalRadixNode
  (nrn_edge_bits: "u8 list")
  (nrn_edge_len: nat)
  (nrn_metadata: "Metadata option")
  (nrn_prefix: "'n option")
  (nrn_left: "'c option")
  (nrn_right: "'c option")

definition NormalRadixNode_new :: "('c, 'n) NormalRadixNode" where
  "NormalRadixNode_new = NormalRadixNode (replicate 16 0) 0 None None None None"

definition NormalRadixNode_Node :: "(('c, 'n) NormalRadixNode, 'c, 'n) Node" where
  "NormalRadixNode_Node = \<lparr>
     n_bit = (\<lambda>s. None),
     n_left = nrn_left,
     n_right = nrn_right,
     n_metadata = nrn_metadata,
     n_prefix = nrn_prefix,
     n_set_left = (\<lambda>c s. case s of NormalRadixNode eb el m p l r \<Rightarrow>
       NormalRadixNode eb el m p c r),
     n_set_right = (\<lambda>c s. case s of NormalRadixNode eb el m p l r \<Rightarrow>
       NormalRadixNode eb el m p l c),
     n_set_metadata = (\<lambda>x s. case s of NormalRadixNode eb el m p l r \<Rightarrow>
       NormalRadixNode eb el (Some x) p l r),
     n_clear_metadata = (\<lambda>s. case s of NormalRadixNode eb el m p l r \<Rightarrow>
       NormalRadixNode eb el None p l r),
     n_set_bit = (\<lambda>x s. s),
     n_set_prefix = (\<lambda>x s. case s of NormalRadixNode eb el m p l r \<Rightarrow>
       NormalRadixNode eb el m (Some x) l r),
     n_edge_bits = (\<lambda>s. Some (nrn_edge_bits s)),
     n_edge_len = (\<lambda>s. Some (nrn_edge_len s)),
     n_set_edge = (\<lambda>bits len s. case s of NormalRadixNode eb el m p l r \<Rightarrow>
       Some (NormalRadixNode bits len m p l r))\<rparr>"

interpretation nrn: radix_node NormalRadixNode_Node
  by unfold_locales
    (simp_all add: NormalRadixNode_Node_def  split: NormalRadixNode.split)

datatype ('c, 'n) AtomicRadixNode = AtomicRadixNode
  (arn_atomic_edge_len: u8)
  (arn_edge_bits: "u8 list")
  (arn_edge_len_overflow: nat)
  (arn_metadata: "Metadata option")
  (arn_prefix: "'n option")
  (arn_left: "'c option")
  (arn_right: "'c option")

definition AtomicRadixNode_new :: "('c, 'n) AtomicRadixNode" where
  "AtomicRadixNode_new = AtomicRadixNode 0 (replicate 16 0) 0 None None None None"

definition AtomicRadixNode_Node :: "(('c, 'n) AtomicRadixNode, 'c, 'n) Node" where
  "AtomicRadixNode_Node = \<lparr>
     n_bit = (\<lambda>s. None),
     n_left = arn_left,
     n_right = arn_right,
     n_metadata = arn_metadata,
     n_prefix = arn_prefix,
     n_set_left = (\<lambda>c s. case s of AtomicRadixNode al eb ov m p l r \<Rightarrow>
       AtomicRadixNode al eb ov m p c r),
     n_set_right = (\<lambda>c s. case s of AtomicRadixNode al eb ov m p l r \<Rightarrow>
       AtomicRadixNode al eb ov m p l c),
     n_set_metadata = (\<lambda>x s. case s of AtomicRadixNode al eb ov m p l r \<Rightarrow>
       AtomicRadixNode al eb ov (Some x) p l r),
     n_clear_metadata = (\<lambda>s. case s of AtomicRadixNode al eb ov m p l r \<Rightarrow>
       AtomicRadixNode al eb ov None p l r),
     n_set_bit = (\<lambda>x s. s),
     n_set_prefix = (\<lambda>x s. case s of AtomicRadixNode al eb ov m p l r \<Rightarrow>
       AtomicRadixNode al eb ov m (Some x) l r),
     n_edge_bits = (\<lambda>s. Some (arn_edge_bits s)),
     n_edge_len = (\<lambda>s. let atomic_val = unat (arn_atomic_edge_len s) in
       if atomic_val < 255 then Some atomic_val else Some (arn_edge_len_overflow s)),
     n_set_edge = (\<lambda>bits len s. case s of AtomicRadixNode al eb ov m p l r \<Rightarrow>
       Some (if len < 255 then AtomicRadixNode (of_nat len) bits ov m p l r
         else AtomicRadixNode 255 bits len m p l r))\<rparr>"

interpretation arn: radix_node AtomicRadixNode_Node
proof unfold_locales
  fix bits len and s :: "('c, 'n) AtomicRadixNode"
  show "\<exists>s'. n_set_edge AtomicRadixNode_Node bits len s = Some s'
      \<and> n_edge_bits AtomicRadixNode_Node s' = Some bits
      \<and> n_edge_len AtomicRadixNode_Node s' = Some len
      \<and> n_left AtomicRadixNode_Node s' = n_left AtomicRadixNode_Node s
      \<and> n_right AtomicRadixNode_Node s' = n_right AtomicRadixNode_Node s
      \<and> n_metadata AtomicRadixNode_Node s' = n_metadata AtomicRadixNode_Node s
      \<and> n_prefix AtomicRadixNode_Node s' = n_prefix AtomicRadixNode_Node s"
    by (cases s; cases "len < 255") (simp_all add: AtomicRadixNode_Node_def unat_of_nat)
qed (simp_all add: AtomicRadixNode_Node_def Let_def split: AtomicRadixNode.split)

datatype ('c, 'n) PaddedRadixNode = PaddedRadixNode
  (prn_edge_bits: "u8 list")
  (prn_edge_len: nat)
  (prn_metadata: "Metadata option")
  (prn_prefix: "'n option")
  (prn_left: "'c option")
  (prn_right: "'c option")

definition PaddedRadixNode_new :: "('c, 'n) PaddedRadixNode" where
  "PaddedRadixNode_new = PaddedRadixNode (replicate 16 0) 0 None None None None"

definition PaddedRadixNode_Node :: "(('c, 'n) PaddedRadixNode, 'c, 'n) Node" where
  "PaddedRadixNode_Node = \<lparr>
     n_bit = (\<lambda>s. None),
     n_left = prn_left,
     n_right = prn_right,
     n_metadata = prn_metadata,
     n_prefix = prn_prefix,
     n_set_left = (\<lambda>c s. case s of PaddedRadixNode eb el m p l r \<Rightarrow>
       PaddedRadixNode eb el m p c r),
     n_set_right = (\<lambda>c s. case s of PaddedRadixNode eb el m p l r \<Rightarrow>
       PaddedRadixNode eb el m p l c),
     n_set_metadata = (\<lambda>x s. case s of PaddedRadixNode eb el m p l r \<Rightarrow>
       PaddedRadixNode eb el (Some x) p l r),
     n_clear_metadata = (\<lambda>s. case s of PaddedRadixNode eb el m p l r \<Rightarrow>
       PaddedRadixNode eb el None p l r),
     n_set_bit = (\<lambda>x s. s),
     n_set_prefix = (\<lambda>x s. case s of PaddedRadixNode eb el m p l r \<Rightarrow>
       PaddedRadixNode eb el m (Some x) l r),
     n_edge_bits = (\<lambda>s. Some (prn_edge_bits s)),
     n_edge_len = (\<lambda>s. Some (prn_edge_len s)),
     n_set_edge = (\<lambda>bits len s. case s of PaddedRadixNode eb el m p l r \<Rightarrow>
       Some (PaddedRadixNode bits len m p l r))\<rparr>"

interpretation prn: radix_node PaddedRadixNode_Node
  by unfold_locales
    (simp_all add: PaddedRadixNode_Node_def  split: PaddedRadixNode.split)

datatype ('c, 'n) LockFreeRadixNode = LockFreeRadixNode
  (lrn_edge_bits: "u8 list")
  (lrn_edge_len: nat)
  (lrn_metadata: "Metadata option")
  (lrn_prefix: "'n option")
  (lrn_children: "(ChildKey \<times> 'c) list")

definition LockFreeRadixNode_new :: "('c, 'n) LockFreeRadixNode" where
  "LockFreeRadixNode_new = LockFreeRadixNode (replicate 16 0) 0 None None []"

definition LockFreeRadixNode_Node :: "(('c, 'n) LockFreeRadixNode, 'c, 'n) Node" where
  "LockFreeRadixNode_Node = \<lparr>
     n_bit = (\<lambda>s. None),
     n_left = (\<lambda>s. map_of (lrn_children s) Left),
     n_right = (\<lambda>s. map_of (lrn_children s) Right),
     n_metadata = lrn_metadata,
     n_prefix = lrn_prefix,
     n_set_left = (\<lambda>c s. case s of LockFreeRadixNode eb el m p cs \<Rightarrow>
       LockFreeRadixNode eb el m p (dash_set Left c cs)),
     n_set_right = (\<lambda>c s. case s of LockFreeRadixNode eb el m p cs \<Rightarrow>
       LockFreeRadixNode eb el m p (dash_set Right c cs)),
     n_set_metadata = (\<lambda>x s. case s of LockFreeRadixNode eb el m p cs \<Rightarrow>
       LockFreeRadixNode eb el (Some x) p cs),
     n_clear_metadata = (\<lambda>s. case s of LockFreeRadixNode eb el m p cs \<Rightarrow>
       LockFreeRadixNode eb el None p cs),
     n_set_bit = (\<lambda>x s. s),
     n_set_prefix = (\<lambda>x s. case s of LockFreeRadixNode eb el m p cs \<Rightarrow>
       LockFreeRadixNode eb el m (Some x) cs),
     n_edge_bits = (\<lambda>s. Some (lrn_edge_bits s)),
     n_edge_len = (\<lambda>s. Some (lrn_edge_len s)),
     n_set_edge = (\<lambda>bits len s. case s of LockFreeRadixNode eb el m p cs \<Rightarrow>
       Some (LockFreeRadixNode bits len m p cs))\<rparr>"

interpretation lrn: radix_node LockFreeRadixNode_Node
  by unfold_locales
    (simp_all add: LockFreeRadixNode_Node_def  map_of_dash_set split: LockFreeRadixNode.split)

section \<open>The wrapper and the builder\<close>

datatype 'n NodeWrapper =
    NW_NormalTrieNode "('n NodeWrapper, 'n) NormalTrieNode"
  | NW_AtomicTrieNode "('n NodeWrapper, 'n) AtomicTrieNode"
  | NW_PaddedTrieNode "('n NodeWrapper, 'n) PaddedTrieNode"
  | NW_LockFreeTrieNode "('n NodeWrapper, 'n) LockFreeTrieNode"
  | NW_NormalRadixNode "('n NodeWrapper, 'n) NormalRadixNode"
  | NW_AtomicRadixNode "('n NodeWrapper, 'n) AtomicRadixNode"
  | NW_PaddedRadixNode "('n NodeWrapper, 'n) PaddedRadixNode"
  | NW_LockFreeRadixNode "('n NodeWrapper, 'n) LockFreeRadixNode"

text \<open>\<open>impl Node for NodeWrapper\<close>: each method calls the same method of the wrapped
  node.\<close>

fun nd_bit :: "'n NodeWrapper \<Rightarrow> u8 option" where
  "nd_bit (NW_NormalTrieNode s) = n_bit NormalTrieNode_Node s"
| "nd_bit (NW_AtomicTrieNode s) = n_bit AtomicTrieNode_Node s"
| "nd_bit (NW_PaddedTrieNode s) = n_bit PaddedTrieNode_Node s"
| "nd_bit (NW_LockFreeTrieNode s) = n_bit LockFreeTrieNode_Node s"
| "nd_bit (NW_NormalRadixNode s) = n_bit NormalRadixNode_Node s"
| "nd_bit (NW_AtomicRadixNode s) = n_bit AtomicRadixNode_Node s"
| "nd_bit (NW_PaddedRadixNode s) = n_bit PaddedRadixNode_Node s"
| "nd_bit (NW_LockFreeRadixNode s) = n_bit LockFreeRadixNode_Node s"

fun nd_left :: "'n NodeWrapper \<Rightarrow> 'n NodeWrapper option" where
  "nd_left (NW_NormalTrieNode s) = n_left NormalTrieNode_Node s"
| "nd_left (NW_AtomicTrieNode s) = n_left AtomicTrieNode_Node s"
| "nd_left (NW_PaddedTrieNode s) = n_left PaddedTrieNode_Node s"
| "nd_left (NW_LockFreeTrieNode s) = n_left LockFreeTrieNode_Node s"
| "nd_left (NW_NormalRadixNode s) = n_left NormalRadixNode_Node s"
| "nd_left (NW_AtomicRadixNode s) = n_left AtomicRadixNode_Node s"
| "nd_left (NW_PaddedRadixNode s) = n_left PaddedRadixNode_Node s"
| "nd_left (NW_LockFreeRadixNode s) = n_left LockFreeRadixNode_Node s"

fun nd_right :: "'n NodeWrapper \<Rightarrow> 'n NodeWrapper option" where
  "nd_right (NW_NormalTrieNode s) = n_right NormalTrieNode_Node s"
| "nd_right (NW_AtomicTrieNode s) = n_right AtomicTrieNode_Node s"
| "nd_right (NW_PaddedTrieNode s) = n_right PaddedTrieNode_Node s"
| "nd_right (NW_LockFreeTrieNode s) = n_right LockFreeTrieNode_Node s"
| "nd_right (NW_NormalRadixNode s) = n_right NormalRadixNode_Node s"
| "nd_right (NW_AtomicRadixNode s) = n_right AtomicRadixNode_Node s"
| "nd_right (NW_PaddedRadixNode s) = n_right PaddedRadixNode_Node s"
| "nd_right (NW_LockFreeRadixNode s) = n_right LockFreeRadixNode_Node s"

fun nd_metadata :: "'n NodeWrapper \<Rightarrow> Metadata option" where
  "nd_metadata (NW_NormalTrieNode s) = n_metadata NormalTrieNode_Node s"
| "nd_metadata (NW_AtomicTrieNode s) = n_metadata AtomicTrieNode_Node s"
| "nd_metadata (NW_PaddedTrieNode s) = n_metadata PaddedTrieNode_Node s"
| "nd_metadata (NW_LockFreeTrieNode s) = n_metadata LockFreeTrieNode_Node s"
| "nd_metadata (NW_NormalRadixNode s) = n_metadata NormalRadixNode_Node s"
| "nd_metadata (NW_AtomicRadixNode s) = n_metadata AtomicRadixNode_Node s"
| "nd_metadata (NW_PaddedRadixNode s) = n_metadata PaddedRadixNode_Node s"
| "nd_metadata (NW_LockFreeRadixNode s) = n_metadata LockFreeRadixNode_Node s"

fun nd_prefix :: "'n NodeWrapper \<Rightarrow> 'n option" where
  "nd_prefix (NW_NormalTrieNode s) = n_prefix NormalTrieNode_Node s"
| "nd_prefix (NW_AtomicTrieNode s) = n_prefix AtomicTrieNode_Node s"
| "nd_prefix (NW_PaddedTrieNode s) = n_prefix PaddedTrieNode_Node s"
| "nd_prefix (NW_LockFreeTrieNode s) = n_prefix LockFreeTrieNode_Node s"
| "nd_prefix (NW_NormalRadixNode s) = n_prefix NormalRadixNode_Node s"
| "nd_prefix (NW_AtomicRadixNode s) = n_prefix AtomicRadixNode_Node s"
| "nd_prefix (NW_PaddedRadixNode s) = n_prefix PaddedRadixNode_Node s"
| "nd_prefix (NW_LockFreeRadixNode s) = n_prefix LockFreeRadixNode_Node s"

fun nd_set_left :: "'n NodeWrapper option \<Rightarrow> 'n NodeWrapper \<Rightarrow> 'n NodeWrapper" where
  "nd_set_left c (NW_NormalTrieNode s) = NW_NormalTrieNode (n_set_left NormalTrieNode_Node c s)"
| "nd_set_left c (NW_AtomicTrieNode s) = NW_AtomicTrieNode (n_set_left AtomicTrieNode_Node c s)"
| "nd_set_left c (NW_PaddedTrieNode s) = NW_PaddedTrieNode (n_set_left PaddedTrieNode_Node c s)"
| "nd_set_left c (NW_LockFreeTrieNode s) = NW_LockFreeTrieNode (n_set_left LockFreeTrieNode_Node c s)"
| "nd_set_left c (NW_NormalRadixNode s) = NW_NormalRadixNode (n_set_left NormalRadixNode_Node c s)"
| "nd_set_left c (NW_AtomicRadixNode s) = NW_AtomicRadixNode (n_set_left AtomicRadixNode_Node c s)"
| "nd_set_left c (NW_PaddedRadixNode s) = NW_PaddedRadixNode (n_set_left PaddedRadixNode_Node c s)"
| "nd_set_left c (NW_LockFreeRadixNode s) = NW_LockFreeRadixNode (n_set_left LockFreeRadixNode_Node c s)"

fun nd_set_right :: "'n NodeWrapper option \<Rightarrow> 'n NodeWrapper \<Rightarrow> 'n NodeWrapper" where
  "nd_set_right c (NW_NormalTrieNode s) = NW_NormalTrieNode (n_set_right NormalTrieNode_Node c s)"
| "nd_set_right c (NW_AtomicTrieNode s) = NW_AtomicTrieNode (n_set_right AtomicTrieNode_Node c s)"
| "nd_set_right c (NW_PaddedTrieNode s) = NW_PaddedTrieNode (n_set_right PaddedTrieNode_Node c s)"
| "nd_set_right c (NW_LockFreeTrieNode s) = NW_LockFreeTrieNode (n_set_right LockFreeTrieNode_Node c s)"
| "nd_set_right c (NW_NormalRadixNode s) = NW_NormalRadixNode (n_set_right NormalRadixNode_Node c s)"
| "nd_set_right c (NW_AtomicRadixNode s) = NW_AtomicRadixNode (n_set_right AtomicRadixNode_Node c s)"
| "nd_set_right c (NW_PaddedRadixNode s) = NW_PaddedRadixNode (n_set_right PaddedRadixNode_Node c s)"
| "nd_set_right c (NW_LockFreeRadixNode s) = NW_LockFreeRadixNode (n_set_right LockFreeRadixNode_Node c s)"

fun nd_set_metadata :: "Metadata \<Rightarrow> 'n NodeWrapper \<Rightarrow> 'n NodeWrapper" where
  "nd_set_metadata m (NW_NormalTrieNode s) = NW_NormalTrieNode (n_set_metadata NormalTrieNode_Node m s)"
| "nd_set_metadata m (NW_AtomicTrieNode s) = NW_AtomicTrieNode (n_set_metadata AtomicTrieNode_Node m s)"
| "nd_set_metadata m (NW_PaddedTrieNode s) = NW_PaddedTrieNode (n_set_metadata PaddedTrieNode_Node m s)"
| "nd_set_metadata m (NW_LockFreeTrieNode s) = NW_LockFreeTrieNode (n_set_metadata LockFreeTrieNode_Node m s)"
| "nd_set_metadata m (NW_NormalRadixNode s) = NW_NormalRadixNode (n_set_metadata NormalRadixNode_Node m s)"
| "nd_set_metadata m (NW_AtomicRadixNode s) = NW_AtomicRadixNode (n_set_metadata AtomicRadixNode_Node m s)"
| "nd_set_metadata m (NW_PaddedRadixNode s) = NW_PaddedRadixNode (n_set_metadata PaddedRadixNode_Node m s)"
| "nd_set_metadata m (NW_LockFreeRadixNode s) = NW_LockFreeRadixNode (n_set_metadata LockFreeRadixNode_Node m s)"

fun nd_clear_metadata :: "'n NodeWrapper \<Rightarrow> 'n NodeWrapper" where
  "nd_clear_metadata (NW_NormalTrieNode s) = NW_NormalTrieNode (n_clear_metadata NormalTrieNode_Node s)"
| "nd_clear_metadata (NW_AtomicTrieNode s) = NW_AtomicTrieNode (n_clear_metadata AtomicTrieNode_Node s)"
| "nd_clear_metadata (NW_PaddedTrieNode s) = NW_PaddedTrieNode (n_clear_metadata PaddedTrieNode_Node s)"
| "nd_clear_metadata (NW_LockFreeTrieNode s) = NW_LockFreeTrieNode (n_clear_metadata LockFreeTrieNode_Node s)"
| "nd_clear_metadata (NW_NormalRadixNode s) = NW_NormalRadixNode (n_clear_metadata NormalRadixNode_Node s)"
| "nd_clear_metadata (NW_AtomicRadixNode s) = NW_AtomicRadixNode (n_clear_metadata AtomicRadixNode_Node s)"
| "nd_clear_metadata (NW_PaddedRadixNode s) = NW_PaddedRadixNode (n_clear_metadata PaddedRadixNode_Node s)"
| "nd_clear_metadata (NW_LockFreeRadixNode s) = NW_LockFreeRadixNode (n_clear_metadata LockFreeRadixNode_Node s)"

fun nd_set_bit :: "u8 \<Rightarrow> 'n NodeWrapper \<Rightarrow> 'n NodeWrapper" where
  "nd_set_bit b (NW_NormalTrieNode s) = NW_NormalTrieNode (n_set_bit NormalTrieNode_Node b s)"
| "nd_set_bit b (NW_AtomicTrieNode s) = NW_AtomicTrieNode (n_set_bit AtomicTrieNode_Node b s)"
| "nd_set_bit b (NW_PaddedTrieNode s) = NW_PaddedTrieNode (n_set_bit PaddedTrieNode_Node b s)"
| "nd_set_bit b (NW_LockFreeTrieNode s) = NW_LockFreeTrieNode (n_set_bit LockFreeTrieNode_Node b s)"
| "nd_set_bit b (NW_NormalRadixNode s) = NW_NormalRadixNode (n_set_bit NormalRadixNode_Node b s)"
| "nd_set_bit b (NW_AtomicRadixNode s) = NW_AtomicRadixNode (n_set_bit AtomicRadixNode_Node b s)"
| "nd_set_bit b (NW_PaddedRadixNode s) = NW_PaddedRadixNode (n_set_bit PaddedRadixNode_Node b s)"
| "nd_set_bit b (NW_LockFreeRadixNode s) = NW_LockFreeRadixNode (n_set_bit LockFreeRadixNode_Node b s)"

fun nd_set_prefix :: "'n \<Rightarrow> 'n NodeWrapper \<Rightarrow> 'n NodeWrapper" where
  "nd_set_prefix p (NW_NormalTrieNode s) = NW_NormalTrieNode (n_set_prefix NormalTrieNode_Node p s)"
| "nd_set_prefix p (NW_AtomicTrieNode s) = NW_AtomicTrieNode (n_set_prefix AtomicTrieNode_Node p s)"
| "nd_set_prefix p (NW_PaddedTrieNode s) = NW_PaddedTrieNode (n_set_prefix PaddedTrieNode_Node p s)"
| "nd_set_prefix p (NW_LockFreeTrieNode s) = NW_LockFreeTrieNode (n_set_prefix LockFreeTrieNode_Node p s)"
| "nd_set_prefix p (NW_NormalRadixNode s) = NW_NormalRadixNode (n_set_prefix NormalRadixNode_Node p s)"
| "nd_set_prefix p (NW_AtomicRadixNode s) = NW_AtomicRadixNode (n_set_prefix AtomicRadixNode_Node p s)"
| "nd_set_prefix p (NW_PaddedRadixNode s) = NW_PaddedRadixNode (n_set_prefix PaddedRadixNode_Node p s)"
| "nd_set_prefix p (NW_LockFreeRadixNode s) = NW_LockFreeRadixNode (n_set_prefix LockFreeRadixNode_Node p s)"

fun nd_edge_bits :: "'n NodeWrapper \<Rightarrow> u8 list option" where
  "nd_edge_bits (NW_NormalTrieNode s) = n_edge_bits NormalTrieNode_Node s"
| "nd_edge_bits (NW_AtomicTrieNode s) = n_edge_bits AtomicTrieNode_Node s"
| "nd_edge_bits (NW_PaddedTrieNode s) = n_edge_bits PaddedTrieNode_Node s"
| "nd_edge_bits (NW_LockFreeTrieNode s) = n_edge_bits LockFreeTrieNode_Node s"
| "nd_edge_bits (NW_NormalRadixNode s) = n_edge_bits NormalRadixNode_Node s"
| "nd_edge_bits (NW_AtomicRadixNode s) = n_edge_bits AtomicRadixNode_Node s"
| "nd_edge_bits (NW_PaddedRadixNode s) = n_edge_bits PaddedRadixNode_Node s"
| "nd_edge_bits (NW_LockFreeRadixNode s) = n_edge_bits LockFreeRadixNode_Node s"

fun nd_edge_len :: "'n NodeWrapper \<Rightarrow> nat option" where
  "nd_edge_len (NW_NormalTrieNode s) = n_edge_len NormalTrieNode_Node s"
| "nd_edge_len (NW_AtomicTrieNode s) = n_edge_len AtomicTrieNode_Node s"
| "nd_edge_len (NW_PaddedTrieNode s) = n_edge_len PaddedTrieNode_Node s"
| "nd_edge_len (NW_LockFreeTrieNode s) = n_edge_len LockFreeTrieNode_Node s"
| "nd_edge_len (NW_NormalRadixNode s) = n_edge_len NormalRadixNode_Node s"
| "nd_edge_len (NW_AtomicRadixNode s) = n_edge_len AtomicRadixNode_Node s"
| "nd_edge_len (NW_PaddedRadixNode s) = n_edge_len PaddedRadixNode_Node s"
| "nd_edge_len (NW_LockFreeRadixNode s) = n_edge_len LockFreeRadixNode_Node s"

fun nd_set_edge :: "u8 list \<Rightarrow> nat \<Rightarrow> 'n NodeWrapper \<Rightarrow> 'n NodeWrapper option" where
  "nd_set_edge b l (NW_NormalTrieNode s) = map_option NW_NormalTrieNode (n_set_edge NormalTrieNode_Node b l s)"
| "nd_set_edge b l (NW_AtomicTrieNode s) = map_option NW_AtomicTrieNode (n_set_edge AtomicTrieNode_Node b l s)"
| "nd_set_edge b l (NW_PaddedTrieNode s) = map_option NW_PaddedTrieNode (n_set_edge PaddedTrieNode_Node b l s)"
| "nd_set_edge b l (NW_LockFreeTrieNode s) = map_option NW_LockFreeTrieNode (n_set_edge LockFreeTrieNode_Node b l s)"
| "nd_set_edge b l (NW_NormalRadixNode s) = map_option NW_NormalRadixNode (n_set_edge NormalRadixNode_Node b l s)"
| "nd_set_edge b l (NW_AtomicRadixNode s) = map_option NW_AtomicRadixNode (n_set_edge AtomicRadixNode_Node b l s)"
| "nd_set_edge b l (NW_PaddedRadixNode s) = map_option NW_PaddedRadixNode (n_set_edge PaddedRadixNode_Node b l s)"
| "nd_set_edge b l (NW_LockFreeRadixNode s) = map_option NW_LockFreeRadixNode (n_set_edge LockFreeRadixNode_Node b l s)"

definition NodeWrapper_Node :: "('n NodeWrapper, 'n NodeWrapper, 'n) Node" where
  "NodeWrapper_Node = \<lparr>n_bit = nd_bit, n_left = nd_left, n_right = nd_right, n_metadata = nd_metadata, n_prefix = nd_prefix, n_set_left = nd_set_left, n_set_right = nd_set_right, n_set_metadata = nd_set_metadata, n_clear_metadata = nd_clear_metadata, n_set_bit = nd_set_bit, n_set_prefix = nd_set_prefix, n_edge_bits = nd_edge_bits, n_edge_len = nd_edge_len, n_set_edge = nd_set_edge\<rparr>"

fun NodeBuilder_build :: "NodeVariant \<Rightarrow> 'n NodeWrapper" where
  "NodeBuilder_build NV_NormalTrieNode = NW_NormalTrieNode NormalTrieNode_new"
| "NodeBuilder_build NV_AtomicTrieNode = NW_AtomicTrieNode AtomicTrieNode_new"
| "NodeBuilder_build NV_PaddedTrieNode = NW_PaddedTrieNode PaddedTrieNode_new"
| "NodeBuilder_build NV_LockFreeTrieNode = NW_LockFreeTrieNode LockFreeTrieNode_new"
| "NodeBuilder_build NV_NormalRadixNode = NW_NormalRadixNode NormalRadixNode_new"
| "NodeBuilder_build NV_AtomicRadixNode = NW_AtomicRadixNode AtomicRadixNode_new"
| "NodeBuilder_build NV_PaddedRadixNode = NW_PaddedRadixNode PaddedRadixNode_new"
| "NodeBuilder_build NV_LockFreeRadixNode = NW_LockFreeRadixNode LockFreeRadixNode_new"

definition NodeBuilder_build_leaf :: "NodeVariant \<Rightarrow> 'n \<Rightarrow> Metadata \<Rightarrow> 'n NodeWrapper" where
  "NodeBuilder_build_leaf v network md =
     (let node = NodeBuilder_build v; node = nd_set_prefix network node in
      nd_set_metadata md node)"

section \<open>Laws of the wrapper\<close>

lemma nd_set_left_laws [simp, node_laws]:
  "nd_left (nd_set_left c w) = c"
  "nd_right (nd_set_left c w) = nd_right w"
  "nd_metadata (nd_set_left c w) = nd_metadata w"
  "nd_prefix (nd_set_left c w) = nd_prefix w"
  "nd_edge_bits (nd_set_left c w) = nd_edge_bits w"
  "nd_edge_len (nd_set_left c w) = nd_edge_len w"
  by (cases w; simp add: ntn.set_left atn.set_left ptn.set_left ltn.set_left nrn.set_left arn.set_left prn.set_left lrn.set_left)+

lemma nd_set_right_laws [simp, node_laws]:
  "nd_right (nd_set_right c w) = c"
  "nd_left (nd_set_right c w) = nd_left w"
  "nd_metadata (nd_set_right c w) = nd_metadata w"
  "nd_prefix (nd_set_right c w) = nd_prefix w"
  "nd_edge_bits (nd_set_right c w) = nd_edge_bits w"
  "nd_edge_len (nd_set_right c w) = nd_edge_len w"
  by (cases w; simp add: ntn.set_right atn.set_right ptn.set_right ltn.set_right nrn.set_right arn.set_right prn.set_right lrn.set_right)+

lemma nd_set_metadata_laws [simp, node_laws]:
  "nd_metadata (nd_set_metadata m w) = Some m"
  "nd_left (nd_set_metadata m w) = nd_left w"
  "nd_right (nd_set_metadata m w) = nd_right w"
  "nd_prefix (nd_set_metadata m w) = nd_prefix w"
  "nd_edge_bits (nd_set_metadata m w) = nd_edge_bits w"
  "nd_edge_len (nd_set_metadata m w) = nd_edge_len w"
  by (cases w; simp add: ntn.set_metadata atn.set_metadata ptn.set_metadata ltn.set_metadata nrn.set_metadata arn.set_metadata prn.set_metadata lrn.set_metadata)+

lemma nd_clear_metadata_laws [simp, node_laws]:
  "nd_metadata (nd_clear_metadata w) = None"
  "nd_left (nd_clear_metadata w) = nd_left w"
  "nd_right (nd_clear_metadata w) = nd_right w"
  "nd_prefix (nd_clear_metadata w) = nd_prefix w"
  "nd_edge_bits (nd_clear_metadata w) = nd_edge_bits w"
  "nd_edge_len (nd_clear_metadata w) = nd_edge_len w"
  by (cases w; simp add: ntn.clear_metadata atn.clear_metadata ptn.clear_metadata ltn.clear_metadata nrn.clear_metadata arn.clear_metadata prn.clear_metadata lrn.clear_metadata)+

lemma nd_set_prefix_laws [simp, node_laws]:
  "nd_prefix (nd_set_prefix p w) = Some p"
  "nd_left (nd_set_prefix p w) = nd_left w"
  "nd_right (nd_set_prefix p w) = nd_right w"
  "nd_metadata (nd_set_prefix p w) = nd_metadata w"
  "nd_edge_bits (nd_set_prefix p w) = nd_edge_bits w"
  "nd_edge_len (nd_set_prefix p w) = nd_edge_len w"
  by (cases w; simp add: ntn.set_prefix atn.set_prefix ptn.set_prefix ltn.set_prefix nrn.set_prefix arn.set_prefix prn.set_prefix lrn.set_prefix)+

interpretation nw: node_api NodeWrapper_Node
  by unfold_locales (simp_all add: NodeWrapper_Node_def)

text \<open>Whether the wrapped node is one of the compressed variants.\<close>

fun is_radix :: "'n NodeWrapper \<Rightarrow> bool" where
  "is_radix (NW_NormalRadixNode _) = True"
| "is_radix (NW_AtomicRadixNode _) = True"
| "is_radix (NW_PaddedRadixNode _) = True"
| "is_radix (NW_LockFreeRadixNode _) = True"
| "is_radix _ = False"

lemma is_radix_writers [simp, node_laws]:
  "is_radix (nd_set_left c w) = is_radix w"
  "is_radix (nd_set_right c w) = is_radix w"
  "is_radix (nd_set_metadata m w) = is_radix w"
  "is_radix (nd_clear_metadata w) = is_radix w"
  "is_radix (nd_set_prefix p w) = is_radix w"
  by (cases w; simp)+

lemma nd_set_edge_radix:
  assumes "is_radix w"
  obtains w' where "nd_set_edge bits len w = Some w'" "is_radix w'"
    "nd_edge_bits w' = Some bits" "nd_edge_len w' = Some len"
    "nd_left w' = nd_left w" "nd_right w' = nd_right w"
    "nd_metadata w' = nd_metadata w" "nd_prefix w' = nd_prefix w"
proof -
  have "\<exists>w'. nd_set_edge bits len w = Some w' \<and> is_radix w'
    \<and> nd_edge_bits w' = Some bits \<and> nd_edge_len w' = Some len
    \<and> nd_left w' = nd_left w \<and> nd_right w' = nd_right w
    \<and> nd_metadata w' = nd_metadata w \<and> nd_prefix w' = nd_prefix w"
    using assms
  proof (cases w)
    case (NW_NormalRadixNode s)
    with nrn.set_edge [of bits len s] show ?thesis by auto
  next
    case (NW_AtomicRadixNode s)
    with arn.set_edge [of bits len s] show ?thesis by auto
  next
    case (NW_PaddedRadixNode s)
    with prn.set_edge [of bits len s] show ?thesis by auto
  next
    case (NW_LockFreeRadixNode s)
    with lrn.set_edge [of bits len s] show ?thesis by auto
  qed auto
  with that show thesis by blast
qed

lemma nd_set_edge_trie: "\<not> is_radix w \<Longrightarrow> nd_set_edge bits len w = None"
  by (cases w) (simp_all add: ntn.set_edge_panics atn.set_edge_panics ptn.set_edge_panics
      ltn.set_edge_panics)

lemma nd_left_size [termination_simp]: "nd_left w = Some c \<Longrightarrow> size c < size w"
  by (cases w; rename_tac s, case_tac s)
     (auto simp: NormalTrieNode_Node_def AtomicTrieNode_Node_def PaddedTrieNode_Node_def
       LockFreeTrieNode_Node_def NormalRadixNode_Node_def AtomicRadixNode_Node_def
       PaddedRadixNode_Node_def LockFreeRadixNode_Node_def
       dest: map_of_size_list [where f = size])

lemma nd_right_size [termination_simp]: "nd_right w = Some c \<Longrightarrow> size c < size w"
  by (cases w; rename_tac s, case_tac s)
     (auto simp: NormalTrieNode_Node_def AtomicTrieNode_Node_def PaddedTrieNode_Node_def
       LockFreeTrieNode_Node_def NormalRadixNode_Node_def AtomicRadixNode_Node_def
       PaddedRadixNode_Node_def LockFreeRadixNode_Node_def
       dest: map_of_size_list [where f = size])

text \<open>A freshly built node is empty.\<close>

lemma NodeBuilder_build_empty [simp]:
  "nd_left (NodeBuilder_build v) = None"
  "nd_right (NodeBuilder_build v) = None"
  "nd_metadata (NodeBuilder_build v) = None"
  "nd_prefix (NodeBuilder_build v) = None"
  by (cases v; simp add: NormalTrieNode_Node_def AtomicTrieNode_Node_def PaddedTrieNode_Node_def
       LockFreeTrieNode_Node_def NormalRadixNode_Node_def AtomicRadixNode_Node_def
       PaddedRadixNode_Node_def LockFreeRadixNode_Node_def
       NormalTrieNode_new_def AtomicTrieNode_new_def PaddedTrieNode_new_def
       LockFreeTrieNode_new_def NormalRadixNode_new_def AtomicRadixNode_new_def
       PaddedRadixNode_new_def LockFreeRadixNode_new_def)+

lemma is_radix_build [simp]: "is_radix (NodeBuilder_build v) = is_compressed v"
  by (cases v) simp_all

lemma NodeBuilder_build_edge [simp]:
  assumes "is_compressed v"
  shows "nd_edge_bits (NodeBuilder_build v) = Some (replicate 16 0)"
    and "nd_edge_len (NodeBuilder_build v) = Some 0"
  using assms
  by (cases v; simp add: NormalRadixNode_Node_def AtomicRadixNode_Node_def
       PaddedRadixNode_Node_def LockFreeRadixNode_Node_def
       NormalRadixNode_new_def AtomicRadixNode_new_def
       PaddedRadixNode_new_def LockFreeRadixNode_new_def)+

end
