(* ===== verification/Lpm.thy ===== *)
theory Lpm
  imports Nodes
begin

text \<open>
  Longest-prefix matching (\<open>lpm.rs\<close>): the reference search over a sequence of entries,
  the bit reader \<open>get_bit\<close>, the walk over a binary tree of nodes that
  \<open>UncompressedTree::lookup\<close> uses, and the helpers on binary strings. The lemmas say
  which entry each search returns; the last section shows that the tree walk and the
  reference search agree on a well-filed tree.
\<close>

section \<open>Definitions\<close>

definition network_contains_ip :: "'n ipnet_ops \<Rightarrow> 'n \<Rightarrow> IpAddr \<Rightarrow> bool" where
  "network_contains_ip N network ip =
     (case (net_ip N network, ip) of
        (V4 _, V4 _) \<Rightarrow> net_contains N network ip
      | (V6 _, V6 _) \<Rightarrow> net_contains N network ip
      | _ \<Rightarrow> False)"

text \<open>The loop of \<open>longest_prefix_match_entries\<close>; \<open>best\<close> is the entry kept so far.\<close>

fun lpm_entries_loop ::
  "'n ipnet_ops \<Rightarrow> IpAddr \<Rightarrow> ('n \<times> Metadata) option \<Rightarrow> ('n \<times> Metadata) list
     \<Rightarrow> ('n \<times> Metadata) option" where
  "lpm_entries_loop N ip best [] = best"
| "lpm_entries_loop N ip best ((network, md) # rest) =
     (if \<not> network_contains_ip N network ip then lpm_entries_loop N ip best rest
      else (case best of
          Some (best_network, best_md) \<Rightarrow>
            (if net_prefix N network \<le> net_prefix N best_network
             then lpm_entries_loop N ip best rest
             else lpm_entries_loop N ip (Some (network, md)) rest)
        | None \<Rightarrow> lpm_entries_loop N ip (Some (network, md)) rest))"

definition longest_prefix_match_entries ::
  "'n ipnet_ops \<Rightarrow> ('n \<times> Metadata) list \<Rightarrow> IpAddr \<Rightarrow> Metadata option" where
  "longest_prefix_match_entries N entries ip = map_option snd (lpm_entries_loop N ip None entries)"

definition LPM_lookup :: "'n ipnet_ops \<Rightarrow> ('n \<times> Metadata) list \<Rightarrow> IpAddr \<Rightarrow> Metadata option" where
  "LPM_lookup N entries ip = longest_prefix_match_entries N entries ip"

text \<open>The match on a single node, and its alias \<open>longest_prefix_match_with_lcp\<close>.\<close>

definition longest_prefix_match ::
  "'n ipnet_ops \<Rightarrow> 'n NodeWrapper \<Rightarrow> IpAddr \<Rightarrow> Metadata option" where
  "longest_prefix_match N root ip =
     (case nd_prefix root of
        Some pfx \<Rightarrow> (if \<not> network_contains_ip N pfx ip then None else nd_metadata root)
      | None \<Rightarrow> nd_metadata root)"

definition longest_prefix_match_with_lcp ::
  "'n ipnet_ops \<Rightarrow> 'n NodeWrapper \<Rightarrow> IpAddr \<Rightarrow> Metadata option" where
  "longest_prefix_match_with_lcp N root ip = longest_prefix_match N root ip"

text \<open>Rust's \<open>{:0w b}\<close>: the binary digits of a number, padded with zeros to width \<open>w\<close>.\<close>

definition bin_digit :: "bool \<Rightarrow> char" where
  "bin_digit b = (if b then CHR ''1'' else CHR ''0'')"

fun bin_digits :: "nat \<Rightarrow> string" where
  "bin_digits n = (if n < 2 then [bin_digit (n = 1)] else bin_digits (n div 2) @ [bin_digit (odd n)])"

declare bin_digits.simps [simp del]

definition fmt_bin :: "nat \<Rightarrow> nat \<Rightarrow> string" where
  "fmt_bin w n = (let ds = bin_digits n in replicate (w - length ds) (CHR ''0'') @ ds)"

text \<open>\<open>Ipv6Addr::segments\<close>: eight 16-bit groups, most significant first.\<close>

definition segments :: "u128 \<Rightarrow> u16 list" where
  "segments a = map (\<lambda>i. ucast (drop_bit (16 * (7 - i)) a)) [0..<8]"

fun ip_to_binary_string :: "IpAddr \<Rightarrow> string" where
  "ip_to_binary_string (V4 a) = concat (map (\<lambda>octet. fmt_bin 8 (unat octet)) (octets (V4 a)))"
| "ip_to_binary_string (V6 a) = concat (map (\<lambda>segment. fmt_bin 16 (unat segment)) (segments a))"

text \<open>The loop of \<open>longest_common_prefix_len\<close>: advance while the bytes agree.\<close>

function lcp_loop :: "'a list \<Rightarrow> 'a list \<Rightarrow> nat \<Rightarrow> nat \<Rightarrow> nat" where
  "lcp_loop left right limit index =
     (if index < limit \<and> left ! index = right ! index
      then lcp_loop left right limit (index + 1) else index)"
  by pat_completeness auto
termination
  by (relation "measure (\<lambda>(left, right, limit, index). limit - index)") auto

declare lcp_loop.simps [simp del]

definition longest_common_prefix_len :: "string \<Rightarrow> string \<Rightarrow> nat" where
  "longest_common_prefix_len left right =
     lcp_loop left right (min (length left) (length right)) 0"

definition get_bit :: "IpAddr \<Rightarrow> nat \<Rightarrow> u8" where
  "get_bit ip bit_pos =
     (let ip_bytes = octets ip; byte_idx = bit_pos div 8 in
      if byte_idx \<ge> length ip_bytes then 0
      else (let bit_idx = 7 - (bit_pos mod 8) in drop_bit bit_idx (ip_bytes ! byte_idx) AND 1))"

text \<open>The check at one node of \<open>longest_prefix_match_binary\<close>.\<close>

definition node_match ::
  "'n ipnet_ops \<Rightarrow> IpAddr \<Rightarrow> 'n NodeWrapper \<Rightarrow> Metadata option \<Rightarrow> Metadata option" where
  "node_match N ip node best =
     (case nd_prefix node of
        Some pfx \<Rightarrow>
          (if network_contains_ip N pfx ip
           then (case nd_metadata node of Some meta \<Rightarrow> Some meta | None \<Rightarrow> best)
           else best)
      | None \<Rightarrow> best)"

definition next_node :: "IpAddr \<Rightarrow> nat \<Rightarrow> 'n NodeWrapper \<Rightarrow> 'n NodeWrapper option" where
  "next_node ip depth node = (if get_bit ip depth = 0 then nd_left node else nd_right node)"

lemma next_node_size: "next_node ip depth node = Some c \<Longrightarrow> size c < size node"
  by (auto simp: next_node_def nd_left_size nd_right_size split: if_splits)

function lpm_binary_loop ::
  "'n ipnet_ops \<Rightarrow> IpAddr \<Rightarrow> nat \<Rightarrow> Metadata option \<Rightarrow> 'n NodeWrapper option
     \<Rightarrow> Metadata option" where
  "lpm_binary_loop N ip depth best None = best"
| "lpm_binary_loop N ip depth best (Some node) =
     lpm_binary_loop N ip (depth + 1) (node_match N ip node best) (next_node ip depth node)"
  by pat_completeness auto
termination
  by (relation "measure (\<lambda>(N, ip, depth, best, cur). case cur of None \<Rightarrow> 0 | Some w \<Rightarrow> Suc (size w))")
     (auto simp: next_node_size split: option.split)

definition longest_prefix_match_binary ::
  "'n ipnet_ops \<Rightarrow> 'n NodeWrapper \<Rightarrow> IpAddr \<Rightarrow> Metadata option" where
  "longest_prefix_match_binary N root ip =
     (let best_match = node_match N ip root None; current_arc = next_node ip 0 root in
      lpm_binary_loop N ip 1 best_match current_arc)"

section \<open>Bits of an address\<close>

lemma get_bit_of_bool: "get_bit ip p = of_bool (bytes_bit (octets ip) p)"
  by (auto simp: get_bit_def bytes_bit_def Let_def drop_bit_and_one)

lemma get_bit_eq_0 [simp]: "get_bit ip p = 0 \<longleftrightarrow> \<not> bytes_bit (octets ip) p"
  by (simp add: get_bit_of_bool)

lemma get_bit_ip_bits: "p < ip_width ip \<Longrightarrow> get_bit ip p = of_bool (ip_bits ip ! p)"
  by (simp add: get_bit_of_bool ip_bits_nth)

lemma get_bit_beyond: "ip_width ip \<le> p \<Longrightarrow> get_bit ip p = 0"
  by (simp add: bytes_bit_octets_beyond)

section \<open>Binary strings\<close>

lemma length_bin_digits: "n < 2 ^ w \<Longrightarrow> 0 < w \<Longrightarrow> length (bin_digits n) \<le> w"
proof (induction n arbitrary: w rule: bin_digits.induct)
  case (1 n)
  show ?case
  proof (cases "n < 2")
    case True
    with "1.prems" show ?thesis by (simp add: bin_digits.simps [of n])
  next
    case False
    with "1.prems" obtain v where w: "w = Suc v" and v: "0 < v"
      by (cases w; cases "w - 1") auto
    from "1.prems" w have "n div 2 < 2 ^ v" by auto
    with "1.IH" False v have "length (bin_digits (n div 2)) \<le> v" by blast
    with False w show ?thesis by (simp add: bin_digits.simps [of n])
  qed
qed

lemma fmt_bin_bits:
  "n < 2 ^ w \<Longrightarrow> 0 < w \<Longrightarrow> fmt_bin w n = map (\<lambda>i. bin_digit (bit n (w - 1 - i))) [0..<w]"
proof (induction w arbitrary: n)
  case (Suc v)
  show ?case
  proof (cases "n < 2")
    case True
    have "fmt_bin (Suc v) n = replicate v (CHR ''0'') @ [bin_digit (n = 1)]"
      using True by (simp add: fmt_bin_def bin_digits.simps [of n])
    moreover have "map (\<lambda>i. bin_digit (bit n (Suc v - 1 - i))) [0..<Suc v]
      = map (\<lambda>i. if i < v then CHR ''0'' else bin_digit (n = 1)) [0..<Suc v]"
      using True
      by (intro map_cong refl) (auto simp: bin_digit_def bit_Suc_0_iff less_2_cases_iff)
    moreover have "map (\<lambda>i. if i < v then CHR ''0'' else bin_digit (n = 1)) [0..<Suc v]
      = replicate v (CHR ''0'') @ [bin_digit (n = 1)]"
      by (auto intro: nth_equalityI simp: nth_append)
    ultimately show ?thesis by metis
  next
    case False
    with Suc.prems have v: "0 < v" by (cases v) auto
    from Suc.prems have lt: "n div 2 < 2 ^ v" by auto
    have ds: "bin_digits n = bin_digits (n div 2) @ [bin_digit (odd n)]"
      using False by (simp add: bin_digits.simps [of n])
    have "fmt_bin (Suc v) n = fmt_bin v (n div 2) @ [bin_digit (odd n)]"
      using length_bin_digits [OF lt v] by (simp add: fmt_bin_def ds Suc_diff_le Let_def)
    also have "\<dots> = map (\<lambda>i. bin_digit (bit (n div 2) (v - 1 - i))) [0..<v] @ [bin_digit (odd n)]"
      by (simp add: Suc.IH [OF lt v])
    also have "\<dots> = map (\<lambda>i. bin_digit (bit n (Suc v - 1 - i))) [0..<Suc v]"
      by (auto intro!: nth_equalityI simp: nth_append less_Suc_eq bit_0 Suc_diff_Suc simp flip: bit_Suc)
    finally show ?thesis .
  qed
qed simp

lemma concat_map_chunks:
  "0 < w \<Longrightarrow> concat (map (\<lambda>i. map (f i) [0..<w]) [0..<k]) = map (\<lambda>p. f (p div w) (p mod w)) [0..<k * w]"
proof (induction k)
  case (Suc k)
  have "[0..<Suc k * w] = [0..<k * w] @ map (\<lambda>i. i + k * w) [0..<w]"
    using upt_add_eq_append [of 0 "k * w" w] by (simp add: map_add_upt add.commute)
  with Suc show ?case by (simp add: o_def)
qed simp

lemma fmt_bin_word:
  "w = LENGTH('a::len) \<Longrightarrow>
     fmt_bin w (unat (x :: 'a word)) = map (\<lambda>j. bin_digit (bit x (w - 1 - j))) [0..<w]"
  using unsigned_less [of x, where 'a = nat] by (simp add: fmt_bin_bits bit_unsigned_iff)

lemma concat_map_nth: "length xs = k \<Longrightarrow> concat (map f xs) = concat (map (\<lambda>i. f (xs ! i)) [0..<k])"
  by (metis map_nth map_map comp_apply map_cong)

lemma ip_to_binary_string_bits: "ip_to_binary_string ip = map bin_digit (ip_bits ip)"
proof (cases ip)
  case (V4 a)
  have f: "fmt_bin 8 (unat x) = map (\<lambda>j. bin_digit (bit x (8 - 1 - j))) [0..<8]" for x :: u8
    by (rule fmt_bin_word) simp
  have "ip_to_binary_string ip
      = concat (map (\<lambda>i. map (\<lambda>j. bin_digit (bit (octets ip ! i) (8 - 1 - j))) [0..<8]) [0..<4])"
    using V4 by (simp only: ip_to_binary_string.simps f concat_map_nth [of "be_bytes 4 a" 4]
        octets.simps length_be_bytes)
  also have "\<dots> = map (\<lambda>p. bin_digit (bit (octets ip ! (p div 8)) (8 - 1 - p mod 8))) [0..<4 * 8]"
    by (rule concat_map_chunks) simp
  also have "\<dots> = map bin_digit (ip_bits ip)"
    using V4 by (intro nth_equalityI) (auto simp: ip_bits_nth bytes_bit_def div_less_iff_less_mult)
  finally show ?thesis .
next
  case (V6 a)
  have f: "fmt_bin 16 (unat x) = map (\<lambda>j. bin_digit (bit x (16 - 1 - j))) [0..<16]" for x :: u16
    by (rule fmt_bin_word) simp
  have "length (segments a) = 8" by (simp add: segments_def)
  with V6 have "ip_to_binary_string ip
      = concat (map (\<lambda>i. map (\<lambda>j. bin_digit (bit (segments a ! i) (16 - 1 - j))) [0..<16]) [0..<8])"
    by (simp only: ip_to_binary_string.simps f concat_map_nth [of "segments a" 8])
  also have "\<dots> = map (\<lambda>p. bin_digit (bit (segments a ! (p div 16)) (16 - 1 - p mod 16))) [0..<8 * 16]"
    by (rule concat_map_chunks) simp
  also have "\<dots> = map bin_digit (ip_bits ip)"
  proof (intro nth_equalityI)
    fix p assume "p < length (map (\<lambda>p. bin_digit (bit (segments a ! (p div 16)) (16 - 1 - p mod 16))) [0..<8 * 16])"
    then have p: "p < 128" by simp
    then have "16 * (7 - p div 16) + (15 - p mod 16) = 127 - p"
      using div_mult_mod_eq [of p 16] by linarith
    moreover have "p div 16 < 8" using p by (simp add: div_less_iff_less_mult)
    then have "[0..<8] ! (p div 16) = p div 16" by (simp del: upt_Suc)
    moreover have "15 - p mod 16 < 16" by simp
    ultimately show "map (\<lambda>p. bin_digit (bit (segments a ! (p div 16)) (16 - 1 - p mod 16))) [0..<8 * 16] ! p
        = map bin_digit (ip_bits ip) ! p"
      using p V6 by (simp add: ip_bits_V6_nth segments_def bit_ucast_iff bit_drop_bit_eq del: upt_Suc)
  qed (simp add: V6)
  finally show ?thesis .
qed

lemma lcp_loop_drop:
  "limit = min (length left) (length right) \<Longrightarrow> index \<le> limit \<Longrightarrow>
     lcp_loop left right limit index = index + lcp_len (drop index left) (drop index right)"
proof (induction left right limit index rule: lcp_loop.induct)
  case (1 left right limit index)
  show ?case
  proof (cases "index < limit")
    case True
    with "1.prems" have "drop index left = left ! index # drop (Suc index) left"
      and "drop index right = right ! index # drop (Suc index) right"
      by (auto simp: Cons_nth_drop_Suc)
    moreover have "index + 1 \<le> limit" using True by simp
    ultimately show ?thesis
      using True "1.IH" [OF _ "1.prems"(1)] by (subst lcp_loop.simps) auto
  next
    case False
    with "1.prems" have "drop index left = [] \<or> drop index right = []" by auto
    with False show ?thesis by (auto simp: lcp_loop.simps [of left right limit index])
  qed
qed

lemma longest_common_prefix_len_lcp: "longest_common_prefix_len left right = lcp_len left right"
  by (simp add: longest_common_prefix_len_def lcp_loop_drop)

lemma lcp_len_bin_digits [simp]: "lcp_len (map bin_digit xs) (map bin_digit ys) = lcp_len xs ys"
  by (induction xs ys rule: lcp_len.induct) (auto simp: bin_digit_def)

section \<open>The reference search\<close>

text \<open>An entry the search may return: it contains the address and no entry that does has
  a longer prefix.\<close>

definition best_entry ::
  "'n ipnet_ops \<Rightarrow> IpAddr \<Rightarrow> ('n \<times> Metadata) set \<Rightarrow> 'n \<times> Metadata \<Rightarrow> bool" where
  "best_entry N ip E e \<longleftrightarrow> e \<in> E \<and> network_contains_ip N (fst e) ip
     \<and> (\<forall>n m. (n, m) \<in> E \<longrightarrow> network_contains_ip N n ip \<longrightarrow> net_prefix N n \<le> net_prefix N (fst e))"

lemma lpm_entries_loop_spec:
  assumes "\<And>e. best = Some e \<Longrightarrow> network_contains_ip N (fst e) ip"
  shows "case lpm_entries_loop N ip best es of
      None \<Rightarrow> best = None \<and> (\<forall>n m. (n, m) \<in> set es \<longrightarrow> \<not> network_contains_ip N n ip)
    | Some e \<Rightarrow> best_entry N ip (set es \<union> set_option best) e"
  using assms
proof (induction es arbitrary: best)
  case Nil
  then show ?case by (cases best) (auto simp: best_entry_def)
next
  case (Cons e rest)
  obtain n m where e: "e = (n, m)" by (cases e)
  consider "\<not> network_contains_ip N n ip"
    | "network_contains_ip N n ip" "best = None"
    | bn bm where "network_contains_ip N n ip" "best = Some (bn, bm)" "net_prefix N n \<le> net_prefix N bn"
    | bn bm where "network_contains_ip N n ip" "best = Some (bn, bm)" "\<not> net_prefix N n \<le> net_prefix N bn"
    by (metis option.exhaust surj_pair)
  then show ?case
  proof cases
    case 1
    with Cons.IH [of best] Cons.prems e show ?thesis
      by (cases "lpm_entries_loop N ip best rest") (auto simp: best_entry_def)
  next
    case 2
    with Cons.IH [of "Some e"] e show ?thesis
      by (cases "lpm_entries_loop N ip (Some e) rest") (auto simp: best_entry_def)
  next
    case 3
    with Cons.IH [of best] Cons.prems e show ?thesis
      by (cases "lpm_entries_loop N ip best rest") (fastforce simp: best_entry_def)+
  next
    case 4
    with Cons.IH [of "Some e"] Cons.prems e show ?thesis
      by (cases "lpm_entries_loop N ip (Some e) rest") (fastforce simp: best_entry_def)+
  qed
qed

lemma LPM_lookup_None_iff:
  "LPM_lookup N es ip = None \<longleftrightarrow> (\<forall>n m. (n, m) \<in> set es \<longrightarrow> \<not> network_contains_ip N n ip)"
  using lpm_entries_loop_spec [of None N ip es]
  by (auto simp: LPM_lookup_def longest_prefix_match_entries_def best_entry_def split: option.splits)

lemma LPM_lookup_SomeD:
  "LPM_lookup N es ip = Some m \<Longrightarrow> \<exists>n. best_entry N ip (set es) (n, m)"
  using lpm_entries_loop_spec [of None N ip es]
  by (auto simp: LPM_lookup_def longest_prefix_match_entries_def split: option.splits)

context ipnetwork
begin

lemma network_contains_ip_iff:
  "network_contains_ip N n ip \<longleftrightarrow> is_ipv4 ip = net_v4 N n \<and> prefix (net_bits N n) (ip_bits ip)"
  using net_network_family [of n]
  by (cases ip; cases "net_ip N n") (auto simp: network_contains_ip_def net_contains_prefix net_v4_def)

text \<open>Two containing networks with the same prefix length are filed under the same bits.\<close>

lemma contains_same_prefix:
  assumes "network_contains_ip N n ip" and "network_contains_ip N n' ip"
    and "net_prefix N n = net_prefix N n'"
  shows "net_bits N n = net_bits N n'"
proof -
  from assms(1,2) have "prefix (net_bits N n) (ip_bits ip)" "prefix (net_bits N n') (ip_bits ip)"
    by (simp_all add: network_contains_ip_iff)
  with assms(3) show ?thesis by (simp add: take_eq_prefix)
qed

end

section \<open>The walk over a tree\<close>

text \<open>The entry of a node: its prefix and metadata when both are set.\<close>

definition node_entry :: "'n NodeWrapper \<Rightarrow> ('n \<times> Metadata) option" where
  "node_entry w = (case (nd_prefix w, nd_metadata w) of (Some p, Some m) \<Rightarrow> Some (p, m) | _ \<Rightarrow> None)"

definition nd_child :: "bool \<Rightarrow> 'n NodeWrapper \<Rightarrow> 'n NodeWrapper option" where
  "nd_child b w = (if b then nd_right w else nd_left w)"

text \<open>The entry stored at the end of a bit path.\<close>

fun slot :: "'n NodeWrapper \<Rightarrow> bool list \<Rightarrow> ('n \<times> Metadata) option" where
  "slot w [] = node_entry w"
| "slot w (b # bs) = (case nd_child b w of None \<Rightarrow> None | Some c \<Rightarrow> slot c bs)"

lemma slot_Cons_iff:
  "slot w (b # bs) = Some e \<longleftrightarrow> (\<exists>c. nd_child b w = Some c \<and> slot c bs = Some e)"
  by (auto split: option.splits)

text \<open>All entries of a tree, and the trees whose entries sit under their own bits.\<close>

definition entries_of :: "'n NodeWrapper \<Rightarrow> ('n \<times> Metadata) set" where
  "entries_of w = {e. \<exists>bs. slot w bs = Some e}"

definition filed :: "'n ipnet_ops \<Rightarrow> 'n NodeWrapper \<Rightarrow> bool" where
  "filed N w \<longleftrightarrow> (\<forall>bs n m. slot w bs = Some (n, m) \<longrightarrow> net_bits N n = bs)"

lemma next_node_child: "next_node ip d w = nd_child (bytes_bit (octets ip) d) w"
  by (simp add: next_node_def nd_child_def)

lemma node_match_entry:
  "node_match N ip w best =
     (case node_entry w of
        Some (n, m) \<Rightarrow> if network_contains_ip N n ip then Some m else best
      | None \<Rightarrow> best)"
  by (auto simp: node_match_def node_entry_def split: option.splits)

definition path_bits :: "IpAddr \<Rightarrow> nat \<Rightarrow> nat \<Rightarrow> bool list" where
  "path_bits ip d k = map (bytes_bit (octets ip)) [d..<d + k]"

lemma path_bits_0 [simp]: "path_bits ip d 0 = []"
  by (simp add: path_bits_def)

lemma path_bits_Suc [simp]:
  "path_bits ip d (Suc k) = bytes_bit (octets ip) d # path_bits ip (Suc d) k"
  by (simp add: path_bits_def upt_conv_Cons del: upt_Suc)

text \<open>What the walk returns: the metadata of the deepest matching entry on the path of the
  address, or the value it started with.\<close>

definition path_hit :: "'n ipnet_ops \<Rightarrow> IpAddr \<Rightarrow> nat \<Rightarrow> 'n NodeWrapper \<Rightarrow> nat \<Rightarrow> Metadata \<Rightarrow> bool" where
  "path_hit N ip d w k m \<longleftrightarrow>
     (\<exists>n. slot w (path_bits ip d k) = Some (n, m) \<and> network_contains_ip N n ip)"

lemma path_hit_0:
  "path_hit N ip d w 0 m \<longleftrightarrow> (\<exists>n. node_entry w = Some (n, m) \<and> network_contains_ip N n ip)"
  by (simp add: path_hit_def)

lemma path_hit_Suc:
  "path_hit N ip d w (Suc k) m \<longleftrightarrow>
     (\<exists>c. next_node ip d w = Some c \<and> path_hit N ip (Suc d) c k m)"
  by (auto simp: path_hit_def next_node_child split: option.splits)

lemma path_hit_fun: "path_hit N ip d w k m \<Longrightarrow> path_hit N ip d w k m' \<Longrightarrow> m = m'"
  by (auto simp: path_hit_def)

lemma lpm_binary_loop_miss:
  assumes "\<And>c j m'. cur = Some c \<Longrightarrow> \<not> path_hit N ip d c j m'"
  shows "lpm_binary_loop N ip d best cur = best"
  using assms
proof (induction N ip d best cur rule: lpm_binary_loop.induct)
  case (2 N ip depth b node)
  from "2.prems" [of node 0] have "node_match N ip node b = b"
    by (auto simp: path_hit_0 node_match_entry split: option.splits)
  moreover have "\<not> path_hit N ip (depth + 1) c j m'" if "next_node ip depth node = Some c" for c j m'
    using "2.prems" [of node "Suc j" m'] that by (simp add: path_hit_Suc)
  ultimately show ?case using "2.IH" by simp
qed simp

lemma lpm_binary_loop_hit:
  assumes "path_hit N ip d w k m" and "\<And>j m'. k < j \<Longrightarrow> \<not> path_hit N ip d w j m'"
  shows "lpm_binary_loop N ip d best (Some w) = Some m"
  using assms
proof (induction k arbitrary: d w best)
  case 0
  from "0.prems"(1) have "node_match N ip w best = Some m"
    by (auto simp: path_hit_0 node_match_entry)
  moreover have "\<not> path_hit N ip (d + 1) c j m'" if "next_node ip d w = Some c" for c j m'
    using "0.prems"(2) [of "Suc j" m'] that by (simp add: path_hit_Suc)
  ultimately show ?case by (simp add: lpm_binary_loop_miss)
next
  case (Suc k)
  from Suc.prems(1) obtain c where c: "next_node ip d w = Some c" "path_hit N ip (Suc d) c k m"
    by (auto simp: path_hit_Suc)
  moreover have "\<not> path_hit N ip (Suc d) c j m'" if "k < j" for j m'
    using Suc.prems(2) [of "Suc j" m'] that c by (simp add: path_hit_Suc)
  ultimately show ?case using Suc.IH [of "Suc d" c] by simp
qed

lemma longest_prefix_match_binary_loop:
  "longest_prefix_match_binary N w ip = lpm_binary_loop N ip 0 None (Some w)"
  by (simp add: longest_prefix_match_binary_def)

lemma path_bits_ip: "k \<le> ip_width ip \<Longrightarrow> path_bits ip 0 k = take k (ip_bits ip)"
  by (auto intro!: nth_equalityI simp: path_bits_def ip_bits_nth)

context ipnetwork
begin

lemma path_hit_entry:
  assumes "filed N w"
  shows "path_hit N ip 0 w k m \<longleftrightarrow>
    (\<exists>n. (n, m) \<in> entries_of w \<and> network_contains_ip N n ip \<and> net_prefix N n = k)"
proof
  assume "path_hit N ip 0 w k m"
  then obtain n where n: "slot w (path_bits ip 0 k) = Some (n, m)" "network_contains_ip N n ip"
    by (auto simp: path_hit_def)
  with assms have "net_bits N n = path_bits ip 0 k" by (auto simp: filed_def)
  then have "net_prefix N n = k"
    by (metis length_net_bits length_map length_upt path_bits_def add_diff_cancel_left')
  with n show "\<exists>n. (n, m) \<in> entries_of w \<and> network_contains_ip N n ip \<and> net_prefix N n = k"
    by (auto simp: entries_of_def)
next
  assume "\<exists>n. (n, m) \<in> entries_of w \<and> network_contains_ip N n ip \<and> net_prefix N n = k"
  then obtain n bs where n: "slot w bs = Some (n, m)" "network_contains_ip N n ip" "net_prefix N n = k"
    by (auto simp: entries_of_def)
  with assms have bs: "bs = net_bits N n" by (auto simp: filed_def)
  from n(2) have pre: "prefix (net_bits N n) (ip_bits ip)" by (simp add: network_contains_ip_iff)
  with n(3) have "k \<le> ip_width ip" by (auto dest: prefix_length_le)
  moreover from pre n(3) have "net_bits N n = take k (ip_bits ip)"
    by (simp add: take_eq_prefix)
  ultimately show "path_hit N ip 0 w k m"
    using n bs by (auto simp: path_hit_def path_bits_ip)
qed

lemma lpm_binary_None:
  assumes "filed N w"
    and "\<And>n m. (n, m) \<in> entries_of w \<Longrightarrow> \<not> network_contains_ip N n ip"
  shows "longest_prefix_match_binary N w ip = None"
  unfolding longest_prefix_match_binary_loop
  using assms by (intro lpm_binary_loop_miss) (auto simp: path_hit_entry)

lemma lpm_binary_Some:
  assumes "filed N w" and "best_entry N ip (entries_of w) (n, m)"
  shows "longest_prefix_match_binary N w ip = Some m"
  unfolding longest_prefix_match_binary_loop
proof (rule lpm_binary_loop_hit [of _ _ _ _ "net_prefix N n"])
  show "path_hit N ip 0 w (net_prefix N n) m"
    using assms by (auto simp: path_hit_entry best_entry_def)
  show "\<not> path_hit N ip 0 w j m'" if "net_prefix N n < j" for j m'
    using assms that by (auto simp: path_hit_entry best_entry_def)
qed

text \<open>The walk over a well-filed tree is the reference search over its entries.\<close>

lemma lpm_binary_reference:
  assumes "filed N w" and "set es = entries_of w"
  shows "longest_prefix_match_binary N w ip = LPM_lookup N es ip"
proof (cases "LPM_lookup N es ip")
  case None
  with assms have "longest_prefix_match_binary N w ip = None"
    by (intro lpm_binary_None) (auto simp: LPM_lookup_None_iff)
  with None show ?thesis by simp
next
  case (Some m)
  with assms show ?thesis by (auto dest!: LPM_lookup_SomeD intro: lpm_binary_Some)
qed

end

section \<open>The entries of a tree as a list\<close>

function node_entries :: "'n NodeWrapper \<Rightarrow> ('n \<times> Metadata) list" where
  "node_entries w =
     (case node_entry w of Some e \<Rightarrow> [e] | None \<Rightarrow> [])
     @ (case nd_left w of Some l \<Rightarrow> node_entries l | None \<Rightarrow> [])
     @ (case nd_right w of Some r \<Rightarrow> node_entries r | None \<Rightarrow> [])"
  by pat_completeness auto
termination
  by (relation "measure size") (auto simp: nd_left_size nd_right_size)

declare node_entries.simps [simp del]

lemma entries_of_iff:
  "e \<in> entries_of w \<longleftrightarrow>
     node_entry w = Some e \<or> (\<exists>b c. nd_child b w = Some c \<and> e \<in> entries_of c)"
proof -
  have split: "(\<exists>bs. P bs) \<longleftrightarrow> P [] \<or> (\<exists>b bs. P (b # bs))" for P :: "bool list \<Rightarrow> bool"
    by (metis list.exhaust)
  show ?thesis
    unfolding entries_of_def mem_Collect_eq
    by (subst split, unfold slot_Cons_iff slot.simps(1)) blast
qed

lemma set_node_entries [simp]: "set (node_entries w) = entries_of w"
proof (induction w rule: node_entries.induct)
  case (1 w)
  have "e \<in> set (node_entries w) \<longleftrightarrow> e \<in> entries_of w" for e
    using 1 unfolding node_entries.simps [of w] entries_of_iff [of e w]
    by (cases "nd_left w"; cases "nd_right w"; cases "node_entry w")
       (auto simp: nd_child_def ex_bool_eq)
  then show ?case by blast
qed

end
