(* ===== verification/RouteTree.thy ===== *)
theory RouteTree
  imports Lpm
begin

text \<open>
  The trait \<open>RouteTree\<close> (\<open>traits.rs\<close>): its methods as a record over a tree state, and
  the contracts its implementations offer as locales. A tree is seen as a finite map from
  keys (bit strings) to entries; \<open>key\<close> says under which bits an implementation files a
  network. \<open>route_tree\<close> holds the map laws of \<open>insert\<close>, \<open>remove\<close> and
  \<open>contains\<close>, \<open>clearing_tree\<close> adds that \<open>clear\<close> empties the map, and
  \<open>lpm_tree\<close> adds that \<open>lookup\<close> is longest-prefix matching over the entries. A
  method that panics returns \<open>None\<close>.
\<close>

section \<open>The trait\<close>

record ('t, 'n) RouteTree =
  rt_insert :: "'n \<Rightarrow> Metadata \<Rightarrow> 't \<Rightarrow> ((string + bool) \<times> 't) option"
  rt_lookup :: "IpAddr \<Rightarrow> 't \<Rightarrow> Metadata option"
  rt_remove :: "'n \<Rightarrow> 't \<Rightarrow> Metadata option \<times> 't"
  rt_contains :: "'n \<Rightarrow> 't \<Rightarrow> bool"
  rt_clear :: "'t \<Rightarrow> 't option"

text \<open>Longest-prefix matching over a set of entries, as a relation between a set, an address
  and a result.\<close>

definition lpm_result :: "'n ipnet_ops \<Rightarrow> ('n \<times> Metadata) set \<Rightarrow> IpAddr \<Rightarrow> Metadata option \<Rightarrow> bool" where
  "lpm_result N E ip r =
     (case r of
        None \<Rightarrow> (\<forall>n m. (n, m) \<in> E \<longrightarrow> \<not> network_contains_ip N n ip)
      | Some m \<Rightarrow> (\<exists>n. best_entry N ip E (n, m)))"

lemma lpm_result_reference: "lpm_result N (set es) ip (LPM_lookup N es ip)"
  by (auto simp: lpm_result_def LPM_lookup_None_iff dest: LPM_lookup_SomeD split: option.split)

lemma lpm_result_singleton:
  "lpm_result N {(n, m)} ip r \<longleftrightarrow> r = (if network_contains_ip N n ip then Some m else None)"
  by (auto simp: lpm_result_def best_entry_def split: option.split)

lemma lpm_result_empty [simp]: "lpm_result N {} ip r \<longleftrightarrow> r = None"
  by (auto simp: lpm_result_def best_entry_def split: option.split)

text \<open>When the entries are filed under their bits, the answer is unique.\<close>

lemma lpm_result_fun:
  assumes "ipnetwork N" and "\<And>k n m. f k = Some (n, m) \<Longrightarrow> net_bits N n = k"
    and "lpm_result N (ran f) ip r" and "lpm_result N (ran f) ip r'"
  shows "r = r'"
proof -
  have "m = m'" if b: "best_entry N ip (ran f) (n, m)" "best_entry N ip (ran f) (n', m')" for n m n' m'
  proof -
    from b obtain k k' where k: "f k = Some (n, m)" "f k' = Some (n', m')"
      by (auto simp: best_entry_def ran_def)
    from b have "net_prefix N n = net_prefix N n'"
      unfolding best_entry_def fst_conv by (meson le_antisym)
    then have "net_bits N n = net_bits N n'"
      using b ipnetwork.contains_same_prefix [OF assms(1)] by (auto simp: best_entry_def)
    with k assms(2) [OF k(1)] assms(2) [OF k(2)] show ?thesis by simp
  qed
  then show ?thesis
    using assms(3,4) by (cases r; cases r') (auto simp: lpm_result_def best_entry_def)
qed

section \<open>The contracts\<close>

locale route_tree =
  fixes T :: "('t, 'n) RouteTree"
    and inv :: "'t \<Rightarrow> bool"
    and abs :: "'t \<Rightarrow> bool list \<rightharpoonup> 'n \<times> Metadata"
    and key :: "'n \<Rightarrow> bool list"
  assumes insert_law: "inv t \<Longrightarrow>
      \<exists>t'. rt_insert T n m t = Some (Inr (abs t (key n) = None), t')
        \<and> inv t' \<and> abs t' = (abs t)(key n \<mapsto> (n, m))"
    and remove_law: "inv t \<Longrightarrow>
      \<exists>t'. rt_remove T n t = (map_option snd (abs t (key n)), t')
        \<and> inv t' \<and> abs t' = (abs t)(key n := None)"
    and contains_law: "inv t \<Longrightarrow> rt_contains T n t \<longleftrightarrow> abs t (key n) \<noteq> None"
    and filed_law: "inv t \<Longrightarrow> abs t k = Some (n, m) \<Longrightarrow> key n = k"
    and finite_law: "inv t \<Longrightarrow> finite (dom (abs t))"

locale clearing_tree = route_tree T inv abs key
  for T :: "('t, 'n) RouteTree" and inv abs key +
  assumes clear_law: "inv t \<Longrightarrow> \<exists>t'. rt_clear T t = Some t' \<and> inv t' \<and> abs t' = Map.empty"

locale lpm_tree = route_tree T inv abs key
  for T :: "('t, 'n) RouteTree" and inv abs key +
  fixes N :: "'n ipnet_ops"
  assumes lookup_law: "inv t \<Longrightarrow> lpm_result N (ran (abs t)) ip (rt_lookup T ip t)"

section \<open>Runs of operations\<close>

datatype 'n TreeOp = OpInsert 'n Metadata | OpRemove 'n

fun run_op :: "('t, 'n) RouteTree \<Rightarrow> 'n TreeOp \<Rightarrow> 't \<Rightarrow> 't option" where
  "run_op T (OpInsert n m) t = map_option snd (rt_insert T n m t)"
| "run_op T (OpRemove n) t = Some (snd (rt_remove T n t))"

fun run_ops :: "('t, 'n) RouteTree \<Rightarrow> 'n TreeOp list \<Rightarrow> 't \<Rightarrow> 't option" where
  "run_ops T [] t = Some t"
| "run_ops T (x # xs) t = Option.bind (run_op T x t) (run_ops T xs)"

text \<open>The same run over a route table.\<close>

fun table_op :: "('n \<Rightarrow> 'k) \<Rightarrow> 'n TreeOp \<Rightarrow> ('k \<rightharpoonup> 'n \<times> Metadata) \<Rightarrow> ('k \<rightharpoonup> 'n \<times> Metadata)" where
  "table_op key (OpInsert n m) tab = tab(key n \<mapsto> (n, m))"
| "table_op key (OpRemove n) tab = tab(key n := None)"

definition table_ops :: "('n \<Rightarrow> 'k) \<Rightarrow> 'n TreeOp list \<Rightarrow> ('k \<rightharpoonup> 'n \<times> Metadata) \<Rightarrow> ('k \<rightharpoonup> 'n \<times> Metadata)" where
  "table_ops key xs tab = fold (table_op key) xs tab"

fun op_net :: "'n TreeOp \<Rightarrow> 'n" where
  "op_net (OpInsert n _) = n"
| "op_net (OpRemove n) = n"

lemma table_ops_cong:
  "(\<And>x. x \<in> set xs \<Longrightarrow> k (op_net x) = k' (op_net x)) \<Longrightarrow> table_ops k xs tab = table_ops k' xs tab"
proof (induction xs arbitrary: tab)
  case (Cons x xs)
  have "table_op k x tab = table_op k' x tab" using Cons.prems [of x] by (cases x) auto
  with Cons show ?case by (simp add: table_ops_def)
qed (simp add: table_ops_def)

lemma ran_table_ops:
  "(n, m) \<in> ran (table_ops key xs tab) \<Longrightarrow> OpInsert n m \<in> set xs \<or> (n, m) \<in> ran tab"
proof (induction xs arbitrary: tab)
  case (Cons x xs)
  have "(n, m) \<in> ran (table_op key x tab) \<Longrightarrow> x = OpInsert n m \<or> (n, m) \<in> ran tab"
    by (cases x) (auto simp: ran_def split: if_splits)
  with Cons show ?case by (fastforce simp: table_ops_def)
qed (simp add: table_ops_def)

context route_tree
begin

lemma run_op_refines:
  "inv t \<Longrightarrow> \<exists>t'. run_op T x t = Some t' \<and> inv t' \<and> abs t' = table_op key x (abs t)"
proof (cases x)
  case (OpInsert n m)
  moreover assume "inv t"
  ultimately show ?thesis using insert_law [of t n m] by auto
next
  case (OpRemove n)
  moreover assume "inv t"
  ultimately show ?thesis using remove_law [of t n] by auto
qed

lemma run_ops_refines:
  "inv t \<Longrightarrow> \<exists>t'. run_ops T xs t = Some t' \<and> inv t' \<and> abs t' = table_ops key xs (abs t)"
proof (induction xs arbitrary: t)
  case (Cons x xs)
  obtain u where "run_op T x t = Some u" "inv u" "abs u = table_op key x (abs t)"
    using run_op_refines [OF Cons.prems] by blast
  with Cons.IH [of u] show ?case by (auto simp: table_ops_def)
qed (simp add: table_ops_def)

text \<open>Entries under different keys are different networks, so the number of keys is the
  number of networks stored.\<close>

lemma inj_on_entries: "inv t \<Longrightarrow> inj_on (abs t) (dom (abs t))"
  by (auto simp: inj_on_def dom_def) (metis filed_law)

end

context lpm_tree
begin

lemma run_ops_lookup:
  assumes "inv t"
  shows "\<exists>t'. run_ops T xs t = Some t'
    \<and> lpm_result N (ran (table_ops key xs (abs t))) ip (rt_lookup T ip t')"
proof -
  obtain t' where "run_ops T xs t = Some t'" "inv t'" "abs t' = table_ops key xs (abs t)"
    using run_ops_refines [OF assms] by blast
  with lookup_law [of t' ip] show ?thesis by auto
qed

end

end
