(* ===== verification/UncompressedTree.thy ===== *)
theory UncompressedTree
  imports RouteTree
begin

text \<open>
  The bit-by-bit trie \<open>UncompressedTree\<close> (\<open>tree.rs\<close>). A node has one parent, so the
  tree is a value: a method that mutates a node behind its \<open>Arc\<close> returns the changed node
  and its caller writes it back into the child slot it came from. \<open>tidy\<close> is the invariant
  (metadata sits at a node only together with the network filed under that node's path);
  the lemmas show that the methods implement a finite map from bit strings to entries and
  that \<open>lookup\<close> is longest-prefix matching over it.
\<close>

section \<open>Definitions\<close>

record 'n UncompressedTree =
  ut_root :: "'n NodeWrapper"
  ut_node_builder :: NodeVariant

definition UncompressedTree_new :: "NodeVariant \<Rightarrow> 'n UncompressedTree" where
  "UncompressedTree_new node_variant =
     \<lparr>ut_root = NodeBuilder_build node_variant, ut_node_builder = node_variant\<rparr>"

definition put_child :: "u8 \<Rightarrow> 'n NodeWrapper \<Rightarrow> 'n NodeWrapper \<Rightarrow> 'n NodeWrapper" where
  "put_child b c w = (if b = 0 then nd_set_left (Some c) w else nd_set_right (Some c) w)"

text \<open>The loop of \<open>insert\<close> from \<open>depth\<close> on, with \<open>k\<close> levels to go.\<close>

fun ut_insert_loop ::
  "NodeVariant \<Rightarrow> 'n \<Rightarrow> Metadata \<Rightarrow> IpAddr \<Rightarrow> nat \<Rightarrow> nat \<Rightarrow> 'n NodeWrapper \<Rightarrow> bool \<times> 'n NodeWrapper" where
  "ut_insert_loop v pfx md ip depth 0 current =
     (nd_metadata current = None, nd_set_metadata md (nd_set_prefix pfx current))"
| "ut_insert_loop v pfx md ip depth (Suc k) current =
     (case next_node ip depth current of
        Some node \<Rightarrow>
          (let (is_new, node') = ut_insert_loop v pfx md ip (depth + 1) k node
           in (is_new, put_child (get_bit ip depth) node' current))
      | None \<Rightarrow>
          (let new_node = NodeBuilder_build v;
               (is_new, node') = ut_insert_loop v pfx md ip (depth + 1) k new_node
           in (is_new, put_child (get_bit ip depth) node' current)))"

definition UncompressedTree_insert ::
  "'n ipnet_ops \<Rightarrow> 'n \<Rightarrow> Metadata \<Rightarrow> 'n UncompressedTree
     \<Rightarrow> ((string + bool) \<times> 'n UncompressedTree) option" where
  "UncompressedTree_insert N pfx md t =
     (let ip = net_network N pfx; prefix_len = net_prefix N pfx;
          (is_new, root) = ut_insert_loop (ut_node_builder t) pfx md ip 0 prefix_len (ut_root t)
      in Some (Inr is_new, t\<lparr>ut_root := root\<rparr>))"

definition UncompressedTree_lookup :: "'n ipnet_ops \<Rightarrow> IpAddr \<Rightarrow> 'n UncompressedTree \<Rightarrow> Metadata option" where
  "UncompressedTree_lookup N ip t = longest_prefix_match_binary N (ut_root t) ip"

fun ut_remove_loop ::
  "IpAddr \<Rightarrow> nat \<Rightarrow> nat \<Rightarrow> 'n NodeWrapper \<Rightarrow> Metadata option \<times> 'n NodeWrapper" where
  "ut_remove_loop ip depth 0 current =
     (let removed = nd_metadata current
      in (removed, if removed \<noteq> None then nd_clear_metadata current else current))"
| "ut_remove_loop ip depth (Suc k) current =
     (case next_node ip depth current of
        Some node \<Rightarrow>
          (let (removed, node') = ut_remove_loop ip (depth + 1) k node
           in (removed, put_child (get_bit ip depth) node' current))
      | None \<Rightarrow> (None, current))"

definition UncompressedTree_remove ::
  "'n ipnet_ops \<Rightarrow> 'n \<Rightarrow> 'n UncompressedTree \<Rightarrow> Metadata option \<times> 'n UncompressedTree" where
  "UncompressedTree_remove N pfx t =
     (let ip = net_network N pfx; prefix_len = net_prefix N pfx;
          (removed, root) = ut_remove_loop ip 0 prefix_len (ut_root t)
      in (removed, t\<lparr>ut_root := root\<rparr>))"

fun ut_contains_loop :: "IpAddr \<Rightarrow> nat \<Rightarrow> nat \<Rightarrow> 'n NodeWrapper \<Rightarrow> bool" where
  "ut_contains_loop ip depth 0 current = (nd_metadata current \<noteq> None)"
| "ut_contains_loop ip depth (Suc k) current =
     (case next_node ip depth current of
        Some node \<Rightarrow> ut_contains_loop ip (depth + 1) k node
      | None \<Rightarrow> False)"

definition UncompressedTree_contains :: "'n ipnet_ops \<Rightarrow> 'n \<Rightarrow> 'n UncompressedTree \<Rightarrow> bool" where
  "UncompressedTree_contains N pfx t =
     ut_contains_loop (net_network N pfx) 0 (net_prefix N pfx) (ut_root t)"

definition UncompressedTree_clear :: "'n UncompressedTree \<Rightarrow> 'n UncompressedTree option" where
  "UncompressedTree_clear t =
     Some (t\<lparr>ut_root := nd_set_right None (nd_set_left None (ut_root t))\<rparr>)"

definition UncompressedTree_RouteTree :: "'n ipnet_ops \<Rightarrow> ('n UncompressedTree, 'n) RouteTree" where
  "UncompressedTree_RouteTree N = \<lparr>
     rt_insert = UncompressedTree_insert N, rt_lookup = UncompressedTree_lookup N,
     rt_remove = UncompressedTree_remove N, rt_contains = UncompressedTree_contains N,
     rt_clear = UncompressedTree_clear\<rparr>"

section \<open>What the tree stores\<close>

text \<open>The network field and metadata at the end of a path, when the node there has metadata.\<close>

fun cell :: "'n NodeWrapper \<Rightarrow> bool list \<Rightarrow> ('n option \<times> Metadata) option" where
  "cell w [] = map_option (Pair (nd_prefix w)) (nd_metadata w)"
| "cell w (b # bs) = (case nd_child b w of None \<Rightarrow> None | Some c \<Rightarrow> cell c bs)"

definition tidy :: "'n ipnet_ops \<Rightarrow> 'n NodeWrapper \<Rightarrow> bool" where
  "tidy N w \<longleftrightarrow> (\<forall>bs p m. cell w bs = Some (p, m) \<longrightarrow> (\<exists>n. p = Some n \<and> net_bits N n = bs))"

lemma slot_iff_cell: "slot w bs = Some (n, m) \<longleftrightarrow> cell w bs = Some (Some n, m)"
  by (induction w bs rule: slot.induct) (auto simp: node_entry_def split: option.splits)

lemma tidy_cell: "tidy N w \<Longrightarrow> cell w bs = map_option (\<lambda>(n, m). (Some n, m)) (slot w bs)"
proof (cases "cell w bs")
  case None
  then have "slot w bs \<noteq> Some (n, m)" for n m by (simp add: slot_iff_cell)
  with None show ?thesis by (cases "slot w bs") auto
next
  case (Some e)
  moreover assume "tidy N w"
  ultimately obtain n m where "cell w bs = Some (Some n, m)" by (cases e) (auto simp: tidy_def)
  moreover from this have "slot w bs = Some (n, m)" by (simp add: slot_iff_cell)
  ultimately show ?thesis by simp
qed

lemma tidy_filed: "tidy N w \<Longrightarrow> filed N w"
  by (auto simp: tidy_def filed_def slot_iff_cell)

lemma cell_build [simp]: "cell (NodeBuilder_build v) bs = None"
  by (cases bs) (simp_all add: nd_child_def)

lemma nd_child_put_child:
  "nd_child b (put_child (get_bit ip d) c w) = (if b = bytes_bit (octets ip) d then Some c else nd_child b w)"
  by (auto simp: nd_child_def put_child_def)

lemma put_child_fields [simp]:
  "nd_metadata (put_child x c w) = nd_metadata w"
  "nd_prefix (put_child x c w) = nd_prefix w"
  by (simp_all add: put_child_def)

lemma cell_put_child:
  "cell (put_child (get_bit ip d) c w) bs =
     (case bs of
        [] \<Rightarrow> cell w []
      | b # bs' \<Rightarrow> if b = bytes_bit (octets ip) d then cell c bs' else cell w bs)"
  by (auto simp: nd_child_put_child split: list.split)

lemma cell_path_Suc:
  "cell w (path_bits ip d (Suc k)) =
     (case next_node ip d w of None \<Rightarrow> None | Some c \<Rightarrow> cell c (path_bits ip (Suc d) k))"
  by (simp add: next_node_child)

lemma cell_next_node:
  "next_node ip d w = Some c \<Longrightarrow> cell w (bytes_bit (octets ip) d # bs) = cell c bs"
  "next_node ip d w = None \<Longrightarrow> cell w (bytes_bit (octets ip) d # bs) = None"
  by (simp_all add: next_node_child)

lemma ut_insert_loop_cell:
  assumes "ut_insert_loop v pfx md ip d k w = (r, w')"
  shows "r = (cell w (path_bits ip d k) = None)"
    and "cell w' = (cell w)(path_bits ip d k \<mapsto> (Some pfx, md))"
proof -
  have "r = (cell w (path_bits ip d k) = None)
    \<and> cell w' = (cell w)(path_bits ip d k \<mapsto> (Some pfx, md))"
    using assms
  proof (induction k arbitrary: d w r w')
    case 0
    then have "cell w' bs = ((cell w)([] \<mapsto> (Some pfx, md))) bs" for bs
      by (cases bs) (auto simp: nd_child_def)
    with 0 show ?case by auto
  next
    case (Suc k)
    define node where "node = (case next_node ip d w of Some n \<Rightarrow> n | None \<Rightarrow> NodeBuilder_build v)"
    obtain node' where rec: "ut_insert_loop v pfx md ip (d + 1) k node = (r, node')"
      and w': "w' = put_child (get_bit ip d) node' w"
      using Suc.prems by (auto simp: node_def Let_def split: option.splits prod.splits)
    have old: "cell w (bytes_bit (octets ip) d # bs) = cell node bs" for bs
      by (cases "next_node ip d w") (simp_all add: node_def cell_next_node del: cell.simps)
    have "cell w' bs = ((cell w)(path_bits ip d (Suc k) \<mapsto> (Some pfx, md))) bs" for bs
      using Suc.IH [OF rec] old
      by (cases bs) (auto simp: w' cell_put_child simp del: cell.simps)
    with Suc.IH [OF rec] old show ?case by auto
  qed
  then show "r = (cell w (path_bits ip d k) = None)"
    and "cell w' = (cell w)(path_bits ip d k \<mapsto> (Some pfx, md))" by auto
qed

lemma ut_remove_loop_cell:
  "ut_remove_loop ip d k w = (r, w') \<Longrightarrow>
     r = map_option snd (cell w (path_bits ip d k)) \<and> cell w' = (cell w)(path_bits ip d k := None)"
proof (induction k arbitrary: d w r w')
  case 0
  then have "cell w' bs = ((cell w)([] := None)) bs" for bs
    by (cases bs; cases "nd_metadata w") (auto simp: nd_child_def Let_def)
  with 0 show ?case by (auto simp: Let_def option.map_comp o_def option.map_ident)
next
  case (Suc k)
  show ?case
  proof (cases "next_node ip d w")
    case None
    with Suc.prems show ?thesis by (auto simp: cell_next_node simp del: cell.simps)
  next
    case (Some node)
    obtain node' where rec: "ut_remove_loop ip (d + 1) k node = (r, node')"
      and w': "w' = put_child (get_bit ip d) node' w"
      using Suc.prems Some by (auto split: prod.splits)
    have "cell w' bs = ((cell w)(path_bits ip d (Suc k) := None)) bs" for bs
      using Suc.IH [OF rec] Some
      by (cases bs) (auto simp: w' cell_put_child cell_next_node simp del: cell.simps)
    with Suc.IH [OF rec] Some show ?thesis by (auto simp: cell_next_node simp del: cell.simps)
  qed
qed

lemma ut_contains_loop_cell: "ut_contains_loop ip d k w \<longleftrightarrow> cell w (path_bits ip d k) \<noteq> None"
  by (induction k arbitrary: d w)
     (auto simp: cell_path_Suc simp del: path_bits_Suc split: option.split)

section \<open>The tree as a route table\<close>

definition ut_abs :: "'n UncompressedTree \<Rightarrow> bool list \<rightharpoonup> 'n \<times> Metadata" where
  "ut_abs t = slot (ut_root t)"

definition ut_inv :: "'n ipnet_ops \<Rightarrow> 'n UncompressedTree \<Rightarrow> bool" where
  "ut_inv N t \<longleftrightarrow> tidy N (ut_root t)"

lemma slot_eqI:
  assumes "\<And>bs. cell w bs = map_option (\<lambda>(n, m). (Some n, m)) (f bs)"
  shows "slot w = f"
proof
  fix bs
  show "slot w bs = f bs"
  proof (cases "f bs")
    case None
    with assms [of bs] have "slot w bs \<noteq> Some (n, m)" for n m by (simp add: slot_iff_cell)
    with None show ?thesis by (cases "slot w bs") auto
  next
    case (Some e)
    with assms [of bs] show ?thesis by (cases e) (simp add: slot_iff_cell)
  qed
qed

lemma ran_slot: "ran (slot w) = entries_of w"
  by (auto simp: ran_def entries_of_def)

lemma finite_entries_of [simp]: "finite (entries_of w)"
  by (simp flip: set_node_entries)

context ipnetwork
begin

lemma path_bits_network: "path_bits (net_network N n) 0 (net_prefix N n) = net_bits N n"
proof -
  have "net_prefix N n \<le> ip_width (net_network N n)"
    using net_prefix_le [of n] ip_width_family [OF net_network_family [of n]] by simp
  then show ?thesis by (simp add: path_bits_ip net_bits_def)
qed

lemma tidy_insert:
  assumes "tidy N w" and "cell w' = (cell w)(net_bits N n \<mapsto> (Some n, m))"
  shows "tidy N w'" and "slot w' = (slot w)(net_bits N n \<mapsto> (n, m))"
  using assms tidy_cell [OF assms(1)]
  by (auto simp: tidy_def intro!: slot_eqI split: if_splits)

lemma tidy_remove:
  assumes "tidy N w" and "cell w' = (cell w)(k := None)"
  shows "tidy N w'" and "slot w' = (slot w)(k := None)"
  using assms tidy_cell [OF assms(1)]
  by (auto simp: tidy_def intro!: slot_eqI split: if_splits)

lemma ut_insert_table:
  assumes "ut_inv N t"
  shows "\<exists>t'. UncompressedTree_insert N n m t = Some (Inr (ut_abs t (net_bits N n) = None), t')
    \<and> ut_inv N t' \<and> ut_abs t' = (ut_abs t)(net_bits N n \<mapsto> (n, m))"
proof -
  obtain r w where rec: "ut_insert_loop (ut_node_builder t) n m (net_network N n) 0 (net_prefix N n)
      (ut_root t) = (r, w)" by fastforce
  note cells = ut_insert_loop_cell [OF rec, unfolded path_bits_network]
  have tidy: "tidy N (ut_root t)" using assms by (simp add: ut_inv_def)
  show ?thesis
    using rec cells tidy_insert [OF tidy cells(2)] tidy_cell [OF tidy, of "net_bits N n"]
    by (auto simp: UncompressedTree_insert_def Let_def ut_inv_def ut_abs_def)
qed

lemma ut_remove_table:
  assumes "ut_inv N t"
  shows "\<exists>t'. UncompressedTree_remove N n t = (map_option snd (ut_abs t (net_bits N n)), t')
    \<and> ut_inv N t' \<and> ut_abs t' = (ut_abs t)(net_bits N n := None)"
proof -
  obtain r w where rec: "ut_remove_loop (net_network N n) 0 (net_prefix N n) (ut_root t) = (r, w)"
    by fastforce
  note cells = ut_remove_loop_cell [OF rec, unfolded path_bits_network]
  have tidy: "tidy N (ut_root t)" using assms by (simp add: ut_inv_def)
  show ?thesis
    using rec cells tidy_remove [OF tidy cells [THEN conjunct2]] tidy_cell [OF tidy, of "net_bits N n"]
    by (auto simp: UncompressedTree_remove_def Let_def ut_inv_def ut_abs_def option.map_comp o_def
        case_prod_unfold)
qed

lemma ut_contains_table:
  "ut_inv N t \<Longrightarrow> UncompressedTree_contains N n t \<longleftrightarrow> ut_abs t (net_bits N n) \<noteq> None"
  using tidy_cell [of N "ut_root t" "net_bits N n"]
  by (simp add: UncompressedTree_contains_def ut_contains_loop_cell path_bits_network ut_inv_def ut_abs_def)

lemma ut_lookup_reference:
  "ut_inv N t \<Longrightarrow> UncompressedTree_lookup N ip t = LPM_lookup N (node_entries (ut_root t)) ip"
  by (simp add: UncompressedTree_lookup_def ut_inv_def lpm_binary_reference [OF tidy_filed])

lemma ut_lookup_lpm: "ut_inv N t \<Longrightarrow> lpm_result N (ran (ut_abs t)) ip (UncompressedTree_lookup N ip t)"
  using lpm_result_reference [of N "node_entries (ut_root t)" ip]
  by (simp add: ut_lookup_reference ut_abs_def ran_slot)

lemma ut_filed: "ut_inv N t \<Longrightarrow> ut_abs t k = Some (n, m) \<Longrightarrow> net_bits N n = k"
  by (auto simp: ut_inv_def ut_abs_def filed_def dest: tidy_filed)

lemma ut_finite:
  assumes "ut_inv N t"
  shows "finite (dom (ut_abs t))"
proof (rule finite_subset)
  show "dom (ut_abs t) \<subseteq> (\<lambda>e. net_bits N (fst e)) ` entries_of (ut_root t)"
    using ut_filed [OF assms] by (fastforce simp: ut_abs_def entries_of_def image_iff)
qed simp

end

lemma UncompressedTree_lpm_tree:
  assumes "ipnetwork N"
  shows "lpm_tree (UncompressedTree_RouteTree N) (ut_inv N) ut_abs (net_bits N) N"
  using assms
  by unfold_locales
     (simp_all add: UncompressedTree_RouteTree_def ipnetwork.ut_insert_table ipnetwork.ut_remove_table
       ipnetwork.ut_contains_table ipnetwork.ut_filed ipnetwork.ut_finite ipnetwork.ut_lookup_lpm)

interpretation ut: lpm_tree "UncompressedTree_RouteTree cidr_ops" "ut_inv cidr_ops" ut_abs
  "net_bits cidr_ops" cidr_ops
  by (rule UncompressedTree_lpm_tree) (rule cidr.ipnetwork_axioms)

lemma UncompressedTree_new_table [simp]:
  "ut_inv N (UncompressedTree_new v)" "ut_abs (UncompressedTree_new v) = Map.empty"
proof -
  show "ut_inv N (UncompressedTree_new v)"
    by (simp add: ut_inv_def UncompressedTree_new_def tidy_def)
  show "ut_abs (UncompressedTree_new v) = Map.empty"
    unfolding ut_abs_def by (rule slot_eqI) (simp add: UncompressedTree_new_def)
qed

text \<open>\<open>clear\<close> drops both subtrees of the root and leaves the root itself.\<close>

lemma cell_clear:
  "cell (nd_set_right None (nd_set_left None w)) bs = (if bs = [] then cell w [] else None)"
  by (cases bs) (simp_all add: nd_child_def)

lemma UncompressedTree_clear_table:
  assumes "ut_inv N t"
  shows "\<exists>t'. UncompressedTree_clear t = Some t' \<and> ut_inv N t' \<and> ut_abs t' = ut_abs t |` {[]}"
proof -
  define w where "w = nd_set_right None (nd_set_left None (ut_root t))"
  have tidy: "tidy N (ut_root t)" using assms by (simp add: ut_inv_def)
  have cells: "cell w bs = (if bs = [] then cell (ut_root t) [] else None)" for bs
    unfolding w_def by (rule cell_clear)
  have "slot w = slot (ut_root t) |` {[]}"
    by (rule slot_eqI) (simp add: cells tidy_cell [OF tidy] restrict_map_def del: slot.simps cell.simps)
  moreover have "tidy N w" using tidy by (auto simp: tidy_def cells simp del: cell.simps split: if_splits)
  ultimately show ?thesis
    by (simp add: UncompressedTree_clear_def w_def ut_inv_def ut_abs_def)
qed

end
