(* ===== verification/PatriciaMap.thy ===== *)
theory PatriciaMap
  imports CompressedTree
begin

text \<open>
  Correctness of the Patricia trie: the tree read as a map from bit strings to entries
  (\<open>ccell\<close>), the invariant \<open>cwf\<close> (every node is of a compressed variant and its edge
  fits 16 bytes), and the laws of the methods over that map. \<open>glue\<close> is one level of the
  reading on its own, so that a split, an update at a node and an update below a node are
  each one equation.
\<close>

section \<open>One level of a Patricia trie\<close>

definition glue :: "bool list \<Rightarrow> 'v option \<Rightarrow> (bool \<Rightarrow> bool list \<rightharpoonup> 'v) \<Rightarrow> bool list \<rightharpoonup> 'v" where
  "glue e v kids ks =
     (if prefix e ks then (case drop (length e) ks of [] \<Rightarrow> v | b # rest \<Rightarrow> kids b rest) else None)"

lemma glue_append [simp]:
  "glue e v kids (e @ ks) = (case ks of [] \<Rightarrow> v | b # rest \<Rightarrow> kids b rest)"
  by (simp add: glue_def)

lemma glue_self [simp]: "glue e v kids e = v"
  using glue_append [of e v kids "[]"] by (simp del: glue_append)

lemma glue_no_prefix: "\<not> prefix e ks \<Longrightarrow> glue e v kids ks = None"
  by (simp add: glue_def)

lemma glue_upd_here: "(glue e v kids)(e := x) = glue e x kids"
  by (rule ext) (auto simp: glue_def prefix_def split: list.split)

lemma glue_upd_below: "(glue e v kids)(e @ b # r := x) = glue e v (kids(b := (kids b)(r := x)))"
  by (rule ext) (auto simp: glue_def prefix_def split: list.split)

lemma glue_empty: "glue e None (\<lambda>_ _. None) = Map.empty"
  by (rule ext) (auto simp: glue_def split: list.split)

lemma glue_split:
  "glue (s @ b # t) v kids = glue s None ((\<lambda>_ _. None)(b := glue t v kids))"
  by (rule ext) (auto simp: glue_def prefix_def split: list.split)

section \<open>The tree as a map\<close>

definition edge :: "'n NodeWrapper \<Rightarrow> bool list" where
  "edge w = bits_of_bytes (fst (node_edge w)) (snd (node_edge w))"

definition head_cell :: "'n NodeWrapper \<Rightarrow> ('n option \<times> Metadata) option" where
  "head_cell w = map_option (Pair (nd_prefix w)) (nd_metadata w)"

lemma nd_child_size: "nd_child b w = Some c \<Longrightarrow> size c < size w"
  by (auto simp: nd_child_def nd_left_size nd_right_size split: if_splits)

function ccell :: "'n NodeWrapper \<Rightarrow> bool list \<Rightarrow> ('n option \<times> Metadata) option" where
  "ccell w ks =
     glue (edge w) (head_cell w)
       (\<lambda>b rest. case nd_child b w of None \<Rightarrow> None | Some c \<Rightarrow> ccell c rest) ks"
  by pat_completeness auto
termination
  by (relation "measure (\<lambda>(w, ks). size w)") (auto simp: nd_child_size)

declare ccell.simps [simp del]

definition kid :: "'n NodeWrapper option \<Rightarrow> bool list \<Rightarrow> ('n option \<times> Metadata) option" where
  "kid c = (case c of None \<Rightarrow> Map.empty | Some c \<Rightarrow> ccell c)"

lemma kid_simps [simp]: "kid None = Map.empty" "kid (Some c) = ccell c"
  by (simp_all add: kid_def)

lemma ccell_glue: "ccell w = glue (edge w) (head_cell w) (\<lambda>b. kid (nd_child b w))"
proof
  fix ks
  have "(\<lambda>b rest. case nd_child b w of None \<Rightarrow> None | Some c \<Rightarrow> ccell c rest) = (\<lambda>b. kid (nd_child b w))"
    by (intro ext) (simp add: kid_def split: option.split)
  then show "ccell w ks = glue (edge w) (head_cell w) (\<lambda>b. kid (nd_child b w)) ks"
    by (simp add: ccell.simps [of w])
qed

text \<open>Every node is of a compressed variant and its edge fits the 16 bytes.\<close>

function cwf :: "'n NodeWrapper \<Rightarrow> bool" where
  "cwf w \<longleftrightarrow> is_radix w \<and> length (edge w) \<le> 128
     \<and> (case nd_left w of None \<Rightarrow> True | Some c \<Rightarrow> cwf c)
     \<and> (case nd_right w of None \<Rightarrow> True | Some c \<Rightarrow> cwf c)"
  by pat_completeness auto
termination
  by (relation "measure size") (auto simp: nd_left_size nd_right_size)

declare cwf.simps [simp del]

lemma cwf_iff:
  "cwf w \<longleftrightarrow> is_radix w \<and> length (edge w) \<le> 128 \<and> (\<forall>b c. nd_child b w = Some c \<longrightarrow> cwf c)"
  by (subst cwf.simps) (auto simp: nd_child_def all_bool_eq split: option.splits)

subsection \<open>How the node writers act on it\<close>

lemma edge_writers [simp]:
  "edge (nd_set_left c w) = edge w"
  "edge (nd_set_right c w) = edge w"
  "edge (nd_set_metadata m w) = edge w"
  "edge (nd_clear_metadata w) = edge w"
  "edge (nd_set_prefix p w) = edge w"
  "edge (put_child x d w) = edge w"
  by (simp_all add: edge_def node_edge_def put_child_def)

lemma is_radix_put_child [simp]: "is_radix (put_child x c w) = is_radix w"
  by (simp add: put_child_def)

lemma nd_child_writers [simp]:
  "nd_child b (nd_set_metadata m w) = nd_child b w"
  "nd_child b (nd_clear_metadata w) = nd_child b w"
  "nd_child b (nd_set_prefix p w) = nd_child b w"
  "nd_child b (NodeBuilder_build v) = None"
  "nd_child b (put_child (of_bool x) c w) = (if b = x then Some c else nd_child b w)"
  by (auto simp: nd_child_def put_child_def)

lemma head_cell_writers [simp]:
  "head_cell (put_child x c w) = head_cell w"
  "head_cell (nd_set_left l w) = head_cell w"
  "head_cell (nd_set_right r w) = head_cell w"
  "head_cell (nd_set_metadata m (nd_set_prefix p w)) = Some (Some p, m)"
  "head_cell (nd_set_prefix p (nd_set_metadata m w)) = Some (Some p, m)"
  "head_cell (nd_clear_metadata w) = None"
  by (simp_all add: head_cell_def)

lemma child_at_of_bool [simp]: "child_at (of_bool b) w = nd_child b w"
  by (simp add: child_at_def nd_child_def)

lemma cwf_put_child: "cwf w \<Longrightarrow> cwf c \<Longrightarrow> cwf (put_child (of_bool b) c w)"
  by (simp add: cwf_iff [of w] cwf_iff [of "put_child _ _ _"])

lemma cwf_data [simp]:
  "cwf (nd_set_metadata m w) = cwf w"
  "cwf (nd_set_prefix p w) = cwf w"
  "cwf (nd_clear_metadata w) = cwf w"
  by (simp_all add: cwf_iff [of "nd_set_metadata _ _"] cwf_iff [of "nd_set_prefix _ _"]
      cwf_iff [of "nd_clear_metadata _"] cwf_iff [of w])

lemma set_edge_radix:
  assumes "is_radix w"
  shows "\<exists>w'. nd_set_edge bits len w = Some w' \<and> is_radix w'
    \<and> edge w' = bits_of_bytes bits len
    \<and> nd_left w' = nd_left w \<and> nd_right w' = nd_right w
    \<and> nd_metadata w' = nd_metadata w \<and> nd_prefix w' = nd_prefix w"
proof -
  obtain w' where w': "nd_set_edge bits len w = Some w'" "is_radix w'"
      "nd_edge_bits w' = Some bits" "nd_edge_len w' = Some len"
      "nd_left w' = nd_left w" "nd_right w' = nd_right w"
      "nd_metadata w' = nd_metadata w" "nd_prefix w' = nd_prefix w"
    using nd_set_edge_radix [OF assms] by blast
  then have "edge w' = bits_of_bytes bits len" by (simp add: edge_def node_edge_def)
  with w' show ?thesis by blast
qed

lemma new_edge_leafE:
  assumes "is_compressed v" and "len \<le> 128"
  obtains leaf where "new_edge_leaf v bits len pfx md = Some leaf" "cwf leaf"
    "ccell leaf = [bits_of_bytes bits len \<mapsto> (Some pfx, md)]"
proof -
  have r: "is_radix (NodeBuilder_build v :: 'a NodeWrapper)" using assms(1) by simp
  obtain w :: "'a NodeWrapper" where w: "nd_set_edge bits len (NodeBuilder_build v) = Some w" "is_radix w"
      "edge w = bits_of_bytes bits len" "nd_left w = None" "nd_right w = None"
    using set_edge_radix [OF r, of bits len] by auto
  then have kids: "nd_child b w = None" for b by (simp add: nd_child_def)
  define leaf where "leaf = nd_set_metadata md (nd_set_prefix pfx w)"
  have "new_edge_leaf v bits len pfx md = Some leaf"
    by (simp add: new_edge_leaf_def w leaf_def)
  moreover have "cwf leaf" using assms(2) by (simp add: leaf_def cwf_iff [of w] w kids)
  moreover have "ccell leaf = [bits_of_bytes bits len \<mapsto> (Some pfx, md)]"
    unfolding ccell_glue [of leaf]
    using glue_upd_here [of "bits_of_bytes bits len" None "\<lambda>_. Map.empty" "Some (Some pfx, md)"]
    by (simp add: leaf_def w kids glue_empty)
  ultimately show thesis using that by blast
qed

subsection \<open>Splitting a node\<close>

lemma edge_node_edge: "node_edge w = (bits, len) \<Longrightarrow> edge w = bits_of_bytes bits len"
  by (simp add: edge_def)

lemma split_node_cell:
  fixes w :: "'n NodeWrapper"
  assumes "is_compressed v" and "cwf w" and "sh < length (edge w)"
  shows "\<exists>w'. split_node v (fst (node_edge w)) (length (edge w)) sh w = Some w' \<and> cwf w' \<and> ccell w' = ccell w
    \<and> edge w' = take sh (edge w) \<and> head_cell w' = None \<and> is_radix w'
    \<and> nd_child (\<not> edge w ! sh) w' = None"
proof -
  obtain bits len where ne: "node_edge w = (bits, len)" by (cases "node_edge w")
  then have edge: "edge w = bits_of_bytes bits len" by (rule edge_node_edge)
  have sh: "sh < len" using assms(3) edge by simp
  have len: "len \<le> 128" using assms(2) edge by (simp add: cwf_iff [of w])
  have r: "is_radix (NodeBuilder_build v :: 'n NodeWrapper)" using assms(1) by simp
  define cb where "cb = extract_bits bits (sh + 1) (len - sh - 1)"
  have cb: "bits_of_bytes cb (len - sh - 1) = drop (Suc sh) (edge w)"
    using len sh by (auto intro!: nth_equalityI simp: cb_def edge bytes_bit_extract_bits)
  have nb: "bits_of_bytes (extract_bits bits 0 sh) sh = take sh (edge w)"
    using len sh by (auto intro!: nth_equalityI simp: edge bytes_bit_extract_bits)
  obtain c0 :: "'n NodeWrapper" where c0: "nd_set_edge cb (len - sh - 1) (NodeBuilder_build v) = Some c0"
      "is_radix c0" "edge c0 = bits_of_bytes cb (len - sh - 1)" "nd_metadata c0 = None" "nd_prefix c0 = None"
    using set_edge_radix [OF r, of cb "len - sh - 1"] by auto
  define c1 where "c1 = (case nd_metadata w of Some m \<Rightarrow> nd_set_metadata m c0 | None \<Rightarrow> c0)"
  define w1 where "w1 = (case nd_metadata w of Some m \<Rightarrow> nd_clear_metadata w | None \<Rightarrow> w)"
  define c2 where "c2 = (case nd_prefix w of Some p \<Rightarrow> nd_set_prefix p c1 | None \<Rightarrow> c1)"
  define c3 where "c3 = nd_set_right (nd_right w) (nd_set_left (nd_left w) c2)"
  have w1: "nd_metadata w1 = None" "nd_prefix w1 = nd_prefix w" "nd_left w1 = nd_left w"
      "nd_right w1 = nd_right w" "is_radix w1"
    using assms(2) by (auto simp: w1_def cwf_iff [of w] split: option.split)
  obtain w2 where w2: "nd_set_edge (extract_bits bits 0 sh) sh w1 = Some w2" "is_radix w2"
      "edge w2 = bits_of_bytes (extract_bits bits 0 sh) sh" "nd_metadata w2 = None"
    using set_edge_radix [OF w1(5), of "extract_bits bits 0 sh" sh] w1 by auto
  define w3 where "w3 = nd_set_right None (nd_set_left None w2)"
  define w4 where "w4 = put_child (get_bit_from_bytes bits sh) c3 w3"
  have c2: "edge c2 = drop (Suc sh) (edge w)" "nd_metadata c2 = nd_metadata w" "is_radix c2"
      "nd_prefix c2 = nd_prefix w"
    using c0 cb by (auto simp: c2_def c1_def split: option.split)
  have c3: "edge c3 = drop (Suc sh) (edge w)" "head_cell c3 = head_cell w" "nd_child b c3 = nd_child b w"
      "is_radix c3" for b
    using c2 by (simp_all add: c3_def head_cell_def nd_child_def)
  have bit: "get_bit_from_bytes bits sh = of_bool (edge w ! sh)"
    using sh by (simp add: get_bit_from_bytes_of_bool edge)
  have w4: "edge w4 = take sh (edge w)" "head_cell w4 = None" "is_radix w4"
      "nd_child b w4 = (if b = edge w ! sh then Some c3 else None)" for b
    using w2 nb by (simp_all add: w4_def w3_def bit head_cell_def nd_child_def put_child_def)
  have "split_node v bits len sh w = Some w4"
    using c0(1) w2(1)
    by (cases "nd_metadata w"; cases "nd_prefix w")
       (simp_all add: split_node_def cb_def w4_def w3_def c3_def c2_def c1_def w1_def Let_def)
  moreover have "cwf w4"
  proof -
    have "cwf c3" using assms(2) c3 by (auto simp: cwf_iff [of c3] cwf_iff [of w])
    with w4 assms(2) show ?thesis by (auto simp: cwf_iff [of w4] cwf_iff [of w] split: if_splits)
  qed
  moreover have "ccell w4 = ccell w"
  proof -
    have e: "edge w = take sh (edge w) @ (edge w ! sh) # drop (Suc sh) (edge w)"
      by (rule id_take_nth_drop) (simp add: edge sh)
    have kids: "(\<lambda>b. kid (nd_child b w4)) = (\<lambda>_ _. None)(edge w ! sh := ccell c3)"
      using w4(4) by auto
    have "ccell w = glue (take sh (edge w) @ (edge w ! sh) # drop (Suc sh) (edge w)) (head_cell w)
        (\<lambda>b. kid (nd_child b w))"
      using e ccell_glue [of w] by simp
    also have "\<dots> = glue (take sh (edge w)) None ((\<lambda>_ _. None)(edge w ! sh := ccell c3))"
      unfolding glue_split by (simp add: ccell_glue [of c3] c3)
    also have "\<dots> = ccell w4" unfolding ccell_glue [of w4] kids w4(1,2) ..
    finally show ?thesis ..
  qed
  ultimately show ?thesis using w4 ne edge by auto
qed

subsection \<open>Comparing an edge with the rest of a key\<close>

definition key_from :: "u8 list \<Rightarrow> nat \<Rightarrow> nat \<Rightarrow> bool list" where
  "key_from key d l = map (bytes_bit key) [d..<l]"

lemma length_key_from [simp]: "length (key_from key d l) = l - d"
  by (simp add: key_from_def)

lemma nth_key_from [simp]: "i < l - d \<Longrightarrow> key_from key d l ! i = bytes_bit key (d + i)"
  by (simp add: key_from_def)

lemma drop_key_from: "drop i (key_from key d l) = key_from key (d + i) l"
  by (simp add: key_from_def drop_map)

lemma bits_of_key_rem:
  "l \<le> 128 \<Longrightarrow> bits_of_bytes (extract_bits key d (l - d)) (l - d) = key_from key d l"
  by (auto intro!: nth_equalityI simp: bytes_bit_extract_bits)

lemma snd_node_edge: "snd (node_edge w) = length (edge w)"
  by (simp add: edge_def)

lemma shared_lcp:
  "l \<le> 128 \<Longrightarrow> common_prefix_len (fst (node_edge w)) (length (edge w)) (extract_bits key d (l - d)) (l - d)
     = lcp_len (edge w) (key_from key d l)"
  unfolding common_prefix_len_lcp bits_of_key_rem by (simp add: edge_def)

text \<open>The ways the comparison ends.\<close>

lemma lcp_len_append [simp]: "lcp_len e (e @ r) = length e"
  by (induction e) auto

lemma lcp_len_self [simp]: "lcp_len e e = length e"
  by (induction e) auto

lemma lcp_len_longer [simp]: "lcp_len (s @ t) s = length s"
  by (induction s) auto

lemma lcp_len_fork [simp]: "lcp_len (s @ b # t) (s @ (\<not> b) # r) = length s"
  by (induction s) auto

lemma lcp_cases:
  fixes e ks :: "bool list"
  obtains (exact) "ks = e"
  | (below) b r where "ks = e @ b # r"
  | (short) b t where "e = ks @ b # t"
  | (fork) s b t r where "e = s @ b # t" "ks = s @ (\<not> b) # r"
proof (induction e arbitrary: ks thesis)
  case Nil
  then show ?case by (cases ks) auto
next
  case (Cons x xs)
  show ?case
  proof (cases ks)
    case Nil
    with Cons.prems(3) show ?thesis by simp
  next
    case ks: (Cons y ys)
    show ?thesis
    proof (cases "x = y")
      case True
      show ?thesis
      proof (rule Cons.IH [of ys])
        show ?thesis if "ys = xs" using Cons.prems(1) ks True that by simp
        show ?thesis if "ys = xs @ b # r" for b r using Cons.prems(2) ks True that by simp
        show ?thesis if "xs = ys @ b # t" for b t using Cons.prems(3) ks True that by simp
        show ?thesis if "xs = s @ b # t" "ys = s @ (\<not> b) # r" for s b t r
          using Cons.prems(4) [of "x # s" b t r] ks True that by simp
      qed
    next
      case False
      then have "y = (\<not> x)" by blast
      with Cons.prems(4) [of "[]" x xs ys] ks show ?thesis by simp
    qed
  qed
qed

subsection \<open>Insertion\<close>

lemma ccell_put_child:
  assumes "ccell c = (kid (nd_child b w))(r := x)"
  shows "ccell (put_child (of_bool b) c w) = (ccell w)(edge w @ b # r := x)"
proof -
  have "(\<lambda>b'. kid (nd_child b' (put_child (of_bool b) c w)))
      = (\<lambda>b'. kid (nd_child b' w))(b := (kid (nd_child b w))(r := x))"
    using assms by auto
  then show ?thesis
    unfolding ccell_glue [of "put_child _ _ _"] ccell_glue [of w] glue_upd_below by simp
qed

lemma ccell_here: "ccell w (edge w) = head_cell w"
  by (simp add: ccell_glue [of w])

lemma ccell_below: "ccell w (edge w @ b # r) = kid (nd_child b w) r"
  by (simp add: ccell_glue [of w])

lemma ccell_set_entry:
  "edge w' = edge w \<Longrightarrow> (\<And>b. nd_child b w' = nd_child b w) \<Longrightarrow> ccell w' = (ccell w)(edge w := head_cell w')"
  unfolding ccell_glue [of w'] ccell_glue [of w] glue_upd_here by simp

lemma ccell_no_prefix: "\<not> prefix (edge w) ks \<Longrightarrow> ccell w ks = None"
  unfolding ccell_glue [of w] by (rule glue_no_prefix)

lemma insert_inner_eq:
  assumes "key_len \<le> 128"
  shows "insert_inner v key key_len d pfx md w =
    (let sh = lcp_len (edge w) (key_from key d key_len); rem = extract_bits key d (key_len - d) in
     if length (edge w) = 0 \<and> nd_metadata w = None \<and> nd_left w = None \<and> nd_right w = None then
       map_option (\<lambda>w'. (True, nd_set_metadata md (nd_set_prefix pfx w'))) (nd_set_edge rem (key_len - d) w)
     else if sh = length (edge w) \<and> sh = key_len - d then
       Some (nd_metadata w = None, nd_set_prefix pfx (nd_set_metadata md w))
     else if sh < length (edge w) then
       Option.bind (split_node v (fst (node_edge w)) (length (edge w)) sh w) (\<lambda>w'.
         if sh = key_len - d then Some (True, nd_set_prefix pfx (nd_set_metadata md w'))
         else map_option (\<lambda>leaf. (True, put_child (get_bit_from_bytes rem sh) leaf w'))
           (new_edge_leaf v (extract_bits rem (sh + 1) (key_len - d - sh - 1)) (key_len - d - sh - 1) pfx md))
     else
       (case child_at (get_bit_from_bytes rem sh) w of
          Some c \<Rightarrow> map_option (\<lambda>(r, c'). (r, put_child (get_bit_from_bytes rem sh) c' w))
            (insert_inner v key key_len (d + sh + 1) pfx md c)
        | None \<Rightarrow> map_option (\<lambda>leaf. (True, put_child (get_bit_from_bytes rem sh) leaf w))
            (new_edge_leaf v (extract_bits key (d + sh + 1) (key_len - (d + sh + 1))) (key_len - (d + sh + 1)) pfx md)))"
  by (subst insert_inner.simps)
     (auto simp: Let_def case_prod_unfold snd_node_edge shared_lcp [OF assms] map_conv_bind_option
       intro!: bind_option_cong option.case_cong split: option.split)

text \<open>What one insertion has to achieve, and its cases.\<close>

definition inserts ::
  "'n NodeWrapper \<Rightarrow> bool list \<Rightarrow> 'n \<Rightarrow> Metadata \<Rightarrow> (bool \<times> 'n NodeWrapper) option \<Rightarrow> bool" where
  "inserts w K pfx md res \<longleftrightarrow>
     (\<exists>w'. res = Some (ccell w K = None, w') \<and> cwf w' \<and> ccell w' = (ccell w)(K \<mapsto> (Some pfx, md)))"

definition blank_node :: "'n NodeWrapper \<Rightarrow> bool" where
  "blank_node w \<longleftrightarrow> length (edge w) = 0 \<and> nd_metadata w = None \<and> nd_left w = None \<and> nd_right w = None"

lemmas insert_inner_eq_nonblank = insert_inner_eq [unfolded Let_def, folded blank_node_def]

lemma insert_blank:
  assumes "cwf w" and "key_len \<le> 128" and "blank_node w"
  shows "inserts w (key_from key d key_len) pfx md (insert_inner v key key_len d pfx md w)"
proof -
  let ?K = "key_from key d key_len" and ?rem = "extract_bits key d (key_len - d)"
  have rad: "is_radix w" using assms(1) by (simp add: cwf_iff [of w])
  obtain w1 where w1: "nd_set_edge ?rem (key_len - d) w = Some w1" "is_radix w1" "edge w1 = ?K"
      "nd_left w1 = None" "nd_right w1 = None"
    using set_edge_radix [OF rad, of ?rem "key_len - d"] assms(3) bits_of_key_rem [OF assms(2)]
    by (auto simp: blank_node_def)
  have kids: "nd_child b w1 = None" "nd_child b w = None" for b
    using w1 assms(3) by (simp_all add: nd_child_def blank_node_def)
  let ?w = "nd_set_metadata md (nd_set_prefix pfx w1)"
  have "ccell w = Map.empty"
    unfolding ccell_glue [of w] using assms(3) by (simp add: head_cell_def kids glue_empty blank_node_def)
  moreover have "ccell ?w = [?K \<mapsto> (Some pfx, md)]"
    unfolding ccell_glue [of ?w]
    using glue_upd_here [of ?K None "\<lambda>_. Map.empty" "Some (Some pfx, md)"]
    by (simp add: w1 kids glue_empty)
  moreover have "cwf ?w" using assms(2) by (simp add: cwf_iff [of w1] w1 kids)
  ultimately show ?thesis
    unfolding inserts_def insert_inner_eq_nonblank [OF assms(2), of v key d pfx md w] using assms(3) w1(1)
    by (simp add: fun_upd_def)
qed

lemma insert_exact:
  assumes "cwf w" and "key_len \<le> 128" and "\<not> blank_node w" and K: "key_from key d key_len = edge w"
  shows "inserts w (key_from key d key_len) pfx md (insert_inner v key key_len d pfx md w)"
proof -
  let ?w = "nd_set_prefix pfx (nd_set_metadata md w)"
  have len: "key_len - d = length (edge w)" by (metis K length_key_from)
  have "ccell ?w = (ccell w)(edge w \<mapsto> (Some pfx, md))"
    using ccell_set_entry [of ?w w] by simp
  moreover have "ccell w (edge w) = None \<longleftrightarrow> nd_metadata w = None"
    using ccell_here [of w] by (simp add: head_cell_def)
  ultimately show ?thesis
    unfolding inserts_def insert_inner_eq_nonblank [OF assms(2), of v key d pfx md w] K len using assms(1,3)
    by (simp add: fun_upd_def)
qed

lemma key_from_split:
  assumes "key_from key d l = s @ b # r"
  shows "length s < l - d" and "bytes_bit key (d + length s) = b" and "r = key_from key (d + length s + 1) l"
proof -
  have len: "l - d = length s + Suc (length r)" by (metis assms length_append length_Cons length_key_from)
  then show lt: "length s < l - d" by simp
  show "bytes_bit key (d + length s) = b" using nth_key_from [OF lt, of key] assms by simp
  have "r = drop (Suc (length s)) (key_from key d l)" using assms by simp
  then show "r = key_from key (d + length s + 1) l" by (simp add: drop_key_from)
qed

lemma key_rem_bit:
  assumes "l \<le> 128" and "key_from key d l = s @ b # r"
  shows "get_bit_from_bytes (extract_bits key d (l - d)) (length s) = of_bool b"
  using key_from_split [OF assms(2)] assms(1)
  by (simp add: get_bit_from_bytes_of_bool bytes_bit_extract_bits)

lemma insert_below:
  assumes "is_compressed v" and "cwf w" and "key_len \<le> 128" and "\<not> blank_node w"
    and K: "key_from key d key_len = edge w @ b # r"
    and IH: "\<And>c. nd_child b w = Some c \<Longrightarrow>
      inserts c r pfx md (insert_inner v key key_len (d + length (edge w) + 1) pfx md c)"
  shows "inserts w (key_from key d key_len) pfx md (insert_inner v key key_len d pfx md w)"
proof -
  let ?d = "d + length (edge w) + 1"
  note split = key_from_split [OF K]
  note eq = insert_inner_eq_nonblank [OF assms(3), of v key d pfx md w]
  show ?thesis
  proof (cases "nd_child b w")
    case None
    have "key_len - ?d \<le> 128" using assms(3) by simp
    from new_edge_leafE [OF assms(1) this, of "extract_bits key ?d (key_len - ?d)" pfx md]
    obtain leaf where leaf: "new_edge_leaf v (extract_bits key ?d (key_len - ?d)) (key_len - ?d) pfx md = Some leaf"
        "cwf leaf" "ccell leaf = [r \<mapsto> (Some pfx, md)]"
      unfolding bits_of_key_rem [OF assms(3)] split(3) [symmetric] by blast
    have "ccell (put_child (of_bool b) leaf w) = (ccell w)(edge w @ b # r \<mapsto> (Some pfx, md))"
      using ccell_put_child [of leaf b w] leaf(3) None by simp
    moreover have "cwf (put_child (of_bool b) leaf w)" using assms(2) leaf(2) by (simp add: cwf_put_child)
    moreover have "insert_inner v key key_len d pfx md w = Some (True, put_child (of_bool b) leaf w)"
      unfolding eq using assms(4) None leaf(1) key_rem_bit [OF assms(3) K] split(1) by (simp add: K)
    ultimately show ?thesis
      using ccell_below [of w b r] None by (simp add: inserts_def K fun_upd_def)
  next
    case (Some c)
    obtain c' where c': "insert_inner v key key_len ?d pfx md c = Some (ccell c r = None, c')" "cwf c'"
        "ccell c' = (ccell c)(r \<mapsto> (Some pfx, md))"
      using IH [OF Some] by (auto simp: inserts_def)
    have "ccell (put_child (of_bool b) c' w) = (ccell w)(edge w @ b # r \<mapsto> (Some pfx, md))"
      using ccell_put_child [of c' b w] c'(3) Some by simp
    moreover have "cwf (put_child (of_bool b) c' w)" using assms(2) c'(2) by (simp add: cwf_put_child)
    moreover have "insert_inner v key key_len d pfx md w
        = Some (ccell c r = None, put_child (of_bool b) c' w)"
      unfolding eq using assms(4) Some c'(1) key_rem_bit [OF assms(3) K] split(1) by (simp add: K)
    ultimately show ?thesis
      using ccell_below [of w b r] Some by (simp add: inserts_def K fun_upd_def)
  qed
qed

lemma insert_short:
  assumes "is_compressed v" and "cwf w" and "key_len \<le> 128"
    and e: "edge w = key_from key d key_len @ b # t"
  shows "inserts w (key_from key d key_len) pfx md (insert_inner v key key_len d pfx md w)"
proof -
  let ?K = "key_from key d key_len"
  have lt: "length ?K < length (edge w)" using e by simp
  obtain w1 where w1: "split_node v (fst (node_edge w)) (length (edge w)) (length ?K) w = Some w1"
      "cwf w1" "ccell w1 = ccell w" "edge w1 = ?K" "head_cell w1 = None"
    using split_node_cell [OF assms(1,2) lt] e by auto
  let ?w = "nd_set_prefix pfx (nd_set_metadata md w1)"
  have "ccell ?w = (ccell w)(?K \<mapsto> (Some pfx, md))"
    using ccell_set_entry [of ?w w1] w1(3,4) by simp
  moreover have "ccell w ?K = None" using ccell_here [of w1] w1(3-5) by simp
  moreover have "\<not> blank_node w" using e by (simp add: blank_node_def)
  moreover have "lcp_len (edge w) ?K = length ?K" by (simp add: e)
  ultimately show ?thesis
    unfolding inserts_def insert_inner_eq_nonblank [OF assms(3), of v key d pfx md w] using w1 lt by (simp add: fun_upd_def)
qed

lemma insert_fork:
  assumes "is_compressed v" and "cwf w" and "key_len \<le> 128"
    and e: "edge w = s @ b # t" and K: "key_from key d key_len = s @ (\<not> b) # r"
  shows "inserts w (key_from key d key_len) pfx md (insert_inner v key key_len d pfx md w)"
proof -
  let ?rem = "extract_bits key d (key_len - d)" and ?n = "key_len - d - length s - 1"
  have lt: "length s < length (edge w)" using e by simp
  note split = key_from_split [OF K]
  obtain w1 where w1: "split_node v (fst (node_edge w)) (length (edge w)) (length s) w = Some w1"
      "cwf w1" "ccell w1 = ccell w" "edge w1 = s" "nd_child (\<not> b) w1 = None"
    using split_node_cell [OF assms(1,2) lt] e by auto
  have "bits_of_bytes (extract_bits ?rem (length s + 1) ?n) ?n = r"
    unfolding split(3) using assms(3)
    by (auto intro!: nth_equalityI simp: bytes_bit_extract_bits add.assoc)
  moreover have "?n \<le> 128" using assms(3) by simp
  ultimately obtain leaf where leaf: "new_edge_leaf v (extract_bits ?rem (length s + 1) ?n) ?n pfx md = Some leaf"
      "cwf leaf" "ccell leaf = [r \<mapsto> (Some pfx, md)]"
    using new_edge_leafE [OF assms(1), of ?n "extract_bits ?rem (length s + 1) ?n" pfx md] by metis
  let ?w = "put_child (of_bool (\<not> b)) leaf w1"
  have "ccell ?w = (ccell w)(s @ (\<not> b) # r \<mapsto> (Some pfx, md))"
    using ccell_put_child [of leaf "\<not> b" w1] leaf(3) w1 by simp
  moreover have "ccell w (s @ (\<not> b) # r) = None" using ccell_below [of w1 "\<not> b" r] w1(3-5) by simp
  moreover have "cwf ?w" using w1 leaf(2) by (simp add: cwf_put_child)
  moreover have "\<not> blank_node w" using e by (simp add: blank_node_def)
  moreover have "lcp_len (edge w) (key_from key d key_len) = length s" by (simp add: e K)
  ultimately show ?thesis
    unfolding inserts_def insert_inner_eq_nonblank [OF assms(3), of v key d pfx md w]
    using w1(1) leaf(1) lt split(1) key_rem_bit [OF assms(3) K] by (simp add: K fun_upd_def)
qed

lemma insert_inner_cell:
  assumes "is_compressed v" and "cwf w" and "key_len \<le> 128" and "d \<le> key_len"
  shows "inserts w (key_from key d key_len) pfx md (insert_inner v key key_len d pfx md w)"
  using assms(2,4)
proof (induction w arbitrary: d rule: measure_induct_rule [of size])
  case (less w)
  show ?case
  proof (cases "blank_node w")
    case True
    with less.prems assms(3) show ?thesis by (simp add: insert_blank)
  next
    case nb: False
    show ?thesis
    proof (cases rule: lcp_cases [of "key_from key d key_len" "edge w"])
      case exact
      with less.prems assms(3) nb show ?thesis by (intro insert_exact)
    next
      case (below b r)
      note split = key_from_split [OF below]
      have "inserts c r pfx md (insert_inner v key key_len (d + length (edge w) + 1) pfx md c)"
        if "nd_child b w = Some c" for c
        unfolding split(3)
      proof (rule less.IH)
        show "size c < size w" using that by (rule nd_child_size)
        show "cwf c" using less.prems that by (auto simp: cwf_iff [of w])
        show "d + length (edge w) + 1 \<le> key_len" using split(1) by simp
      qed
      with insert_below [OF assms(1) less.prems(1) assms(3) nb below] show ?thesis by blast
    next
      case (short b t)
      with assms less.prems show ?thesis by (intro insert_short)
    next
      case (fork s b t r)
      with assms less.prems show ?thesis by (intro insert_fork)
    qed
  qed
qed

subsection \<open>Removal and membership\<close>

lemma remove_inner_eq:
  assumes "key_len \<le> 128"
  shows "remove_inner key key_len d w =
    (let sh = lcp_len (edge w) (key_from key d key_len) in
     if sh < length (edge w) then (None, w)
     else if sh = key_len - d then (nd_metadata w, nd_clear_metadata w)
     else (case nd_child (bytes_bit key (d + sh)) w of
         Some c \<Rightarrow> (let (r, c') = remove_inner key key_len (d + sh + 1) c
           in (r, put_child (of_bool (bytes_bit key (d + sh))) c' w))
       | None \<Rightarrow> (None, w)))"
  by (subst remove_inner.simps)
     (simp add: Let_def case_prod_unfold snd_node_edge shared_lcp [OF assms] get_bit_from_bytes_of_bool
       cong: option.case_cong)

lemma contains_inner_eq:
  assumes "key_len \<le> 128"
  shows "contains_inner key key_len d w =
    (let sh = lcp_len (edge w) (key_from key d key_len) in
     if sh < length (edge w) then False
     else if sh = key_len - d then nd_metadata w \<noteq> None
     else (case nd_child (bytes_bit key (d + sh)) w of
         Some c \<Rightarrow> contains_inner key key_len (d + sh + 1) c
       | None \<Rightarrow> False))"
  by (subst contains_inner.simps)
     (simp add: Let_def case_prod_unfold snd_node_edge shared_lcp [OF assms] get_bit_from_bytes_of_bool
       cong: option.case_cong)

lemma head_cell_snd: "map_option snd (head_cell w) = nd_metadata w"
  by (simp add: head_cell_def option.map_comp o_def option.map_ident)

lemma edge_longer: "lcp_len e ks < length e \<Longrightarrow> \<not> prefix e ks"
  by (metis lcp_len_full_iff less_irrefl)

lemma remove_inner_cell:
  assumes "cwf w" and "key_len \<le> 128" and "d \<le> key_len"
  shows "\<exists>w'. remove_inner key key_len d w = (map_option snd (ccell w (key_from key d key_len)), w')
    \<and> cwf w' \<and> ccell w' = (ccell w)(key_from key d key_len := None)"
  using assms(1,3)
proof (induction w arbitrary: d rule: measure_induct_rule [of size])
  case (less w)
  note eq = remove_inner_eq [OF assms(2), of key d w, unfolded Let_def]
  let ?K = "key_from key d key_len"
  show ?case
  proof (cases "lcp_len (edge w) ?K < length (edge w)")
    case True
    then have "ccell w ?K = None" by (intro ccell_no_prefix edge_longer)
    with True less.prems show ?thesis unfolding eq by (auto simp: fun_upd_idem)
  next
    case False
    then have "prefix (edge w) ?K" using lcp_len_le1 [of "edge w" ?K] by (simp flip: lcp_len_full_iff)
    then obtain rest where K: "?K = edge w @ rest" by (rule prefixE)
    show ?thesis
    proof (cases rest)
      case Nil
      then have "key_len - d = length (edge w)" by (metis K append_Nil2 length_key_from)
      then show ?thesis
        unfolding eq using K Nil less.prems ccell_here [of w] ccell_set_entry [of "nd_clear_metadata w" w]
        by (simp add: head_cell_snd fun_upd_def)
    next
      case (Cons b r)
      note K' = K [unfolded Cons] and split = key_from_split [OF K [unfolded Cons]]
      note eq' = eq [unfolded K' lcp_len_append split(2)]
      show ?thesis
      proof (cases "nd_child b w")
        case None
        with split(1) less.prems ccell_below [of w b r] show ?thesis
          unfolding eq' K' by (simp add: fun_upd_idem)
      next
        case (Some c)
        have wf: "cwf c" using less.prems Some by (auto simp: cwf_iff [of w])
        have le: "d + length (edge w) + 1 \<le> key_len" using split(1) by simp
        obtain c' where c': "remove_inner key key_len (d + length (edge w) + 1) c
            = (map_option snd (ccell c r), c')" "cwf c'" "ccell c' = (ccell c)(r := None)"
          using less.IH [OF nd_child_size [OF Some] wf le] unfolding split(3) [symmetric] by blast
        have "ccell (put_child (of_bool b) c' w) = (ccell w)(edge w @ b # r := None)"
          using ccell_put_child [of c' b w] c'(3) Some by simp
        moreover have "cwf (put_child (of_bool b) c' w)"
          using less.prems c'(2) by (simp add: cwf_put_child)
        ultimately show ?thesis
          unfolding eq' K' using Some c'(1) split(1) ccell_below [of w b r] by (simp add: fun_upd_def)
      qed
    qed
  qed
qed

lemma contains_inner_cell:
  assumes "key_len \<le> 128" and "d \<le> key_len"
  shows "contains_inner key key_len d w \<longleftrightarrow> ccell w (key_from key d key_len) \<noteq> None"
  using assms(2)
proof (induction w arbitrary: d rule: measure_induct_rule [of size])
  case (less w)
  note eq = contains_inner_eq [OF assms(1), of key d w, unfolded Let_def]
  let ?K = "key_from key d key_len"
  show ?case
  proof (cases "lcp_len (edge w) ?K < length (edge w)")
    case True
    then have "ccell w ?K = None" by (intro ccell_no_prefix edge_longer)
    with True show ?thesis unfolding eq by simp
  next
    case False
    then have "prefix (edge w) ?K" using lcp_len_le1 [of "edge w" ?K] by (simp flip: lcp_len_full_iff)
    then obtain rest where K: "?K = edge w @ rest" by (rule prefixE)
    show ?thesis
    proof (cases rest)
      case Nil
      then have "key_len - d = length (edge w)" by (metis K append_Nil2 length_key_from)
      then show ?thesis
        unfolding eq using K Nil ccell_here [of w] by (simp add: head_cell_def)
    next
      case (Cons b r)
      note K' = K [unfolded Cons] and split = key_from_split [OF K [unfolded Cons]]
      note eq' = eq [unfolded K' lcp_len_append split(2)]
      have le: "d + length (edge w) + 1 \<le> key_len" using split(1) by simp
      have "contains_inner key key_len (d + length (edge w) + 1) c \<longleftrightarrow> ccell c r \<noteq> None"
        if "nd_child b w = Some c" for c
        using less.IH [OF nd_child_size [OF that] le] unfolding split(3) [symmetric] .
      then show ?thesis
        unfolding eq' K' using split(1) ccell_below [of w b r] by (cases "nd_child b w") auto
    qed
  qed
qed

lemma clear_inner_cell:
  assumes "cwf w"
  shows "\<exists>w'. clear_inner w = Some w' \<and> cwf w' \<and> ccell w' = Map.empty"
proof -
  have rad: "is_radix w" using assms by (simp add: cwf_iff [of w])
  obtain w1 where w1: "nd_set_edge (replicate 16 0) 0 w = Some w1" "is_radix w1" "edge w1 = []"
    using set_edge_radix [OF rad, of "replicate 16 0" 0] by (auto simp: bits_of_bytes_def)
  define w2 where "w2 = nd_set_right None (nd_set_left None (nd_clear_metadata w1))"
  have kids: "nd_child b w2 = None" for b by (simp add: w2_def nd_child_def)
  have "cwf w2" unfolding cwf_iff [of w2] using w1 kids by (simp add: w2_def)
  moreover have "ccell w2 = Map.empty"
    unfolding ccell_glue [of w2] kids by (simp add: w2_def glue_empty)
  moreover have "clear_inner w = Some w2" by (simp add: clear_inner_def w1 w2_def)
  ultimately show ?thesis by blast
qed

section \<open>Lookup\<close>

text \<open>The longest prefix of a bit string with an entry in a map.\<close>

fun best_hit :: "(bool list \<rightharpoonup> 'v) \<Rightarrow> bool list \<Rightarrow> 'v option" where
  "best_hit f [] = f []"
| "best_hit f (b # ks) = or_else (best_hit (\<lambda>r. f (b # r)) ks) (f [])"

lemma best_hit_empty [simp]: "best_hit Map.empty ks = None"
  by (induction ks) simp_all

lemma best_hit_None: "best_hit f ks = None \<longleftrightarrow> (\<forall>qs. prefix qs ks \<longrightarrow> f qs = None)"
proof (induction ks arbitrary: f)
  case (Cons b ks)
  have "(\<forall>qs. prefix qs (b # ks) \<longrightarrow> f qs = None) \<longleftrightarrow> f [] = None \<and> (\<forall>qs. prefix qs ks \<longrightarrow> f (b # qs) = None)"
    by (metis Nil_prefix Cons_prefix_Cons prefix_Cons)
  with Cons show ?case by auto
qed simp

lemma best_hit_SomeD:
  "best_hit f ks = Some x \<Longrightarrow>
     \<exists>qs. prefix qs ks \<and> f qs = Some x \<and> (\<forall>rs. prefix rs ks \<longrightarrow> length qs < length rs \<longrightarrow> f rs = None)"
proof (induction ks arbitrary: f)
  case (Cons b ks)
  show ?case
  proof (cases "best_hit (\<lambda>r. f (b # r)) ks")
    case None
    then have "f rs = None" if "prefix rs (b # ks)" "rs \<noteq> []" for rs
      using that by (auto simp: best_hit_None prefix_Cons)
    moreover have "f [] = Some x" using Cons.prems None by simp
    ultimately show ?thesis by (intro exI [of _ "[]"]) auto
  next
    case (Some y)
    with Cons obtain qs where qs: "prefix qs ks" "f (b # qs) = Some x"
        "\<And>rs. prefix rs ks \<Longrightarrow> length qs < length rs \<Longrightarrow> f (b # rs) = None"
      by fastforce
    then have "f rs = None" if "prefix rs (b # ks)" "length (b # qs) < length rs" for rs
      using that by (auto simp: prefix_Cons)
    with qs(1,2) show ?thesis by (intro exI [of _ "b # qs"]) auto
  qed
qed auto

lemma glue_Cons:
  "glue (x # e) v kids [] = None"
  "glue (x # e) v kids (y # ks) = (if x = y then glue e v kids ks else None)"
  by (auto simp: glue_def)

lemma best_hit_glue:
  "best_hit (glue e v kids) ks =
     (if prefix e ks then (case drop (length e) ks of [] \<Rightarrow> v | b # r \<Rightarrow> or_else (best_hit (kids b) r) v) else None)"
proof (induction e arbitrary: ks)
  case Nil
  have "(\<lambda>r. glue [] v kids (b # r)) = kids b" for b by (simp add: glue_def)
  then show ?case by (cases ks) (simp_all add: glue_def)
next
  case (Cons x e)
  show ?case
  proof (cases ks)
    case (Cons y ys)
    with Cons.IH show ?thesis by (cases "x = y") (simp_all add: glue_Cons)
  qed (simp add: glue_Cons)
qed

text \<open>A node with an empty edge and no metadata but with children; \<open>lookup_inner\<close> stops at
  such a node. Only splits and removals create one.\<close>

definition barren :: "'n NodeWrapper \<Rightarrow> bool" where
  "barren w \<longleftrightarrow> edge w = [] \<and> nd_metadata w = None \<and> (\<exists>b. nd_child b w \<noteq> None)"

function no_barren :: "'n NodeWrapper \<Rightarrow> bool" where
  "no_barren w \<longleftrightarrow> \<not> (edge w = [] \<and> nd_metadata w = None \<and> (nd_left w \<noteq> None \<or> nd_right w \<noteq> None))
     \<and> (case nd_left w of None \<Rightarrow> True | Some c \<Rightarrow> no_barren c)
     \<and> (case nd_right w of None \<Rightarrow> True | Some c \<Rightarrow> no_barren c)"
  by pat_completeness auto
termination
  by (relation "measure size") (auto simp: nd_left_size nd_right_size)

declare no_barren.simps [simp del]

lemma no_barren_iff: "no_barren w \<longleftrightarrow> \<not> barren w \<and> (\<forall>b c. nd_child b w = Some c \<longrightarrow> no_barren c)"
  by (subst no_barren.simps)
     (auto simp: barren_def nd_child_def all_bool_eq ex_bool_eq split: option.splits)

lemma lookup_inner_eq:
  assumes "length key = 16"
  shows "lookup_inner key d w =
    (if edge w = [] \<and> nd_metadata w = None then None
     else if \<not> prefix (edge w) (key_from key d 128) then None
     else if 128 \<le> d + length (edge w) then nd_metadata w
     else or_else (case nd_child (bytes_bit key (d + length (edge w))) w of
         Some c \<Rightarrow> lookup_inner key (d + length (edge w) + 1) c | None \<Rightarrow> None) (nd_metadata w))"
proof -
  let ?sh = "lcp_len (edge w) (key_from key d 128)"
  have sh: "?sh < length (edge w) \<longleftrightarrow> \<not> prefix (edge w) (key_from key d 128)"
    using lcp_len_le1 [of "edge w" "key_from key d 128"] by (auto simp flip: lcp_len_full_iff)
  have full: "prefix (edge w) (key_from key d 128) \<Longrightarrow> ?sh = length (edge w)"
    by (simp add: lcp_len_full_iff)
  have "lookup_inner key d w =
      (if edge w = [] \<and> nd_metadata w = None then None
       else if ?sh < length (edge w) then None
       else if 128 \<le> d + ?sh then nd_metadata w
       else or_else (case nd_child (bytes_bit key (d + ?sh)) w of
         Some c \<Rightarrow> lookup_inner key (d + ?sh + 1) c | None \<Rightarrow> None) (nd_metadata w))"
    by (subst lookup_inner.simps)
       (simp add: assms Let_def case_prod_unfold snd_node_edge shared_lcp [of 128] get_bit_from_bytes_of_bool
         split: option.split)
  then show ?thesis using sh full by (simp cong: option.case_cong)
qed

text \<open>Without such nodes the walk returns the longest stored prefix of the key; with them it
  still returns a stored prefix of the key or nothing.\<close>

lemma lookup_inner_best:
  assumes "length key = 16" and "no_barren w"
  shows "lookup_inner key d w = map_option snd (best_hit (ccell w) (key_from key d 128))"
  using assms(2)
proof (induction w arbitrary: d rule: measure_induct_rule [of size])
  case (less w)
  let ?K = "key_from key d 128"
  note eq = lookup_inner_eq [OF assms(1), of d w]
  note hit = best_hit_glue [of "edge w" "head_cell w" "\<lambda>b. kid (nd_child b w)" ?K, folded ccell_glue]
  consider "\<not> prefix (edge w) ?K" | "?K = edge w" | b r where "?K = edge w @ b # r"
    by (metis append_Nil2 list.exhaust prefix_def)
  then show ?case
  proof cases
    case 1
    then show ?thesis unfolding eq hit by simp
  next
    case 2
    then have "128 - d = length (edge w)" by (metis length_key_from)
    then have "128 \<le> d + length (edge w)" by simp
    with 2 show ?thesis unfolding eq hit by (simp add: head_cell_snd)
  next
    case (3 b r)
    note split = key_from_split [OF 3]
    have nz: "\<not> (edge w = [] \<and> nd_metadata w = None)" if "nd_child b w \<noteq> None"
      using less.prems that by (auto simp: no_barren_iff [of w] barren_def)
    have "lookup_inner key (d + length (edge w) + 1) c = map_option snd (best_hit (ccell c) r)"
      if "nd_child b w = Some c" for c
      unfolding split(3)
      using less.IH [OF nd_child_size [OF that]] less.prems that by (auto simp: no_barren_iff [of w])
    then show ?thesis
      unfolding eq 3 split(2) hit [unfolded 3] using split(1) nz
      by (cases "nd_child b w"; cases "nd_metadata w"; cases "best_hit (kid (nd_child b w)) r")
         (auto simp: head_cell_def)
  qed
qed

lemma lookup_inner_sound:
  assumes "length key = 16" and "lookup_inner key d w = Some m"
  shows "\<exists>qs p. prefix qs (key_from key d 128) \<and> ccell w qs = Some (p, m)"
  using assms(2)
proof (induction w arbitrary: d rule: measure_induct_rule [of size])
  case (less w)
  let ?K = "key_from key d 128"
  note eq = lookup_inner_eq [OF assms(1), of d w]
  have pre: "prefix (edge w) ?K" using less.prems unfolding eq by (auto split: if_splits)
  show ?case
  proof (cases "nd_metadata w = Some m")
    case True
    then show ?thesis using pre ccell_here [of w] by (auto simp: head_cell_def)
  next
    case False
    with less.prems pre obtain c where lt: "d + length (edge w) < 128"
        and c: "nd_child (bytes_bit key (d + length (edge w))) w = Some c"
          "lookup_inner key (d + length (edge w) + 1) c = Some m"
      unfolding eq by (cases "nd_metadata w") (auto split: if_splits option.splits elim: or_else.elims)
    from less.IH [OF nd_child_size [OF c(1)] c(2)] obtain qs p
      where qs: "prefix qs (key_from key (d + length (edge w) + 1) 128)" "ccell c qs = Some (p, m)"
      by blast
    obtain rest where K: "?K = edge w @ rest" using pre by (rule prefixE)
    then obtain b r where br: "rest = b # r"
      using lt by (cases rest) (auto dest: arg_cong [where f = length])
    note split = key_from_split [OF K [unfolded br]]
    have "prefix (edge w @ b # qs) ?K" using K br qs(1) split(3) by simp
    moreover have "ccell w (edge w @ b # qs) = Some (p, m)"
      using ccell_below [of w b qs] c(1) qs(2) split(2) by simp
    ultimately show ?thesis by blast
  qed
qed

section \<open>The tree as a route table\<close>

text \<open>The bits a network is filed under: the first \<open>prefix()\<close> bits of the 16-byte key.\<close>

definition ckey :: "'n ipnet_ops \<Rightarrow> 'n \<Rightarrow> bool list" where
  "ckey N n = key_from (ip_to_bytes (net_network N n)) 0 (net_prefix N n)"

definition ct_abs :: "'n CompressedTree \<Rightarrow> bool list \<rightharpoonup> 'n \<times> Metadata" where
  "ct_abs t ks = (case ccell (ct_root t) ks of Some (Some n, m) \<Rightarrow> Some (n, m) | _ \<Rightarrow> None)"

definition ct_tidy :: "'n ipnet_ops \<Rightarrow> (bool list \<rightharpoonup> 'n option \<times> Metadata) \<Rightarrow> bool" where
  "ct_tidy N f \<longleftrightarrow> (\<forall>ks p m. f ks = Some (p, m) \<longrightarrow> (\<exists>n. p = Some n \<and> ckey N n = ks))"

definition ct_inv :: "'n ipnet_ops \<Rightarrow> 'n CompressedTree \<Rightarrow> bool" where
  "ct_inv N t \<longleftrightarrow> cwf (ct_root t) \<and> is_compressed (ct_node_builder t) \<and> ct_tidy N (ccell (ct_root t))"

lemma finite_dom_glue:
  assumes "\<And>b. finite (dom (kids b))"
  shows "finite (dom (glue e v kids))"
proof (rule finite_subset)
  show "dom (glue e v kids) \<subseteq> {e} \<union> (\<Union>b. (\<lambda>r. e @ b # r) ` dom (kids b))"
  proof
    fix ks assume "ks \<in> dom (glue e v kids)"
    then obtain y where y: "glue e v kids ks = Some y" by auto
    then obtain zs where ks: "ks = e @ zs" using glue_no_prefix [of e ks v kids] by (auto simp: prefix_def)
    show "ks \<in> {e} \<union> (\<Union>b. (\<lambda>r. e @ b # r) ` dom (kids b))"
    proof (cases zs)
      case (Cons b r)
      with y ks have "r \<in> dom (kids b)" by auto
      with ks Cons show ?thesis by blast
    qed (simp add: ks)
  qed
qed (use assms in auto)

lemma finite_dom_ccell: "finite (dom (ccell w))"
proof (induction w rule: measure_induct_rule [of size])
  case (less w)
  have "finite (dom (kid (nd_child b w)))" for b
    using less nd_child_size [of b w] by (cases "nd_child b w") auto
  then show ?case unfolding ccell_glue [of w] by (rule finite_dom_glue)
qed

lemma ct_tidy_cell: "ct_inv N t \<Longrightarrow> ccell (ct_root t) ks = map_option (\<lambda>(n, m). (Some n, m)) (ct_abs t ks)"
  by (auto simp: ct_inv_def ct_tidy_def ct_abs_def split: option.split)

lemma ct_abs_Some: "ct_abs t ks = Some (n, m) \<longleftrightarrow> ccell (ct_root t) ks = Some (Some n, m)"
  by (auto simp: ct_abs_def split: option.splits)

lemma ct_tidy_insert: "ct_tidy N f \<Longrightarrow> ct_tidy N (f(ckey N n \<mapsto> (Some n, m)))"
  by (auto simp: ct_tidy_def)

lemma ct_tidy_remove: "ct_tidy N f \<Longrightarrow> ct_tidy N (f(ks := None))"
  by (auto simp: ct_tidy_def)

lemma ct_abs_upd:
  "ccell w' = (ccell (ct_root t))(ks := x) \<Longrightarrow>
     ct_abs (t\<lparr>ct_root := w'\<rparr>) = (ct_abs t)(ks := (case x of Some (Some n, m) \<Rightarrow> Some (n, m) | _ \<Rightarrow> None))"
  by (rule ext) (simp add: ct_abs_def)

lemma is_compressed_variant [simp]: "is_compressed (compressed_variant v)"
  by (cases v) simp_all

lemma build_empty:
  assumes "is_compressed v"
  shows "ccell (NodeBuilder_build v) = Map.empty" and "cwf (NodeBuilder_build v)"
proof -
  show "ccell (NodeBuilder_build v) = Map.empty"
    unfolding ccell_glue [of "NodeBuilder_build v"] by (simp add: head_cell_def glue_empty)
  show "cwf (NodeBuilder_build v)"
    unfolding cwf_iff [of "NodeBuilder_build v"] using assms by (simp add: edge_def node_edge_def)
qed

lemma CompressedTree_new_table [simp]:
  "ct_inv N (CompressedTree_new v)" "ct_abs (CompressedTree_new v) = Map.empty"
  by (auto simp: ct_inv_def ct_tidy_def ct_abs_def CompressedTree_new_def Let_def build_empty)

context ipnetwork
begin

lemma net_prefix_le_128: "net_prefix N n \<le> 128"
  using net_prefix_le [of n] ip_width_le [of "net_ip N n"] by linarith

lemma ct_insert_table:
  assumes "ct_inv N t"
  shows "\<exists>t'. CompressedTree_insert N n m t = Some (Inr (ct_abs t (ckey N n) = None), t')
    \<and> ct_inv N t' \<and> ct_abs t' = (ct_abs t)(ckey N n \<mapsto> (n, m))"
proof -
  have "inserts (ct_root t) (ckey N n) n m
      (insert_inner (ct_node_builder t) (ip_to_bytes (net_network N n)) (net_prefix N n) 0 n m (ct_root t))"
    unfolding ckey_def using assms net_prefix_le_128
    by (intro insert_inner_cell) (simp_all add: ct_inv_def)
  then obtain w' where w': "insert_inner (ct_node_builder t) (ip_to_bytes (net_network N n))
        (net_prefix N n) 0 n m (ct_root t) = Some (ccell (ct_root t) (ckey N n) = None, w')"
      "cwf w'" "ccell w' = (ccell (ct_root t))(ckey N n \<mapsto> (Some n, m))"
    by (auto simp: inserts_def)
  have "ct_inv N (t\<lparr>ct_root := w'\<rparr>)"
    using assms w' by (simp add: ct_inv_def ct_tidy_insert)
  then show ?thesis
    using w'(1) ct_abs_upd [OF w'(3)] ct_tidy_cell [OF assms, of "ckey N n"]
    by (simp add: CompressedTree_insert_def)
qed

lemma ct_remove_table:
  assumes "ct_inv N t"
  shows "\<exists>t'. CompressedTree_remove N n t = (map_option snd (ct_abs t (ckey N n)), t')
    \<and> ct_inv N t' \<and> ct_abs t' = (ct_abs t)(ckey N n := None)"
proof -
  have "cwf (ct_root t)" using assms by (simp add: ct_inv_def)
  then obtain w' where w': "remove_inner (ip_to_bytes (net_network N n)) (net_prefix N n) 0 (ct_root t)
        = (map_option snd (ccell (ct_root t) (ckey N n)), w')"
      "cwf w'" "ccell w' = (ccell (ct_root t))(ckey N n := None)"
    using remove_inner_cell [OF _ net_prefix_le_128, of "ct_root t" 0] unfolding ckey_def by blast
  have "ct_inv N (t\<lparr>ct_root := w'\<rparr>)"
    using assms w' by (simp add: ct_inv_def ct_tidy_remove)
  moreover have "map_option snd (ccell (ct_root t) (ckey N n)) = map_option snd (ct_abs t (ckey N n))"
    using ct_tidy_cell [OF assms, of "ckey N n"] by (simp add: option.map_comp o_def case_prod_unfold)
  ultimately show ?thesis
    using w'(1) ct_abs_upd [OF w'(3)] by (simp add: CompressedTree_remove_def)
qed

lemma ct_contains_table:
  "ct_inv N t \<Longrightarrow> CompressedTree_contains N n t \<longleftrightarrow> ct_abs t (ckey N n) \<noteq> None"
  using ct_tidy_cell [of N t "ckey N n"]
  by (simp add: CompressedTree_contains_def contains_inner_cell net_prefix_le_128 flip: ckey_def
      del: not_None_eq)

lemma ct_clear_table:
  assumes "ct_inv N t"
  shows "\<exists>t'. CompressedTree_clear t = Some t' \<and> ct_inv N t' \<and> ct_abs t' = Map.empty"
proof -
  obtain w' where "clear_inner (ct_root t) = Some w'" "cwf w'" "ccell w' = Map.empty"
    using clear_inner_cell assms by (auto simp: ct_inv_def)
  with assms show ?thesis
    by (auto simp: CompressedTree_clear_def ct_inv_def ct_tidy_def ct_abs_def)
qed

lemma ct_filed: "ct_inv N t \<Longrightarrow> ct_abs t k = Some (n, m) \<Longrightarrow> ckey N n = k"
  by (auto simp: ct_inv_def ct_tidy_def ct_abs_Some)

lemma ct_finite: "finite (dom (ct_abs t))"
  by (rule finite_subset [OF _ finite_dom_ccell [of "ct_root t"]])
     (auto simp: ct_abs_def split: option.splits)

end

lemma CompressedTree_clearing_tree:
  assumes "ipnetwork N"
  shows "clearing_tree (CompressedTree_RouteTree N) (ct_inv N) ct_abs (ckey N)"
  using assms
  by unfold_locales
     (simp_all add: CompressedTree_RouteTree_def ipnetwork.ct_insert_table ipnetwork.ct_remove_table
       ipnetwork.ct_contains_table ipnetwork.ct_filed ipnetwork.ct_finite ipnetwork.ct_clear_table)

interpretation ct: clearing_tree "CompressedTree_RouteTree cidr_ops" "ct_inv cidr_ops" ct_abs
  "ckey cidr_ops"
  by (rule CompressedTree_clearing_tree) (rule cidr.ipnetwork_axioms)

section \<open>Which routes a lookup finds\<close>

lemma length_ip_to_bytes [simp]: "length (ip_to_bytes ip) = 16"
  by (cases ip) simp_all

text \<open>An IPv4 address is looked up under the bytes of the IPv6 address with the same low 32 bits.\<close>

fun as_v6 :: "IpAddr \<Rightarrow> IpAddr" where
  "as_v6 (V4 a) = V6 (ucast a)"
| "as_v6 (V6 a) = V6 a"

lemma ip_to_bytes_as_v6: "ip_to_bytes (as_v6 ip) = ip_to_bytes ip"
proof (cases ip)
  case (V4 a)
  have "be_bytes 16 (ucast a :: u128) ! i = (replicate 12 0 @ be_bytes 4 a) ! i" if "i < 16" for i
    using that by (auto simp: be_bytes_def nth_append bit_eq_iff bit_simps dest: bit_imp_le_length)
  then show ?thesis using V4 by (auto intro!: nth_equalityI)
qed simp

lemma CompressedTree_lookup_as_v6: "CompressedTree_lookup (as_v6 ip) t = CompressedTree_lookup ip t"
  by (simp add: CompressedTree_lookup_def ip_to_bytes_as_v6)

lemma as_v6_V6: "\<exists>a. as_v6 ip = V6 a"
  by (cases ip) simp_all

lemma key_from_V6: "l \<le> 128 \<Longrightarrow> key_from (ip_to_bytes (V6 a)) 0 l = take l (ip_bits (V6 a))"
  by (auto intro!: nth_equalityI simp: ip_bits_nth)

lemma bytes_bit_V4_zero: "p < 96 \<Longrightarrow> \<not> bytes_bit (ip_to_bytes (V4 a)) p"
  by (auto simp: bytes_bit_def nth_append div_less_iff_less_mult)

lemma key_from_V4: "l \<le> 96 \<Longrightarrow> key_from (ip_to_bytes (V4 a)) 0 l = replicate l False"
  by (auto intro!: nth_equalityI simp: bytes_bit_V4_zero simp del: ip_to_bytes.simps)

context ipnetwork
begin

lemma ckey_V6:
  assumes "\<not> net_v4 N n"
  shows "ckey N n = net_bits N n"
proof -
  obtain a where "net_network N n = V6 a"
    using assms net_network_family [of n] by (cases "net_network N n") (auto simp: net_v4_def)
  then show ?thesis by (simp add: ckey_def key_from_V6 net_prefix_le_128 net_bits_def del: ip_to_bytes.simps)
qed

lemma ckey_V4:
  assumes "net_v4 N n"
  shows "ckey N n = replicate (net_prefix N n) False"
proof -
  obtain a where a: "net_network N n = V4 a"
    using assms net_network_family [of n] by (cases "net_network N n") (auto simp: net_v4_def)
  have "ip_width (net_ip N n) = 32" using assms net_network_family [of n] by (cases "net_ip N n") (auto simp: net_v4_def)
  then have "net_prefix N n \<le> 96" using net_prefix_le [of n] by simp
  with a show ?thesis by (simp add: ckey_def key_from_V4 del: ip_to_bytes.simps)
qed

text \<open>Over a table of IPv6 networks the tree is a longest-prefix matcher, provided no barren
  node stands in the way.\<close>

lemma ct_lookup_lpm:
  assumes "ct_inv N t" and "no_barren (ct_root t)"
    and v6: "\<And>n m. (n, m) \<in> ran (ct_abs t) \<Longrightarrow> \<not> net_v4 N n"
  shows "lpm_result N (ran (ct_abs t)) (V6 a) (CompressedTree_lookup (V6 a) t)"
proof -
  let ?f = "ccell (ct_root t)" and ?K = "ip_bits (V6 a)"
  have K: "key_from (ip_to_bytes (V6 a)) 0 128 = ?K" by (simp add: key_from_V6 del: ip_to_bytes.simps)
  have look: "CompressedTree_lookup (V6 a) t = map_option snd (best_hit ?f ?K)"
    unfolding CompressedTree_lookup_def
    using lookup_inner_best [OF length_ip_to_bytes assms(2), of "V6 a" 0] unfolding K .
  have ent: "ct_abs t (net_bits N n) = Some (n, m)" if mem: "(n, m) \<in> ran (ct_abs t)" for n m
  proof -
    obtain k where k: "ct_abs t k = Some (n, m)" using mem by (auto simp: ran_def)
    with ct_filed [OF assms(1) k] ckey_V6 [OF v6 [OF mem]] show ?thesis by simp
  qed
  have match: "network_contains_ip N n (V6 a) \<longleftrightarrow> prefix (net_bits N n) ?K"
    if "(n, m) \<in> ran (ct_abs t)" for n m
    using v6 [OF that] by (simp add: network_contains_ip_iff)
  show ?thesis
  proof (cases "best_hit ?f ?K")
    case None
    then have none: "prefix qs ?K \<Longrightarrow> ?f qs = None" for qs by (simp add: best_hit_None)
    have "\<not> network_contains_ip N n (V6 a)" if "(n, m) \<in> ran (ct_abs t)" for n m
      using match [OF that] ent [OF that] none [of "net_bits N n"] by (auto simp: ct_abs_Some)
    moreover have "CompressedTree_lookup (V6 a) t = None" using look None by simp
    ultimately show ?thesis by (simp add: lpm_result_def)
  next
    case (Some e)
    from best_hit_SomeD [OF this] obtain qs where qs: "prefix qs ?K" "?f qs = Some e"
        "\<forall>rs. prefix rs ?K \<longrightarrow> length qs < length rs \<longrightarrow> ?f rs = None"
      by blast
    obtain n m where e: "e = (Some n, m)" "ct_abs t qs = Some (n, m)"
      using qs(2) ct_tidy_cell [OF assms(1), of qs] by auto
    then have mem: "(n, m) \<in> ran (ct_abs t)" by (auto simp: ran_def)
    have nb: "qs = net_bits N n"
      using ct_filed [OF assms(1) e(2)] ckey_V6 [OF v6 [OF mem]] by simp
    have "best_entry N (V6 a) (ran (ct_abs t)) (n, m)"
      unfolding best_entry_def fst_conv
    proof (intro conjI allI impI)
      show "network_contains_ip N n (V6 a)" using match [OF mem] qs(1) nb by simp
      show "net_prefix N n' \<le> net_prefix N n" if "(n', m') \<in> ran (ct_abs t)"
        "network_contains_ip N n' (V6 a)" for n' m'
        using qs(3) [rule_format, of "net_bits N n'"] match [OF that(1)] ent [OF that(1)] that(2) nb
        by (auto simp: ct_abs_Some intro!: leI)
    qed (rule mem)
    moreover have "CompressedTree_lookup (V6 a) t = Some m" using look Some e(1) by simp
    ultimately show ?thesis by (auto simp: lpm_result_def)
  qed
qed

text \<open>In general a hit is the metadata of an entry filed under a prefix of the 16-byte key.\<close>

lemma ct_lookup_sound:
  assumes "ct_inv N t" and "CompressedTree_lookup ip t = Some m"
  shows "\<exists>n. ct_abs t (ckey N n) = Some (n, m) \<and> prefix (ckey N n) (key_from (ip_to_bytes ip) 0 128)"
proof -
  obtain qs p where qs: "prefix qs (key_from (ip_to_bytes ip) 0 128)" "ccell (ct_root t) qs = Some (p, m)"
    using lookup_inner_sound [OF length_ip_to_bytes] assms(2) unfolding CompressedTree_lookup_def by blast
  then obtain n where "p = Some n" "ckey N n = qs" using assms(1) by (auto simp: ct_inv_def ct_tidy_def)
  with qs show ?thesis by (auto simp: ct_abs_Some)
qed

end

section \<open>Two routes that part at the first bit\<close>

lemma insert_blank_edge:
  assumes "cwf w" and "key_len \<le> 128" and "blank_node w"
  shows "\<exists>w'. insert_inner v key key_len d pfx md w = Some (True, w') \<and> edge w' = key_from key d key_len
    \<and> no_barren w'"
proof -
  let ?rem = "extract_bits key d (key_len - d)"
  have "is_radix w" using assms(1) by (simp add: cwf_iff [of w])
  from set_edge_radix [OF this, of ?rem "key_len - d"] obtain w1
    where w1: "nd_set_edge ?rem (key_len - d) w = Some w1" "edge w1 = key_from key d key_len"
      "nd_left w1 = None" "nd_right w1 = None"
    using bits_of_key_rem [OF assms(2)] assms(3) by (auto simp: blank_node_def)
  then have "no_barren (nd_set_metadata md (nd_set_prefix pfx w1))"
    by (subst no_barren.simps) simp
  with w1 show ?thesis
    unfolding insert_inner_eq_nonblank [OF assms(2), of v key d pfx md w] using assms(3) by simp
qed

lemma insert_fork_root:
  assumes "is_compressed v" and "cwf w" and "key_len \<le> 128"
    and e: "edge w = b # t" and K: "key_from key d key_len = (\<not> b) # r"
  shows "\<exists>w'. insert_inner v key key_len d pfx md w = Some (True, w') \<and> edge w' = [] \<and> nd_metadata w' = None"
proof -
  let ?rem = "extract_bits key d (key_len - d)" and ?n = "key_len - d - 1"
  have lt: "0 < length (edge w)" using e by simp
  obtain w1 where w1: "split_node v (fst (node_edge w)) (length (edge w)) 0 w = Some w1"
      "edge w1 = []" "head_cell w1 = None"
    using split_node_cell [OF assms(1,2) lt] by auto
  have "?n \<le> 128" using assms(3) by simp
  then obtain leaf where leaf: "new_edge_leaf v (extract_bits ?rem 1 ?n) ?n pfx md = Some leaf"
    using new_edge_leafE [OF assms(1), of ?n "extract_bits ?rem 1 ?n" pfx md] by metis
  have "\<not> blank_node w" using e by (simp add: blank_node_def)
  moreover have "lcp_len (edge w) (key_from key d key_len) = 0" by (simp add: e K)
  moreover have "key_len - d \<noteq> 0" by (metis K length_key_from list.size(3) list.distinct(1) length_0_conv)
  ultimately show ?thesis
    unfolding insert_inner_eq_nonblank [OF assms(3), of v key d pfx md w]
    using w1 leaf lt by (simp add: head_cell_def)
qed

lemma blank_build: "is_compressed v \<Longrightarrow> blank_node (NodeBuilder_build v)"
  by (simp add: blank_node_def edge_def node_edge_def)

context ipnetwork
begin

lemma ct_first_insert:
  assumes "CompressedTree_insert N n m (CompressedTree_new v) = Some (r, t)"
  shows "edge (ct_root t) = ckey N n" and "ct_inv N t" and "ct_abs t = [ckey N n \<mapsto> (n, m)]"
    and "ct_node_builder t = compressed_variant v" and "no_barren (ct_root t)"
proof -
  let ?v = "compressed_variant v"
  obtain w' where w': "insert_inner ?v (ip_to_bytes (net_network N n)) (net_prefix N n) 0 n m
      (NodeBuilder_build ?v) = Some (True, w')" "edge w' = ckey N n" "no_barren w'"
    using insert_blank_edge [OF build_empty(2) net_prefix_le_128 blank_build, of ?v ?v]
    unfolding ckey_def by fastforce
  with assms have t: "t = (CompressedTree_new v)\<lparr>ct_root := w'\<rparr>"
    by (auto simp: CompressedTree_insert_def CompressedTree_new_def Let_def)
  then show "edge (ct_root t) = ckey N n" "ct_node_builder t = ?v" "no_barren (ct_root t)"
    using w' by (simp_all add: CompressedTree_new_def Let_def)
  show "ct_inv N t" "ct_abs t = [ckey N n \<mapsto> (n, m)]"
    using ct_insert_table [of "CompressedTree_new v" n m] assms by auto
qed

lemma ct_fork_blind:
  assumes "CompressedTree_insert N n m (CompressedTree_new v) = Some (r, t)"
    and "CompressedTree_insert N n' m' t = Some (r', t')"
    and "ckey N n = b # ks" and "ckey N n' = (\<not> b) # ks'"
  shows "CompressedTree_lookup ip t' = None"
proof -
  note first = ct_first_insert [OF assms(1)]
  have ok: "is_compressed (ct_node_builder t)" "cwf (ct_root t)"
    using first(2) by (simp_all add: ct_inv_def)
  have e: "edge (ct_root t) = b # ks" using first(1) assms(3) by simp
  from insert_fork_root [OF ok net_prefix_le_128 e assms(4) [unfolded ckey_def], of n' m']
  obtain w' where "insert_inner (ct_node_builder t) (ip_to_bytes (net_network N n')) (net_prefix N n') 0 n' m'
      (ct_root t) = Some (True, w')" "edge w' = []" "nd_metadata w' = None"
    by blast
  with assms(2) have "edge (ct_root t') = []" "nd_metadata (ct_root t') = None"
    by (auto simp: CompressedTree_insert_def)
  then show ?thesis
    by (simp add: CompressedTree_lookup_def lookup_inner_eq)
qed

text \<open>After one IPv4 insertion every IPv4 address is answered with that route.\<close>

lemma ct_V4_edge:
  assumes "ct_inv N t" and "ct_abs t = [ckey N n \<mapsto> (n, m)]" and "edge (ct_root t) = ckey N n" and "net_v4 N n"
  shows "CompressedTree_lookup (V4 a) t = Some m"
proof -
  let ?K = "key_from (ip_to_bytes (V4 a)) 0 128"
  have e: "edge (ct_root t) = replicate (net_prefix N n) False"
    using assms(3) ckey_V4 [OF assms(4)] by simp
  have p: "net_prefix N n \<le> 32"
    using net_prefix_le [of n] net_network_family [of n] assms(4)
    by (cases "net_ip N n") (auto simp: net_v4_def)
  have "take (net_prefix N n) ?K = replicate (net_prefix N n) False"
    using p by (auto intro!: nth_equalityI simp: bytes_bit_V4_zero simp del: ip_to_bytes.simps)
  then have pre: "prefix (edge (ct_root t)) ?K" unfolding e by (metis take_is_prefix)
  have "nd_metadata (ct_root t) = Some m"
    using ccell_here [of "ct_root t"] ct_tidy_cell [OF assms(1), of "ckey N n"] assms(2,3)
    by (cases "nd_metadata (ct_root t)") (auto simp: head_cell_def)
  then have "CompressedTree_lookup (V4 a) t \<noteq> None"
    using pre lookup_inner_eq [OF length_ip_to_bytes, of "V4 a" 0 "ct_root t"]
    by (simp add: CompressedTree_lookup_def del: ip_to_bytes.simps not_None_eq)
  then obtain m' where m': "CompressedTree_lookup (V4 a) t = Some m'" by auto
  from ct_lookup_sound [OF assms(1) m'] have "m' = m"
    unfolding assms(2) by (auto split: if_splits)
  with m' show ?thesis by simp
qed

lemma ct_V4_any:
  assumes "CompressedTree_insert N n m (CompressedTree_new v) = Some (r, t)" and "net_v4 N n"
  shows "CompressedTree_lookup (V4 a) t = Some m"
  using ct_first_insert [OF assms(1)] assms(2) by (intro ct_V4_edge)

text \<open>Inserting the route again keeps the edge.\<close>

lemma ct_insert_again:
  assumes "ct_inv N t" and "ct_abs t = [ckey N n \<mapsto> (n, m)]" and "edge (ct_root t) = ckey N n"
    and "CompressedTree_insert N n m t = Some (r, t')"
  shows "ct_inv N t'" and "ct_abs t' = [ckey N n \<mapsto> (n, m)]" and "edge (ct_root t') = ckey N n"
proof -
  show "ct_inv N t'" "ct_abs t' = [ckey N n \<mapsto> (n, m)]"
    using ct_insert_table [OF assms(1), of n m] assms(2,4) by auto
  have "nd_metadata (ct_root t) \<noteq> None"
    using ccell_here [of "ct_root t"] ct_tidy_cell [OF assms(1), of "ckey N n"] assms(2,3)
    by (cases "nd_metadata (ct_root t)") (auto simp: head_cell_def)
  then have "insert_inner v (ip_to_bytes (net_network N n)) (net_prefix N n) 0 n m (ct_root t) =
      Some (False, nd_set_prefix n (nd_set_metadata m (ct_root t)))" for v
    using assms(3) by (subst insert_inner_eq [OF net_prefix_le_128]) (simp add: ckey_def Let_def)
  then show "edge (ct_root t') = ckey N n"
    using assms(3,4) by (auto simp: CompressedTree_insert_def Let_def)
qed

end

end
