(* ===== verification/Engine.thy ===== *)
theory Engine
  imports PatriciaMap
begin

text \<open>
  The engines of \<open>engine.rs\<close>: \<open>StandardEngine\<close>, a route tree with a size counter and
  statistics, and \<open>ShardedEngine\<close>, several standard engines over one tree. The trees clone
  by cloning the \<open>Arc\<close> of their root, so the shards of one engine share a single tree and
  own only their counters; the model holds that tree once. The trait \<open>RadixEngine\<close> is a
  record of methods, its contract the locale \<open>radix_engine\<close>, and both engines are shown to
  meet it over every tree that meets \<open>route_tree\<close>.
\<close>

section \<open>The trait\<close>

text \<open>Methods may panic (\<open>None\<close>); \<open>lookup\<close> updates statistics, so it returns the engine.\<close>

record ('e, 'n) RadixEngine =
  re_insert :: "'n \<Rightarrow> Metadata \<Rightarrow> 'e \<Rightarrow> ((string + unit) \<times> 'e) option"
  re_lookup :: "IpAddr \<Rightarrow> 'e \<Rightarrow> (Metadata option \<times> 'e) option"
  re_remove :: "'n \<Rightarrow> 'e \<Rightarrow> (Metadata option \<times> 'e) option"
  re_contains :: "'n \<Rightarrow> 'e \<Rightarrow> bool"
  re_clear :: "'e \<Rightarrow> 'e option"
  re_size :: "'e \<Rightarrow> usize"
  re_stats :: "'e \<Rightarrow> EngineStats"

locale radix_engine =
  fixes E :: "('e, 'n) RadixEngine"
    and inv :: "'e \<Rightarrow> bool"
    and abs :: "'e \<Rightarrow> bool list \<rightharpoonup> 'n \<times> Metadata"
    and key :: "'n \<Rightarrow> bool list"
    and answer :: "'e \<Rightarrow> IpAddr \<Rightarrow> Metadata option"
  assumes engine_insert: "inv e \<Longrightarrow>
      \<exists>e'. re_insert E n m e = Some (Inr (), e') \<and> inv e' \<and> abs e' = (abs e)(key n \<mapsto> (n, m))"
    and engine_lookup: "inv e \<Longrightarrow>
      \<exists>e'. re_lookup E ip e = Some (answer e ip, e') \<and> inv e' \<and> abs e' = abs e \<and> answer e' = answer e"
    and engine_remove: "inv e \<Longrightarrow>
      \<exists>e'. re_remove E n e = Some (map_option snd (abs e (key n)), e')
        \<and> inv e' \<and> abs e' = (abs e)(key n := None)"
    and engine_contains: "inv e \<Longrightarrow> re_contains E n e \<longleftrightarrow> abs e (key n) \<noteq> None"
    and engine_size: "inv e \<Longrightarrow> re_size E e = of_nat (card (dom (abs e)))"

section \<open>Standard engine\<close>

record 't StandardEngine =
  se_tree :: 't
  se_size :: usize
  se_stats :: EngineStats

definition StandardEngine_new :: "'t \<Rightarrow> 't StandardEngine" where
  "StandardEngine_new tree = \<lparr>se_tree = tree, se_size = 0, se_stats = EngineStats_default\<rparr>"

definition StandardEngine_size :: "'t StandardEngine \<Rightarrow> usize" where
  "StandardEngine_size e = se_size e"

definition StandardEngine_insert ::
  "('t, 'n) RouteTree \<Rightarrow> 'n \<Rightarrow> Metadata \<Rightarrow> 't StandardEngine \<Rightarrow> ((string + unit) \<times> 't StandardEngine) option" where
  "StandardEngine_insert T pfx md e =
     (case rt_insert T pfx md (se_tree e) of
        None \<Rightarrow> None
      | Some (Inl err, t) \<Rightarrow> Some (Inl err, e\<lparr>se_tree := t\<rparr>)
      | Some (Inr is_new, t) \<Rightarrow>
          (let e = e\<lparr>se_tree := t\<rparr>;
               e = (if is_new then e\<lparr>se_size := se_size e + 1\<rparr> else e);
               stats = se_stats e
           in Some (Inr (), e\<lparr>se_stats := stats\<lparr>st_inserts := st_inserts stats + 1,
                st_size := StandardEngine_size e\<rparr>\<rparr>)))"

definition StandardEngine_lookup ::
  "('t, 'n) RouteTree \<Rightarrow> IpAddr \<Rightarrow> 't StandardEngine \<Rightarrow> Metadata option \<times> 't StandardEngine" where
  "StandardEngine_lookup T ip e =
     (let result = rt_lookup T ip (se_tree e);
          stats = (se_stats e)\<lparr>st_lookups := st_lookups (se_stats e) + 1\<rparr>;
          stats = (if result \<noteq> None then stats\<lparr>st_hits := st_hits stats + 1\<rparr>
                   else stats\<lparr>st_misses := st_misses stats + 1\<rparr>)
      in (result, e\<lparr>se_stats := stats\<rparr>))"

definition StandardEngine_remove ::
  "('t, 'n) RouteTree \<Rightarrow> 'n \<Rightarrow> 't StandardEngine \<Rightarrow> Metadata option \<times> 't StandardEngine" where
  "StandardEngine_remove T pfx e =
     (let (removed, t) = rt_remove T pfx (se_tree e); e = e\<lparr>se_tree := t\<rparr> in
      if removed \<noteq> None then
        (let e = e\<lparr>se_size := se_size e - 1\<rparr>; stats = se_stats e
         in (removed, e\<lparr>se_stats := stats\<lparr>st_removals := st_removals stats + 1,
              st_size := StandardEngine_size e\<rparr>\<rparr>))
      else (removed, e))"

definition StandardEngine_contains :: "('t, 'n) RouteTree \<Rightarrow> 'n \<Rightarrow> 't StandardEngine \<Rightarrow> bool" where
  "StandardEngine_contains T pfx e = rt_contains T pfx (se_tree e)"

definition StandardEngine_clear :: "('t, 'n) RouteTree \<Rightarrow> 't StandardEngine \<Rightarrow> 't StandardEngine option" where
  "StandardEngine_clear T e =
     map_option (\<lambda>t. e\<lparr>se_tree := t, se_size := 0, se_stats := (se_stats e)\<lparr>st_size := 0\<rparr>\<rparr>)
       (rt_clear T (se_tree e))"

definition StandardEngine_stats :: "'t StandardEngine \<Rightarrow> EngineStats" where
  "StandardEngine_stats e = (se_stats e)\<lparr>st_size := StandardEngine_size e\<rparr>"

definition StandardEngine_RadixEngine :: "('t, 'n) RouteTree \<Rightarrow> ('t StandardEngine, 'n) RadixEngine" where
  "StandardEngine_RadixEngine T = \<lparr>
     re_insert = StandardEngine_insert T,
     re_lookup = (\<lambda>ip e. Some (StandardEngine_lookup T ip e)),
     re_remove = (\<lambda>n e. Some (StandardEngine_remove T n e)),
     re_contains = StandardEngine_contains T,
     re_clear = StandardEngine_clear T,
     re_size = StandardEngine_size,
     re_stats = StandardEngine_stats\<rparr>"

section \<open>Sharded engine\<close>

text \<open>The counters of one shard; its tree is the shared one.\<close>

record Shard =
  sd_size :: usize
  sd_stats :: EngineStats

record 't ShardedEngine =
  sh_tree :: 't
  sh_shards :: "Shard list"
  sh_num_shards :: usize
  sh_mask_bits :: u8

definition shard_engine :: "'t \<Rightarrow> Shard \<Rightarrow> 't StandardEngine" where
  "shard_engine t s = \<lparr>se_tree = t, se_size = sd_size s, se_stats = sd_stats s\<rparr>"

definition engine_shard :: "'t StandardEngine \<Rightarrow> Shard" where
  "engine_shard e = \<lparr>sd_size = se_size e, sd_stats = se_stats e\<rparr>"

definition ShardedEngine_new :: "usize \<Rightarrow> 't \<Rightarrow> 't ShardedEngine" where
  "ShardedEngine_new num_shards tree =
     \<lparr>sh_tree = tree,
      sh_shards = replicate (unat num_shards) (engine_shard (StandardEngine_new tree)),
      sh_num_shards = num_shards, sh_mask_bits = 32\<rparr>"

definition hash_bytes :: "'w::len word \<Rightarrow> u8 list \<Rightarrow> 'w word" where
  "hash_bytes h bytes = fold (\<lambda>byte hash. hash * 31 + ucast byte) bytes h"

text \<open>The hash of \<open>get_shard\<close>, and the shard index; \<open>None\<close> is the panic of a remainder by
  zero. A shift by the full width is a shift by zero in the release build.\<close>

definition get_shard_hash :: "u8 \<Rightarrow> IpAddr \<Rightarrow> usize" where
  "get_shard_hash mask_bits ip =
     (case ip of
        V4 a \<Rightarrow>
          (let ip_u32 = of_be_bytes (octets (V4 a)) :: u32;
               mask = (if 32 \<le> mask_bits then - 1 else push_bit (unat (32 - mask_bits) mod 32) (- 1)) :: u32;
               masked_ip = ip_u32 AND mask
           in ucast (hash_bytes (0 :: u32) (be_bytes 4 masked_ip)))
      | V6 a \<Rightarrow>
          (let bytes = octets (V6 a) in
           if mask_bits \<le> 64 then
             (let bytes_to_keep = unat ((mask_bits + 7) div 8);
                  hash = hash_bytes (0 :: u64) (take bytes_to_keep bytes)
              in if mask_bits mod 8 \<noteq> 0 \<and> bytes_to_keep < length bytes then
                   (let mask = push_bit (unat (8 - mask_bits mod 8)) 0xFF :: u8;
                        partial_byte = (bytes ! bytes_to_keep) AND mask
                    in hash * 31 + ucast partial_byte)
                 else hash)
           else hash_bytes (0 :: u64) (take 16 bytes)))"

definition get_shard :: "'t ShardedEngine \<Rightarrow> IpAddr \<Rightarrow> usize option" where
  "get_shard e ip =
     (if sh_num_shards e = 0 then None
      else Some (get_shard_hash (sh_mask_bits e) ip mod sh_num_shards e))"

fun sharded_insert_loop ::
  "('t, 'n) RouteTree \<Rightarrow> 'n \<Rightarrow> Metadata \<Rightarrow> 't \<Rightarrow> Shard list \<Rightarrow> ((string + unit) \<times> 't \<times> Shard list) option" where
  "sharded_insert_loop T pfx md t [] = Some (Inr (), t, [])"
| "sharded_insert_loop T pfx md t (s # ss) =
     (case StandardEngine_insert T pfx md (shard_engine t s) of
        None \<Rightarrow> None
      | Some (Inl err, e) \<Rightarrow> Some (Inl err, se_tree e, engine_shard e # ss)
      | Some (Inr _, e) \<Rightarrow>
          map_option (\<lambda>(r, t', ss'). (r, t', engine_shard e # ss'))
            (sharded_insert_loop T pfx md (se_tree e) ss))"

definition ShardedEngine_insert ::
  "('t, 'n) RouteTree \<Rightarrow> 'n \<Rightarrow> Metadata \<Rightarrow> 't ShardedEngine \<Rightarrow> ((string + unit) \<times> 't ShardedEngine) option" where
  "ShardedEngine_insert T pfx md e =
     map_option (\<lambda>(r, t, ss). (r, e\<lparr>sh_tree := t, sh_shards := ss\<rparr>))
       (sharded_insert_loop T pfx md (sh_tree e) (sh_shards e))"

definition ShardedEngine_lookup ::
  "('t, 'n) RouteTree \<Rightarrow> IpAddr \<Rightarrow> 't ShardedEngine \<Rightarrow> (Metadata option \<times> 't ShardedEngine) option" where
  "ShardedEngine_lookup T ip e =
     (case get_shard e ip of
        None \<Rightarrow> None
      | Some shard_idx \<Rightarrow>
          (let i = unat shard_idx in
           if i < length (sh_shards e) then
             (let (r, s) = StandardEngine_lookup T ip (shard_engine (sh_tree e) (sh_shards e ! i))
              in Some (r, e\<lparr>sh_tree := se_tree s, sh_shards := (sh_shards e)[i := engine_shard s]\<rparr>))
           else None))"

fun sharded_remove_loop ::
  "('t, 'n) RouteTree \<Rightarrow> 'n \<Rightarrow> Metadata option \<Rightarrow> 't \<Rightarrow> Shard list \<Rightarrow> Metadata option \<times> 't \<times> Shard list" where
  "sharded_remove_loop T pfx removed t [] = (removed, t, [])"
| "sharded_remove_loop T pfx removed t (s # ss) =
     (let (shard_removed, e) = StandardEngine_remove T pfx (shard_engine t s);
          removed = (if removed = None then shard_removed else removed);
          (r, t', ss') = sharded_remove_loop T pfx removed (se_tree e) ss
      in (r, t', engine_shard e # ss'))"

definition ShardedEngine_remove ::
  "('t, 'n) RouteTree \<Rightarrow> 'n \<Rightarrow> 't ShardedEngine \<Rightarrow> Metadata option \<times> 't ShardedEngine" where
  "ShardedEngine_remove T pfx e =
     (let (r, t, ss) = sharded_remove_loop T pfx None (sh_tree e) (sh_shards e)
      in (r, e\<lparr>sh_tree := t, sh_shards := ss\<rparr>))"

definition ShardedEngine_contains :: "('t, 'n) RouteTree \<Rightarrow> 'n \<Rightarrow> 't ShardedEngine \<Rightarrow> bool" where
  "ShardedEngine_contains T pfx e =
     (case sh_shards e of
        [] \<Rightarrow> False
      | s # _ \<Rightarrow> StandardEngine_contains T pfx (shard_engine (sh_tree e) s))"

fun sharded_clear_loop ::
  "('t, 'n) RouteTree \<Rightarrow> 't \<Rightarrow> Shard list \<Rightarrow> ('t \<times> Shard list) option" where
  "sharded_clear_loop T t [] = Some (t, [])"
| "sharded_clear_loop T t (s # ss) =
     (case StandardEngine_clear T (shard_engine t s) of
        None \<Rightarrow> None
      | Some e \<Rightarrow> map_option (\<lambda>(t', ss'). (t', engine_shard e # ss')) (sharded_clear_loop T (se_tree e) ss))"

definition ShardedEngine_clear :: "('t, 'n) RouteTree \<Rightarrow> 't ShardedEngine \<Rightarrow> 't ShardedEngine option" where
  "ShardedEngine_clear T e =
     map_option (\<lambda>(t, ss). e\<lparr>sh_tree := t, sh_shards := ss\<rparr>)
       (sharded_clear_loop T (sh_tree e) (sh_shards e))"

definition ShardedEngine_size :: "'t ShardedEngine \<Rightarrow> usize" where
  "ShardedEngine_size e =
     (case sh_shards e of [] \<Rightarrow> 0 | s # _ \<Rightarrow> StandardEngine_size (shard_engine (sh_tree e) s))"

definition ShardedEngine_stats :: "'t ShardedEngine \<Rightarrow> EngineStats" where
  "ShardedEngine_stats e =
     (let total = fold (\<lambda>s total.
            let stats = StandardEngine_stats (shard_engine (sh_tree e) s) in
            total\<lparr>st_lookups := st_lookups total + st_lookups stats,
                  st_hits := st_hits total + st_hits stats,
                  st_misses := st_misses total + st_misses stats\<rparr>)
          (sh_shards e) EngineStats_default;
          total = (case sh_shards e of
              [] \<Rightarrow> total
            | s # _ \<Rightarrow>
                (let stats = StandardEngine_stats (shard_engine (sh_tree e) s)
                 in total\<lparr>st_inserts := st_inserts stats, st_removals := st_removals stats\<rparr>))
      in total\<lparr>st_size := ShardedEngine_size e\<rparr>)"

definition ShardedEngine_RadixEngine :: "('t, 'n) RouteTree \<Rightarrow> ('t ShardedEngine, 'n) RadixEngine" where
  "ShardedEngine_RadixEngine T = \<lparr>
     re_insert = ShardedEngine_insert T,
     re_lookup = ShardedEngine_lookup T,
     re_remove = (\<lambda>n e. Some (ShardedEngine_remove T n e)),
     re_contains = ShardedEngine_contains T,
     re_clear = ShardedEngine_clear T,
     re_size = ShardedEngine_size,
     re_stats = ShardedEngine_stats\<rparr>"

section \<open>The engines meet the contract\<close>

lemma card_dom_insert:
  "finite (dom f) \<Longrightarrow> card (dom (f(k \<mapsto> x))) = (if f k = None then Suc (card (dom f)) else card (dom f))"
  by (auto simp: insert_absorb domIff)

lemma card_dom_remove:
  assumes "finite (dom f)"
  shows "card (dom f) = (if f k = None then card (dom (f(k := None))) else Suc (card (dom (f(k := None)))))"
proof (cases "f k")
  case None
  then show ?thesis by (simp add: fun_upd_idem)
next
  case (Some x)
  then have "k \<in> dom f" by auto
  with assms Some show ?thesis by (metis card_Suc_Diff1 dom_fun_upd option.distinct(1))
qed

definition se_inv :: "('t \<Rightarrow> bool) \<Rightarrow> ('t \<Rightarrow> bool list \<rightharpoonup> 'n \<times> Metadata) \<Rightarrow> 't StandardEngine \<Rightarrow> bool" where
  "se_inv tinv tabs e \<longleftrightarrow> tinv (se_tree e) \<and> se_size e = of_nat (card (dom (tabs (se_tree e))))"

definition sh_inv :: "('t \<Rightarrow> bool) \<Rightarrow> ('t \<Rightarrow> bool list \<rightharpoonup> 'n \<times> Metadata) \<Rightarrow> 't ShardedEngine \<Rightarrow> bool" where
  "sh_inv tinv tabs e \<longleftrightarrow> tinv (sh_tree e) \<and> sh_shards e \<noteq> []
     \<and> length (sh_shards e) = unat (sh_num_shards e)
     \<and> sd_size (hd (sh_shards e)) = of_nat (card (dom (tabs (sh_tree e))))"

lemma get_shard_less:
  "sh_num_shards e \<noteq> 0 \<Longrightarrow> \<exists>i. get_shard e ip = Some i \<and> unat i < unat (sh_num_shards e)"
  by (auto simp: get_shard_def unat_mod word_neq_0_conv unat_gt_0)

context route_tree
begin

lemma se_insert:
  assumes "inv (se_tree e)"
  shows "\<exists>e'. StandardEngine_insert T n m e = Some (Inr (), e') \<and> inv (se_tree e')
    \<and> abs (se_tree e') = (abs (se_tree e))(key n \<mapsto> (n, m))
    \<and> se_size e' = (if abs (se_tree e) (key n) = None then se_size e + 1 else se_size e)"
  using insert_law [OF assms, of n m]
  by (auto simp: StandardEngine_insert_def Let_def StandardEngine_size_def)

lemma se_remove:
  assumes "inv (se_tree e)"
  shows "\<exists>e'. StandardEngine_remove T n e = (map_option snd (abs (se_tree e) (key n)), e') \<and> inv (se_tree e')
    \<and> abs (se_tree e') = (abs (se_tree e))(key n := None)
    \<and> se_size e' = (if abs (se_tree e) (key n) = None then se_size e else se_size e - 1)"
  using remove_law [OF assms, of n]
  by (auto simp: StandardEngine_remove_def Let_def StandardEngine_size_def)

lemma size_after_insert:
  assumes "inv t" and "s = of_nat (card (dom (abs t)))"
  shows "(if abs t k = None then s + 1 else s) = (of_nat (card (dom ((abs t)(k \<mapsto> x)))) :: usize)"
  using assms card_dom_insert [OF finite_law [OF assms(1)]] by (simp add: add.commute)

lemma size_after_remove:
  assumes "inv t" and "s = of_nat (card (dom (abs t)))"
  shows "(if abs t k = None then s else s - 1) = (of_nat (card (dom ((abs t)(k := None)))) :: usize)"
  using assms(2) card_dom_remove [OF finite_law [OF assms(1)], of k] by (simp add: algebra_simps)

lemma standard_engine:
  "radix_engine (StandardEngine_RadixEngine T) (se_inv inv abs) (\<lambda>e. abs (se_tree e)) key
     (\<lambda>e ip. rt_lookup T ip (se_tree e))"
proof (unfold_locales, goal_cases)
  case (1 e n m)
  then have "inv (se_tree e)" by (simp add: se_inv_def)
  from se_insert [OF this, of n m] size_after_insert [OF this, of "se_size e" "key n" "(n, m)"] 1
  show ?case by (auto simp: se_inv_def StandardEngine_RadixEngine_def)
next
  case (2 e ip)
  then show ?case
    by (auto simp: se_inv_def StandardEngine_RadixEngine_def StandardEngine_lookup_def Let_def)
next
  case (3 e n)
  then have "inv (se_tree e)" by (simp add: se_inv_def)
  from se_remove [OF this, of n] size_after_remove [OF this, of "se_size e" "key n"] 3
  show ?case by (auto simp: se_inv_def StandardEngine_RadixEngine_def)
next
  case (4 e n)
  then show ?case
    by (simp add: se_inv_def StandardEngine_RadixEngine_def StandardEngine_contains_def contains_law)
next
  case (5 e)
  then show ?case
    by (simp add: se_inv_def StandardEngine_RadixEngine_def StandardEngine_size_def)
qed

lemma sharded_insert_loop_repeat:
  assumes "inv t" and "abs t (key n) = Some (n, m)"
  shows "\<exists>t' ss'. sharded_insert_loop T n m t ss = Some (Inr (), t', ss') \<and> inv t' \<and> abs t' = abs t
    \<and> map sd_size ss' = map sd_size ss"
  using assms
proof (induction ss arbitrary: t)
  case (Cons s ss)
  obtain e where e: "StandardEngine_insert T n m (shard_engine t s) = Some (Inr (), e)" "inv (se_tree e)"
      "abs (se_tree e) = abs t" "se_size e = sd_size s"
    using se_insert [of "shard_engine t s" n m] Cons.prems by (auto simp: shard_engine_def fun_upd_idem)
  with Cons.IH [of "se_tree e"] Cons.prems show ?case by (auto simp: engine_shard_def)
qed simp

lemma sharded_insert_first:
  assumes "inv t"
  shows "\<exists>t' ss'. sharded_insert_loop T n m t (s # ss) = Some (Inr (), t', ss') \<and> inv t'
    \<and> abs t' = (abs t)(key n \<mapsto> (n, m)) \<and> length ss' = Suc (length ss)
    \<and> sd_size (hd ss') = (if abs t (key n) = None then sd_size s + 1 else sd_size s)"
proof -
  obtain e where e: "StandardEngine_insert T n m (shard_engine t s) = Some (Inr (), e)" "inv (se_tree e)"
      "abs (se_tree e) = (abs t)(key n \<mapsto> (n, m))"
      "se_size e = (if abs t (key n) = None then sd_size s + 1 else sd_size s)"
    using se_insert [of "shard_engine t s" n m] assms by (auto simp: shard_engine_def)
  obtain t' ss' where "sharded_insert_loop T n m (se_tree e) ss = Some (Inr (), t', ss')" "inv t'"
      "abs t' = abs (se_tree e)" "map sd_size ss' = map sd_size ss"
    using sharded_insert_loop_repeat [OF e(2), of n m ss] e(3) by auto
  with e show ?thesis by (auto simp: engine_shard_def dest: map_eq_imp_length_eq)
qed

lemma sharded_remove_loop_repeat:
  assumes "inv t" and "abs t (key n) = None"
  shows "\<exists>t' ss'. sharded_remove_loop T n r t ss = (r, t', ss') \<and> inv t' \<and> abs t' = abs t
    \<and> map sd_size ss' = map sd_size ss"
  using assms
proof (induction ss arbitrary: t)
  case (Cons s ss)
  obtain e where e: "StandardEngine_remove T n (shard_engine t s) = (None, e)" "inv (se_tree e)"
      "abs (se_tree e) = abs t" "se_size e = sd_size s"
    using se_remove [of "shard_engine t s" n] Cons.prems by (auto simp: shard_engine_def fun_upd_idem)
  with Cons.IH [of "se_tree e"] Cons.prems show ?case by (auto simp: engine_shard_def Let_def)
qed simp

lemma sharded_remove_first:
  assumes "inv t"
  shows "\<exists>t' ss'. sharded_remove_loop T n None t (s # ss) = (map_option snd (abs t (key n)), t', ss') \<and> inv t'
    \<and> abs t' = (abs t)(key n := None) \<and> length ss' = Suc (length ss)
    \<and> sd_size (hd ss') = (if abs t (key n) = None then sd_size s else sd_size s - 1)"
proof -
  obtain e where e: "StandardEngine_remove T n (shard_engine t s) = (map_option snd (abs t (key n)), e)"
      "inv (se_tree e)" "abs (se_tree e) = (abs t)(key n := None)"
      "se_size e = (if abs t (key n) = None then sd_size s else sd_size s - 1)"
    using se_remove [of "shard_engine t s" n] assms by (auto simp: shard_engine_def)
  obtain t' ss' where "sharded_remove_loop T n (map_option snd (abs t (key n))) (se_tree e) ss
        = (map_option snd (abs t (key n)), t', ss')" "inv t'"
      "abs t' = abs (se_tree e)" "map sd_size ss' = map sd_size ss"
    using sharded_remove_loop_repeat [OF e(2), of n "map_option snd (abs t (key n))" ss] e(3) by auto
  with e show ?thesis by (auto simp: engine_shard_def Let_def dest: map_eq_imp_length_eq)
qed

lemma sharded_engine:
  "radix_engine (ShardedEngine_RadixEngine T) (sh_inv inv abs) (\<lambda>e. abs (sh_tree e)) key
     (\<lambda>e ip. rt_lookup T ip (sh_tree e))"
proof (unfold_locales, goal_cases)
  case (1 e n m)
  then obtain s ss where inv: "inv (sh_tree e)" and ss: "sh_shards e = s # ss"
    and sz: "sd_size s = of_nat (card (dom (abs (sh_tree e))))"
    by (cases "sh_shards e") (auto simp: sh_inv_def)
  from sharded_insert_first [OF inv, of n m s ss] size_after_insert [OF inv sz, of "key n" "(n, m)"] 1 ss
  show ?case
    by (auto simp: sh_inv_def ShardedEngine_RadixEngine_def ShardedEngine_insert_def simp del: sharded_insert_loop.simps)
next
  case (2 e ip)
  then have "sh_num_shards e \<noteq> 0" by (auto simp: sh_inv_def)
  from get_shard_less [OF this, of ip] obtain i where i: "get_shard e ip = Some i" "unat i < length (sh_shards e)"
    using 2 by (auto simp: sh_inv_def)
  have "sd_size (hd ((sh_shards e)[unat i := engine_shard (snd (StandardEngine_lookup T ip
      (shard_engine (sh_tree e) (sh_shards e ! unat i))))])) = sd_size (hd (sh_shards e))"
    using i(2) by (cases "sh_shards e"; cases "unat i")
      (auto simp: engine_shard_def StandardEngine_lookup_def shard_engine_def Let_def)
  with 2 i show ?case
    by (auto simp: sh_inv_def ShardedEngine_RadixEngine_def ShardedEngine_lookup_def Let_def
        StandardEngine_lookup_def shard_engine_def)
next
  case (3 e n)
  then obtain s ss where inv: "inv (sh_tree e)" and ss: "sh_shards e = s # ss"
    and sz: "sd_size s = of_nat (card (dom (abs (sh_tree e))))"
    by (cases "sh_shards e") (auto simp: sh_inv_def)
  from sharded_remove_first [OF inv, of n s ss] size_after_remove [OF inv sz, of "key n"] 3 ss
  show ?case
    by (auto simp: sh_inv_def ShardedEngine_RadixEngine_def ShardedEngine_remove_def simp del: sharded_remove_loop.simps)
next
  case (4 e n)
  then show ?case
    by (cases "sh_shards e") (auto simp: sh_inv_def ShardedEngine_RadixEngine_def ShardedEngine_contains_def
        StandardEngine_contains_def shard_engine_def contains_law)
next
  case (5 e)
  then show ?case
    by (cases "sh_shards e") (auto simp: sh_inv_def ShardedEngine_RadixEngine_def ShardedEngine_size_def
        StandardEngine_size_def shard_engine_def)
qed

end

sublocale route_tree \<subseteq> se: radix_engine "StandardEngine_RadixEngine T" "se_inv inv abs"
    "\<lambda>e. abs (se_tree e)" key "\<lambda>e ip. rt_lookup T ip (se_tree e)"
  by (rule standard_engine)

sublocale route_tree \<subseteq> sh: radix_engine "ShardedEngine_RadixEngine T" "sh_inv inv abs"
    "\<lambda>e. abs (sh_tree e)" key "\<lambda>e ip. rt_lookup T ip (sh_tree e)"
  by (rule sharded_engine)

section \<open>Runs of engine operations\<close>

datatype 'n EngineOp = EInsert 'n Metadata | ELookup IpAddr | ERemove 'n

fun engine_op :: "('e, 'n) RadixEngine \<Rightarrow> 'n EngineOp \<Rightarrow> 'e \<Rightarrow> 'e option" where
  "engine_op E (EInsert n m) e = map_option snd (re_insert E n m e)"
| "engine_op E (ELookup ip) e = map_option snd (re_lookup E ip e)"
| "engine_op E (ERemove n) e = map_option snd (re_remove E n e)"

fun engine_ops :: "('e, 'n) RadixEngine \<Rightarrow> 'n EngineOp list \<Rightarrow> 'e \<Rightarrow> 'e option" where
  "engine_ops E [] e = Some e"
| "engine_ops E (x # xs) e = Option.bind (engine_op E x e) (engine_ops E xs)"

fun table_engine_op :: "('n \<Rightarrow> 'k) \<Rightarrow> 'n EngineOp \<Rightarrow> ('k \<rightharpoonup> 'n \<times> Metadata) \<Rightarrow> ('k \<rightharpoonup> 'n \<times> Metadata)" where
  "table_engine_op key (EInsert n m) tab = tab(key n \<mapsto> (n, m))"
| "table_engine_op key (ELookup ip) tab = tab"
| "table_engine_op key (ERemove n) tab = tab(key n := None)"

definition table_engine_ops ::
  "('n \<Rightarrow> 'k) \<Rightarrow> 'n EngineOp list \<Rightarrow> ('k \<rightharpoonup> 'n \<times> Metadata) \<Rightarrow> ('k \<rightharpoonup> 'n \<times> Metadata)" where
  "table_engine_ops key xs tab = fold (table_engine_op key) xs tab"

context radix_engine
begin

lemma engine_op_refines:
  assumes "inv e"
  shows "\<exists>e'. engine_op E x e = Some e' \<and> inv e' \<and> abs e' = table_engine_op key x (abs e)"
proof (cases x)
  case (EInsert n m)
  with engine_insert [OF assms, of n m] show ?thesis by auto
next
  case (ELookup ip)
  with engine_lookup [OF assms, of ip] show ?thesis by auto
next
  case (ERemove n)
  with engine_remove [OF assms, of n] show ?thesis by auto
qed

lemma engine_ops_refines:
  "inv e \<Longrightarrow> \<exists>e'. engine_ops E xs e = Some e' \<and> inv e' \<and> abs e' = table_engine_ops key xs (abs e)"
proof (induction xs arbitrary: e)
  case (Cons x xs)
  obtain u where "engine_op E x e = Some u" "inv u" "abs u = table_engine_op key x (abs e)"
    using engine_op_refines [OF Cons.prems] by blast
  with Cons.IH [of u] show ?case by (auto simp: table_engine_ops_def)
qed (simp add: table_engine_ops_def)

text \<open>After any run the size is the number of routes of the table, and a membership query and
  a removal answer from the table.\<close>

lemma engine_ops_size:
  assumes "inv e"
  shows "\<exists>e'. engine_ops E xs e = Some e'
    \<and> re_size E e' = of_nat (card (dom (table_engine_ops key xs (abs e))))"
proof -
  obtain e' where "engine_ops E xs e = Some e'" "inv e'" "abs e' = table_engine_ops key xs (abs e)"
    using engine_ops_refines [OF assms] by blast
  with engine_size [of e'] show ?thesis by simp
qed

lemma engine_ops_contains:
  assumes "inv e"
  shows "\<exists>e'. engine_ops E xs e = Some e'
    \<and> (re_contains E n e' \<longleftrightarrow> table_engine_ops key xs (abs e) (key n) \<noteq> None)"
proof -
  obtain e' where "engine_ops E xs e = Some e'" "inv e'" "abs e' = table_engine_ops key xs (abs e)"
    using engine_ops_refines [OF assms] by blast
  with engine_contains [of e' n] show ?thesis by simp
qed

end

context lpm_tree
begin

lemma se_run_lookup:
  assumes "se_inv inv abs e"
  shows "\<exists>e' r e''. engine_ops (StandardEngine_RadixEngine T) xs e = Some e'
    \<and> re_lookup (StandardEngine_RadixEngine T) ip e' = Some (r, e'')
    \<and> lpm_result N (ran (table_engine_ops key xs (abs (se_tree e)))) ip r
    \<and> re_size (StandardEngine_RadixEngine T) e' = of_nat (card (dom (table_engine_ops key xs (abs (se_tree e)))))"
proof -
  obtain e' where e': "engine_ops (StandardEngine_RadixEngine T) xs e = Some e'" "se_inv inv abs e'"
      "abs (se_tree e') = table_engine_ops key xs (abs (se_tree e))"
    using se.engine_ops_refines [OF assms] by blast
  moreover have "lpm_result N (ran (abs (se_tree e'))) ip (rt_lookup T ip (se_tree e'))"
    using e'(2) by (intro lookup_law) (simp add: se_inv_def)
  ultimately show ?thesis using se.engine_lookup [OF e'(2), of ip] se.engine_size [OF e'(2)] by auto
qed

lemma sh_run_lookup:
  assumes "sh_inv inv abs e"
  shows "\<exists>e' r e''. engine_ops (ShardedEngine_RadixEngine T) xs e = Some e'
    \<and> re_lookup (ShardedEngine_RadixEngine T) ip e' = Some (r, e'')
    \<and> lpm_result N (ran (table_engine_ops key xs (abs (sh_tree e)))) ip r
    \<and> re_size (ShardedEngine_RadixEngine T) e' = of_nat (card (dom (table_engine_ops key xs (abs (sh_tree e)))))"
proof -
  obtain e' where e': "engine_ops (ShardedEngine_RadixEngine T) xs e = Some e'" "sh_inv inv abs e'"
      "abs (sh_tree e') = table_engine_ops key xs (abs (sh_tree e))"
    using sh.engine_ops_refines [OF assms] by blast
  moreover have "lpm_result N (ran (abs (sh_tree e'))) ip (rt_lookup T ip (sh_tree e'))"
    using e'(2) by (intro lookup_law) (simp add: sh_inv_def)
  ultimately show ?thesis using sh.engine_lookup [OF e'(2), of ip] sh.engine_size [OF e'(2)] by auto
qed

end

context clearing_tree
begin

lemma se_clear:
  assumes "inv (se_tree e)"
  shows "\<exists>e'. StandardEngine_clear T e = Some e' \<and> se_inv inv abs e' \<and> abs (se_tree e') = Map.empty"
  using clear_law [OF assms] by (auto simp: StandardEngine_clear_def se_inv_def)

lemma sharded_clear_loop_empty:
  "inv t \<Longrightarrow> \<exists>t' ss'. sharded_clear_loop T t (s # ss) = Some (t', ss') \<and> inv t' \<and> abs t' = Map.empty
     \<and> length ss' = Suc (length ss) \<and> sd_size (hd ss') = 0"
proof (induction ss arbitrary: t s)
  case Nil
  then show ?case
    using clear_law [of t] by (auto simp: StandardEngine_clear_def shard_engine_def engine_shard_def)
next
  case (Cons s' ss)
  obtain e where e: "StandardEngine_clear T (shard_engine t s) = Some e" "inv (se_tree e)" "se_size e = 0"
    using clear_law [OF Cons.prems] by (auto simp: StandardEngine_clear_def shard_engine_def)
  with Cons.IH [OF e(2), of s'] show ?case
    by (auto simp: engine_shard_def simp del: sharded_clear_loop.simps(2)
        simp: sharded_clear_loop.simps(2) [of T t s])
qed

lemma sh_clear:
  assumes "sh_inv inv abs e"
  shows "\<exists>e'. ShardedEngine_clear T e = Some e' \<and> sh_inv inv abs e' \<and> abs (sh_tree e') = Map.empty"
proof -
  obtain s ss where ss: "sh_shards e = s # ss" and inv: "inv (sh_tree e)"
    using assms by (cases "sh_shards e") (auto simp: sh_inv_def)
  from sharded_clear_loop_empty [OF inv, of s ss] assms ss show ?thesis
    by (auto simp: ShardedEngine_clear_def sh_inv_def simp del: sharded_clear_loop.simps)
qed

end

section \<open>New engines\<close>

lemma StandardEngine_new_inv [simp]: "tinv t \<Longrightarrow> tabs t = Map.empty \<Longrightarrow> se_inv tinv tabs (StandardEngine_new t)"
  by (simp add: se_inv_def StandardEngine_new_def)

lemma StandardEngine_new_tree [simp]: "se_tree (StandardEngine_new t) = t"
  by (simp add: StandardEngine_new_def)

lemma ShardedEngine_new_inv [simp]:
  "tinv t \<Longrightarrow> tabs t = Map.empty \<Longrightarrow> 0 < k \<Longrightarrow> sh_inv tinv tabs (ShardedEngine_new k t)"
  by (simp add: sh_inv_def ShardedEngine_new_def engine_shard_def StandardEngine_new_def
      unat_gt_0 word_neq_0_conv)

lemma ShardedEngine_new_tree [simp]: "sh_tree (ShardedEngine_new k t) = t"
  by (simp add: ShardedEngine_new_def)

section \<open>Statistics of a standard engine\<close>

definition count_inserts :: "'n EngineOp list \<Rightarrow> nat" where
  "count_inserts xs = length (filter (\<lambda>x. case x of EInsert _ _ \<Rightarrow> True | _ \<Rightarrow> False) xs)"

definition count_lookups :: "'n EngineOp list \<Rightarrow> nat" where
  "count_lookups xs = length (filter (\<lambda>x. case x of ELookup _ \<Rightarrow> True | _ \<Rightarrow> False) xs)"

context route_tree
begin

lemma stats_step:
  assumes "inv (se_tree e)"
  shows "\<exists>e'. engine_op (StandardEngine_RadixEngine T) x e = Some e' \<and> inv (se_tree e')
    \<and> st_inserts (se_stats e') = st_inserts (se_stats e) + of_nat (count_inserts [x])
    \<and> st_lookups (se_stats e') = st_lookups (se_stats e) + of_nat (count_lookups [x])
    \<and> st_hits (se_stats e') + st_misses (se_stats e')
        = st_hits (se_stats e) + st_misses (se_stats e) + of_nat (count_lookups [x])"
proof (cases x)
  case (EInsert n m)
  with insert_law [OF assms, of n m] show ?thesis
    by (auto simp: StandardEngine_RadixEngine_def StandardEngine_insert_def Let_def
        count_inserts_def count_lookups_def)
next
  case (ELookup ip)
  with assms show ?thesis
    by (simp add: StandardEngine_RadixEngine_def StandardEngine_lookup_def Let_def
        count_inserts_def count_lookups_def)
next
  case (ERemove n)
  with remove_law [OF assms, of n] show ?thesis
    by (auto simp: StandardEngine_RadixEngine_def StandardEngine_remove_def Let_def
        count_inserts_def count_lookups_def)
qed

lemma stats_run:
  "inv (se_tree e) \<Longrightarrow>
   \<exists>e'. engine_ops (StandardEngine_RadixEngine T) xs e = Some e'
    \<and> st_inserts (se_stats e') = st_inserts (se_stats e) + of_nat (count_inserts xs)
    \<and> st_lookups (se_stats e') = st_lookups (se_stats e) + of_nat (count_lookups xs)
    \<and> st_hits (se_stats e') + st_misses (se_stats e')
        = st_hits (se_stats e) + st_misses (se_stats e) + of_nat (count_lookups xs)"
proof (induction xs arbitrary: e)
  case (Cons x xs)
  have split: "count_inserts (x # xs) = count_inserts [x] + count_inserts xs"
    "count_lookups (x # xs) = count_lookups [x] + count_lookups xs"
    by (simp_all add: count_inserts_def count_lookups_def)
  obtain u where u: "engine_op (StandardEngine_RadixEngine T) x e = Some u" "inv (se_tree u)"
      "st_inserts (se_stats u) = st_inserts (se_stats e) + of_nat (count_inserts [x])"
      "st_lookups (se_stats u) = st_lookups (se_stats e) + of_nat (count_lookups [x])"
      "st_hits (se_stats u) + st_misses (se_stats u)
        = st_hits (se_stats e) + st_misses (se_stats e) + of_nat (count_lookups [x])"
    using stats_step [OF Cons.prems] by blast
  with Cons.IH [OF u(2)] show ?case unfolding split by auto
qed (simp add: count_inserts_def count_lookups_def)

end

section \<open>Engines whose lookups are longest-prefix matches\<close>

locale lpm_engine = radix_engine E inv abs key answer
  for E :: "('e, 'n) RadixEngine" and inv abs key answer +
  fixes N :: "'n ipnet_ops"
  assumes engine_lpm: "inv e \<Longrightarrow> lpm_result N (ran (abs e)) ip (answer e ip)"
    and engine_filed: "inv e \<Longrightarrow> abs e k = Some (n, m) \<Longrightarrow> key n = k"
begin

text \<open>An address is answered exactly when some stored network contains it.\<close>

lemma answer_None_iff:
  assumes "inv e"
  shows "answer e ip = None \<longleftrightarrow> (\<forall>k n m. abs e k = Some (n, m) \<longrightarrow> \<not> network_contains_ip N n ip)"
  using engine_lpm [OF assms, of ip]
  by (cases "answer e ip") (auto simp: lpm_result_def best_entry_def ran_def)

end

context lpm_tree
begin

lemma standard_lpm_engine:
  "lpm_engine (StandardEngine_RadixEngine T) (se_inv inv abs) (\<lambda>e. abs (se_tree e)) key
     (\<lambda>e ip. rt_lookup T ip (se_tree e)) N"
  by unfold_locales (auto simp: se_inv_def intro: lookup_law filed_law)

lemma sharded_lpm_engine:
  "lpm_engine (ShardedEngine_RadixEngine T) (sh_inv inv abs) (\<lambda>e. abs (sh_tree e)) key
     (\<lambda>e ip. rt_lookup T ip (sh_tree e)) N"
  by unfold_locales (auto simp: sh_inv_def intro: lookup_law filed_law)

end

sublocale lpm_tree \<subseteq> sel: lpm_engine "StandardEngine_RadixEngine T" "se_inv inv abs"
    "\<lambda>e. abs (se_tree e)" key "\<lambda>e ip. rt_lookup T ip (se_tree e)" N
  by (rule standard_lpm_engine)

sublocale lpm_tree \<subseteq> shl: lpm_engine "ShardedEngine_RadixEngine T" "sh_inv inv abs"
    "\<lambda>e. abs (sh_tree e)" key "\<lambda>e ip. rt_lookup T ip (sh_tree e)" N
  by (rule sharded_lpm_engine)

end
