(* ===== verification/Limiter.thy ===== *)
theory Limiter
  imports TokenBucket Config Engine
begin

text \<open>
  The rate limiter (\<open>policy/src/limiter.rs\<close>): bucket keys, the truncation of an address to
  a configured depth, and \<open>TokenBucketLimiter\<close> over a bounded cache of shared buckets. The
  cache is \<open>moka::sync::Cache\<close>, third-party code: its operations are a record parameter and
  its documented behaviour the locale \<open>moka\<close>. The cached values are \<open>Arc\<close>s, so the cache
  holds bucket ids and a separate store holds the buckets: a mutation through one handle is seen
  through the cache.
\<close>

section \<open>Bucket keys\<close>

datatype 'n BucketKey = Exact IpAddr | SubnetKey 'n

text \<open>\<open>None\<close> is the panic of \<open>unwrap\<close> on a prefix length the network type refuses. The shift
  distance wraps in the release build.\<close>

definition truncate_to_prefix :: "'n ipnet_ops \<Rightarrow> IpAddr \<Rightarrow> u8 \<Rightarrow> u8 \<Rightarrow> 'n option" where
  "truncate_to_prefix N ip depth_v4 depth_v6 =
     (case ip of
        V4 bits \<Rightarrow>
          (let mask = (if depth_v4 = 0 then 0 else push_bit (unat (32 - depth_v4) mod 32) (- 1)) :: u32
           in net_new N (V4 (bits AND mask)) (unat depth_v4))
      | V6 bits \<Rightarrow>
          (let mask = (if depth_v6 = 0 then 0 else push_bit (unat (128 - depth_v6) mod 128) (- 1)) :: u128
           in net_new N (V6 (bits AND mask)) (unat depth_v6)))"

definition ip_to_key ::
  "'n ipnet_ops \<Rightarrow> ('e, 'n) RadixEngine \<Rightarrow> IpAddr \<Rightarrow> BucketKeyMode \<Rightarrow> 'e option
     \<Rightarrow> ('n BucketKey \<times> 'e option) option" where
  "ip_to_key N E ip mode engine =
     (case mode of
        Ip \<Rightarrow> Some (Exact ip, engine)
      | Subnet depth_v4 depth_v6 \<Rightarrow>
          (case engine of
             Some eng \<Rightarrow>
               (case re_lookup E ip eng of
                  None \<Rightarrow> None
                | Some (Some _, eng') \<Rightarrow>
                    map_option (\<lambda>p. (SubnetKey p, Some eng')) (truncate_to_prefix N ip depth_v4 depth_v6)
                | Some (None, eng') \<Rightarrow> Some (Exact ip, Some eng'))
           | None \<Rightarrow> Some (Exact ip, engine))
      | Both _ _ \<Rightarrow> Some (Exact ip, engine))"

section \<open>The cache\<close>

record ('c, 'k) moka_ops =
  mk_new :: "usize \<Rightarrow> u64 \<Rightarrow> 'c"
  mk_get_with :: "'k \<Rightarrow> nat \<Rightarrow> 'c \<Rightarrow> nat \<times> 'c"
  mk_entries :: "'c \<Rightarrow> 'k \<rightharpoonup> nat"
  mk_entry_count :: "'c \<Rightarrow> u64"

text \<open>\<open>get_with(key, init)\<close> returns the cached value of the key or the one \<open>init\<close> makes,
  and afterwards holds that value for the key, except for entries it evicts.\<close>

locale moka =
  fixes M :: "('c, 'k) moka_ops"
  assumes moka_new: "mk_entries M (mk_new M cap ttl) = Map.empty"
    and moka_get: "mk_get_with M k fresh c = (i, c') \<Longrightarrow> i = fresh \<or> mk_entries M c k = Some i"
    and moka_after: "mk_get_with M k fresh c = (i, c') \<Longrightarrow> mk_entries M c' k' = Some j \<Longrightarrow>
      (if k' = k then j = i else mk_entries M c k' = Some j)"

text \<open>A cache below its capacity whose entries are in use evicts nothing.\<close>

locale moka_keeping = moka M for M :: "('c, 'k) moka_ops" +
  assumes moka_hit: "mk_entries M c k = Some i \<Longrightarrow>
      \<exists>c'. mk_get_with M k fresh c = (i, c') \<and> mk_entries M c' = mk_entries M c"
    and moka_miss: "mk_entries M c k = None \<Longrightarrow>
      \<exists>c'. mk_get_with M k fresh c = (fresh, c') \<and> mk_entries M c' = (mk_entries M c)(k \<mapsto> fresh)"

definition map_cache :: "('k \<rightharpoonup> nat, 'k) moka_ops" where
  "map_cache = \<lparr>mk_new = (\<lambda>_ _. Map.empty),
     mk_get_with = (\<lambda>k fresh c. case c k of Some i \<Rightarrow> (i, c) | None \<Rightarrow> (fresh, c(k \<mapsto> fresh))),
     mk_entries = (\<lambda>c. c), mk_entry_count = (\<lambda>c. 0)\<rparr>"

interpretation map_cache: moka_keeping map_cache
  by unfold_locales (auto simp: map_cache_def split: option.splits if_splits)

section \<open>The limiter\<close>

record 'c TokenBucketLimiter =
  lm_cache :: 'c
  lm_store :: "u64 list"
  lm_config :: RateLimitConfig

definition TokenBucketLimiter_new :: "('c, 'k) moka_ops \<Rightarrow> RateLimitConfig \<Rightarrow> 'c TokenBucketLimiter" where
  "TokenBucketLimiter_new M config =
     \<lparr>lm_cache = mk_new M (rl_max_buckets config) (rl_ttl_seconds config), lm_store = [], lm_config = config\<rparr>"

text \<open>\<open>now_new\<close> and \<open>now\<close> are the clock readings of \<open>TokenBucket::new\<close> and \<open>allow\<close>.\<close>

definition consume ::
  "('c, 'k) moka_ops \<Rightarrow> u32 \<Rightarrow> u32 \<Rightarrow> 'k \<Rightarrow> 'c TokenBucketLimiter \<Rightarrow> bool \<times> 'c TokenBucketLimiter" where
  "consume M now_new now key l =
     (let config = lm_config l; fresh = length (lm_store l);
          (i, cache) = mk_get_with M key fresh (lm_cache l);
          store = (if i = fresh then lm_store l @ [TokenBucket_new now_new (rl_capacity config)] else lm_store l);
          (ok, bucket) = TokenBucket_allow now (rl_capacity config) (rl_refill_rate config) (store ! i)
      in (ok, l\<lparr>lm_cache := cache, lm_store := store[i := bucket]\<rparr>))"

text \<open>The clock readings of one call of \<open>allow\<close>, in the order they are taken.\<close>

definition limiter_allow ::
  "'n ipnet_ops \<Rightarrow> ('e, 'n) RadixEngine \<Rightarrow> ('c, 'n BucketKey) moka_ops \<Rightarrow> (nat \<Rightarrow> u32) \<Rightarrow> IpAddr \<Rightarrow> 'e option
     \<Rightarrow> 'c TokenBucketLimiter \<Rightarrow> (bool \<times> 'e option \<times> 'c TokenBucketLimiter) option" where
  "limiter_allow N E M clk ip engine l =
     (case rl_bucket_mode (lm_config l) of
        Both depth_v4 depth_v6 \<Rightarrow>
          (case ip_to_key N E ip (Subnet depth_v4 depth_v6) engine of
             None \<Rightarrow> None
           | Some (subnet_key, engine') \<Rightarrow>
               (let (ok1, l1) = consume M (clk 0) (clk 1) subnet_key l in
                if ok1 then
                  (let (ok2, l2) = consume M (clk 2) (clk 3) (Exact ip) l1 in Some (ok2, engine', l2))
                else Some (False, engine', l1)))
      | mode \<Rightarrow>
          (case ip_to_key N E ip mode engine of
             None \<Rightarrow> None
           | Some (key, engine') \<Rightarrow>
               (let (ok, l1) = consume M (clk 0) (clk 1) key l in Some (ok, engine', l1))))"

definition tracked_count :: "('c, 'k) moka_ops \<Rightarrow> 'c TokenBucketLimiter \<Rightarrow> u64" where
  "tracked_count M l = mk_entry_count M (lm_cache l)"

section \<open>Truncation\<close>

text \<open>The depth that applies to an address.\<close>

fun depth_for :: "IpAddr \<Rightarrow> u8 \<Rightarrow> u8 \<Rightarrow> nat" where
  "depth_for (V4 _) d4 d6 = unat d4"
| "depth_for (V6 _) d4 d6 = unat d6"

lemma depth_mask_V4:
  fixes d :: u8
  assumes "unat d \<le> 32"
  shows "ip_bits (V4 (a AND (if d = 0 then 0 else push_bit (unat (32 - d) mod 32) (- 1))))
    = take (unat d) (ip_bits (V4 a)) @ replicate (32 - unat d) False"
proof -
  define mask :: u32 where "mask = (if d = 0 then 0 else push_bit (unat (32 - d) mod 32) (- 1))"
  have "bit mask i \<longleftrightarrow> 32 - unat d \<le> i \<and> i < 32" for i
  proof (cases "d = 0")
    case False
    then have "unat d \<noteq> 0" using unat_eq_zero by blast
    moreover have "unat (32 - d) = 32 - unat d" using assms by (simp add: unat_sub_if' word_le_nat_alt)
    ultimately show ?thesis using False by (auto simp: mask_def bit_push_bit_iff bit_not_iff bit_mask_iff)
  qed (simp add: mask_def)
  note mask = this
  have "ip_bits (V4 (a AND mask)) = take (unat d) (ip_bits (V4 a)) @ replicate (32 - unat d) False"
  proof (rule nth_equalityI)
    fix i
    assume "i < length (ip_bits (V4 (a AND mask)))"
    then have i: "i < 32" by simp
    then have "bit mask (32 - 1 - i) \<longleftrightarrow> i < unat d" unfolding mask using assms by linarith
    then show "ip_bits (V4 (a AND mask)) ! i = (take (unat d) (ip_bits (V4 a)) @ replicate (32 - unat d) False) ! i"
      using i assms by (cases "i < unat d") (simp_all add: ip_bits_V4_nth nth_append bit_and_iff)
  qed (use assms in simp)
  then show ?thesis by (simp only: mask_def)
qed

lemma depth_mask_V6:
  fixes d :: u8
  assumes "unat d \<le> 128"
  shows "ip_bits (V6 (a AND (if d = 0 then 0 else push_bit (unat (128 - d) mod 128) (- 1))))
    = take (unat d) (ip_bits (V6 a)) @ replicate (128 - unat d) False"
proof -
  define mask :: u128 where "mask = (if d = 0 then 0 else push_bit (unat (128 - d) mod 128) (- 1))"
  have "bit mask i \<longleftrightarrow> 128 - unat d \<le> i \<and> i < 128" for i
  proof (cases "d = 0")
    case False
    then have "unat d \<noteq> 0" using unat_eq_zero by blast
    moreover have "unat (128 - d) = 128 - unat d" using assms by (simp add: unat_sub_if' word_le_nat_alt)
    ultimately show ?thesis using False by (auto simp: mask_def bit_push_bit_iff bit_not_iff bit_mask_iff)
  qed (simp add: mask_def)
  note mask = this
  have "ip_bits (V6 (a AND mask)) = take (unat d) (ip_bits (V6 a)) @ replicate (128 - unat d) False"
  proof (rule nth_equalityI)
    fix i
    assume "i < length (ip_bits (V6 (a AND mask)))"
    then have i: "i < 128" by simp
    then have "bit mask (128 - 1 - i) \<longleftrightarrow> i < unat d" unfolding mask using assms by linarith
    then show "ip_bits (V6 (a AND mask)) ! i = (take (unat d) (ip_bits (V6 a)) @ replicate (128 - unat d) False) ! i"
      using i assms by (cases "i < unat d") (simp_all add: ip_bits_V6_nth nth_append bit_and_iff)
  qed (use assms in simp)
  then show ?thesis by (simp only: mask_def)
qed

context ipnetwork
begin

lemma net_new_truncated:
  assumes "is_ipv4 ip' = is_ipv4 ip" and "p \<le> ip_width ip"
    and "ip_bits ip' = take p (ip_bits ip) @ replicate (ip_width ip - p) False"
  shows "\<exists>n. net_new N ip' p = Some n \<and> net_prefix N n = p \<and> net_contains N n ip
    \<and> net_network N n = ip' \<and> net_ip N n = ip'"
proof -
  have w: "ip_width ip' = ip_width ip" by (rule ip_width_family [OF assms(1)])
  obtain n where n: "net_new N ip' p = Some n"
    using net_new_None_iff [of ip' p] assms(2) w by (cases "net_new N ip' p") auto
  note ip = net_new_Some [OF n]
  have "net_contains N n ip" using ip assms by (simp add: net_contains_iff)
  moreover have "ip_bits (net_network N n) = ip_bits ip'"
    using net_network_bits [of n] ip assms(2,3) w by simp
  then have "net_network N n = ip'"
    using net_network_family [of n] ip by (intro ip_bits_inj) simp_all
  ultimately show ?thesis using n ip by blast
qed

lemma truncate_fits:
  assumes "depth_for ip d4 d6 \<le> ip_width ip"
  shows "\<exists>n. truncate_to_prefix N ip d4 d6 = Some n \<and> net_prefix N n = depth_for ip d4 d6
    \<and> net_contains N n ip \<and> net_ip N n = net_network N n"
proof (cases ip)
  case (V4 a)
  with assms have "unat d4 \<le> 32" by simp
  from net_new_truncated [OF _ _ depth_mask_V4 [OF this, of a, folded ip_width.simps(1) [of a]]] this
  show ?thesis using V4 by (fastforce simp: truncate_to_prefix_def)
next
  case (V6 a)
  with assms have "unat d6 \<le> 128" by simp
  from net_new_truncated [OF _ _ depth_mask_V6 [OF this, of a, folded ip_width.simps(2) [of a]]] this
  show ?thesis using V6 by (fastforce simp: truncate_to_prefix_def)
qed

lemma truncate_panics:
  "ip_width ip < depth_for ip d4 d6 \<Longrightarrow> truncate_to_prefix N ip d4 d6 = None"
  by (cases ip) (simp_all add: truncate_to_prefix_def net_new_None_iff)

text \<open>Two addresses share a subnet key exactly when they agree on the leading bits.\<close>

lemma truncate_eq_iff:
  assumes "is_ipv4 a = is_ipv4 b" and "depth_for a d4 d6 \<le> ip_width a"
  shows "truncate_to_prefix N a d4 d6 = truncate_to_prefix N b d4 d6 \<longleftrightarrow>
    take (depth_for a d4 d6) (ip_bits a) = take (depth_for a d4 d6) (ip_bits b)"
proof -
  have same: "depth_for b d4 d6 = depth_for a d4 d6" "ip_width b = ip_width a"
    using assms(1) by (cases a; cases b; simp)+
  obtain n m where n: "truncate_to_prefix N a d4 d6 = Some n" "net_prefix N n = depth_for a d4 d6"
      "net_contains N n a" "net_ip N n = net_network N n"
    and m: "truncate_to_prefix N b d4 d6 = Some m" "net_prefix N m = depth_for a d4 d6"
      "net_contains N m b" "net_ip N m = net_network N m"
    using truncate_fits [of a d4 d6] truncate_fits [of b d4 d6] assms(2) same by force
  let ?d = "depth_for a d4 d6"
  have fam: "is_ipv4 (net_ip N n) = is_ipv4 (net_ip N m)"
    using n(3) m(3) assms(1) by (simp add: net_contains_iff)
  have "n = m" if "take ?d (ip_bits a) = take ?d (ip_bits b)"
  proof (rule net_ext)
    have "ip_bits (net_network N n) = ip_bits (net_network N m)"
      using net_network_bits [of n] net_network_bits [of m] n(2,3) m(2,3) that fam ip_width_family [OF fam]
      by (simp add: net_contains_iff)
    then show "net_ip N n = net_ip N m" using n(4) m(4) fam by (auto intro: ip_bits_inj)
  qed (simp add: n m)
  moreover have "take ?d (ip_bits a) = take ?d (ip_bits b)" if "n = m"
    using that n(2,3) m(2,3) by (simp add: net_contains_iff)
  ultimately show ?thesis using n(1) m(1) by auto
qed

end

section \<open>The limiter as a map from keys to buckets\<close>

definition lm_view :: "('c, 'k) moka_ops \<Rightarrow> 'c TokenBucketLimiter \<Rightarrow> 'k \<rightharpoonup> u64" where
  "lm_view M l k = map_option (nth (lm_store l)) (mk_entries M (lm_cache l) k)"

definition lm_inv :: "('c, 'k) moka_ops \<Rightarrow> 'c TokenBucketLimiter \<Rightarrow> bool" where
  "lm_inv M l \<longleftrightarrow> (\<forall>k i. mk_entries M (lm_cache l) k = Some i \<longrightarrow> i < length (lm_store l))
     \<and> inj_on (mk_entries M (lm_cache l)) (dom (mk_entries M (lm_cache l)))"

text \<open>The specification of \<open>consume\<close> on such a map.\<close>

definition spec_consume ::
  "RateLimitConfig \<Rightarrow> u32 \<Rightarrow> u32 \<Rightarrow> 'k \<Rightarrow> ('k \<rightharpoonup> u64) \<Rightarrow> bool \<times> ('k \<rightharpoonup> u64)" where
  "spec_consume cfg now_new now k v =
     (let b = (case v k of Some b \<Rightarrow> b | None \<Rightarrow> TokenBucket_new now_new (rl_capacity cfg));
          (ok, b') = TokenBucket_allow now (rl_capacity cfg) (rl_refill_rate cfg) b
      in (ok, v(k \<mapsto> b')))"

lemma new_limiter_config [simp]: "lm_config (TokenBucketLimiter_new M cfg) = cfg"
  by (simp add: TokenBucketLimiter_new_def)

lemma consume_config [simp]: "lm_config (snd (consume M n0 n k l)) = lm_config l"
  by (simp add: consume_def case_prod_unfold Let_def)

context moka
begin

lemma lm_inv_new: "lm_inv M (TokenBucketLimiter_new M cfg)"
  by (simp add: lm_inv_def TokenBucketLimiter_new_def moka_new)

lemma lm_view_new: "lm_view M (TokenBucketLimiter_new M cfg) = Map.empty"
  by (rule ext) (simp add: lm_view_def TokenBucketLimiter_new_def moka_new)

text \<open>Even a cache that evicts keeps every bucket reachable from at most one key, and a call for
  one key leaves the buckets of all others as they are or drops them.\<close>

lemma consume_inv:
  assumes "lm_inv M l"
  shows "lm_inv M (snd (consume M n0 n k l))"
proof -
  let ?f = "length (lm_store l)" and ?e = "mk_entries M (lm_cache l)"
  obtain i c' where g: "mk_get_with M k ?f (lm_cache l) = (i, c')" by fastforce
  have old: "\<And>k i. ?e k = Some i \<Longrightarrow> i < ?f" and inj: "\<And>a b j. ?e a = Some j \<Longrightarrow> ?e b = Some j \<Longrightarrow> a = b"
    using assms by (auto simp: lm_inv_def inj_on_def dom_def)
  have i: "i = ?f \<or> ?e k = Some i" using moka_get [OF g] .
  have aft: "mk_entries M c' a = Some j \<Longrightarrow> if a = k then j = i else ?e a = Some j" for a j
    using moka_after [OF g] .
  have "j < (if i = ?f then Suc ?f else ?f)" if "mk_entries M c' a = Some j" for a j
    using aft [OF that] i old by (fastforce split: if_splits)
  moreover have "a = b" if "mk_entries M c' a = Some j" "mk_entries M c' b = Some j" for a b j
  proof (cases "a = k \<or> b = k")
    case True
    then show ?thesis using aft [OF that(1)] aft [OF that(2)] i inj [of a j b] old [of a j] old [of b j] by (auto split: if_splits)
  next
    case False
    then show ?thesis using aft [OF that(1)] aft [OF that(2)] inj [of a j b] by simp
  qed
  ultimately show ?thesis
    unfolding lm_inv_def inj_on_def dom_def
    by (auto simp: consume_def g case_prod_unfold Let_def split: if_splits)
qed

lemma consume_other:
  assumes "lm_inv M l" and "k' \<noteq> k"
  shows "lm_view M (snd (consume M n0 n k l)) k' \<in> {lm_view M l k', None}"
proof -
  let ?f = "length (lm_store l)" and ?e = "mk_entries M (lm_cache l)"
  obtain i c' where g: "mk_get_with M k ?f (lm_cache l) = (i, c')" by fastforce
  show ?thesis
  proof (cases "mk_entries M c' k'")
    case (Some j)
    then have j: "?e k' = Some j" using moka_after [OF g Some] assms(2) by simp
    then have "j < ?f" using assms(1) by (simp add: lm_inv_def)
    moreover have "i \<noteq> j"
      using moka_get [OF g] j assms \<open>j < ?f\<close> by (fastforce simp: lm_inv_def inj_on_def dom_def)
    ultimately show ?thesis
      using Some j by (simp add: lm_view_def consume_def g case_prod_unfold Let_def nth_append)
  qed (simp add: lm_view_def consume_def g case_prod_unfold Let_def)
qed

end

context moka_keeping
begin

lemma consume_refines:
  assumes "lm_inv M l"
  shows "fst (consume M n0 n k l) = fst (spec_consume (lm_config l) n0 n k (lm_view M l))"
    and "lm_view M (snd (consume M n0 n k l)) = snd (spec_consume (lm_config l) n0 n k (lm_view M l))"
proof -
  let ?f = "length (lm_store l)" and ?e = "mk_entries M (lm_cache l)"
  have old: "\<And>k i. ?e k = Some i \<Longrightarrow> i < ?f" and inj: "\<And>a b j. ?e a = Some j \<Longrightarrow> ?e b = Some j \<Longrightarrow> a = b"
    using assms by (auto simp: lm_inv_def inj_on_def dom_def)
  have "fst (consume M n0 n k l) = fst (spec_consume (lm_config l) n0 n k (lm_view M l))
    \<and> lm_view M (snd (consume M n0 n k l)) = snd (spec_consume (lm_config l) n0 n k (lm_view M l))"
  proof (cases "?e k")
    case None
    obtain c' where g: "mk_get_with M k ?f (lm_cache l) = (?f, c')" "mk_entries M c' = ?e(k \<mapsto> ?f)"
      using moka_miss [OF None] by blast
    then show ?thesis using None old
      by (auto simp: consume_def spec_consume_def lm_view_def case_prod_unfold Let_def nth_append fun_eq_iff
          intro!: option.map_cong0 split: option.splits)
  next
    case (Some i)
    obtain c' where g: "mk_get_with M k ?f (lm_cache l) = (i, c')" "mk_entries M c' = ?e"
      using moka_hit [OF Some] by blast
    have "i \<noteq> ?f" "i < ?f" using old [OF Some] by simp_all
    with g Some inj show ?thesis
      by (auto simp: consume_def spec_consume_def lm_view_def case_prod_unfold Let_def nth_list_update fun_eq_iff
          intro!: option.map_cong0 split: option.splits)
  qed
  then show "fst (consume M n0 n k l) = fst (spec_consume (lm_config l) n0 n k (lm_view M l))"
    and "lm_view M (snd (consume M n0 n k l)) = snd (spec_consume (lm_config l) n0 n k (lm_view M l))"
    by simp_all
qed

end

section \<open>Runs of calls\<close>

text \<open>A run of \<open>consume\<close> calls, each with its key and its two clock readings; the answers in
  order, and the final limiter.\<close>

fun consume_run ::
  "('c, 'k) moka_ops \<Rightarrow> ('k \<times> u32 \<times> u32) list \<Rightarrow> 'c TokenBucketLimiter \<Rightarrow> bool list \<times> 'c TokenBucketLimiter" where
  "consume_run M [] l = ([], l)"
| "consume_run M ((k, n0, n) # cs) l =
     (let (ok, l1) = consume M n0 n k l; (oks, l2) = consume_run M cs l1 in (ok # oks, l2))"

text \<open>How many calls for \<open>k\<close> were admitted, and at which clock readings \<open>k\<close> was called.\<close>

definition admitted_for :: "'k \<Rightarrow> ('k \<times> u32 \<times> u32) list \<Rightarrow> bool list \<Rightarrow> nat" where
  "admitted_for k cs oks = length (filter (\<lambda>((k', _), ok). k' = k \<and> ok) (zip cs oks))"

definition readings :: "'k \<Rightarrow> ('k \<times> u32 \<times> u32) list \<Rightarrow> u32 list" where
  "readings k cs = map (snd \<circ> snd) (filter (\<lambda>(k', _). k' = k) cs)"

lemma admitted_for_simps [simp]:
  "admitted_for k [] oks = 0"
  "admitted_for k ((k', n0, n) # cs) (ok # oks) = of_bool (k' = k \<and> ok) + admitted_for k cs oks"
  by (simp_all add: admitted_for_def)

lemma readings_simps [simp]:
  "readings k [] = []"
  "readings k ((k', n0, n) # cs) = (if k' = k then n # readings k cs else readings k cs)"
  by (simp_all add: readings_def)

context moka_keeping
begin

lemma consume_view:
  assumes "lm_inv M l"
  shows "lm_view M (snd (consume M n0 n k l)) k' =
    (if k' = k then snd (spec_consume (lm_config l) n0 n k (lm_view M l)) k else lm_view M l k')"
  using consume_refines(2) [OF assms, of n0 n k]
  by (simp add: spec_consume_def case_prod_unfold Let_def)

text \<open>The calls for a key with a bucket are a run of that bucket alone.\<close>

lemma consume_run_isolated:
  "lm_inv M l \<Longrightarrow> lm_view M l k = Some b \<Longrightarrow>
     admitted_for k cs (fst (consume_run M cs l))
       = fst (allow_run (rl_capacity (lm_config l)) (rl_refill_rate (lm_config l)) (readings k cs) b)"
proof (induction cs arbitrary: l b)
  case (Cons call cs)
  obtain k' n0 n where call: "call = (k', n0, n)" by (cases call)
  obtain ok l1 where step: "consume M n0 n k' l = (ok, l1)" by fastforce
  have l1: "lm_inv M l1" "lm_config l1 = lm_config l"
    using consume_inv [OF Cons.prems(1), of n0 n k'] consume_config [of M n0 n k' l] step by simp_all
  have view: "lm_view M l1 k = (if k = k' then snd (spec_consume (lm_config l) n0 n k' (lm_view M l)) k' else Some b)"
    using consume_view [OF Cons.prems(1), of n0 n k' k] step Cons.prems(2) by simp
  show ?case
  proof (cases "k' = k")
    case True
    obtain b1 where b1: "TokenBucket_allow n (rl_capacity (lm_config l)) (rl_refill_rate (lm_config l)) b = (ok, b1)"
      using consume_refines(1) [OF Cons.prems(1), of n0 n k'] step Cons.prems(2) True
      by (cases "TokenBucket_allow n (rl_capacity (lm_config l)) (rl_refill_rate (lm_config l)) b")
         (simp add: spec_consume_def)
    have "lm_view M l1 k = Some b1" using view True Cons.prems(2) b1 by (simp add: spec_consume_def)
    from Cons.IH [OF l1(1) this] show ?thesis
      using step True b1 l1(2) call by (simp add: case_prod_unfold Let_def)
  next
    case False
    then have "lm_view M l1 k = Some b" using view by simp
    from Cons.IH [OF l1(1) this] show ?thesis
      using step False l1(2) call by (simp add: case_prod_unfold Let_def)
  qed
qed simp

text \<open>The calls for a key without one start a full bucket at the first of them.\<close>

lemma consume_run_fresh:
  "lm_inv M l \<Longrightarrow> lm_view M l k = None \<Longrightarrow>
     \<exists>b. admitted_for k cs (fst (consume_run M cs l))
       = fst (allow_run (rl_capacity (lm_config l)) (rl_refill_rate (lm_config l)) (readings k cs) b)"
proof (induction cs arbitrary: l)
  case (Cons call cs)
  obtain k' n0 n where call: "call = (k', n0, n)" by (cases call)
  let ?c = "rl_capacity (lm_config l)" and ?r = "rl_refill_rate (lm_config l)"
  obtain ok l1 where step: "consume M n0 n k' l = (ok, l1)" by fastforce
  have l1: "lm_inv M l1" "lm_config l1 = lm_config l"
    using consume_inv [OF Cons.prems(1), of n0 n k'] consume_config [of M n0 n k' l] step by simp_all
  have view: "lm_view M l1 k = (if k = k' then snd (spec_consume (lm_config l) n0 n k' (lm_view M l)) k' else None)"
    using consume_view [OF Cons.prems(1), of n0 n k' k] step Cons.prems(2) by simp
  show ?case
  proof (cases "k' = k")
    case True
    let ?b = "TokenBucket_new n0 ?c"
    obtain b1 where b1: "TokenBucket_allow n ?c ?r ?b = (ok, b1)"
      using consume_refines(1) [OF Cons.prems(1), of n0 n k'] step Cons.prems(2) True
      by (cases "TokenBucket_allow n ?c ?r ?b") (simp add: spec_consume_def)
    have "lm_view M l1 k = Some b1" using view True Cons.prems(2) b1 by (simp add: spec_consume_def)
    from consume_run_isolated [OF l1(1) this, of cs] show ?thesis
      using step True b1 l1(2) call by (intro exI [of _ ?b]) (simp add: case_prod_unfold Let_def)
  next
    case False
    then have "lm_view M l1 k = None" using view by simp
    from Cons.IH [OF l1(1) this] show ?thesis
      using step False l1(2) call by (simp add: case_prod_unfold Let_def)
  qed
qed simp

text \<open>What one key is admitted, whatever the other keys do.\<close>

lemma consume_run_bound:
  assumes "lm_inv M l" and "readings k cs = now # nows" and "sorted (map unat (now # nows))"
  shows "admitted_for k cs (fst (consume_run M cs l)) * 1000
    \<le> unat (capacity_fp (rl_capacity (lm_config l)))
       + (unat (last (now # nows)) - unat now) * unat (rl_refill_rate (lm_config l) * 1000)"
proof -
  obtain b where "admitted_for k cs (fst (consume_run M cs l))
      = fst (allow_run (rl_capacity (lm_config l)) (rl_refill_rate (lm_config l)) (readings k cs) b)"
    using consume_run_isolated [OF assms(1), of k _ cs] consume_run_fresh [OF assms(1), of k cs]
    by (cases "lm_view M l k") auto
  then show ?thesis unfolding assms(2) using allow_run_bound [OF assms(3)] by metis
qed

end

section \<open>Buckets that are evicted\<close>

text \<open>When the cache drops a bucket, the next call for its key starts a full one. The calls for one key are
  then events, each with the clock reading of a new bucket if it made one, and its own.\<close>

fun restart_run :: "u64 \<Rightarrow> u64 \<Rightarrow> (u32 option \<times> u32) list \<Rightarrow> u64 \<Rightarrow> nat" where
  "restart_run c r [] b = 0"
| "restart_run c r ((s, now) # evs) b =
     (let (ok, b1) = TokenBucket_allow now c r (case s of None \<Rightarrow> b | Some n0 \<Rightarrow> TokenBucket_new n0 c)
      in of_bool ok + restart_run c r evs b1)"

definition restarts :: "(u32 option \<times> u32) list \<Rightarrow> nat" where
  "restarts evs = length (filter (\<lambda>(s, _). s \<noteq> None) evs)"

lemma restarts_simps [simp]: "restarts [] = 0" "restarts ((s, now) # evs) = of_bool (s \<noteq> None) + restarts evs"
  by (simp_all add: restarts_def)

text \<open>A bucket earns at most its tokens, a full bucket for each restart and the refill; the first event can
  spend no more than a full bucket.\<close>

lemma restart_run_bounds:
  "(sorted (tb_ts b # map (\<lambda>ev. unat (snd ev)) evs) \<longrightarrow> restart_run c r evs b * 1000
      \<le> tb_tokens b + restarts evs * unat (capacity_fp c)
        + (last (tb_ts b # map (\<lambda>ev. unat (snd ev)) evs) - tb_ts b) * unat (r * 1000))
   \<and> (sorted (map (\<lambda>ev. unat (snd ev)) evs) \<and> evs \<noteq> [] \<longrightarrow> restart_run c r evs b * 1000
      \<le> (of_bool (fst (hd evs) = None) + restarts evs) * unat (capacity_fp c)
        + (unat (snd (last evs)) - unat (snd (hd evs))) * unat (r * 1000))"
proof (induction evs arbitrary: b)
  case (Cons ev evs)
  obtain s now where ev: "ev = (s, now)" by (cases ev)
  let ?C = "unat (capacity_fp c)" and ?R = "unat (r * 1000)"
  let ?b = "case s of None \<Rightarrow> b | Some n0 \<Rightarrow> TokenBucket_new n0 c"
  let ?stop = "unat (snd (last (ev # evs)))"
  obtain ok b1 where step: "TokenBucket_allow now c r ?b = (ok, b1)" by fastforce
  have later: "?stop = last (unat now # map (\<lambda>ev. unat (snd ev)) evs)" using ev by (simp add: last_map)
  have run: "restart_run c r (ev # evs) b = of_bool ok + restart_run c r evs b1" using step ev by simp
  have after: "tb_tokens b1 + 1000 \<le> unat (refilled now c r ?b) \<and>
      restart_run c r evs b1 * 1000 \<le> tb_tokens b1 + restarts evs * ?C + (?stop - unat now) * ?R"
    if ok and ord: "sorted (map (\<lambda>ev. unat (snd ev)) (ev # evs))"
  proof -
    have "TokenBucket_allow now c r ?b = (True, b1)" using step \<open>ok\<close> by simp
    note b1 = allow_True [OF this]
    then show ?thesis using Cons.IH [of b1] ord ev later by simp
  qed
  have bound: "restart_run c r (ev # evs) b * 1000 \<le> ?C + restarts evs * ?C + (?stop - unat now) * ?R"
    if ord: "sorted (map (\<lambda>ev. unat (snd ev)) (ev # evs))"
  proof (cases ok)
    case True
    then show ?thesis using run after [OF _ ord] refilled_le_cap [of now c r ?b] by simp
  next
    case False
    show ?thesis
    proof (cases evs)
      case (Cons ev' evs')
      have "restart_run c r evs b1 * 1000 \<le> (of_bool (fst (hd evs) = None) + restarts evs) * ?C
          + (unat (snd (last evs)) - unat (snd (hd evs))) * ?R"
        using Cons.IH [of b1] ord ev Cons by simp
      also have "\<dots> \<le> ?C + restarts evs * ?C + (?stop - unat now) * ?R"
        using ord ev Cons by (intro add_mono mult_right_mono diff_le_mono2) (auto simp: add_mult_distrib)
      finally show ?thesis using run False by simp
    qed (use run False in simp)
  qed
  have potential: "restart_run c r (ev # evs) b * 1000 \<le> tb_tokens b + restarts (ev # evs) * ?C + (?stop - tb_ts b) * ?R"
    if ord0: "sorted (tb_ts b # map (\<lambda>ev. unat (snd ev)) (ev # evs))"
  proof -
    have ord: "sorted (map (\<lambda>ev. unat (snd ev)) (ev # evs))" "tb_ts b \<le> unat now" "unat now \<le> ?stop"
      using ord0 ev last_in_set [of evs] by auto
    show ?thesis
    proof (cases s)
      case None
      have t: "restart_run c r (ev # evs) b * 1000 \<le> tb_tokens b + restarts evs * ?C + (?stop - tb_ts b) * ?R"
      proof (cases ok)
        case True
        have "(unat now - tb_ts b) * ?R + (?stop - unat now) * ?R = (?stop - tb_ts b) * ?R"
          using ord(2,3) by (simp flip: add_mult_distrib)
        then show ?thesis using run True None after [OF _ ord(1)] refilled_le [of now c r b] by simp
      next
        case False
        then have b1: "b1 = b" using step allow_False [of now c r b b1] None by simp
        have "restart_run c r evs b * 1000 \<le> tb_tokens b + restarts evs * ?C
            + (last (tb_ts b # map (\<lambda>ev. unat (snd ev)) evs) - tb_ts b) * ?R"
          using Cons.IH [of b] ord0 ev by simp
        also have "\<dots> \<le> tb_tokens b + restarts evs * ?C + (?stop - tb_ts b) * ?R"
          using ord(2) later by (intro add_left_mono mult_right_mono diff_le_mono) simp_all
        finally show ?thesis using run False b1 by simp
      qed
      then show ?thesis using None ev by simp
    next
      case (Some n0)
      have "(?stop - unat now) * ?R \<le> (?stop - tb_ts b) * ?R" using ord(2) by (intro mult_right_mono diff_le_mono2) simp_all
      moreover have "restarts (ev # evs) = Suc (restarts evs)" using Some ev by simp
      ultimately show ?thesis using bound [OF ord(1)] unfolding \<open>restarts (ev # evs) = Suc (restarts evs)\<close> mult_Suc by linarith
    qed
  qed
  have last: "last (tb_ts b # map (\<lambda>ev. unat (snd ev)) (ev # evs)) = ?stop" using ev by (simp add: last_map)
  have "(of_bool (fst (hd (ev # evs)) = None) + restarts (ev # evs)) * ?C = ?C + restarts evs * ?C" using ev by (cases s) simp_all
  then show ?case using potential bound ev unfolding last by simp
qed simp

text \<open>How many of the calls for a key made a bucket.\<close>

fun buckets_made_for :: "('c, 'k) moka_ops \<Rightarrow> 'k \<Rightarrow> ('k \<times> u32 \<times> u32) list \<Rightarrow> 'c TokenBucketLimiter \<Rightarrow> nat" where
  "buckets_made_for M k [] l = 0"
| "buckets_made_for M k ((k', n0, n) # cs) l =
     (let l1 = snd (consume M n0 n k' l)
      in of_bool (k' = k \<and> length (lm_store l1) \<noteq> length (lm_store l)) + buckets_made_for M k cs l1)"

context moka
begin

text \<open>A call works on the bucket of its key or on a new one, and the cache holds that bucket or none afterwards.\<close>

lemma consume_self:
  assumes "lm_inv M l" and "consume M n0 n k l = (ok, l1)"
  obtains s b1 where "TokenBucket_allow n (rl_capacity (lm_config l)) (rl_refill_rate (lm_config l))
      (case s of None \<Rightarrow> the (lm_view M l k) | Some n0 \<Rightarrow> TokenBucket_new n0 (rl_capacity (lm_config l))) = (ok, b1)"
    and "s \<noteq> None \<longleftrightarrow> length (lm_store l1) \<noteq> length (lm_store l)" and "lm_view M l k = None \<Longrightarrow> s \<noteq> None"
    and "lm_view M l1 k \<in> {Some b1, None}"
proof -
  let ?f = "length (lm_store l)" and ?c = "rl_capacity (lm_config l)" and ?r = "rl_refill_rate (lm_config l)"
  obtain i c' where g: "mk_get_with M k ?f (lm_cache l) = (i, c')" by fastforce
  have old: "\<And>i. mk_entries M (lm_cache l) k = Some i \<Longrightarrow> i < ?f" using assms(1) by (auto simp: lm_inv_def)
  let ?s = "if i = ?f then Some n0 else None"
  let ?b = "case ?s of None \<Rightarrow> the (lm_view M l k) | Some n0 \<Rightarrow> TokenBucket_new n0 ?c"
  obtain b1 where b1: "TokenBucket_allow n ?c ?r ?b = (ok, b1)"
    using assms(2) g moka_get [OF g] old
    by (cases "TokenBucket_allow n ?c ?r ?b") (auto simp: consume_def lm_view_def Let_def case_prod_unfold nth_append split: if_splits)
  show ?thesis
  proof (rule that [OF b1])
    show "?s \<noteq> None \<longleftrightarrow> length (lm_store l1) \<noteq> ?f"
      using assms(2) g by (auto simp: consume_def Let_def case_prod_unfold)
    show "?s \<noteq> None" if "lm_view M l k = None"
      using that moka_get [OF g] by (auto simp: lm_view_def)
    show "lm_view M l1 k \<in> {Some b1, None}"
    proof (cases "mk_entries M c' k")
      case (Some j)
      then have "j = i" using moka_after [OF g Some] by simp
      then show ?thesis using Some assms(2) g b1 moka_get [OF g] old
        by (auto simp: consume_def lm_view_def Let_def case_prod_unfold nth_append split: if_splits)
    qed (use assms(2) g in \<open>auto simp: consume_def lm_view_def Let_def case_prod_unfold\<close>)
  qed
qed

lemma consume_run_events:
  "lm_inv M l \<Longrightarrow> \<exists>evs. map snd evs = readings k cs \<and> restarts evs = buckets_made_for M k cs l
     \<and> (lm_view M l k = None \<longrightarrow> evs = [] \<or> fst (hd evs) \<noteq> None)
     \<and> admitted_for k cs (fst (consume_run M cs l))
       = restart_run (rl_capacity (lm_config l)) (rl_refill_rate (lm_config l)) evs (the (lm_view M l k))"
proof (induction cs arbitrary: l)
  case (Cons call cs)
  obtain k' n0 n where call: "call = (k', n0, n)" by (cases call)
  let ?c = "rl_capacity (lm_config l)" and ?r = "rl_refill_rate (lm_config l)"
  obtain ok l1 where step: "consume M n0 n k' l = (ok, l1)" by fastforce
  have l1: "lm_inv M l1" "lm_config l1 = lm_config l"
    using consume_inv [OF Cons.prems, of n0 n k'] consume_config [of M n0 n k' l] step by simp_all
  obtain evs where IH: "map snd evs = readings k cs" "restarts evs = buckets_made_for M k cs l1"
    "lm_view M l1 k = None \<Longrightarrow> evs = [] \<or> fst (hd evs) \<noteq> None"
    "admitted_for k cs (fst (consume_run M cs l1)) = restart_run ?c ?r evs (the (lm_view M l1 k))"
    using Cons.IH [OF l1(1)] l1(2) by auto
  have fresh: "restart_run ?c ?r evs b = restart_run ?c ?r evs b'" if "lm_view M l1 k = None" for b b'
    using IH(3) [OF that] by (cases evs) (auto simp: case_prod_unfold Let_def)
  show ?case
  proof (cases "k' = k")
    case True
    obtain s b1 where s: "TokenBucket_allow n ?c ?r (case s of None \<Rightarrow> the (lm_view M l k) | Some n0 \<Rightarrow> TokenBucket_new n0 ?c) = (ok, b1)"
      "s \<noteq> None \<longleftrightarrow> length (lm_store l1) \<noteq> length (lm_store l)" "lm_view M l k = None \<Longrightarrow> s \<noteq> None" "lm_view M l1 k \<in> {Some b1, None}"
      using consume_self [OF Cons.prems step] True by blast
    have "restart_run ?c ?r evs (the (lm_view M l1 k)) = restart_run ?c ?r evs b1" using s(4) fresh by auto
    then show ?thesis using s IH step call True
      by (intro exI [of _ "(s, n) # evs"]) (auto simp: case_prod_unfold Let_def)
  next
    case False
    have view: "lm_view M l1 k \<in> {lm_view M l k, None}"
      using consume_other [OF Cons.prems, of k k' n0 n] False step by auto
    then have "restart_run ?c ?r evs (the (lm_view M l1 k)) = restart_run ?c ?r evs (the (lm_view M l k))" using fresh by auto
    then show ?thesis using view IH step call False
      by (intro exI [of _ evs]) (auto simp: case_prod_unfold Let_def)
  qed
qed simp

text \<open>What one key is admitted when buckets may be evicted: a full bucket for each one made, and the refill.\<close>

lemma consume_run_restarts:
  assumes "lm_inv M l" and "lm_view M l k = None" and "readings k cs = now # nows" and "sorted (map unat (now # nows))"
  shows "admitted_for k cs (fst (consume_run M cs l)) * 1000
    \<le> buckets_made_for M k cs l * unat (capacity_fp (rl_capacity (lm_config l)))
       + (unat (last (now # nows)) - unat now) * unat (rl_refill_rate (lm_config l) * 1000)"
proof -
  obtain evs where evs: "map snd evs = now # nows" "restarts evs = buckets_made_for M k cs l"
    "lm_view M l k = None \<longrightarrow> evs = [] \<or> fst (hd evs) \<noteq> None" "admitted_for k cs (fst (consume_run M cs l))
       = restart_run (rl_capacity (lm_config l)) (rl_refill_rate (lm_config l)) evs (the (lm_view M l k))"
    using consume_run_events [OF assms(1), of k cs] unfolding assms(3) by (elim exE conjE) (rule that)
  have ne: "evs \<noteq> []" using evs(1) by auto
  have ends: "snd (hd evs) = now" "snd (last evs) = last (now # nows)"
    using ne evs(1) by (metis hd_map list.sel(1), metis last_map)
  have ord: "sorted (map (\<lambda>ev. unat (snd ev)) evs) \<and> evs \<noteq> []"
    using assms(4) ne unfolding evs(1) [symmetric] by (simp add: comp_def)
  have none: "fst (hd evs) = None \<longleftrightarrow> False" using evs(3) assms(2) ne by simp
  show ?thesis
    using mp [OF conjunct2 [OF restart_run_bounds] ord, of "rl_capacity (lm_config l)" "rl_refill_rate (lm_config l)" "the (lm_view M l k)"]
    unfolding evs(4) ends none evs(2) by simp
qed

end

context moka_keeping
begin

text \<open>A cache that keeps its entries makes one bucket for a key.\<close>

lemma buckets_made_once:
  "lm_inv M l \<Longrightarrow> buckets_made_for M k cs l \<le> of_bool (lm_view M l k = None)"
proof (induction cs arbitrary: l)
  case (Cons call cs)
  obtain k' n0 n where call: "call = (k', n0, n)" by (cases call)
  obtain ok l1 where step: "consume M n0 n k' l = (ok, l1)" by fastforce
  have l1: "lm_inv M l1" using consume_inv [OF Cons.prems, of n0 n k'] step by simp
  have view: "lm_view M l1 k = (if k = k' then snd (spec_consume (lm_config l) n0 n k' (lm_view M l)) k' else lm_view M l k)"
    using consume_view [OF Cons.prems, of n0 n k' k] step by simp
  have "length (lm_store l1) = length (lm_store l)" if some: "lm_view M l k' \<noteq> None"
  proof -
    obtain i where i: "mk_entries M (lm_cache l) k' = Some i" using some by (auto simp: lm_view_def)
    then have "i < length (lm_store l)" using Cons.prems by (auto simp: lm_inv_def)
    then show ?thesis using moka_hit [OF i, of "length (lm_store l)"] step by (auto simp: consume_def Let_def case_prod_unfold)
  qed
  then show ?case using Cons.IH [OF l1] view step call
    by (cases "k' = k"; cases "lm_view M l k") (auto simp: spec_consume_def case_prod_unfold Let_def)
qed simp

end
end
