(* ===== verification/Clock.thy ===== *)
theory Clock
  imports Prelude
begin

text \<open>The clock of the Rust standard library as the components use it; a reading is an argument of
  the operation that takes it.\<close>

section \<open>Instants\<close>

text \<open>\<open>std::time::Instant\<close> in nanoseconds, with the range of a 64-bit count of seconds.\<close>

type_synonym Instant = int

definition instant_bound :: int where
  "instant_bound = 2 ^ 63 * 10 ^ 9"

definition checked_sub :: "Instant \<Rightarrow> nat \<Rightarrow> Instant option" where
  "checked_sub t d = (if t - int d < - instant_bound then None else Some (t - int d))"

definition checked_add :: "Instant \<Rightarrow> nat \<Rightarrow> Instant option" where
  "checked_add t d = (if instant_bound \<le> t + int d then None else Some (t + int d))"

definition from_secs :: "u64 \<Rightarrow> nat" where
  "from_secs s = unat s * 10 ^ 9"

end
