(* ===== verification/DashMap.thy ===== *)
theory DashMap
  imports Main "HOL-Library.DAList"
begin

text \<open>
  The concurrent map the policy layer shares between threads, \<open>dashmap::DashMap\<close>. Its source
  is not part of the repository: the operations are a record parameter and their documented
  behaviour the locale \<open>dashmap\<close>. Every call of the program is one step under a shard lock.
\<close>

record ('m, 'k, 'v) dash_ops =
  dm_new :: 'm
  dm_get :: "'m \<Rightarrow> 'k \<rightharpoonup> 'v"
  dm_insert :: "'k \<Rightarrow> 'v \<Rightarrow> 'm \<Rightarrow> 'm"
  dm_remove :: "'k \<Rightarrow> 'm \<Rightarrow> 'm"
  dm_iter :: "'m \<Rightarrow> ('k \<times> 'v) list"

locale dashmap =
  fixes D :: "('m, 'k, 'v) dash_ops"
  assumes dm_get_new [simp]: "dm_get D (dm_new D) = Map.empty"
    and dm_get_insert [simp]: "dm_get D (dm_insert D k v m) = (dm_get D m)(k \<mapsto> v)"
    and dm_get_remove [simp]: "dm_get D (dm_remove D k m) = (dm_get D m)(k := None)"
    and dm_iter_iff: "(k, v) \<in> set (dm_iter D m) \<longleftrightarrow> dm_get D m k = Some v"
    and dm_iter_distinct: "distinct (map fst (dm_iter D m))"

definition alist_dash :: "(('k, 'v) alist, 'k, 'v) dash_ops" where
  "alist_dash = \<lparr>dm_new = DAList.empty, dm_get = DAList.lookup, dm_insert = DAList.update,
     dm_remove = DAList.delete, dm_iter = alist.impl_of\<rparr>"

interpretation alist_dash: dashmap alist_dash
proof
  fix k :: "'k" and v :: "'v" and m :: "('k, 'v) alist"
  show "((k, v) \<in> set (dm_iter alist_dash m)) = (dm_get alist_dash m k = Some v)"
    by (simp add: alist_dash_def DAList.lookup.rep_eq)
qed (simp_all add: alist_dash_def fun_eq_iff DAList.lookup_update)

end
