(* ===== verification/AutoBan.thy ===== *)
theory AutoBan
  imports Clock DashMap Config Engine
begin

text \<open>
  Automatic bans (\<open>policy/src/auto_ban.rs\<close>): violation timestamps per address in a sliding
  window, a ban table, the host routes the tracker writes into the shared blocklist engine and
  the background sweeper. The engine is shared through an \<open>Arc\<close>, so operations take it and
  return it. \<open>None\<close> is a panic.
\<close>

section \<open>The tracker\<close>

record ('v, 'b) AutoBanTracker =
  at_violations :: 'v
  at_banned :: 'b
  at_threshold :: u64
  at_window :: nat
  at_ban_duration :: nat

definition AutoBanTracker_new ::
  "('v, IpAddr, Instant list) dash_ops \<Rightarrow> ('b, IpAddr, Instant) dash_ops \<Rightarrow> AutoBanConfig \<Rightarrow> ('v, 'b) AutoBanTracker" where
  "AutoBanTracker_new DV DB cfg =
     \<lparr>at_violations = dm_new DV, at_banned = dm_new DB, at_threshold = ab_threshold_violations cfg,
      at_window = from_secs (ab_window_seconds cfg), at_ban_duration = from_secs (ab_ban_duration_seconds cfg)\<rparr>"

definition host_prefix :: "'n ipnet_ops \<Rightarrow> IpAddr \<Rightarrow> 'n option" where
  "host_prefix N ip = (case ip of V4 _ \<Rightarrow> net_new N ip 32 | V6 _ \<Rightarrow> net_new N ip 128)"

definition ban_metadata :: Metadata where
  "ban_metadata = with_attribute (Metadata_new ''auto-banned'') ''reason'' ''exceeded_threshold''"

definition insert_ban :: "'n ipnet_ops \<Rightarrow> ('e, 'n) RadixEngine \<Rightarrow> IpAddr \<Rightarrow> 'e \<Rightarrow> 'e option" where
  "insert_ban N E ip e =
     (case host_prefix N ip of
        None \<Rightarrow> None
      | Some pfx \<Rightarrow> map_option snd (re_insert E pfx ban_metadata e))"

definition record_violation ::
  "'n ipnet_ops \<Rightarrow> ('e, 'n) RadixEngine \<Rightarrow> ('v, IpAddr, Instant list) dash_ops \<Rightarrow> ('b, IpAddr, Instant) dash_ops
     \<Rightarrow> Instant \<Rightarrow> IpAddr \<Rightarrow> ('v, 'b) AutoBanTracker \<Rightarrow> 'e \<Rightarrow> (bool \<times> ('v, 'b) AutoBanTracker \<times> 'e) option" where
  "record_violation N E DV DB now ip tr e =
     (let cutoff = (case checked_sub now (at_window tr) of Some c \<Rightarrow> c | None \<Rightarrow> now);
          entry = (case dm_get DV (at_violations tr) ip of Some ts \<Rightarrow> ts | None \<Rightarrow> []);
          timestamps = filter (\<lambda>t. cutoff \<le> t) entry @ [now]
      in if length timestamps < unat (at_threshold tr)
         then Some (False, tr\<lparr>at_violations := dm_insert DV ip timestamps (at_violations tr)\<rparr>, e)
         else (let tr = tr\<lparr>at_violations := dm_insert DV ip [] (at_violations tr)\<rparr> in
               case checked_add now (at_ban_duration tr) of
                 None \<Rightarrow> None
               | Some expiry \<Rightarrow>
                   (let tr = tr\<lparr>at_banned := dm_insert DB ip expiry (at_banned tr)\<rparr> in
                    map_option (\<lambda>e'. (True, tr, e')) (insert_ban N E ip e))))"

definition is_banned :: "('b, IpAddr, Instant) dash_ops \<Rightarrow> Instant \<Rightarrow> IpAddr \<Rightarrow> ('v, 'b) AutoBanTracker \<Rightarrow> bool" where
  "is_banned DB now ip tr = (case dm_get DB (at_banned tr) ip of Some expiry \<Rightarrow> now < expiry | None \<Rightarrow> False)"

section \<open>The sweeper\<close>

text \<open>The body of the sweeper loop in its three stages: collecting, the ban table, the engine.\<close>

definition expired_bans :: "('b, IpAddr, Instant) dash_ops \<Rightarrow> Instant \<Rightarrow> 'b \<Rightarrow> IpAddr list" where
  "expired_bans DB now banned = map fst (filter (\<lambda>(_, expiry). expiry \<le> now) (dm_iter DB banned))"

definition unban_table :: "('b, IpAddr, Instant) dash_ops \<Rightarrow> IpAddr list \<Rightarrow> 'b \<Rightarrow> 'b" where
  "unban_table DB ips banned = fold (dm_remove DB) ips banned"

fun unban_engine :: "'n ipnet_ops \<Rightarrow> ('e, 'n) RadixEngine \<Rightarrow> IpAddr list \<Rightarrow> 'e \<Rightarrow> 'e option" where
  "unban_engine N E [] e = Some e"
| "unban_engine N E (ip # ips) e =
     (case host_prefix N ip of
        None \<Rightarrow> None
      | Some pfx \<Rightarrow> (case re_remove E pfx e of None \<Rightarrow> None | Some (_, e') \<Rightarrow> unban_engine N E ips e'))"

definition sweep ::
  "'n ipnet_ops \<Rightarrow> ('e, 'n) RadixEngine \<Rightarrow> ('b, IpAddr, Instant) dash_ops \<Rightarrow> Instant \<Rightarrow> 'b \<Rightarrow> 'e \<Rightarrow> ('b \<times> 'e) option" where
  "sweep N E DB now banned e =
     (let expired = expired_bans DB now banned;
          banned' = unban_table DB expired banned
      in map_option (\<lambda>e'. (banned', e')) (unban_engine N E expired e))"

section \<open>Host routes\<close>

context ipnetwork
begin

lemma host_prefix_total: "\<exists>n. host_prefix N ip = Some n \<and> net_ip N n = ip \<and> net_prefix N n = ip_width ip"
proof -
  have "host_prefix N ip = net_new N ip (ip_width ip)" by (cases ip) (simp_all add: host_prefix_def)
  moreover obtain n where "net_new N ip (ip_width ip) = Some n"
    using net_new_None_iff [of ip "ip_width ip"] by (cases "net_new N ip (ip_width ip)") auto
  ultimately show ?thesis using net_new_Some by auto
qed

lemma host_prefix_contains:
  assumes "host_prefix N ip = Some n"
  shows "net_contains N n a \<longleftrightarrow> a = ip" and "net_bits N n = ip_bits ip"
proof -
  have n: "net_ip N n = ip" "net_prefix N n = ip_width ip" using host_prefix_total [of ip] assms by auto
  show "net_bits N n = ip_bits ip" using n by (simp add: net_bits_ip)
  show "net_contains N n a \<longleftrightarrow> a = ip"
    using n ip_bits_inj [of a ip] ip_width_family [of a ip] by (auto simp: net_contains_iff)
qed

lemma host_prefix_inj: "host_prefix N a = Some n \<Longrightarrow> host_prefix N b = Some n \<Longrightarrow> a = b"
  using host_prefix_total [of a] host_prefix_total [of b] by auto

end

section \<open>Runs\<close>

text \<open>What happens to a tracker and the engine: a violation reported at some time, or a pass of
  the sweeper.\<close>

datatype BanEvent = Violation Instant IpAddr | Sweep Instant

fun ban_event ::
  "'n ipnet_ops \<Rightarrow> ('e, 'n) RadixEngine \<Rightarrow> ('v, IpAddr, Instant list) dash_ops \<Rightarrow> ('b, IpAddr, Instant) dash_ops
     \<Rightarrow> BanEvent \<Rightarrow> ('v, 'b) AutoBanTracker \<times> 'e \<Rightarrow> (('v, 'b) AutoBanTracker \<times> 'e) option" where
  "ban_event N E DV DB (Violation now ip) (tr, e) = map_option snd (record_violation N E DV DB now ip tr e)"
| "ban_event N E DV DB (Sweep now) (tr, e) =
     map_option (\<lambda>(banned, e'). (tr\<lparr>at_banned := banned\<rparr>, e')) (sweep N E DB now (at_banned tr) e)"

fun ban_events ::
  "'n ipnet_ops \<Rightarrow> ('e, 'n) RadixEngine \<Rightarrow> ('v, IpAddr, Instant list) dash_ops \<Rightarrow> ('b, IpAddr, Instant) dash_ops
     \<Rightarrow> BanEvent list \<Rightarrow> ('v, 'b) AutoBanTracker \<times> 'e \<Rightarrow> (('v, 'b) AutoBanTracker \<times> 'e) option" where
  "ban_events N E DV DB [] s = Some s"
| "ban_events N E DV DB (x # xs) s = Option.bind (ban_event N E DV DB x s) (ban_events N E DV DB xs)"

text \<open>The times at which an address was reported, in order.\<close>

fun times_of :: "IpAddr \<Rightarrow> BanEvent list \<Rightarrow> Instant list" where
  "times_of ip [] = []"
| "times_of ip (Violation t a # xs) = (if a = ip then t # times_of ip xs else times_of ip xs)"
| "times_of ip (Sweep _ # xs) = times_of ip xs"

lemma times_of_append [simp]: "times_of ip (xs @ ys) = times_of ip xs @ times_of ip ys"
  by (induction ip xs rule: times_of.induct) auto

lemma ban_events_append:
  "ban_events N E DV DB (xs @ ys) s = Option.bind (ban_events N E DV DB xs s) (ban_events N E DV DB ys)"
  by (induction xs arbitrary: s) (auto split: bind_splits)

text \<open>The instants a run uses fit the clock's range.\<close>

fun in_range :: "nat \<Rightarrow> BanEvent \<Rightarrow> bool" where
  "in_range ban (Violation now _) \<longleftrightarrow> now + int ban < instant_bound"
| "in_range ban (Sweep _) \<longleftrightarrow> True"

definition stamps :: "('v, IpAddr, Instant list) dash_ops \<Rightarrow> ('v, 'b) AutoBanTracker \<Rightarrow> IpAddr \<Rightarrow> Instant list" where
  "stamps DV tr ip = (case dm_get DV (at_violations tr) ip of Some ts \<Rightarrow> ts | None \<Rightarrow> [])"

definition cutoff :: "Instant \<Rightarrow> nat \<Rightarrow> Instant" where
  "cutoff now window = (case checked_sub now window of Some c \<Rightarrow> c | None \<Rightarrow> now)"

text \<open>Reports of one address at a list of times, with their answers.\<close>

fun reports ::
  "'n ipnet_ops \<Rightarrow> ('e, 'n) RadixEngine \<Rightarrow> ('v, IpAddr, Instant list) dash_ops \<Rightarrow> ('b, IpAddr, Instant) dash_ops
     \<Rightarrow> IpAddr \<Rightarrow> Instant list \<Rightarrow> ('v, 'b) AutoBanTracker \<Rightarrow> 'e \<Rightarrow> (bool list \<times> ('v, 'b) AutoBanTracker \<times> 'e) option" where
  "reports N E DV DB ip [] tr e = Some ([], tr, e)"
| "reports N E DV DB ip (now # nows) tr e =
     (case record_violation N E DV DB now ip tr e of
        None \<Rightarrow> None
      | Some (ok, tr', e') \<Rightarrow> map_option (\<lambda>(oks, r). (ok # oks, r)) (reports N E DV DB ip nows tr' e'))"

lemma cutoff_window:
  assumes "0 \<le> u" and "int w \<le> instant_bound"
  shows "cutoff u w = u - int w"
  using assms by (simp add: cutoff_def checked_sub_def)

locale auto_ban = net: ipnetwork N + eng: lpm_engine E einv eabs key answer N + vio: dashmap DV + ban: dashmap DB
  for N :: "'n ipnet_ops" and E :: "('e, 'n) RadixEngine" and einv eabs key answer
    and DV :: "('v, IpAddr, Instant list) dash_ops" and DB :: "('b, IpAddr, Instant) dash_ops" +
  assumes key_host: "host_prefix N a = Some n \<Longrightarrow> host_prefix N b = Some m \<Longrightarrow> key n = key m \<Longrightarrow> a = b"
begin

definition host_key :: "IpAddr \<Rightarrow> bool list" where
  "host_key ip = key (the (host_prefix N ip))"

lemma host_key_inj [simp]: "host_key a = host_key b \<longleftrightarrow> a = b"
proof -
  obtain n m where "host_prefix N a = Some n" "host_prefix N b = Some m"
    using net.host_prefix_total [of a] net.host_prefix_total [of b] by blast
  then show ?thesis using key_host [of a n b m] by (auto simp: host_key_def)
qed

lemma insert_ban_law:
  assumes "einv e"
  shows "\<exists>e' n. insert_ban N E ip e = Some e' \<and> host_prefix N ip = Some n \<and> einv e'
    \<and> eabs e' = (eabs e)(host_key ip \<mapsto> (n, ban_metadata))"
proof -
  obtain n where n: "host_prefix N ip = Some n" using net.host_prefix_total [of ip] by auto
  obtain e' where "re_insert E n ban_metadata e = Some (Inr (), e')" "einv e'"
      "eabs e' = (eabs e)(key n \<mapsto> (n, ban_metadata))"
    using eng.engine_insert [OF assms, of n ban_metadata] by blast
  with n show ?thesis
    by (intro exI [of _ e'] exI [of _ n]) (simp add: insert_ban_def host_key_def)
qed

text \<open>A host route makes the engine answer for its address.\<close>

lemma host_route_answers:
  assumes "einv e" and "eabs e (host_key ip) = Some (n, m)" and "host_prefix N ip = Some n"
  shows "answer e ip \<noteq> None"
proof -
  have "network_contains_ip N n ip"
    using net.host_prefix_contains(1) [OF assms(3), of ip] net.network_contains_ip_iff [of n ip]
      net.net_contains_prefix [of n ip] by blast
  then show ?thesis using assms(2) eng.answer_None_iff [OF assms(1), of ip] by auto
qed

text \<open>One report: what it answers, and what it leaves in the violation table.\<close>

lemma record_violation_below:
  assumes "Suc (length (filter (\<lambda>t. cutoff now (at_window tr) \<le> t) (stamps DV tr ip))) < unat (at_threshold tr)"
  shows "record_violation N E DV DB now ip tr e = Some (False, tr\<lparr>at_violations :=
    dm_insert DV ip (filter (\<lambda>t. cutoff now (at_window tr) \<le> t) (stamps DV tr ip) @ [now]) (at_violations tr)\<rparr>, e)"
  using assms by (simp add: record_violation_def Let_def cutoff_def stamps_def)

lemma record_violation_bans:
  assumes "einv e" and "now + int (at_ban_duration tr) < instant_bound"
    and "\<not> Suc (length (filter (\<lambda>t. cutoff now (at_window tr) \<le> t) (stamps DV tr ip))) < unat (at_threshold tr)"
  shows "\<exists>e' n. record_violation N E DV DB now ip tr e =
      Some (True, tr\<lparr>at_violations := dm_insert DV ip [] (at_violations tr),
        at_banned := dm_insert DB ip (now + int (at_ban_duration tr)) (at_banned tr)\<rparr>, e')
    \<and> host_prefix N ip = Some n \<and> einv e' \<and> eabs e' = (eabs e)(host_key ip \<mapsto> (n, ban_metadata))"
proof -
  obtain e' n where "insert_ban N E ip e = Some e'" "host_prefix N ip = Some n" "einv e'"
      "eabs e' = (eabs e)(host_key ip \<mapsto> (n, ban_metadata))"
    using insert_ban_law [OF assms(1)] by blast
  with assms(2,3) show ?thesis
    by (intro exI [of _ e'] exI [of _ n])
       (simp add: record_violation_def Let_def cutoff_def stamps_def checked_add_def)
qed

lemma unban_engine_law:
  "einv e \<Longrightarrow> \<exists>e'. unban_engine N E ips e = Some e' \<and> einv e'
     \<and> eabs e' = (\<lambda>k. if k \<in> host_key ` set ips then None else eabs e k)"
proof (induction ips arbitrary: e)
  case (Cons ip ips)
  obtain n where n: "host_prefix N ip = Some n" using net.host_prefix_total [of ip] by blast
  obtain u r where u: "re_remove E n e = Some (r, u)" "einv u" "eabs u = (eabs e)(key n := None)"
    using eng.engine_remove [OF Cons.prems, of n] by blast
  obtain e' where e': "unban_engine N E ips u = Some e'" "einv e'"
      "eabs e' = (\<lambda>k. if k \<in> host_key ` set ips then None else eabs u k)"
    using Cons.IH [OF u(2)] by blast
  have "host_key ip = key n" using n by (simp add: host_key_def)
  then have "eabs e' = (\<lambda>k. if k \<in> host_key ` set (ip # ips) then None else eabs e k)"
    using e'(3) u(3) by (auto simp: fun_eq_iff)
  then show ?case using n u(1) e'(1,2) by simp
qed simp

lemma unban_table_law:
  "dm_get DB (unban_table DB ips b) = (\<lambda>a. if a \<in> set ips then None else dm_get DB b a)"
proof (induction ips arbitrary: b)
  case (Cons ip ips)
  have "unban_table DB (ip # ips) b = unban_table DB ips (dm_remove DB ip b)"
    by (simp add: unban_table_def)
  with Cons [of "dm_remove DB ip b"] show ?case by (auto simp: fun_eq_iff)
qed (simp add: unban_table_def)

lemma expired_iff: "ip \<in> set (expired_bans DB now b) \<longleftrightarrow> (\<exists>x. dm_get DB b ip = Some x \<and> x \<le> now)"
  by (force simp: expired_bans_def ban.dm_iter_iff)

text \<open>A pass of the sweeper ends exactly the bans that have expired, in the table and in the
  engine.\<close>

lemma sweep_law:
  assumes "einv e"
  shows "\<exists>b' e'. sweep N E DB now b e = Some (b', e') \<and> einv e'
    \<and> dm_get DB b' = (\<lambda>a. case dm_get DB b a of Some x \<Rightarrow> if x \<le> now then None else Some x | None \<Rightarrow> None)
    \<and> (\<forall>a. eabs e' (host_key a) = (if a \<in> set (expired_bans DB now b) then None else eabs e (host_key a)))
    \<and> (\<forall>k. k \<notin> range host_key \<longrightarrow> eabs e' k = eabs e k)"
proof -
  let ?x = "expired_bans DB now b"
  obtain e' where e': "unban_engine N E ?x e = Some e'" "einv e'"
      "eabs e' = (\<lambda>k. if k \<in> host_key ` set ?x then None else eabs e k)"
    using unban_engine_law [OF assms] by blast
  have "dm_get DB (unban_table DB ?x b) =
      (\<lambda>a. case dm_get DB b a of Some x \<Rightarrow> if x \<le> now then None else Some x | None \<Rightarrow> None)"
    by (auto simp: unban_table_law expired_iff fun_eq_iff split: option.split)
  then show ?thesis using e'
    by (intro exI [of _ "unban_table DB ?x b"] exI [of _ e']) (auto simp: sweep_def)
qed

text \<open>Every ban of the table has its host route in the engine.\<close>

definition ban_inv :: "('v, 'b) AutoBanTracker \<times> 'e \<Rightarrow> bool" where
  "ban_inv s \<longleftrightarrow> einv (snd s) \<and> (\<forall>ip x. dm_get DB (at_banned (fst s)) ip = Some x \<longrightarrow>
     (\<exists>n m. host_prefix N ip = Some n \<and> eabs (snd s) (host_key ip) = Some (n, m)))"

lemma ban_inv_enforced:
  "ban_inv (tr, e) \<Longrightarrow> dm_get DB (at_banned tr) ip = Some x \<Longrightarrow> answer e ip \<noteq> None"
  unfolding ban_inv_def fst_conv snd_conv by (metis host_route_answers)

lemma ban_inv_new: "einv e \<Longrightarrow> ban_inv (AutoBanTracker_new DV DB cfg, e)"
  by (simp add: ban_inv_def AutoBanTracker_new_def)

text \<open>The settings a run never changes.\<close>

definition settings :: "('v, 'b) AutoBanTracker \<Rightarrow> u64 \<times> nat \<times> nat" where
  "settings tr = (at_threshold tr, at_window tr, at_ban_duration tr)"

lemma ban_event_step:
  assumes "ban_inv (tr, e)" and "in_range (at_ban_duration tr) x"
  shows "\<exists>tr' e'. ban_event N E DV DB x (tr, e) = Some (tr', e') \<and> ban_inv (tr', e') \<and> settings tr' = settings tr
    \<and> (\<forall>ip. subseq (stamps DV tr' ip) (stamps DV tr ip @ times_of ip [x]))"
proof (cases x)
  case (Violation now a)
  let ?recent = "filter (\<lambda>t. cutoff now (at_window tr) \<le> t) (stamps DV tr a)"
  have e: "einv e" using assms(1) by (simp add: ban_inv_def)
  show ?thesis
  proof (cases "Suc (length ?recent) < unat (at_threshold tr)")
    case True
    let ?tr = "tr\<lparr>at_violations := dm_insert DV a (?recent @ [now]) (at_violations tr)\<rparr>"
    have "ban_event N E DV DB x (tr, e) = Some (?tr, e)"
      using record_violation_below [OF True] Violation by simp
    moreover have "stamps DV ?tr ip = (if ip = a then ?recent @ [now] else stamps DV tr ip)" for ip
      by (simp add: stamps_def)
    ultimately show ?thesis using assms(1) Violation
      by (intro exI [of _ ?tr] exI [of _ e]) (auto simp: ban_inv_def settings_def)
  next
    case False
    have "now + int (at_ban_duration tr) < instant_bound" using assms(2) Violation by simp
    from record_violation_bans [OF e this False] obtain e' n where r:
      "record_violation N E DV DB now a tr e = Some (True,
         tr\<lparr>at_violations := dm_insert DV a [] (at_violations tr),
           at_banned := dm_insert DB a (now + int (at_ban_duration tr)) (at_banned tr)\<rparr>, e')"
      "host_prefix N a = Some n" "einv e'" "eabs e' = (eabs e)(host_key a \<mapsto> (n, ban_metadata))" by blast
    let ?tr = "tr\<lparr>at_violations := dm_insert DV a [] (at_violations tr),
        at_banned := dm_insert DB a (now + int (at_ban_duration tr)) (at_banned tr)\<rparr>"
    have "ban_inv (?tr, e')" using assms(1) r(2-4) by (auto simp: ban_inv_def)
    moreover have "stamps DV ?tr ip = (if ip = a then [] else stamps DV tr ip)" for ip
      by (simp add: stamps_def)
    ultimately show ?thesis using r(1) Violation
      by (intro exI [of _ ?tr] exI [of _ e']) (auto simp: settings_def)
  qed
next
  case (Sweep now)
  have e: "einv e" using assms(1) by (simp add: ban_inv_def)
  obtain b' e' where r: "sweep N E DB now (at_banned tr) e = Some (b', e')" "einv e'"
      "dm_get DB b' = (\<lambda>a. case dm_get DB (at_banned tr) a of Some x \<Rightarrow> if x \<le> now then None else Some x | None \<Rightarrow> None)"
      "\<forall>a. eabs e' (host_key a) = (if a \<in> set (expired_bans DB now (at_banned tr)) then None else eabs e (host_key a))"
    using sweep_law [OF e, of now "at_banned tr"] by blast
  have "ban_inv (tr\<lparr>at_banned := b'\<rparr>, e')"
    unfolding ban_inv_def
  proof (intro conjI allI impI)
    fix ip x
    assume "dm_get DB (at_banned (fst (tr\<lparr>at_banned := b'\<rparr>, e'))) ip = Some x"
    then have "dm_get DB (at_banned tr) ip = Some x" "\<not> x \<le> now"
      using r(3) by (auto split: option.splits if_splits)
    then show "\<exists>n m. host_prefix N ip = Some n \<and> eabs (snd (tr\<lparr>at_banned := b'\<rparr>, e')) (host_key ip) = Some (n, m)"
      using assms(1) r(4) by (auto simp: ban_inv_def expired_iff)
  qed (use r(2) in simp)
  then show ?thesis using r(1) Sweep
    by (intro exI [of _ "tr\<lparr>at_banned := b'\<rparr>"] exI [of _ e']) (simp add: settings_def stamps_def)
qed

lemma ban_events_run:
  "ban_inv (tr, e) \<Longrightarrow> list_all (in_range (at_ban_duration tr)) xs \<Longrightarrow>
   \<exists>tr' e'. ban_events N E DV DB xs (tr, e) = Some (tr', e') \<and> ban_inv (tr', e') \<and> settings tr' = settings tr
     \<and> (\<forall>ip. subseq (stamps DV tr' ip) (stamps DV tr ip @ times_of ip xs))"
proof (induction xs arbitrary: tr e)
  case (Cons x xs)
  obtain tr1 e1 where s: "ban_event N E DV DB x (tr, e) = Some (tr1, e1)" "ban_inv (tr1, e1)"
      "settings tr1 = settings tr" "\<forall>ip. subseq (stamps DV tr1 ip) (stamps DV tr ip @ times_of ip [x])"
    using ban_event_step [OF Cons.prems(1), of x] Cons.prems(2) by auto
  obtain tr' e' where r: "ban_events N E DV DB xs (tr1, e1) = Some (tr', e')" "ban_inv (tr', e')"
      "settings tr' = settings tr1" "\<forall>ip. subseq (stamps DV tr' ip) (stamps DV tr1 ip @ times_of ip xs)"
    using Cons.IH [OF s(2)] Cons.prems(2) s(3) by (auto simp: settings_def)
  have "subseq (stamps DV tr' ip) (stamps DV tr ip @ times_of ip (x # xs))" for ip
  proof -
    have "subseq (stamps DV tr1 ip @ times_of ip xs) ((stamps DV tr ip @ times_of ip [x]) @ times_of ip xs)"
      using s(4) by (intro list_emb_append_mono) auto
    then show ?thesis using r(4) times_of_append [of ip "[x]" xs]
      by (metis append_Cons append_Nil append_assoc subseq_order.order_trans)
  qed
  then show ?case using s(1,3) r by auto
qed simp

text \<open>No address is banned before it was reported often enough within the window.\<close>

lemma ban_needs_threshold:
  assumes "ban_inv (tr, e)" and "list_all (in_range (at_ban_duration tr)) xs"
    and "\<And>ip. stamps DV tr ip = []"
    and "ban_events N E DV DB xs (tr, e) = Some (tr', e')"
    and "record_violation N E DV DB now ip tr' e' = Some (True, r)"
  shows "unat (at_threshold tr) \<le> length (filter (\<lambda>t. cutoff now (at_window tr) \<le> t) (times_of ip xs)) + 1"
proof -
  let ?P = "\<lambda>t. cutoff now (at_window tr) \<le> t"
  have run: "settings tr' = settings tr" "subseq (stamps DV tr' ip) (times_of ip xs)"
    using ban_events_run [OF assms(1,2)] assms(3,4) by auto
  have "\<not> Suc (length (filter ?P (stamps DV tr' ip))) < unat (at_threshold tr)"
    using record_violation_below [of now tr' ip e'] assms(5) run(1) by (auto simp: settings_def)
  moreover have "length (filter ?P (stamps DV tr' ip)) \<le> length (filter ?P (times_of ip xs))"
    by (rule list_emb_length [OF subseq_filter [OF run(2)]])
  ultimately show ?thesis by linarith
qed

text \<open>An address reported as often as the threshold says within one window is banned by the last
  of these reports and by none before it.\<close>

lemma reports_ban:
  "einv e \<Longrightarrow> nows \<noteq> [] \<Longrightarrow> unat (at_threshold tr) = length (stamps DV tr ip) + length nows \<Longrightarrow>
   \<forall>u\<in>set nows. u + int (at_ban_duration tr) < instant_bound
      \<and> (\<forall>t\<in>set (stamps DV tr ip @ nows). cutoff u (at_window tr) \<le> t) \<Longrightarrow>
   \<exists>tr' e'. reports N E DV DB ip nows tr e = Some (replicate (length nows - 1) False @ [True], tr', e')
     \<and> einv e' \<and> answer e' ip \<noteq> None
     \<and> dm_get DB (at_banned tr') ip = Some (last nows + int (at_ban_duration tr))"
proof (induction nows arbitrary: tr)
  case (Cons now nows)
  let ?ts = "stamps DV tr ip"
  have recent: "filter (\<lambda>t. cutoff now (at_window tr) \<le> t) ?ts = ?ts"
    using Cons.prems(4) by (simp add: filter_id_conv)
  show ?case
  proof (cases "nows = []")
    case True
    have "now + int (at_ban_duration tr) < instant_bound" using Cons.prems(4) by simp
    moreover have "\<not> Suc (length (filter (\<lambda>t. cutoff now (at_window tr) \<le> t) ?ts)) < unat (at_threshold tr)"
      using Cons.prems(3) True by (simp add: recent)
    ultimately obtain e' n where r: "record_violation N E DV DB now ip tr e = Some (True,
         tr\<lparr>at_violations := dm_insert DV ip [] (at_violations tr),
           at_banned := dm_insert DB ip (now + int (at_ban_duration tr)) (at_banned tr)\<rparr>, e')"
      "host_prefix N ip = Some n" "einv e'" "eabs e' = (eabs e)(host_key ip \<mapsto> (n, ban_metadata))"
      using record_violation_bans [OF Cons.prems(1)] by blast
    have "answer e' ip \<noteq> None"
      by (rule host_route_answers [OF r(3) _ r(2)]) (simp add: r(4))
    then show ?thesis using True r(1,3) by simp
  next
    case False
    have below: "Suc (length (filter (\<lambda>t. cutoff now (at_window tr) \<le> t) ?ts)) < unat (at_threshold tr)"
      using Cons.prems(3) False by (cases nows) (simp_all add: recent)
    let ?tr = "tr\<lparr>at_violations := dm_insert DV ip (?ts @ [now]) (at_violations tr)\<rparr>"
    have step: "record_violation N E DV DB now ip tr e = Some (False, ?tr, e)"
      using record_violation_below [OF below] by (simp add: recent)
    have st: "stamps DV ?tr ip = ?ts @ [now]" by (simp add: stamps_def)
    have "unat (at_threshold ?tr) = length (stamps DV ?tr ip) + length nows" using Cons.prems(3) st by simp
    moreover have "\<forall>u\<in>set nows. u + int (at_ban_duration ?tr) < instant_bound
        \<and> (\<forall>t\<in>set (stamps DV ?tr ip @ nows). cutoff u (at_window ?tr) \<le> t)"
      using Cons.prems(4) unfolding st by simp
    ultimately obtain tr' e' where IH:
      "reports N E DV DB ip nows ?tr e = Some (replicate (length nows - 1) False @ [True], tr', e')"
      "einv e'" "answer e' ip \<noteq> None" "dm_get DB (at_banned tr') ip = Some (last nows + int (at_ban_duration ?tr))"
      using Cons.IH [OF Cons.prems(1) False, of ?tr] by blast
    moreover have "False # replicate (length nows - 1) False = replicate (length nows) False"
      using False by (cases nows) simp_all
    ultimately show ?thesis using step False by (intro exI [of _ tr'] exI [of _ e']) simp
  qed
qed simp

end

section \<open>The sweeper beside other threads\<close>

text \<open>Where the sweeper is: asleep, with a list of expired addresses, or taking their routes out
  of the engine one by one. Other threads report violations between its steps.\<close>

datatype SweepPc = Asleep | Collected "IpAddr list" | Unbanning "IpAddr list"

inductive sweeper_step ::
  "'n ipnet_ops \<Rightarrow> ('e, 'n) RadixEngine \<Rightarrow> ('v, IpAddr, Instant list) dash_ops \<Rightarrow> ('b, IpAddr, Instant) dash_ops
     \<Rightarrow> ('v, 'b) AutoBanTracker \<times> 'e \<times> SweepPc \<Rightarrow> ('v, 'b) AutoBanTracker \<times> 'e \<times> SweepPc \<Rightarrow> bool"
  for N E DV DB where
  collect: "sweeper_step N E DV DB (tr, e, Asleep) (tr, e, Collected (expired_bans DB now (at_banned tr)))"
| table: "sweeper_step N E DV DB (tr, e, Collected ips)
    (tr\<lparr>at_banned := unban_table DB ips (at_banned tr)\<rparr>, e, Unbanning ips)"
| route: "host_prefix N ip = Some n \<Longrightarrow> re_remove E n e = Some (x, e') \<Longrightarrow>
    sweeper_step N E DV DB (tr, e, Unbanning (ip # ips)) (tr, e', Unbanning ips)"
| sleep: "sweeper_step N E DV DB (tr, e, Unbanning []) (tr, e, Asleep)"
| report: "record_violation N E DV DB now ip tr e = Some (r, tr', e') \<Longrightarrow>
    sweeper_step N E DV DB (tr, e, pc) (tr', e', pc)"

context auto_ban
begin

text \<open>Without interference a pass of the sweeper is \<open>sweep\<close>.\<close>

lemma sweeper_routes:
  "unban_engine N E ips e = Some e' \<Longrightarrow>
     (sweeper_step N E DV DB)\<^sup>*\<^sup>* (tr, e, Unbanning ips) (tr, e', Asleep)"
proof (induction ips arbitrary: e)
  case Nil
  then show ?case by (auto intro: sweeper_step.sleep)
next
  case (Cons ip ips)
  obtain n where n: "host_prefix N ip = Some n" using net.host_prefix_total [of ip] by blast
  with Cons.prems obtain x u where u: "re_remove E n e = Some (x, u)" "unban_engine N E ips u = Some e'"
    by (auto split: option.splits)
  from Cons.IH [OF u(2)] show ?case
    by (rule converse_rtranclp_into_rtranclp [of _ "(tr, e, Unbanning (ip # ips))", rotated])
       (rule sweeper_step.route [OF n u(1)])
qed

lemma sweeper_pass:
  assumes "sweep N E DB now (at_banned tr) e = Some (b', e')"
  shows "(sweeper_step N E DV DB)\<^sup>*\<^sup>* (tr, e, Asleep) (tr\<lparr>at_banned := b'\<rparr>, e', Asleep)"
proof -
  let ?x = "expired_bans DB now (at_banned tr)"
  have b': "b' = unban_table DB ?x (at_banned tr)" "unban_engine N E ?x e = Some e'"
    using assms by (auto simp: sweep_def Let_def)
  have "(sweeper_step N E DV DB)\<^sup>*\<^sup>* (tr, e, Asleep) (tr\<lparr>at_banned := b'\<rparr>, e, Unbanning ?x)"
    unfolding b'(1) using sweeper_step.collect [of N E DV DB tr e now] sweeper_step.table [of N E DV DB tr e ?x]
    by (meson rtranclp.rtrancl_into_rtrancl rtranclp.rtrancl_refl)
  with sweeper_routes [OF b'(2)] show ?thesis by (rule rtranclp_trans [rotated])
qed

text \<open>A report that bans an address again, between the sweeper's update of the table and its
  update of the engine, leaves a running ban without its route.\<close>

lemma sweep_race:
  assumes "einv e" and "dm_get DB (at_banned tr) = [ip \<mapsto> x]" and "x \<le> now"
    and "unat (at_threshold tr) \<le> 1" and "later + int (at_ban_duration tr) < instant_bound"
  shows "\<exists>tr' e'. (sweeper_step N E DV DB)\<^sup>*\<^sup>* (tr, e, Asleep) (tr', e', Asleep)
    \<and> dm_get DB (at_banned tr') ip = Some (later + int (at_ban_duration tr))
    \<and> einv e' \<and> eabs e' = (eabs e)(host_key ip := None)"
proof -
  let ?tr1 = "tr\<lparr>at_banned := unban_table DB [ip] (at_banned tr)\<rparr>"
  have "set (dm_iter DB (at_banned tr)) = {(ip, x)}"
    using ban.dm_iter_iff [of _ _ "at_banned tr"] assms(2) by (auto split: if_splits)
  moreover have "distinct (dm_iter DB (at_banned tr))"
    using ban.dm_iter_distinct [of "at_banned tr"] by (simp add: distinct_map)
  ultimately have "dm_iter DB (at_banned tr) = [(ip, x)]"
    by (cases "dm_iter DB (at_banned tr)"; cases "tl (dm_iter DB (at_banned tr))") auto
  then have exp: "expired_bans DB now (at_banned tr) = [ip]" using assms(3) by (simp add: expired_bans_def)
  obtain e1 n where r: "record_violation N E DV DB later ip ?tr1 e = Some (True,
      ?tr1\<lparr>at_violations := dm_insert DV ip [] (at_violations ?tr1),
        at_banned := dm_insert DB ip (later + int (at_ban_duration ?tr1)) (at_banned ?tr1)\<rparr>, e1)"
      "host_prefix N ip = Some n" "einv e1" "eabs e1 = (eabs e)(host_key ip \<mapsto> (n, ban_metadata))"
    using record_violation_bans [OF assms(1), of later ?tr1 ip] assms(4,5) by auto
  let ?tr2 = "?tr1\<lparr>at_violations := dm_insert DV ip [] (at_violations ?tr1),
        at_banned := dm_insert DB ip (later + int (at_ban_duration ?tr1)) (at_banned ?tr1)\<rparr>"
  obtain x e2 where rm: "re_remove E n e1 = Some (x, e2)" and e2: "einv e2" "eabs e2 = (eabs e)(host_key ip := None)"
    using eng.engine_remove [OF r(3), of n] r(2,4) by (auto simp: host_key_def)
  have "sweeper_step N E DV DB (tr, e, Asleep) (tr, e, Collected [ip])"
    using sweeper_step.collect [of N E DV DB tr e now] exp by simp
  moreover have "sweeper_step N E DV DB (tr, e, Collected [ip]) (?tr1, e, Unbanning [ip])"
    by (rule sweeper_step.table)
  moreover have "sweeper_step N E DV DB (?tr1, e, Unbanning [ip]) (?tr2, e1, Unbanning [ip])"
    by (rule sweeper_step.report [OF r(1)])
  moreover have "sweeper_step N E DV DB (?tr2, e1, Unbanning [ip]) (?tr2, e2, Unbanning [])"
    by (rule sweeper_step.route [OF r(2) rm])
  moreover have "sweeper_step N E DV DB (?tr2, e2, Unbanning []) (?tr2, e2, Asleep)"
    by (rule sweeper_step.sleep)
  ultimately have "(sweeper_step N E DV DB)\<^sup>*\<^sup>* (tr, e, Asleep) (?tr2, e2, Asleep)"
    by (meson rtranclp.rtrancl_into_rtrancl rtranclp.rtrancl_refl)
  then show ?thesis using e2 by (intro exI [of _ ?tr2] exI [of _ e2]) simp
qed

end

section \<open>Every ban ends\<close>

text \<open>The routes of the engine are the bans of the table, and a ban of the table was reported
  \<open>at_ban_duration\<close> before its expiry.\<close>

context auto_ban
begin

definition only_bans :: "('v, 'b) AutoBanTracker \<times> 'e \<Rightarrow> bool" where
  "only_bans s \<longleftrightarrow> einv (snd s) \<and> (\<forall>k n m. eabs (snd s) k = Some (n, m) \<longrightarrow>
     (\<exists>a x. host_prefix N a = Some n \<and> k = host_key a \<and> dm_get DB (at_banned (fst s)) a = Some x))"

lemma only_bans_unbanned:
  assumes "only_bans (tr, e)" and "dm_get DB (at_banned tr) ip = None"
  shows "answer e ip = None"
proof -
  have e: "einv e" using assms(1) by (simp add: only_bans_def)
  have "\<not> network_contains_ip N n ip" if "eabs e k = Some (n, m)" for k n m
  proof
    assume c: "network_contains_ip N n ip"
    obtain a x where a: "host_prefix N a = Some n" "dm_get DB (at_banned tr) a = Some x"
      using assms(1) \<open>eabs e k = Some (n, m)\<close> unfolding only_bans_def fst_conv snd_conv by blast
    have "a = ip"
      using c net.host_prefix_contains(1) [OF a(1), of ip] net.network_contains_ip_iff [of n ip]
        net.net_contains_prefix [of n ip] by blast
    then show False using a(2) assms(2) by simp
  qed
  then show ?thesis using eng.answer_None_iff [OF e] by blast
qed

lemma only_bans_step:
  assumes "only_bans (tr, e)" and "in_range (at_ban_duration tr) x"
  shows "\<exists>tr' e'. ban_event N E DV DB x (tr, e) = Some (tr', e') \<and> only_bans (tr', e') \<and> settings tr' = settings tr
    \<and> (\<forall>ip y. dm_get DB (at_banned tr') ip = Some y \<longrightarrow>
         (dm_get DB (at_banned tr) ip = Some y \<and> (\<forall>now. x = Sweep now \<longrightarrow> now < y))
         \<or> (\<exists>t\<in>set (times_of ip [x]). y = t + int (at_ban_duration tr)))"
proof (cases x)
  case (Violation now a)
  let ?recent = "filter (\<lambda>t. cutoff now (at_window tr) \<le> t) (stamps DV tr a)"
  have e: "einv e" using assms(1) by (simp add: only_bans_def)
  show ?thesis
  proof (cases "Suc (length ?recent) < unat (at_threshold tr)")
    case True
    then show ?thesis using record_violation_below [OF True] Violation assms(1)
      by (auto simp: only_bans_def settings_def)
  next
    case False
    have "now + int (at_ban_duration tr) < instant_bound" using assms(2) Violation by simp
    from record_violation_bans [OF e this False] obtain e' n where r:
      "record_violation N E DV DB now a tr e = Some (True,
         tr\<lparr>at_violations := dm_insert DV a [] (at_violations tr),
           at_banned := dm_insert DB a (now + int (at_ban_duration tr)) (at_banned tr)\<rparr>, e')"
      "host_prefix N a = Some n" "einv e'" "eabs e' = (eabs e)(host_key a \<mapsto> (n, ban_metadata))" by blast
    let ?tr = "tr\<lparr>at_violations := dm_insert DV a [] (at_violations tr),
        at_banned := dm_insert DB a (now + int (at_ban_duration tr)) (at_banned tr)\<rparr>"
    have "only_bans (?tr, e')" using assms(1) r(2-4) unfolding only_bans_def by (fastforce split: if_splits)
    then show ?thesis using r(1) Violation
      by (intro exI [of _ ?tr] exI [of _ e']) (auto simp: settings_def split: if_splits)
  qed
next
  case (Sweep now)
  have e: "einv e" using assms(1) by (simp add: only_bans_def)
  obtain b' e' where r: "sweep N E DB now (at_banned tr) e = Some (b', e')" "einv e'"
      "dm_get DB b' = (\<lambda>a. case dm_get DB (at_banned tr) a of Some x \<Rightarrow> if x \<le> now then None else Some x | None \<Rightarrow> None)"
      "\<forall>a. eabs e' (host_key a) = (if a \<in> set (expired_bans DB now (at_banned tr)) then None else eabs e (host_key a))"
      "\<forall>k. k \<notin> range host_key \<longrightarrow> eabs e' k = eabs e k"
    using sweep_law [OF e, of now "at_banned tr"] by blast
  have "only_bans (tr\<lparr>at_banned := b'\<rparr>, e')"
    unfolding only_bans_def fst_conv snd_conv
  proof (intro conjI allI impI)
    fix k n m assume k: "eabs e' k = Some (n, m)"
    have "eabs e k = Some (n, m)"
    proof (cases "k \<in> range host_key")
      case True
      then obtain a where a: "k = host_key a" by blast
      have "a \<notin> set (expired_bans DB now (at_banned tr))" using k r(4) unfolding a by auto
      then show ?thesis using k r(4) unfolding a by simp
    next
      case False
      then show ?thesis using k r(5) by simp
    qed
    then obtain a x where a: "host_prefix N a = Some n" "k = host_key a" "dm_get DB (at_banned tr) a = Some x"
      using assms(1) unfolding only_bans_def fst_conv snd_conv by blast
    then have "\<not> x \<le> now" using k r(4) by (auto simp: expired_iff split: if_splits)
    then show "\<exists>a x. host_prefix N a = Some n \<and> k = host_key a \<and> dm_get DB (at_banned (tr\<lparr>at_banned := b'\<rparr>)) a = Some x"
      using a r(3) by (intro exI [of _ a] exI [of _ x]) simp
  qed (rule r(2))
  then show ?thesis using r(1,3) Sweep
    by (intro exI [of _ "tr\<lparr>at_banned := b'\<rparr>"] exI [of _ e']) (auto simp: settings_def split: option.splits if_splits)
qed

lemma only_bans_run:
  "only_bans (tr, e) \<Longrightarrow> list_all (in_range (at_ban_duration tr)) xs \<Longrightarrow>
   \<exists>tr' e'. ban_events N E DV DB xs (tr, e) = Some (tr', e') \<and> only_bans (tr', e') \<and> settings tr' = settings tr
    \<and> (\<forall>ip y. dm_get DB (at_banned tr') ip = Some y \<longrightarrow>
         dm_get DB (at_banned tr) ip = Some y \<or> (\<exists>t\<in>set (times_of ip xs). y = t + int (at_ban_duration tr)))"
proof (induction xs arbitrary: tr e)
  case (Cons x xs)
  obtain tr1 e1 where s: "ban_event N E DV DB x (tr, e) = Some (tr1, e1)" "only_bans (tr1, e1)" "settings tr1 = settings tr"
      "\<forall>ip y. dm_get DB (at_banned tr1) ip = Some y \<longrightarrow>
         (dm_get DB (at_banned tr) ip = Some y \<and> (\<forall>now. x = Sweep now \<longrightarrow> now < y))
         \<or> (\<exists>t\<in>set (times_of ip [x]). y = t + int (at_ban_duration tr))"
    using only_bans_step [OF Cons.prems(1), of x] Cons.prems(2) by auto
  have dur: "at_ban_duration tr1 = at_ban_duration tr" using s(3) by (simp add: settings_def)
  obtain tr' e' where r: "ban_events N E DV DB xs (tr1, e1) = Some (tr', e')" "only_bans (tr', e')" "settings tr' = settings tr1"
      "\<forall>ip y. dm_get DB (at_banned tr') ip = Some y \<longrightarrow>
         dm_get DB (at_banned tr1) ip = Some y \<or> (\<exists>t\<in>set (times_of ip xs). y = t + int (at_ban_duration tr1))"
    using Cons.IH [OF s(2)] Cons.prems(2) dur by auto
  have "dm_get DB (at_banned tr) ip = Some y \<or> (\<exists>t\<in>set (times_of ip (x # xs)). y = t + int (at_ban_duration tr))"
    if "dm_get DB (at_banned tr') ip = Some y" for ip y
    using r(4) s(4) that times_of_append [of ip "[x]" xs] dur by fastforce
  then show ?case using s(1,3) r(1-3) by auto
qed simp

lemma ban_ends:
  assumes "only_bans (tr, e)" and "\<And>a. dm_get DB (at_banned tr) a = None"
    and "list_all (in_range (at_ban_duration tr)) (xs @ Sweep now # ys)"
    and "\<forall>t\<in>set (times_of ip xs). t + int (at_ban_duration tr) \<le> now" and "times_of ip ys = []"
  shows "\<exists>tr' e'. ban_events N E DV DB (xs @ Sweep now # ys) (tr, e) = Some (tr', e')
    \<and> dm_get DB (at_banned tr') ip = None \<and> answer e' ip = None"
proof -
  obtain tr1 e1 where 1: "ban_events N E DV DB xs (tr, e) = Some (tr1, e1)" "only_bans (tr1, e1)" "settings tr1 = settings tr"
      "\<forall>ip y. dm_get DB (at_banned tr1) ip = Some y \<longrightarrow>
         dm_get DB (at_banned tr) ip = Some y \<or> (\<exists>t\<in>set (times_of ip xs). y = t + int (at_ban_duration tr))"
    using only_bans_run [OF assms(1), of xs] assms(3) by auto
  have d1: "at_ban_duration tr1 = at_ban_duration tr" using 1(3) by (simp add: settings_def)
  obtain tr2 e2 where 2: "ban_event N E DV DB (Sweep now) (tr1, e1) = Some (tr2, e2)" "only_bans (tr2, e2)" "settings tr2 = settings tr1"
      "\<forall>ip y. dm_get DB (at_banned tr2) ip = Some y \<longrightarrow> dm_get DB (at_banned tr1) ip = Some y \<and> now < y"
    using only_bans_step [OF 1(2), of "Sweep now"] by auto
  have none: "dm_get DB (at_banned tr2) ip = None"
    using 2(4) 1(4) assms(2,4) by (cases "dm_get DB (at_banned tr2) ip") force+
  have d2: "at_ban_duration tr2 = at_ban_duration tr" using 2(3) d1 by (simp add: settings_def)
  obtain tr3 e3 where 3: "ban_events N E DV DB ys (tr2, e2) = Some (tr3, e3)" "only_bans (tr3, e3)"
      "\<forall>ip y. dm_get DB (at_banned tr3) ip = Some y \<longrightarrow>
         dm_get DB (at_banned tr2) ip = Some y \<or> (\<exists>t\<in>set (times_of ip ys). y = t + int (at_ban_duration tr2))"
    using only_bans_run [OF 2(2), of ys] assms(3) d2 by auto
  then have "dm_get DB (at_banned tr3) ip = None"
    using none assms(5) by (cases "dm_get DB (at_banned tr3) ip") force+
  moreover have "ban_events N E DV DB (xs @ Sweep now # ys) (tr, e) = Some (tr3, e3)"
    using 1(1) 2(1) 3(1) by (auto simp: ban_events_append)
  ultimately show ?thesis using only_bans_unbanned [OF 3(2)] by blast
qed

end

section \<open>The tracker over a standard engine\<close>

lemma auto_ban_standard:
  assumes "ipnetwork N" and "dashmap DV" and "dashmap DB"
  shows "auto_ban N (StandardEngine_RadixEngine (UncompressedTree_RouteTree N)) (se_inv (ut_inv N) ut_abs)
    (\<lambda>e. ut_abs (se_tree e)) (net_bits N) (\<lambda>e ip. rt_lookup (UncompressedTree_RouteTree N) ip (se_tree e)) DV DB"
proof (intro auto_ban.intro assms auto_ban_axioms.intro)
  show "lpm_engine (StandardEngine_RadixEngine (UncompressedTree_RouteTree N)) (se_inv (ut_inv N) ut_abs)
    (\<lambda>e. ut_abs (se_tree e)) (net_bits N) (\<lambda>e ip. rt_lookup (UncompressedTree_RouteTree N) ip (se_tree e)) N"
    by (rule lpm_tree.standard_lpm_engine [OF UncompressedTree_lpm_tree [OF assms(1)]])
next
  fix a n b m
  assume "host_prefix N a = Some n" "host_prefix N b = Some m" "net_bits N n = net_bits N m"
  then have "ip_bits a = ip_bits b"
    using ipnetwork.host_prefix_contains(2) [OF assms(1)] by metis
  moreover from this have "ip_width a = ip_width b" by (metis length_ip_bits)
  then have "is_ipv4 a = is_ipv4 b" by (cases a; cases b) simp_all
  ultimately show "a = b" by (intro ip_bits_inj)
qed

interpretation ab: auto_ban cidr_ops "StandardEngine_RadixEngine (UncompressedTree_RouteTree cidr_ops)"
  "se_inv (ut_inv cidr_ops) ut_abs" "\<lambda>e. ut_abs (se_tree e)" "net_bits cidr_ops"
  "\<lambda>e ip. rt_lookup (UncompressedTree_RouteTree cidr_ops) ip (se_tree e)" alist_dash alist_dash
  by (intro auto_ban_standard cidr.ipnetwork_axioms alist_dash.dashmap_axioms)

end
