(* ===== verification/IpText.thy ===== *)
theory IpText
  imports IpNet
begin

text \<open>
  Text of the Rust standard library the policy layer uses: \<open>str::split\<close>, \<open>str::trim\<close>,
  \<open>to_uppercase\<close> and \<open>IpAddr::from_str\<close>, on strings of one-byte characters (header
  values, methods and paths reach the policy as ASCII). A parser step takes the remaining
  characters and returns a value with what is left, or \<open>None\<close> without consuming anything.
\<close>

section \<open>Splitting, trimming, upper case\<close>

text \<open>\<open>split(sep)\<close>: always at least one piece.\<close>

fun split_on :: "char \<Rightarrow> string \<Rightarrow> string list" where
  "split_on sep [] = [[]]"
| "split_on sep (c # cs) =
     (if c = sep then [] # split_on sep cs
      else (case split_on sep cs of [] \<Rightarrow> [[c]] | p # ps \<Rightarrow> (c # p) # ps))"

definition is_whitespace :: "char \<Rightarrow> bool" where
  "is_whitespace c \<longleftrightarrow> of_char c \<in> {9 :: nat, 10, 11, 12, 13, 32}"

definition trim :: "string \<Rightarrow> string" where
  "trim s = rev (dropWhile is_whitespace (rev (dropWhile is_whitespace s)))"

definition char_to_uppercase :: "char \<Rightarrow> char" where
  "char_to_uppercase c = (if 97 \<le> (of_char c :: nat) \<and> (of_char c :: nat) \<le> 122 then char_of (of_char c - 32 :: nat) else c)"

definition to_uppercase :: "string \<Rightarrow> string" where
  "to_uppercase = map char_to_uppercase"

lemma split_on_nonempty [simp]: "split_on sep s \<noteq> []"
  by (induction s) (auto split: list.split)

lemma split_on_free: "sep \<notin> set s \<Longrightarrow> split_on sep s = [s]"
  by (induction s) auto

lemma split_on_append: "sep \<notin> set s \<Longrightarrow> split_on sep (s @ sep # t) = s # split_on sep t"
  by (induction s) auto

lemma split_on_pieces: "p \<in> set (split_on sep s) \<Longrightarrow> sep \<notin> set p"
  by (induction s arbitrary: p) (auto split: if_splits list.splits)

lemma split_on_inverse: "concat (map (\<lambda>p. sep # p) (split_on sep s)) = sep # s"
  by (induction s) (auto split: list.split)

lemma trim_id: "s = [] \<or> \<not> is_whitespace (hd s) \<and> \<not> is_whitespace (last s) \<Longrightarrow> trim s = s"
proof -
  assume s: "s = [] \<or> \<not> is_whitespace (hd s) \<and> \<not> is_whitespace (last s)"
  then have "dropWhile is_whitespace s = s" "dropWhile is_whitespace (rev s) = rev s"
    by (auto simp: dropWhile_eq_self_iff hd_rev)
  then show ?thesis by (simp add: trim_def)
qed

lemma to_uppercase_idem [simp]: "to_uppercase (to_uppercase s) = to_uppercase s"
proof -
  have "char_to_uppercase (char_to_uppercase c) = char_to_uppercase c" for c
  proof (cases "97 \<le> (of_char c :: nat) \<and> (of_char c :: nat) \<le> 122")
    case True
    then have "(of_char c - 32) mod 256 = (of_char c - 32 :: nat)" by (intro mod_less) linarith
    then have "of_char (char_to_uppercase c) = (of_char c - 32 :: nat)"
      using True by (simp add: char_to_uppercase_def of_char_of)
    moreover have "of_char c - 32 < (97 :: nat)" using True by linarith
    ultimately show ?thesis by (simp add: char_to_uppercase_def [of "char_to_uppercase c"])
  next
    case False
    then have "char_to_uppercase c = c" unfolding char_to_uppercase_def by (rule if_not_P)
    then show ?thesis by simp
  qed
  then show ?thesis by (simp add: to_uppercase_def)
qed

section \<open>Numbers\<close>

text \<open>\<open>char::to_digit\<close> for the radices 10 and 16.\<close>

definition to_digit :: "nat \<Rightarrow> char \<Rightarrow> nat option" where
  "to_digit radix c =
     (let n = of_char c :: nat;
          d = (if 48 \<le> n \<and> n \<le> 57 then Some (n - 48)
               else if 97 \<le> n \<and> n \<le> 122 then Some (n - 87)
               else if 65 \<le> n \<and> n \<le> 90 then Some (n - 55) else None)
      in case d of Some v \<Rightarrow> if v < radix then Some v else None | None \<Rightarrow> None)"

text \<open>The digit loop of \<open>read_number\<close>: the value and number of the digits read, \<open>None\<close> when
  they are more than allowed.\<close>

fun read_digits :: "nat \<Rightarrow> nat \<Rightarrow> nat \<Rightarrow> nat \<Rightarrow> string \<Rightarrow> (nat \<times> nat \<times> string) option" where
  "read_digits radix mx acc count [] = Some (acc, count, [])"
| "read_digits radix mx acc count (c # cs) =
     (case to_digit radix c of
        None \<Rightarrow> Some (acc, count, c # cs)
      | Some d \<Rightarrow> if mx < Suc count then None
                  else read_digits radix mx (acc * radix + d) (Suc count) cs)"

definition read_number :: "nat \<Rightarrow> nat \<Rightarrow> bool \<Rightarrow> nat \<Rightarrow> string \<Rightarrow> (nat \<times> string) option" where
  "read_number radix max_digits allow_zero_prefix bound s =
     (case read_digits radix max_digits 0 0 s of
        None \<Rightarrow> None
      | Some (v, count, rest) \<Rightarrow>
          if count = 0 then None
          else if \<not> allow_zero_prefix \<and> s \<noteq> [] \<and> hd s = CHR ''0'' \<and> 1 < count then None
          else if bound \<le> v then None
          else Some (v, rest))"

definition read_given_char :: "char \<Rightarrow> string \<Rightarrow> string option" where
  "read_given_char c s = (case s of x # xs \<Rightarrow> if x = c then Some xs else None | [] \<Rightarrow> None)"

definition read_separator :: "char \<Rightarrow> nat \<Rightarrow> (string \<Rightarrow> ('a \<times> string) option) \<Rightarrow> string \<Rightarrow> ('a \<times> string) option" where
  "read_separator sep index inner s =
     (if index > 0 then (case read_given_char sep s of None \<Rightarrow> None | Some s' \<Rightarrow> inner s') else inner s)"

section \<open>Addresses\<close>

fun read_v4_groups :: "nat \<Rightarrow> nat \<Rightarrow> string \<Rightarrow> (u8 list \<times> string) option" where
  "read_v4_groups i 0 s = Some ([], s)"
| "read_v4_groups i (Suc n) s =
     (case read_separator (CHR ''.'') i (read_number 10 3 False 256) s of
        None \<Rightarrow> None
      | Some (v, s') \<Rightarrow> map_option (\<lambda>(vs, r). (of_nat v # vs, r)) (read_v4_groups (Suc i) n s'))"

definition read_ipv4_addr :: "string \<Rightarrow> (u8 list \<times> string) option" where
  "read_ipv4_addr s = read_v4_groups 0 4 s"

text \<open>\<open>read_groups\<close>: the groups read, whether the last two came from an embedded IPv4
  address, and what is left.\<close>

fun read_groups :: "nat \<Rightarrow> nat \<Rightarrow> string \<Rightarrow> u16 list \<times> bool \<times> string" where
  "read_groups i 0 s = ([], False, s)"
| "read_groups i (Suc n) s =
     (case (if 0 < n then read_separator (CHR '':'') i read_ipv4_addr s else None) of
        Some (os, s') \<Rightarrow> ([of_be_bytes (take 2 os), of_be_bytes (drop 2 os)], True, s')
      | None \<Rightarrow>
          (case read_separator (CHR '':'') i (read_number 16 4 True 65536) s of
             None \<Rightarrow> ([], False, s)
           | Some (v, s') \<Rightarrow> (case read_groups (Suc i) n s' of (gs, b, r) \<Rightarrow> (of_nat v # gs, b, r))))"

definition v6_of_groups :: "u16 list \<Rightarrow> u128" where
  "v6_of_groups gs = of_be_bytes (concat (map (be_bytes 2) gs))"

definition read_ipv6_addr :: "string \<Rightarrow> (u128 \<times> string) option" where
  "read_ipv6_addr s =
     (case read_groups 0 8 s of
        (head, head_ipv4, s1) \<Rightarrow>
          if length head = 8 then Some (v6_of_groups head, s1)
          else if head_ipv4 then None
          else (case Option.bind (read_given_char (CHR '':'') s1) (read_given_char (CHR '':'')) of
                  None \<Rightarrow> None
                | Some s2 \<Rightarrow>
                    (case read_groups 0 (8 - (length head + 1)) s2 of
                       (tail, _, s3) \<Rightarrow>
                         Some (v6_of_groups (head @ replicate (8 - length head - length tail) 0 @ tail), s3))))"

definition read_ip_addr :: "string \<Rightarrow> (IpAddr \<times> string) option" where
  "read_ip_addr s =
     (case read_ipv4_addr s of
        Some (os, r) \<Rightarrow> Some (V4 (of_be_bytes os), r)
      | None \<Rightarrow> map_option (\<lambda>(a, r). (V6 a, r)) (read_ipv6_addr s))"

definition parse_ip :: "string \<Rightarrow> IpAddr option" where
  "parse_ip s = (case read_ip_addr s of Some (ip, []) \<Rightarrow> Some ip | _ \<Rightarrow> None)"

section \<open>Printing and reading back IPv4 addresses\<close>

text \<open>\<open>Display\<close> of \<open>u8\<close> and of \<open>Ipv4Addr\<close>.\<close>

definition digit_char :: "nat \<Rightarrow> char" where
  "digit_char d = char_of (48 + d)"

definition fmt_u8 :: "u8 \<Rightarrow> string" where
  "fmt_u8 b = (let n = unat b in
     if n < 10 then [digit_char n]
     else if n < 100 then [digit_char (n div 10), digit_char (n mod 10)]
     else [digit_char (n div 100), digit_char (n div 10 mod 10), digit_char (n mod 10)])"

fun fmt_octets :: "u8 list \<Rightarrow> string" where
  "fmt_octets [] = []"
| "fmt_octets [b] = fmt_u8 b"
| "fmt_octets (b # bs) = fmt_u8 b @ CHR ''.'' # fmt_octets bs"

definition fmt_ipv4 :: "u32 \<Rightarrow> string" where
  "fmt_ipv4 a = fmt_octets (octets (V4 a))"

definition no_digit :: "string \<Rightarrow> bool" where
  "no_digit s \<longleftrightarrow> (case s of [] \<Rightarrow> True | c # _ \<Rightarrow> to_digit 10 c = None)"

lemma of_digit_char: "d < 10 \<Longrightarrow> of_char (digit_char d) = 48 + d"
  by (simp add: digit_char_def of_char_of)

lemma to_digit_char [simp]: "d < 10 \<Longrightarrow> to_digit 10 (digit_char d) = Some d"
  by (simp add: to_digit_def of_digit_char Let_def)

lemma digit_char_zero: "d < 10 \<Longrightarrow> digit_char d = CHR ''0'' \<longleftrightarrow> d = 0"
proof
  assume "d < 10" and "digit_char d = CHR ''0''"
  then have "48 + d = of_char (CHR ''0'')" by (metis of_digit_char)
  then show "d = 0" by simp
qed (simp add: digit_char_def char_of_def bit_0)

lemma read_digits_stop: "no_digit s \<Longrightarrow> read_digits 10 mx acc count s = Some (acc, count, s)"
  by (cases s) (auto simp: no_digit_def)

lemma read_number_fmt_u8:
  assumes "no_digit rest"
  shows "read_number 10 3 False 256 (fmt_u8 b @ rest) = Some (unat b, rest)"
proof -
  have b: "unat b < 256" using unsigned_less [of b, where 'a = nat] by simp
  define n where "n = unat b"
  consider "n < 10" | "10 \<le> n" "n < 100" | "100 \<le> n" by linarith
  then have "read_number 10 3 False 256 (fmt_u8 b @ rest) = Some (n, rest)"
  proof cases
    case 1
    then show ?thesis using b assms by (simp add: fmt_u8_def read_number_def read_digits_stop flip: n_def)
  next
    case 2
    then have "n div 10 < 10" "n div 10 \<noteq> 0" by auto
    with 2 show ?thesis using assms
      by (simp add: fmt_u8_def read_number_def read_digits_stop digit_char_zero flip: n_def)
  next
    case 3
    then have "n div 100 < 10" "n div 100 \<noteq> 0" using b by (auto simp: n_def [symmetric])
    moreover have "(n div 100 * 10 + n div 10 mod 10) * 10 + n mod 10 = n"
      using div_mult_mod_eq [of n 10] div_mult_mod_eq [of "n div 10" 10] by (simp add: div_mult2_eq [symmetric])
    ultimately show ?thesis using 3 b assms
      by (simp add: fmt_u8_def read_number_def read_digits_stop digit_char_zero flip: n_def)
  qed
  then show ?thesis by (simp add: n_def)
qed

lemma read_v4_groups_fmt:
  assumes "length bs = n" and "no_digit rest"
  shows "read_v4_groups (Suc i) n (concat (map (\<lambda>b. CHR ''.'' # fmt_u8 b) bs) @ rest) = Some (bs, rest)"
  using assms
proof (induction bs arbitrary: i n)
  case (Cons b bs)
  have "no_digit (concat (map (\<lambda>b. CHR ''.'' # fmt_u8 b) bs) @ rest)"
    using Cons.prems(2) by (cases bs) (simp_all add: no_digit_def to_digit_def)
  from read_number_fmt_u8 [OF this, of b] Cons show ?case
    by (auto simp: read_separator_def read_given_char_def)
qed simp

lemma fmt_octets_concat: "fmt_octets (b # bs) = fmt_u8 b @ concat (map (\<lambda>b. CHR ''.'' # fmt_u8 b) bs)"
  by (induction bs arbitrary: b) auto

lemma read_ipv4_fmt:
  assumes "length os = 4" and "no_digit rest"
  shows "read_ipv4_addr (fmt_octets os @ rest) = Some (os, rest)"
proof -
  obtain b bs where os: "os = b # bs" "length bs = 3" using assms(1) by (cases os) auto
  have "no_digit (concat (map (\<lambda>b. CHR ''.'' # fmt_u8 b) bs) @ rest)"
    using os(2) by (cases bs) (simp_all add: no_digit_def to_digit_def)
  from read_number_fmt_u8 [OF this, of b] read_v4_groups_fmt [OF os(2) assms(2), of 0]
  show ?thesis unfolding read_ipv4_addr_def os(1) fmt_octets_concat
    by (simp add: read_separator_def numeral_eq_Suc)
qed

lemma of_be_bytes_snoc: "of_be_bytes (bs @ [b]) = push_bit 8 (of_be_bytes bs) OR ucast b"
  by (simp add: of_be_bytes_def)

lemma bit_of_be_bytes:
  "bit (of_be_bytes bs :: 'a::len word) n \<longleftrightarrow>
     n < LENGTH('a) \<and> n < 8 * length bs \<and> bytes_bit bs (8 * length bs - 1 - n)"
proof (induction bs arbitrary: n rule: rev_induct)
  case (snoc b bs)
  show ?case
  proof (cases "n < 8")
    case True
    then have "(7 + 8 * length bs - n) div 8 = length bs" "(7 + 8 * length bs - n) mod 8 = 7 - n"
      by (auto simp: div_nat_eqI mod_nat_eqI)
    with True show ?thesis
      by (auto simp: of_be_bytes_snoc bit_or_iff bit_push_bit_iff bit_ucast_iff bytes_bit_def nth_append)
  next
    case False
    have "\<not> bit b n" using False bit_imp_le_length [of b n] by auto
    moreover have "bytes_bit (bs @ [b]) p = bytes_bit bs p" if "p < 8 * length bs" for p
      using that by (auto simp: bytes_bit_def nth_append)
    moreover have "8 * length (bs @ [b]) - 1 - n = 8 * length bs - 1 - (n - 8)" using False by simp
    ultimately show ?thesis using False snoc.IH [of "n - 8"]
      by (auto simp: of_be_bytes_snoc bit_or_iff bit_push_bit_iff bit_ucast_iff)
  qed
qed (simp add: of_be_bytes_def)

lemma of_be_bytes_be_bytes:
  assumes "8 * k = LENGTH('a)"
  shows "of_be_bytes (be_bytes k w) = (w :: 'a::len word)"
proof (rule bit_word_eqI)
  fix n
  assume "n < LENGTH('a)"
  then show "bit (of_be_bytes (be_bytes k w) :: 'a word) n = bit w n"
    using assms by (simp add: bit_of_be_bytes bytes_bit_be_bytes)
qed

lemma parse_fmt_ipv4: "parse_ip (fmt_ipv4 a) = Some (V4 a)"
proof -
  have "read_ipv4_addr (fmt_ipv4 a) = Some (be_bytes 4 a, [])"
    using read_ipv4_fmt [of "be_bytes 4 a" "[]"] by (simp add: fmt_ipv4_def no_digit_def)
  then show ?thesis by (simp add: parse_ip_def read_ip_addr_def of_be_bytes_be_bytes)
qed

text \<open>The text of an address has neither commas nor white space.\<close>

lemma fmt_u8_chars: "c \<in> set (fmt_u8 b) \<Longrightarrow> \<exists>d<10. c = digit_char d"
proof -
  assume c: "c \<in> set (fmt_u8 b)"
  have "unat b < 256" using unsigned_less [of b, where 'a = nat] by simp
  then have "unat b div 100 < 10" "unat b < 100 \<Longrightarrow> unat b div 10 < 10" by auto
  then show ?thesis using c by (auto simp: fmt_u8_def Let_def split: if_splits intro: exI [of _ "_ mod 10"])
qed

lemma fmt_octets_chars: "c \<in> set (fmt_octets bs) \<Longrightarrow> c = CHR ''.'' \<or> (\<exists>d<10. c = digit_char d)"
  by (induction bs rule: fmt_octets.induct) (auto dest: fmt_u8_chars)

lemma fmt_ipv4_chars:
  assumes "c \<in> set (fmt_ipv4 a)"
  shows "\<not> is_whitespace c" and "c \<noteq> CHR '',''"
proof -
  consider "c = CHR ''.''" | d where "d < 10" "c = digit_char d"
    using assms fmt_octets_chars unfolding fmt_ipv4_def by blast
  then have "of_char c = (46 :: nat) \<or> 48 \<le> (of_char c :: nat)"
    by cases (simp_all add: of_digit_char)
  then show "\<not> is_whitespace c" and "c \<noteq> CHR '',''" by (auto simp: is_whitespace_def)
qed

lemma trim_fmt_ipv4 [simp]: "trim (fmt_ipv4 a) = fmt_ipv4 a"
  by (rule trim_id) (use fmt_ipv4_chars(1) [of _ a] in \<open>cases "fmt_ipv4 a = []"; simp\<close>)

end
