(* ===== verification/IpExtractor.thy ===== *)
theory IpExtractor
  imports IpText
begin

text \<open>
  Client address extraction (\<open>policy/src/ip_extractor.rs\<close>): \<open>X-Forwarded-For\<close> walked from
  the right past trusted proxies, then \<open>X-Real-IP\<close>, then the peer address.
\<close>

datatype ExtractError = NotFound | Invalid string

text \<open>The \<open>Display\<close> derived by \<open>thiserror\<close>.\<close>

fun ExtractError_to_string :: "ExtractError \<Rightarrow> string" where
  "ExtractError_to_string NotFound = ''No usable IP found in headers''"
| "ExtractError_to_string (Invalid s) = ''Invalid IP address: '' @ s"

definition is_trusted :: "'n ipnet_ops \<Rightarrow> IpAddr \<Rightarrow> 'n list \<Rightarrow> bool" where
  "is_trusted N ip trusted \<longleftrightarrow> list_ex (\<lambda>net. net_contains N net ip) trusted"

text \<open>The loop over the hops, from the right: \<open>None\<close> when all of them are trusted.\<close>

fun xff_walk :: "'n ipnet_ops \<Rightarrow> 'n list \<Rightarrow> string list \<Rightarrow> (ExtractError + IpAddr) option" where
  "xff_walk N trusted [] = None"
| "xff_walk N trusted (raw # raws) =
     (case parse_ip raw of
        None \<Rightarrow> Some (Inl (Invalid raw))
      | Some ip \<Rightarrow> if \<not> is_trusted N ip trusted then Some (Inr ip) else xff_walk N trusted raws)"

definition xff_hops :: "string \<Rightarrow> string list" where
  "xff_hops v = map trim (split_on (CHR '','') v)"

text \<open>\<open>remote_addr\<close> is the address of the socket address; its port is not read.\<close>

definition extract_ip ::
  "'n ipnet_ops \<Rightarrow> string option \<Rightarrow> string option \<Rightarrow> IpAddr option \<Rightarrow> 'n list \<Rightarrow> ExtractError + IpAddr" where
  "extract_ip N xff x_real_ip remote_addr trusted_proxies =
     (case Option.bind xff (\<lambda>v. xff_walk N trusted_proxies (rev (xff_hops v))) of
        Some result \<Rightarrow> result
      | None \<Rightarrow>
          (case x_real_ip of
             Some rip \<Rightarrow> (case parse_ip rip of Some ip \<Rightarrow> Inr ip | None \<Rightarrow> Inl (Invalid rip))
           | None \<Rightarrow> (case remote_addr of Some addr \<Rightarrow> Inr addr | None \<Rightarrow> Inl NotFound)))"

section \<open>What the walk returns\<close>

text \<open>A hop that names a trusted proxy.\<close>

definition trusted_hop :: "'n ipnet_ops \<Rightarrow> 'n list \<Rightarrow> string \<Rightarrow> bool" where
  "trusted_hop N trusted raw \<longleftrightarrow> (case parse_ip raw of None \<Rightarrow> False | Some ip \<Rightarrow> is_trusted N ip trusted)"

lemma xff_walk_skip:
  "list_all (trusted_hop N trusted) ts \<Longrightarrow> xff_walk N trusted (ts @ raws) = xff_walk N trusted raws"
  by (induction ts) (auto simp: trusted_hop_def split: option.splits)

lemma xff_walk_None_iff: "xff_walk N trusted raws = None \<longleftrightarrow> list_all (trusted_hop N trusted) raws"
  by (induction raws) (auto simp: trusted_hop_def split: option.splits)

lemma xff_walk_SomeD:
  "xff_walk N trusted raws = Some r \<Longrightarrow>
     \<exists>ts raw rest. raws = ts @ raw # rest \<and> list_all (trusted_hop N trusted) ts
       \<and> (case r of Inr ip \<Rightarrow> parse_ip raw = Some ip \<and> \<not> is_trusted N ip trusted
                  | Inl e \<Rightarrow> parse_ip raw = None \<and> e = Invalid raw)"
proof (induction raws)
  case (Cons raw raws)
  show ?case
  proof (cases "trusted_hop N trusted raw")
    case True
    with Cons.prems have "xff_walk N trusted raws = Some r"
      by (auto simp: trusted_hop_def split: option.splits)
    then obtain ts raw' rest where "raws = ts @ raw' # rest" "list_all (trusted_hop N trusted) ts"
        "case r of Inr ip \<Rightarrow> parse_ip raw' = Some ip \<and> \<not> is_trusted N ip trusted
                 | Inl e \<Rightarrow> parse_ip raw' = None \<and> e = Invalid raw'"
      using Cons.IH by blast
    then show ?thesis using True by (intro exI [of _ "raw # ts"] exI [of _ raw'] exI [of _ rest]) simp
  next
    case False
    then show ?thesis using Cons.prems
      by (intro exI [of _ "[]"] exI [of _ raw] exI [of _ raws])
         (auto simp: trusted_hop_def split: option.splits)
  qed
qed simp

text \<open>The address taken from the chain is untrusted, and every hop to its right is a trusted
  proxy: what stands to its left, which a client can forge, has no influence.\<close>

lemma extract_ip_xff:
  assumes "xff_hops v = left @ raw # right" and "list_all (trusted_hop N trusted) right"
    and "parse_ip raw = Some ip" and "\<not> is_trusted N ip trusted"
  shows "extract_ip N (Some v) real remote trusted = Inr ip"
proof -
  have "xff_walk N trusted (rev (xff_hops v)) = Some (Inr ip)"
    using assms xff_walk_skip [of N trusted "rev right" "raw # rev left"] by simp
  then show ?thesis by (simp add: extract_ip_def)
qed

lemma extract_ip_xff_invalid:
  assumes "xff_hops v = left @ raw # right" and "list_all (trusted_hop N trusted) right"
    and "parse_ip raw = None"
  shows "extract_ip N (Some v) real remote trusted = Inl (Invalid raw)"
proof -
  have "xff_walk N trusted (rev (xff_hops v)) = Some (Inl (Invalid raw))"
    using assms xff_walk_skip [of N trusted "rev right" "raw # rev left"] by simp
  then show ?thesis by (simp add: extract_ip_def)
qed

lemma extract_ip_untrusted:
  assumes "extract_ip N (Some v) None None trusted = Inr ip"
  shows "\<not> is_trusted N ip trusted
    \<and> (\<exists>left raw right. xff_hops v = left @ raw # right \<and> parse_ip raw = Some ip
        \<and> list_all (trusted_hop N trusted) right)"
proof -
  obtain r where r: "xff_walk N trusted (rev (xff_hops v)) = Some r"
    using assms by (cases "xff_walk N trusted (rev (xff_hops v))") (simp_all add: extract_ip_def)
  then have "r = Inr ip" using assms by (simp add: extract_ip_def)
  with xff_walk_SomeD [OF r] obtain ts raw rest where
    "rev (xff_hops v) = ts @ raw # rest" "list_all (trusted_hop N trusted) ts"
    "parse_ip raw = Some ip" "\<not> is_trusted N ip trusted" by auto
  then show ?thesis
    by (intro conjI exI [of _ "rev rest"] exI [of _ raw] exI [of _ "rev ts"]) (simp_all add: rev_swap)
qed

lemma extract_ip_all_trusted:
  assumes "list_all (trusted_hop N trusted) (xff_hops v)"
  shows "extract_ip N (Some v) real remote trusted = extract_ip N None real remote trusted"
  using assms xff_walk_None_iff [of N trusted "rev (xff_hops v)"] by (simp add: extract_ip_def)

end
