(* ===== verification/RouteTrie.thy ===== *)
theory RouteTrie
  imports IpText
begin

text \<open>
  The route trie (\<open>policy/src/route_trie.rs\<close>): one node per path segment, \<open>*\<close> for any
  segment, and at each node a map from methods to rate limiters. The limiters are shared through
  \<open>Arc\<close>: a node holds limiter ids and the owner of the trie holds the limiters.
\<close>

datatype RouteTrieNode = RouteTrieNode (rn_children: "string \<Rightarrow> RouteTrieNode option") (rn_limiters: "string \<Rightarrow> nat option")

definition RouteTrieNode_default :: RouteTrieNode where
  "RouteTrieNode_default = RouteTrieNode (\<lambda>_. None) (\<lambda>_. None)"

definition rn_lookup :: "RouteTrieNode \<Rightarrow> string \<Rightarrow> nat option" where
  "rn_lookup node m = or_else (rn_limiters node m) (rn_limiters node [])"

text \<open>Non-empty segments of a path.\<close>

definition split_path :: "string \<Rightarrow> string list" where
  "split_path path = filter (\<lambda>s. s \<noteq> []) (split_on (CHR ''/'') path)"

text \<open>The limiter writes at the terminal node.\<close>

definition put_limiters :: "string list \<Rightarrow> nat \<Rightarrow> (string \<Rightarrow> nat option) \<Rightarrow> (string \<Rightarrow> nat option)" where
  "put_limiters methods i lims =
     (if methods = [] then lims([] \<mapsto> i) else fold (\<lambda>m l. l(to_uppercase m \<mapsto> i)) methods lims)"

fun trie_insert :: "string list \<Rightarrow> string list \<Rightarrow> nat \<Rightarrow> RouteTrieNode \<Rightarrow> RouteTrieNode" where
  "trie_insert [] methods i (RouteTrieNode ch lims) = RouteTrieNode ch (put_limiters methods i lims)"
| "trie_insert (seg # segs) methods i (RouteTrieNode ch lims) =
     RouteTrieNode (ch(seg \<mapsto> trie_insert segs methods i
       (case ch seg of Some c \<Rightarrow> c | None \<Rightarrow> RouteTrieNode_default))) lims"

definition RouteTrie_insert :: "string \<Rightarrow> string list \<Rightarrow> nat \<Rightarrow> RouteTrieNode \<Rightarrow> RouteTrieNode" where
  "RouteTrie_insert path methods i root = trie_insert (split_path path) methods i root"

text \<open>The loop of \<open>match_route\<close> with the deepest wildcard node seen.\<close>

fun match_loop :: "string \<Rightarrow> string list \<Rightarrow> RouteTrieNode \<Rightarrow> RouteTrieNode option \<Rightarrow> nat option" where
  "match_loop m [] node wc = or_else (rn_lookup node m) (Option.bind wc (\<lambda>w. rn_lookup w m))"
| "match_loop m (seg # segs) node wc =
     (case rn_children node seg of
        Some child \<Rightarrow>
          match_loop m segs child (case rn_children node ''*'' of Some w \<Rightarrow> Some w | None \<Rightarrow> wc)
      | None \<Rightarrow>
          (case rn_children node ''*'' of
             Some w \<Rightarrow> match_loop m segs w (Some w)
           | None \<Rightarrow> Option.bind wc (\<lambda>w. rn_lookup w m)))"

definition match_route :: "string \<Rightarrow> string \<Rightarrow> RouteTrieNode \<Rightarrow> nat option" where
  "match_route meth path root = match_loop (to_uppercase meth) (split_path path) root None"

section \<open>The trie as a map from patterns\<close>

text \<open>The node a pattern leads to, and the limiter it files for a method.\<close>

fun node_at :: "string list \<Rightarrow> RouteTrieNode \<Rightarrow> RouteTrieNode option" where
  "node_at [] node = Some node"
| "node_at (seg # segs) node = Option.bind (rn_children node seg) (node_at segs)"

definition filed_at :: "RouteTrieNode \<Rightarrow> string list \<Rightarrow> string \<Rightarrow> nat option" where
  "filed_at root pat m = Option.bind (node_at pat root) (\<lambda>n. rn_limiters n m)"

lemma put_limiters_nonempty:
  "methods \<noteq> [] \<Longrightarrow> put_limiters methods i lims m = (if m \<in> to_uppercase ` set methods then Some i else lims m)"
proof -
  have "fold (\<lambda>m l. l(to_uppercase m \<mapsto> i)) ms lims m = (if m \<in> to_uppercase ` set ms then Some i else lims m)" for ms
    by (induction ms arbitrary: lims) auto
  then show "methods \<noteq> [] \<Longrightarrow> ?thesis" by (simp add: put_limiters_def)
qed

text \<open>The methods a route is stored under.\<close>

definition method_keys :: "string list \<Rightarrow> string set" where
  "method_keys methods = (if methods = [] then {[]} else to_uppercase ` set methods)"

lemma put_limiters_iff: "put_limiters methods i lims m = (if m \<in> method_keys methods then Some i else lims m)"
  by (cases "methods = []") (auto simp: put_limiters_nonempty method_keys_def, auto simp: put_limiters_def)

lemma filed_at_default [simp]: "filed_at RouteTrieNode_default pat m = None"
  by (cases pat) (simp_all add: filed_at_def RouteTrieNode_default_def)

lemma filed_at_Cons: "filed_at node (seg # pat) m = (case rn_children node seg of Some c \<Rightarrow> filed_at c pat m | None \<Rightarrow> None)"
  by (simp add: filed_at_def split: option.split)

lemma trie_insert_filed:
  "filed_at (trie_insert segs methods i node) pat m
     = (if pat = segs \<and> m \<in> method_keys methods then Some i else filed_at node pat m)"
proof (induction segs methods i node arbitrary: pat rule: trie_insert.induct)
  case (1 methods i ch lims)
  then show ?case by (cases pat) (auto simp: filed_at_def put_limiters_iff)
next
  case (2 seg segs methods i ch lims)
  show ?case
  proof (cases pat)
    case Nil
    then show ?thesis by (simp add: filed_at_def)
  next
    case (Cons s p)
    have "filed_at (case ch seg of Some c \<Rightarrow> c | None \<Rightarrow> RouteTrieNode_default) p m
        = (case ch seg of Some c \<Rightarrow> filed_at c p m | None \<Rightarrow> None)"
      by (simp split: option.split)
    with 2 [of p] show ?thesis using Cons by (auto simp: filed_at_Cons)
  qed
qed

section \<open>What a match returns\<close>

text \<open>A pattern covers a path when its segments match a leading part of it, each equal or \<open>*\<close>.\<close>

fun covers :: "string list \<Rightarrow> string list \<Rightarrow> bool" where
  "covers [] segs = True"
| "covers (p # ps) [] = False"
| "covers (p # ps) (s # segs) = ((p = s \<or> p = ''*'') \<and> covers ps segs)"

lemma covers_append: "covers ps past \<Longrightarrow> length ps = length past \<Longrightarrow> p = s \<or> p = ''*'' \<Longrightarrow> covers (ps @ [p]) (past @ s # segs)"
  by (induction ps past rule: covers.induct) auto

lemma covers_extend: "covers ps past \<Longrightarrow> covers ps (past @ segs)"
  by (induction ps past rule: covers.induct) auto

lemma node_at_snoc: "node_at (ps @ [s]) root = Option.bind (node_at ps root) (\<lambda>n. rn_children n s)"
  by (induction ps arbitrary: root) (auto split: bind_splits)

lemma filed_lookup:
  "node_at q root = Some n \<Longrightarrow> rn_lookup n m = Some i \<Longrightarrow> \<exists>m'. filed_at root q m' = Some i \<and> m' \<in> {m, []}"
  by (cases "rn_limiters n m") (auto simp: rn_lookup_def filed_at_def)

lemma match_loop_sound:
  "match_loop m segs node wc = Some i \<Longrightarrow> node_at ps root = Some node \<Longrightarrow> covers ps past \<Longrightarrow> length ps = length past \<Longrightarrow>
   (\<And>w. wc = Some w \<Longrightarrow> \<exists>q. node_at q root = Some w \<and> covers q past \<and> q \<noteq> [] \<and> last q = ''*'') \<Longrightarrow>
   \<exists>q m'. filed_at root q m' = Some i \<and> m' \<in> {m, []} \<and> covers q (past @ segs)
     \<and> (length q = length (past @ segs) \<or> q \<noteq> [] \<and> last q = ''*'')"
proof (induction m segs node wc arbitrary: ps past rule: match_loop.induct)
  case (1 m node wc)
  show ?case
  proof (cases "rn_lookup node m")
    case (Some j)
    then have "j = i" using "1.prems"(1) by simp
    then obtain m' where "filed_at root ps m' = Some i" "m' \<in> {m, []}"
      using filed_lookup [OF "1.prems"(2) Some] by blast
    then show ?thesis using "1.prems"(3,4) by (intro exI [of _ ps] exI [of _ m']) simp
  next
    case None
    then obtain w where w: "wc = Some w" "rn_lookup w m = Some i"
      using "1.prems"(1) by (auto split: bind_splits)
    from "1.prems"(5) [OF w(1)] obtain q where q: "node_at q root = Some w" "covers q past" "q \<noteq> []" "last q = ''*''"
      by blast
    obtain m' where "filed_at root q m' = Some i" "m' \<in> {m, []}" using filed_lookup [OF q(1) w(2)] by blast
    then show ?thesis using q by (intro exI [of _ q] exI [of _ m']) simp
  qed
next
  case (2 m seg segs node wc)
  have wild: "\<exists>q. node_at q root = Some w \<and> covers q (past @ [seg]) \<and> q \<noteq> [] \<and> last q = ''*''"
    if "rn_children node ''*'' = Some w" for w
    using that "2.prems"(2) covers_append [OF "2.prems"(3,4), of "''*''" seg "[]"]
    by (intro exI [of _ "ps @ [''*'']"]) (simp add: node_at_snoc)
  have old: "\<exists>q. node_at q root = Some w \<and> covers q (past @ [seg]) \<and> q \<noteq> [] \<and> last q = ''*''"
    if "wc = Some w" for w
    using "2.prems"(5) [OF that] covers_extend by blast
  show ?case
  proof (cases "rn_children node seg")
    case (Some child)
    have "node_at (ps @ [seg]) root = Some child" using "2.prems"(2) Some by (simp add: node_at_snoc)
    moreover have "covers (ps @ [seg]) (past @ [seg])" using covers_append [OF "2.prems"(3,4)] by blast
    ultimately show ?thesis
      using "2.IH"(2) [OF Some, of "ps @ [seg]" "past @ [seg]"] "2.prems"(1,4) Some wild old
      by (auto split: option.splits)
  next
    case None
    show ?thesis
    proof (cases "rn_children node ''*''")
      case (Some w)
      have "node_at (ps @ [''*'']) root = Some w" using "2.prems"(2) Some by (simp add: node_at_snoc)
      moreover have "covers (ps @ [''*'']) (past @ [seg])" using covers_append [OF "2.prems"(3,4)] by blast
      ultimately show ?thesis
        using "2.IH"(1) [OF None Some, of "ps @ [''*'']" "past @ [seg]"] "2.prems"(1,4) None Some wild by auto
    next
      case wc: None
      then obtain w where w: "wc = Some w" "rn_lookup w m = Some i"
        using "2.prems"(1) None by (auto split: bind_splits)
      from "2.prems"(5) [OF w(1)] obtain q where q: "node_at q root = Some w" "covers q past" "q \<noteq> []" "last q = ''*''"
        by blast
      obtain m' where "filed_at root q m' = Some i" "m' \<in> {m, []}" using filed_lookup [OF q(1) w(2)] by blast
      then show ?thesis using q covers_extend [OF q(2)] by (intro exI [of _ q] exI [of _ m']) simp
    qed
  qed
qed

text \<open>Every segment of the path has its own node: the match is that node's limiter.\<close>

lemma match_loop_exact:
  "node_at segs node = Some n \<Longrightarrow> rn_lookup n m = Some i \<Longrightarrow> match_loop m segs node wc = Some i"
  by (induction m segs node wc rule: match_loop.induct) (auto split: bind_splits option.splits)

end
