(* ===== verification/Policy.thy ===== *)
theory Policy
  imports Limiter AutoBan IpExtractor RouteTrie
begin

text \<open>
  The policy engine (\<open>policy/src/lib.rs\<close>) and its handle for language bindings
  (\<open>policy/src/handle.rs\<close>): address extraction, blocklist, rate limiter and automatic bans
  composed into one decision. The operations of the third-party components and of the blocklist
  engine are bundled in a record; clock readings are arguments; \<open>None\<close> is a panic.
\<close>

section \<open>The policy engine\<close>

datatype PolicyDecision = Allow | Block | Limit | AutoBanned | BadRequest string

record ('n, 'e, 'c, 'v, 'b) policy_env =
  env_net :: "'n ipnet_ops"
  env_engine :: "('e, 'n) RadixEngine"
  env_cache :: "('c, 'n BucketKey) moka_ops"
  env_violations :: "('v, IpAddr, Instant list) dash_ops"
  env_banned :: "('b, IpAddr, Instant) dash_ops"

record ('n, 'e, 'c, 'v, 'b) PolicyEngine =
  pe_engine :: 'e
  pe_limiter :: "'c TokenBucketLimiter"
  pe_middleware_cfg :: "'n MiddlewareConfig"
  pe_rate_limit_enabled :: bool
  pe_blocklist_enabled :: bool
  pe_auto_ban :: "('v, 'b) AutoBanTracker option"

definition PolicyEngine_new ::
  "('n, 'e, 'c, 'v, 'b) policy_env \<Rightarrow> 'e \<Rightarrow> 'n MiddlewareConfig \<Rightarrow> RateLimitConfig \<Rightarrow> bool
     \<Rightarrow> ('n, 'e, 'c, 'v, 'b) PolicyEngine" where
  "PolicyEngine_new X engine middleware_cfg rate_limit_cfg blocklist_enabled =
     \<lparr>pe_engine = engine, pe_limiter = TokenBucketLimiter_new (env_cache X) rate_limit_cfg,
      pe_middleware_cfg = middleware_cfg, pe_rate_limit_enabled = rl_enabled rate_limit_cfg,
      pe_blocklist_enabled = blocklist_enabled, pe_auto_ban = None\<rparr>"

definition with_auto_ban ::
  "('v, 'b) AutoBanTracker \<Rightarrow> ('n, 'e, 'c, 'v, 'b) PolicyEngine \<Rightarrow> ('n, 'e, 'c, 'v, 'b) PolicyEngine" where
  "with_auto_ban tracker pe = pe\<lparr>pe_auto_ban := Some tracker\<rparr>"

text \<open>\<open>blocklist_enabled && engine.lookup(&ip).is_some()\<close>; the lookup counts in the statistics.\<close>

definition blocklisted ::
  "('n, 'e, 'c, 'v, 'b) policy_env \<Rightarrow> IpAddr \<Rightarrow> ('n, 'e, 'c, 'v, 'b) PolicyEngine
     \<Rightarrow> (bool \<times> ('n, 'e, 'c, 'v, 'b) PolicyEngine) option" where
  "blocklisted X ip pe =
     (if pe_blocklist_enabled pe
      then map_option (\<lambda>(r, e). (r \<noteq> None, pe\<lparr>pe_engine := e\<rparr>)) (re_lookup (env_engine X) ip (pe_engine pe))
      else Some (False, pe))"

text \<open>The branch for a request the limiter refused.\<close>

definition on_violation ::
  "('n, 'e, 'c, 'v, 'b) policy_env \<Rightarrow> Instant \<Rightarrow> IpAddr \<Rightarrow> ('n, 'e, 'c, 'v, 'b) PolicyEngine
     \<Rightarrow> (PolicyDecision \<times> ('n, 'e, 'c, 'v, 'b) PolicyEngine) option" where
  "on_violation X now ip pe =
     (case pe_auto_ban pe of
        None \<Rightarrow> Some (Limit, pe)
      | Some tracker \<Rightarrow>
          map_option (\<lambda>(banned, tracker', e'). (if banned then AutoBanned else Limit,
              pe\<lparr>pe_auto_ban := Some tracker', pe_engine := e'\<rparr>))
            (record_violation (env_net X) (env_engine X) (env_violations X) (env_banned X) now ip tracker (pe_engine pe)))"

text \<open>A call of a limiter with the policy's engine.\<close>

definition ask_limiter ::
  "('n, 'e, 'c, 'v, 'b) policy_env \<Rightarrow> (nat \<Rightarrow> u32) \<Rightarrow> IpAddr \<Rightarrow> 'c TokenBucketLimiter \<Rightarrow> 'e
     \<Rightarrow> (bool \<times> 'c TokenBucketLimiter \<times> 'e) option" where
  "ask_limiter X clk ip l e =
     map_option (\<lambda>(ok, e', l'). (ok, l', case e' of Some x \<Rightarrow> x | None \<Rightarrow> e))
       (limiter_allow (env_net X) (env_engine X) (env_cache X) clk ip (Some e) l)"

definition check ::
  "('n, 'e, 'c, 'v, 'b) policy_env \<Rightarrow> (nat \<Rightarrow> u32) \<Rightarrow> Instant \<Rightarrow> string option \<Rightarrow> string option \<Rightarrow> IpAddr option
     \<Rightarrow> ('n, 'e, 'c, 'v, 'b) PolicyEngine \<Rightarrow> (PolicyDecision \<times> ('n, 'e, 'c, 'v, 'b) PolicyEngine) option" where
  "check X clk now xff x_real_ip remote_addr pe =
     (case extract_ip (env_net X) xff x_real_ip remote_addr (mw_trusted_proxies (pe_middleware_cfg pe)) of
        Inl e \<Rightarrow> Some (BadRequest (ExtractError_to_string e), pe)
      | Inr ip \<Rightarrow>
          (case blocklisted X ip pe of
             None \<Rightarrow> None
           | Some (True, pe) \<Rightarrow> Some (Block, pe)
           | Some (False, pe) \<Rightarrow>
               (if pe_rate_limit_enabled pe then
                  (case ask_limiter X clk ip (pe_limiter pe) (pe_engine pe) of
                     None \<Rightarrow> None
                   | Some (allowed, l, e) \<Rightarrow>
                       (let pe = pe\<lparr>pe_limiter := l, pe_engine := e\<rparr> in
                        if \<not> allowed then on_violation X now ip pe else Some (Allow, pe)))
                else Some (Allow, pe))))"

definition check_ip_with_limiter ::
  "('n, 'e, 'c, 'v, 'b) policy_env \<Rightarrow> (nat \<Rightarrow> u32) \<Rightarrow> Instant \<Rightarrow> IpAddr \<Rightarrow> 'c TokenBucketLimiter option
     \<Rightarrow> ('n, 'e, 'c, 'v, 'b) PolicyEngine
     \<Rightarrow> (PolicyDecision \<times> 'c TokenBucketLimiter option \<times> ('n, 'e, 'c, 'v, 'b) PolicyEngine) option" where
  "check_ip_with_limiter X clk now ip route_limiter pe =
     (case blocklisted X ip pe of
        None \<Rightarrow> None
      | Some (True, pe) \<Rightarrow> Some (Block, route_limiter, pe)
      | Some (False, pe) \<Rightarrow>
          (case (case route_limiter of
                   Some limiter \<Rightarrow> map_option (\<lambda>(ok, l, e). (ok, Some l, pe\<lparr>pe_engine := e\<rparr>))
                     (ask_limiter X clk ip limiter (pe_engine pe))
                 | None \<Rightarrow> map_option (\<lambda>(ok, l, e). (ok, None, pe\<lparr>pe_limiter := l, pe_engine := e\<rparr>))
                     (ask_limiter X clk ip (pe_limiter pe) (pe_engine pe))) of
             None \<Rightarrow> None
           | Some (allowed, route_limiter, pe) \<Rightarrow>
               (if pe_rate_limit_enabled pe \<and> \<not> allowed
                then map_option (\<lambda>(d, pe). (d, route_limiter, pe)) (on_violation X now ip pe)
                else Some (Allow, route_limiter, pe))))"

definition check_ip ::
  "('n, 'e, 'c, 'v, 'b) policy_env \<Rightarrow> (nat \<Rightarrow> u32) \<Rightarrow> Instant \<Rightarrow> IpAddr \<Rightarrow> ('n, 'e, 'c, 'v, 'b) PolicyEngine
     \<Rightarrow> (PolicyDecision \<times> ('n, 'e, 'c, 'v, 'b) PolicyEngine) option" where
  "check_ip X clk now ip pe =
     map_option (\<lambda>(d, _, pe). (d, pe)) (check_ip_with_limiter X clk now ip None pe)"

section \<open>Packed addresses and result codes\<close>

text \<open>\<open>bytes\<close> is a \<open>[u8; 16]\<close>.\<close>

record PackedIp =
  pk_family :: u8
  pk_bytes :: "u8 list"

definition into_ip_addr :: "PackedIp \<Rightarrow> IpAddr option" where
  "into_ip_addr p =
     (if pk_family p = 4 then Some (V4 (of_be_bytes (take 4 (pk_bytes p))))
      else if pk_family p = 6 then Some (V6 (of_be_bytes (pk_bytes p)))
      else None)"

definition PackedIp_from :: "IpAddr \<Rightarrow> PackedIp" where
  "PackedIp_from ip =
     (case ip of
        V4 _ \<Rightarrow> \<lparr>pk_family = 4, pk_bytes = octets ip @ replicate 12 0\<rparr>
      | V6 _ \<Rightarrow> \<lparr>pk_family = 6, pk_bytes = octets ip\<rparr>)"

datatype PolicyDecisionCode = CodeAllow | CodeBlock | CodeLimit | CodeBadRequest

record PolicyResult =
  pr_decision :: PolicyDecisionCode
  pr_retry_after_seconds :: u32

definition from_decision :: "PolicyDecision \<Rightarrow> PolicyResult" where
  "from_decision d =
     (let code = (case d of Allow \<Rightarrow> CodeAllow | Block \<Rightarrow> CodeBlock | AutoBanned \<Rightarrow> CodeBlock
                  | Limit \<Rightarrow> CodeLimit | BadRequest _ \<Rightarrow> CodeBadRequest)
      in \<lparr>pr_decision = code, pr_retry_after_seconds = of_bool (code = CodeLimit)\<rparr>)"

section \<open>The handle\<close>

record ('n, 'e, 'c, 'v, 'b) PolicyHandle =
  ph_policy :: "('n, 'e, 'c, 'v, 'b) PolicyEngine"
  ph_route_trie :: "RouteTrieNode option"
  ph_limiters :: "'c TokenBucketLimiter list"

text \<open>The loop over the configured routes; each route makes one limiter.\<close>

fun insert_routes ::
  "('c, 'k) moka_ops \<Rightarrow> RouteConfig list \<Rightarrow> RouteTrieNode \<times> 'c TokenBucketLimiter list
     \<Rightarrow> RouteTrieNode \<times> 'c TokenBucketLimiter list" where
  "insert_routes M [] s = s"
| "insert_routes M (r # rs) (trie, ls) =
     insert_routes M rs (RouteTrie_insert (rt_path r) (rt_methods r) (length ls) trie,
       ls @ [TokenBucketLimiter_new M (rt_rate_limit r)])"

definition PolicyHandle_new ::
  "('n, 'e, 'c, 'v, 'b) policy_env \<Rightarrow> 'e \<Rightarrow> 'n RadixIpConfig \<Rightarrow> ('n, 'e, 'c, 'v, 'b) PolicyHandle" where
  "PolicyHandle_new X engine config =
     (let root = radixip config;
          policy = PolicyEngine_new X engine (root_middleware root) (root_rate_limit root) (bl_enabled (root_blocklist root));
          policy = (if ab_enabled (root_auto_ban root)
                    then with_auto_ban (AutoBanTracker_new (env_violations X) (env_banned X) (root_auto_ban root)) policy
                    else policy)
      in if rr_enabled (root_rate_limit_routes root)
         then (case insert_routes (env_cache X) (rr_routes (root_rate_limit_routes root)) (RouteTrieNode_default, []) of
                 (trie, ls) \<Rightarrow> \<lparr>ph_policy = policy, ph_route_trie = Some trie, ph_limiters = ls\<rparr>)
         else \<lparr>ph_policy = policy, ph_route_trie = None, ph_limiters = []\<rparr>)"

text \<open>The outer \<open>None\<close> is a panic, the inner one the rejection of the packed address.\<close>

definition PolicyHandle_check ::
  "('n, 'e, 'c, 'v, 'b) policy_env \<Rightarrow> (nat \<Rightarrow> u32) \<Rightarrow> Instant \<Rightarrow> PackedIp \<Rightarrow> ('n, 'e, 'c, 'v, 'b) PolicyHandle
     \<Rightarrow> (PolicyResult option \<times> ('n, 'e, 'c, 'v, 'b) PolicyHandle) option" where
  "PolicyHandle_check X clk now p h =
     (case into_ip_addr p of
        None \<Rightarrow> Some (None, h)
      | Some ip \<Rightarrow> map_option (\<lambda>(d, pe). (Some (from_decision d), h\<lparr>ph_policy := pe\<rparr>))
          (check_ip X clk now ip (ph_policy h)))"

definition check_request ::
  "('n, 'e, 'c, 'v, 'b) policy_env \<Rightarrow> (nat \<Rightarrow> u32) \<Rightarrow> Instant \<Rightarrow> PackedIp \<Rightarrow> string \<Rightarrow> string
     \<Rightarrow> ('n, 'e, 'c, 'v, 'b) PolicyHandle \<Rightarrow> (PolicyResult option \<times> ('n, 'e, 'c, 'v, 'b) PolicyHandle) option" where
  "check_request X clk now p meth path h =
     (case into_ip_addr p of
        None \<Rightarrow> Some (None, h)
      | Some ip \<Rightarrow>
          (case Option.bind (ph_route_trie h) (match_route meth path) of
             None \<Rightarrow>
               map_option (\<lambda>(d, _, pe). (Some (from_decision d), h\<lparr>ph_policy := pe\<rparr>))
                 (check_ip_with_limiter X clk now ip None (ph_policy h))
           | Some i \<Rightarrow>
               map_option (\<lambda>(d, l, pe). (Some (from_decision d), h\<lparr>ph_policy := pe,
                   ph_limiters := (ph_limiters h)[i := case l of Some l' \<Rightarrow> l' | None \<Rightarrow> ph_limiters h ! i]\<rparr>))
                 (check_ip_with_limiter X clk now ip (Some (ph_limiters h ! i)) (ph_policy h))))"

section \<open>Packed addresses round-trip\<close>

lemma into_from_packed: "into_ip_addr (PackedIp_from ip) = Some ip"
  by (cases ip) (simp_all add: into_ip_addr_def PackedIp_from_def of_be_bytes_be_bytes)

section \<open>The two entry points agree\<close>

text \<open>With rate limiting enabled, a request is decided as the address it carries.\<close>

lemma blocklisted_keeps:
  "blocklisted X ip pe = Some (b, pe') \<Longrightarrow> pe_rate_limit_enabled pe' = pe_rate_limit_enabled pe
     \<and> pe_limiter pe' = pe_limiter pe \<and> pe_auto_ban pe' = pe_auto_ban pe
     \<and> pe_blocklist_enabled pe' = pe_blocklist_enabled pe"
  by (auto simp: blocklisted_def split: if_splits)

lemma check_as_check_ip:
  assumes "extract_ip (env_net X) xff real remote (mw_trusted_proxies (pe_middleware_cfg pe)) = Inr ip"
    and "pe_rate_limit_enabled pe"
  shows "check X clk now xff real remote pe = check_ip X clk now ip pe"
proof (cases "blocklisted X ip pe")
  case None
  with assms(1) show ?thesis by (simp add: check_def check_ip_def check_ip_with_limiter_def)
next
  case (Some r)
  obtain b pe1 where r: "r = (b, pe1)" by (cases r)
  have "pe_rate_limit_enabled pe1" using blocklisted_keeps [OF Some [unfolded r]] assms(2) by simp
  then show ?thesis
    using assms(1) Some r
    by (cases b; cases "ask_limiter X clk ip (pe_limiter pe1) (pe_engine pe1)")
       (auto simp: check_def check_ip_def check_ip_with_limiter_def Let_def option.map_comp comp_def case_prod_unfold option.map_ident)
qed

section \<open>Laws of the composition\<close>

definition depth_ok :: "BucketKeyMode \<Rightarrow> IpAddr \<Rightarrow> bool" where
  "depth_ok mode ip = (case mode of Ip \<Rightarrow> True | Subnet d4 d6 \<Rightarrow> depth_for ip d4 d6 \<le> ip_width ip
     | Both d4 d6 \<Rightarrow> depth_for ip d4 d6 \<le> ip_width ip)"

locale policy = auto_ban "env_net X" "env_engine X" einv eabs key answer "env_violations X" "env_banned X"
    + cache: moka "env_cache X"
  for X :: "('n, 'e, 'c, 'v, 'b) policy_env" and einv eabs key answer
begin

text \<open>A read of the engine: invariant, routes and answers stay.\<close>

definition same_routes :: "'e \<Rightarrow> 'e \<Rightarrow> bool" where
  "same_routes e e' \<longleftrightarrow> einv e' \<and> eabs e' = eabs e \<and> answer e' = answer e"

lemma same_routes_refl: "einv e \<Longrightarrow> same_routes e e"
  by (simp add: same_routes_def)

lemma same_routes_trans: "same_routes e e1 \<Longrightarrow> same_routes e1 e2 \<Longrightarrow> same_routes e e2"
  by (simp add: same_routes_def)

lemma blocklisted_law:
  assumes "einv (pe_engine pe)"
  shows "\<exists>e'. blocklisted X ip pe = Some (pe_blocklist_enabled pe \<and> answer (pe_engine pe) ip \<noteq> None, pe\<lparr>pe_engine := e'\<rparr>)
    \<and> same_routes (pe_engine pe) e'"
proof (cases "pe_blocklist_enabled pe")
  case True
  obtain e' where "re_lookup (env_engine X) ip (pe_engine pe) = Some (answer (pe_engine pe) ip, e')"
      "einv e'" "eabs e' = eabs (pe_engine pe)" "answer e' = answer (pe_engine pe)"
    using eng.engine_lookup [OF assms, of ip] by blast
  then show ?thesis using True by (intro exI [of _ e']) (simp add: blocklisted_def same_routes_def)
next
  case False
  then show ?thesis using assms by (intro exI [of _ "pe_engine pe"]) (simp add: blocklisted_def same_routes_def)
qed

lemma ip_to_key_law:
  assumes "depth_ok mode ip" and "einv e"
  shows "\<exists>k e'. ip_to_key (env_net X) (env_engine X) ip mode (Some e) = Some (k, Some e') \<and> same_routes e e'"
proof (cases mode)
  case (Subnet d4 d6)
  obtain e' where e': "re_lookup (env_engine X) ip e = Some (answer e ip, e')"
      "einv e'" "eabs e' = eabs e" "answer e' = answer e"
    using eng.engine_lookup [OF assms(2), of ip] by blast
  obtain n where n: "truncate_to_prefix (env_net X) ip d4 d6 = Some n"
    using net.truncate_fits [of ip d4 d6] assms(1) Subnet by (auto simp: depth_ok_def)
  show ?thesis
  proof (cases "answer e ip")
    case None
    then show ?thesis using Subnet e' by (simp add: ip_to_key_def same_routes_def)
  next
    case (Some m)
    then show ?thesis using Subnet e' n by (simp add: ip_to_key_def same_routes_def)
  qed
qed (use assms in \<open>simp_all add: ip_to_key_def same_routes_def\<close>)

lemma ask_limiter_law:
  assumes "depth_ok (rl_bucket_mode (lm_config l)) ip" and "einv e" and "lm_inv (env_cache X) l"
  shows "\<exists>ok l' e'. ask_limiter X clk ip l e = Some (ok, l', e') \<and> same_routes e e'
    \<and> lm_inv (env_cache X) l' \<and> lm_config l' = lm_config l"
proof -
  let ?mode = "rl_bucket_mode (lm_config l)"
  define mode where "mode = (case ?mode of Both d4 d6 \<Rightarrow> Subnet d4 d6 | m \<Rightarrow> m)"
  have "depth_ok mode ip" using assms(1) by (auto simp: mode_def depth_ok_def split: BucketKeyMode.splits)
  from ip_to_key_law [OF this assms(2)] obtain k e' where
    k: "ip_to_key (env_net X) (env_engine X) ip mode (Some e) = Some (k, Some e')" "same_routes e e'" by blast
  obtain ok1 l1 where c1: "consume (env_cache X) (clk 0) (clk 1) k l = (ok1, l1)" by fastforce
  have l1: "lm_inv (env_cache X) l1" "lm_config l1 = lm_config l"
    using cache.consume_inv [OF assms(3), of "clk 0" "clk 1" k] consume_config [of "env_cache X" "clk 0" "clk 1" k l]
    unfolding c1 by simp_all
  obtain ok2 l2 where c2: "consume (env_cache X) (clk 2) (clk 3) (Exact ip) l1 = (ok2, l2)" by fastforce
  have l2: "lm_inv (env_cache X) l2" "lm_config l2 = lm_config l"
    using cache.consume_inv [OF l1(1), of "clk 2" "clk 3" "Exact ip"]
      consume_config [of "env_cache X" "clk 2" "clk 3" "Exact ip" l1] l1(2) unfolding c2 by simp_all
  show ?thesis
    using k c1 c2 l1 l2
    by (cases ?mode) (auto simp: ask_limiter_def limiter_allow_def mode_def)
qed

text \<open>With one bucket per address a call of the limiter is one \<open>consume\<close>.\<close>

lemma ask_limiter_exact:
  assumes "rl_bucket_mode (lm_config l) = Ip"
  shows "ask_limiter X clk ip l e =
    Some (fst (consume (env_cache X) (clk 0) (clk 1) (Exact ip) l), snd (consume (env_cache X) (clk 0) (clk 1) (Exact ip) l), e)"
  using assms by (simp add: ask_limiter_def limiter_allow_def ip_to_key_def case_prod_unfold Let_def)

definition policy_inv :: "('n, 'e, 'c, 'v, 'b) PolicyEngine \<Rightarrow> bool" where
  "policy_inv pe \<longleftrightarrow> einv (pe_engine pe) \<and> lm_inv (env_cache X) (pe_limiter pe)
     \<and> (\<forall>tr. pe_auto_ban pe = Some tr \<longrightarrow> ban_inv (tr, pe_engine pe))"

text \<open>What no request changes.\<close>

definition static :: "('n, 'e, 'c, 'v, 'b) PolicyEngine \<Rightarrow> 'n MiddlewareConfig \<times> bool \<times> bool \<times> RateLimitConfig \<times> (u64 \<times> nat \<times> nat) option" where
  "static pe = (pe_middleware_cfg pe, pe_rate_limit_enabled pe, pe_blocklist_enabled pe,
     lm_config (pe_limiter pe), map_option settings (pe_auto_ban pe))"

definition clock_ok :: "Instant \<Rightarrow> ('n, 'e, 'c, 'v, 'b) PolicyEngine \<Rightarrow> bool" where
  "clock_ok now pe \<longleftrightarrow> (\<forall>tr. pe_auto_ban pe = Some tr \<longrightarrow> now + int (at_ban_duration tr) < instant_bound)"

lemma clock_ok_static: "static pe = static pe' \<Longrightarrow> clock_ok now pe \<longleftrightarrow> clock_ok now pe'"
  by (cases "pe_auto_ban pe"; cases "pe_auto_ban pe'") (auto simp: clock_ok_def static_def settings_def)

lemma ban_inv_same_routes: "ban_inv (tr, e) \<Longrightarrow> same_routes e e' \<Longrightarrow> ban_inv (tr, e')"
  by (simp add: ban_inv_def same_routes_def)

lemma record_violation_True_banned:
  "record_violation (env_net X) (env_engine X) (env_violations X) (env_banned X) now ip tr e = Some (True, tr', e') \<Longrightarrow>
     \<exists>x. dm_get (env_banned X) (at_banned tr') ip = Some x"
  by (auto simp: record_violation_def Let_def split: if_splits option.splits)

lemma on_violation_law:
  assumes "policy_inv pe" and "clock_ok now pe"
  shows "\<exists>d pe'. on_violation X now ip pe = Some (d, pe') \<and> d \<in> {Limit, AutoBanned} \<and> policy_inv pe'
    \<and> static pe' = static pe \<and> pe_limiter pe' = pe_limiter pe
    \<and> (d = AutoBanned \<longrightarrow> answer (pe_engine pe') ip \<noteq> None)"
proof (cases "pe_auto_ban pe")
  case None
  then show ?thesis using assms(1) by (simp add: on_violation_def)
next
  case (Some tr)
  have inv: "ban_inv (tr, pe_engine pe)" using assms(1) Some by (simp add: policy_inv_def)
  have "in_range (at_ban_duration tr) (Violation now ip)" using assms(2) Some by (simp add: clock_ok_def)
  from ban_event_step [OF inv this] obtain tr' e' b where step:
    "record_violation (env_net X) (env_engine X) (env_violations X) (env_banned X) now ip tr (pe_engine pe) = Some (b, tr', e')"
    "ban_inv (tr', e')" "settings tr' = settings tr" by auto
  let ?pe = "pe\<lparr>pe_auto_ban := Some tr', pe_engine := e'\<rparr>"
  have "answer e' ip \<noteq> None" if b
  proof -
    note b = that
    obtain x where "dm_get (env_banned X) (at_banned tr') ip = Some x"
      using record_violation_True_banned [of now ip tr "pe_engine pe" tr' e'] step(1) b by auto
    then show ?thesis by (rule ban_inv_enforced [OF step(2)])
  qed
  then show ?thesis using step Some assms(1)
    by (intro exI [of _ "if b then AutoBanned else Limit"] exI [of _ ?pe])
       (auto simp: on_violation_def policy_inv_def static_def ban_inv_def)
qed

lemma check_ip_blocked:
  assumes "policy_inv pe" and "pe_blocklist_enabled pe" and "answer (pe_engine pe) ip \<noteq> None"
  shows "\<exists>e'. check_ip X clk now ip pe = Some (Block, pe\<lparr>pe_engine := e'\<rparr>) \<and> policy_inv (pe\<lparr>pe_engine := e'\<rparr>)"
proof -
  have "einv (pe_engine pe)" using assms(1) by (simp add: policy_inv_def)
  then obtain e' where "blocklisted X ip pe = Some (True, pe\<lparr>pe_engine := e'\<rparr>)" "same_routes (pe_engine pe) e'"
    using blocklisted_law [of pe ip] assms(2,3) by auto
  then show ?thesis using assms(1)
    by (intro exI [of _ e']) (auto simp: check_ip_def check_ip_with_limiter_def policy_inv_def same_routes_def ban_inv_def)
qed

lemma check_ip_asked:
  assumes "policy_inv pe" and "clock_ok now pe" and "depth_ok (rl_bucket_mode (lm_config (pe_limiter pe))) ip"
    and "\<not> (pe_blocklist_enabled pe \<and> answer (pe_engine pe) ip \<noteq> None)"
  shows "\<exists>e1 ok e2 d pe'. same_routes (pe_engine pe) e1
    \<and> ask_limiter X clk ip (pe_limiter pe) e1 = Some (ok, pe_limiter pe', e2)
    \<and> check_ip X clk now ip pe = Some (d, pe') \<and> policy_inv pe' \<and> static pe' = static pe
    \<and> (d = Allow \<longleftrightarrow> ok \<or> \<not> pe_rate_limit_enabled pe) \<and> d \<in> {Allow, Limit, AutoBanned}
    \<and> (d = AutoBanned \<longrightarrow> answer (pe_engine pe') ip \<noteq> None)"
proof -
  have inv: "einv (pe_engine pe)" "lm_inv (env_cache X) (pe_limiter pe)" using assms(1) by (simp_all add: policy_inv_def)
  obtain e1 where b: "blocklisted X ip pe = Some (False, pe\<lparr>pe_engine := e1\<rparr>)" "same_routes (pe_engine pe) e1"
    using blocklisted_law [OF inv(1), of ip] assms(4) by auto
  have "einv e1" using b(2) by (simp add: same_routes_def)
  from ask_limiter_law [OF assms(3) this inv(2)] obtain ok l' e2 where a:
    "ask_limiter X clk ip (pe_limiter pe) e1 = Some (ok, l', e2)" "same_routes e1 e2"
    "lm_inv (env_cache X) l'" "lm_config l' = lm_config (pe_limiter pe)" by blast
  let ?pe = "pe\<lparr>pe_limiter := l', pe_engine := e2\<rparr>"
  have same: "same_routes (pe_engine pe) e2" using same_routes_trans [OF b(2) a(2)] .
  have pe: "policy_inv ?pe" "static ?pe = static pe" "clock_ok now ?pe"
    using assms(1,2) a(3,4) same ban_inv_same_routes
    by (auto simp: policy_inv_def static_def clock_ok_def same_routes_def)
  show ?thesis
  proof (cases "pe_rate_limit_enabled pe \<and> \<not> ok")
    case True
    obtain d pe' where v: "on_violation X now ip ?pe = Some (d, pe')" "d \<in> {Limit, AutoBanned}" "policy_inv pe'"
        "static pe' = static ?pe" "pe_limiter pe' = l'" "d = AutoBanned \<longrightarrow> answer (pe_engine pe') ip \<noteq> None"
      using on_violation_law [OF pe(1,3), of ip] by auto
    have "check_ip X clk now ip pe = Some (d, pe')"
      using True a(1) b(1) v(1) by (simp add: check_ip_def check_ip_with_limiter_def)
    with True a(1) b(2) v pe(2) show ?thesis
      by (intro exI [of _ e1] exI [of _ ok] exI [of _ e2] exI [of _ d] exI [of _ pe']) auto
  next
    case False
    then have "check_ip X clk now ip pe = Some (Allow, ?pe)"
      using a(1) b(1) by (auto simp: check_ip_def check_ip_with_limiter_def)
    with False a(1) b(2) pe(1,2) show ?thesis
      by (intro exI [of _ e1] exI [of _ ok] exI [of _ e2] exI [of _ Allow] exI [of _ ?pe]) auto
  qed
qed

text \<open>No request panics, the invariant holds after it, and the blocklist is decided first.\<close>

lemma check_ip_total:
  assumes "policy_inv pe" and "clock_ok now pe" and "depth_ok (rl_bucket_mode (lm_config (pe_limiter pe))) ip"
  shows "\<exists>d pe'. check_ip X clk now ip pe = Some (d, pe') \<and> policy_inv pe' \<and> static pe' = static pe
    \<and> (d = Block \<longleftrightarrow> pe_blocklist_enabled pe \<and> answer (pe_engine pe) ip \<noteq> None)
    \<and> (d = AutoBanned \<longrightarrow> answer (pe_engine pe') ip \<noteq> None)"
proof (cases "pe_blocklist_enabled pe \<and> answer (pe_engine pe) ip \<noteq> None")
  case True
  with check_ip_blocked [OF assms(1), of ip clk now] show ?thesis by (auto simp: static_def)
next
  case False
  from check_ip_asked [OF assms False, of clk] obtain d pe' where
    "check_ip X clk now ip pe = Some (d, pe')" "policy_inv pe'" "static pe' = static pe"
    "d \<in> {Allow, Limit, AutoBanned}" "d = AutoBanned \<longrightarrow> answer (pe_engine pe') ip \<noteq> None" by blast
  with False show ?thesis by (intro exI [of _ d] exI [of _ pe']) auto
qed

text \<open>An address that was just banned is refused by the blocklist.\<close>

lemma banned_then_blocked:
  assumes "policy_inv pe" and "clock_ok now pe" and "depth_ok (rl_bucket_mode (lm_config (pe_limiter pe))) ip"
    and "check_ip X clk now ip pe = Some (AutoBanned, pe')" and "pe_blocklist_enabled pe"
  shows "\<exists>pe''. check_ip X clk' now' ip pe' = Some (Block, pe'')"
proof -
  have "policy_inv pe'" "static pe' = static pe" "answer (pe_engine pe') ip \<noteq> None"
    using check_ip_total [OF assms(1-3), of clk] assms(4) by auto
  moreover from this have "pe_blocklist_enabled pe'" using assms(5) by (simp add: static_def)
  ultimately show ?thesis using check_ip_blocked [of pe' ip clk' now'] by blast
qed

end

section \<open>Runs of requests\<close>

text \<open>A request: the limiter's clock readings, the tracker's, and the client address.\<close>

type_synonym request = "(nat \<Rightarrow> u32) \<times> Instant \<times> IpAddr"

fun check_run ::
  "('n, 'e, 'c, 'v, 'b) policy_env \<Rightarrow> request list \<Rightarrow> ('n, 'e, 'c, 'v, 'b) PolicyEngine
     \<Rightarrow> (PolicyDecision list \<times> ('n, 'e, 'c, 'v, 'b) PolicyEngine) option" where
  "check_run X [] pe = Some ([], pe)"
| "check_run X ((clk, now, ip) # rs) pe =
     (case check_ip X clk now ip pe of
        None \<Rightarrow> None
      | Some (d, pe') \<Rightarrow> map_option (\<lambda>(ds, r). (d # ds, r)) (check_run X rs pe'))"

definition allowed_for :: "IpAddr \<Rightarrow> request list \<Rightarrow> PolicyDecision list \<Rightarrow> nat" where
  "allowed_for ip rs ds = length (filter (\<lambda>((_, _, a), d). a = ip \<and> d = Allow) (zip rs ds))"

definition request_readings :: "IpAddr \<Rightarrow> request list \<Rightarrow> u32 list" where
  "request_readings ip rs = map (\<lambda>(clk, _). clk 1) (filter (\<lambda>(_, _, a). a = ip) rs)"

text \<open>How many buckets the limiter made while it answered the requests from one address.\<close>

fun buckets_made ::
  "('n, 'e, 'c, 'v, 'b) policy_env \<Rightarrow> IpAddr \<Rightarrow> request list \<Rightarrow> ('n, 'e, 'c, 'v, 'b) PolicyEngine \<Rightarrow> nat" where
  "buckets_made X ip [] pe = 0"
| "buckets_made X ip ((clk, now, a) # rs) pe =
     (case check_ip X clk now a pe of
        None \<Rightarrow> 0
      | Some (d, pe') \<Rightarrow>
          of_bool (a = ip \<and> length (lm_store (pe_limiter pe')) \<noteq> length (lm_store (pe_limiter pe))) + buckets_made X ip rs pe')"

lemma allowed_for_simps [simp]:
  "allowed_for ip [] ds = 0"
  "allowed_for ip ((clk, now, a) # rs) (d # ds) = of_bool (a = ip \<and> d = Allow) + allowed_for ip rs ds"
  by (simp_all add: allowed_for_def)

lemma request_readings_simps [simp]:
  "request_readings ip [] = []"
  "request_readings ip ((clk, now, a) # rs) = (if a = ip then clk 1 # request_readings ip rs else request_readings ip rs)"
  by (simp_all add: request_readings_def)

lemma subseq_sorted: "subseq xs ys \<Longrightarrow> sorted ys \<Longrightarrow> sorted xs"
  by (induction rule: list_emb.induct) (auto dest: list_emb_set)

lemma sorted_le_last: "sorted xs \<Longrightarrow> x \<in> set xs \<Longrightarrow> x \<le> last xs"
  by (induction xs) auto

lemma subseq_sorted_span:
  assumes "subseq (x # xs) (y # ys)" and "sorted (map f (y # ys))"
  shows "sorted (map f (x # xs)) \<and> f y \<le> f x \<and> f (last (x # xs)) \<le> f (last (y # ys))"
proof -
  have sub: "z \<in> set (y # ys)" if "z \<in> set (x # xs)" for z using list_emb_set [OF assms(1) that] by blast
  have lo: "f y \<le> f z" if "z \<in> set (y # ys)" for z using assms(2) that by auto
  have hi: "f z \<le> f (last (y # ys))" if "z \<in> set (y # ys)" for z
    using sorted_le_last [OF assms(2), of "f z"] that by (simp only: last_map list.distinct set_map imageI simp_thms)
  have "sorted (map f (x # xs))" by (rule subseq_sorted [OF subseq_map [OF assms(1)] assms(2)])
  moreover have "x \<in> set (y # ys)" "last (x # xs) \<in> set (y # ys)" using sub last_in_set [of "x # xs"] by auto
  ultimately show ?thesis using lo hi by blast
qed

context policy
begin

text \<open>No run of requests panics.\<close>

lemma check_run_total:
  "policy_inv pe \<Longrightarrow>
   \<forall>(clk, now, a) \<in> set rs. clock_ok now pe \<and> depth_ok (rl_bucket_mode (lm_config (pe_limiter pe))) a \<Longrightarrow>
   \<exists>ds pe'. check_run X rs pe = Some (ds, pe') \<and> policy_inv pe' \<and> static pe' = static pe \<and> length ds = length rs"
proof (induction rs arbitrary: pe)
  case (Cons r rs)
  obtain clk now a where r: "r = (clk, now, a)" by (cases r)
  obtain d pe1 where step: "check_ip X clk now a pe = Some (d, pe1)" "policy_inv pe1" "static pe1 = static pe"
    using check_ip_total [OF Cons.prems(1), of now a clk] Cons.prems(2) r by auto
  have "\<forall>(clk, now, a) \<in> set rs. clock_ok now pe1 \<and> depth_ok (rl_bucket_mode (lm_config (pe_limiter pe1))) a"
    using Cons.prems(2) clock_ok_static [OF step(3)] step(3) by (auto simp: static_def)
  from Cons.IH [OF step(2) this] step r show ?case by auto
qed simp

text \<open>The policy a handle starts with.\<close>

lemma handle_start:
  assumes "einv e"
  shows "policy_inv (ph_policy (PolicyHandle_new X e config))"
    and "clock_ok now (ph_policy (PolicyHandle_new X e config)) \<longleftrightarrow>
      (ab_enabled (root_auto_ban (radixip config)) \<longrightarrow>
         now + int (from_secs (ab_ban_duration_seconds (root_auto_ban (radixip config)))) < instant_bound)"
    and "lm_config (pe_limiter (ph_policy (PolicyHandle_new X e config))) = root_rate_limit (radixip config)"
    and "pe_rate_limit_enabled (ph_policy (PolicyHandle_new X e config)) = rl_enabled (root_rate_limit (radixip config))"
    and "pe_blocklist_enabled (ph_policy (PolicyHandle_new X e config)) = bl_enabled (root_blocklist (radixip config))"
proof -
  let ?root = "radixip config"
  let ?pe = "PolicyEngine_new X e (root_middleware ?root) (root_rate_limit ?root) (bl_enabled (root_blocklist ?root))"
  let ?tr = "AutoBanTracker_new (env_violations X) (env_banned X) (root_auto_ban ?root)"
  have pe: "ph_policy (PolicyHandle_new X e config) =
      (if ab_enabled (root_auto_ban ?root) then with_auto_ban ?tr ?pe else ?pe)"
    by (simp add: PolicyHandle_new_def Let_def case_prod_unfold)
  show "policy_inv (ph_policy (PolicyHandle_new X e config))"
    using assms ban_inv_new [OF assms] cache.lm_inv_new
    by (simp add: pe policy_inv_def with_auto_ban_def PolicyEngine_new_def)
  show "clock_ok now (ph_policy (PolicyHandle_new X e config)) \<longleftrightarrow>
      (ab_enabled (root_auto_ban ?root) \<longrightarrow>
         now + int (from_secs (ab_ban_duration_seconds (root_auto_ban ?root))) < instant_bound)"
    by (simp add: pe clock_ok_def with_auto_ban_def PolicyEngine_new_def AutoBanTracker_new_def)
qed (simp_all add: PolicyHandle_new_def Let_def case_prod_unfold with_auto_ban_def PolicyEngine_new_def)

text \<open>The decisions of a run come from calls of the limiter, at most one for each request.\<close>

lemma check_run_consumes:
  "policy_inv pe \<Longrightarrow> pe_rate_limit_enabled pe \<Longrightarrow> rl_bucket_mode (lm_config (pe_limiter pe)) = Ip \<Longrightarrow>
   \<forall>(clk, now, a) \<in> set rs. clock_ok now pe \<Longrightarrow>
   \<exists>ds pe' cs. check_run X rs pe = Some (ds, pe') \<and> policy_inv pe' \<and> length ds = length rs
     \<and> allowed_for ip rs ds = admitted_for (Exact ip) cs (fst (consume_run (env_cache X) cs (pe_limiter pe)))
     \<and> subseq (readings (Exact ip) cs) (request_readings ip rs)
     \<and> buckets_made X ip rs pe = buckets_made_for (env_cache X) (Exact ip) cs (pe_limiter pe)"
proof (induction rs arbitrary: pe)
  case Nil
  then show ?case by (auto intro: exI [of _ "[]"])
next
  case (Cons r rs)
  obtain clk now a where r: "r = (clk, now, a)" by (cases r)
  have clk: "clock_ok now pe" using Cons.prems(4) r by auto
  have deep: "depth_ok (rl_bucket_mode (lm_config (pe_limiter pe))) a" using Cons.prems(3) by (simp add: depth_ok_def)
  have next_ok: "\<exists>ds pe'' cs. check_run X rs pe' = Some (ds, pe'') \<and> policy_inv pe'' \<and> length ds = length rs
     \<and> allowed_for ip rs ds = admitted_for (Exact ip) cs (fst (consume_run (env_cache X) cs (pe_limiter pe')))
     \<and> subseq (readings (Exact ip) cs) (request_readings ip rs)
     \<and> buckets_made X ip rs pe' = buckets_made_for (env_cache X) (Exact ip) cs (pe_limiter pe')"
    if "policy_inv pe'" and st: "static pe' = static pe" for pe'
  proof (rule Cons.IH [OF that(1)])
    show "pe_rate_limit_enabled pe'" "rl_bucket_mode (lm_config (pe_limiter pe')) = Ip"
      using st Cons.prems(2,3) by (simp_all add: static_def)
    show "\<forall>(clk, now, a) \<in> set rs. clock_ok now pe'"
      using Cons.prems(4) clock_ok_static [OF st] by auto
  qed
  show ?case
  proof (cases "pe_blocklist_enabled pe \<and> answer (pe_engine pe) a \<noteq> None")
    case True
    then obtain e' where "check_ip X clk now a pe = Some (Block, pe\<lparr>pe_engine := e'\<rparr>)" "policy_inv (pe\<lparr>pe_engine := e'\<rparr>)"
      using check_ip_blocked [OF Cons.prems(1), of a clk now] by blast
    moreover from next_ok [OF this(2)] obtain ds pe'' cs where
      "check_run X rs (pe\<lparr>pe_engine := e'\<rparr>) = Some (ds, pe'')" "policy_inv pe''" "length ds = length rs"
      "allowed_for ip rs ds = admitted_for (Exact ip) cs (fst (consume_run (env_cache X) cs (pe_limiter pe)))"
      "subseq (readings (Exact ip) cs) (request_readings ip rs)"
      "buckets_made X ip rs (pe\<lparr>pe_engine := e'\<rparr>) = buckets_made_for (env_cache X) (Exact ip) cs (pe_limiter pe)"
      by (auto simp: static_def)
    ultimately show ?thesis using r
      by (intro exI [of _ "Block # ds"] exI [of _ pe''] exI [of _ cs]) auto
  next
    case False
    obtain e1 ok e2 d pe' where step:
      "ask_limiter X clk a (pe_limiter pe) e1 = Some (ok, pe_limiter pe', e2)"
      "check_ip X clk now a pe = Some (d, pe')" "policy_inv pe'" "static pe' = static pe"
      "d = Allow \<longleftrightarrow> ok"
      using check_ip_asked [OF Cons.prems(1) clk deep False, of clk] Cons.prems(2) by blast
    have c: "consume (env_cache X) (clk 0) (clk 1) (Exact a) (pe_limiter pe) = (ok, pe_limiter pe')"
      using ask_limiter_exact [OF Cons.prems(3), of clk a e1] step(1) by (simp add: prod_eq_iff)
    from next_ok [OF step(3,4)] obtain ds pe'' cs where IH:
      "check_run X rs pe' = Some (ds, pe'')" "policy_inv pe''" "length ds = length rs"
      "allowed_for ip rs ds = admitted_for (Exact ip) cs (fst (consume_run (env_cache X) cs (pe_limiter pe')))"
      "subseq (readings (Exact ip) cs) (request_readings ip rs)"
      "buckets_made X ip rs pe' = buckets_made_for (env_cache X) (Exact ip) cs (pe_limiter pe')" by blast
    then show ?thesis using r step(2,5) c
      by (intro exI [of _ "d # ds"] exI [of _ pe''] exI [of _ "(Exact a, clk 0, clk 1) # cs"])
         (auto simp: case_prod_unfold Let_def)
  qed
qed

text \<open>What an address is allowed by the whole policy: a full bucket for each bucket made for it, and the refill.\<close>

lemma check_run_bound:
  assumes "policy_inv pe" and "pe_rate_limit_enabled pe" and "rl_bucket_mode (lm_config (pe_limiter pe)) = Ip"
    and "\<forall>(clk, now, a) \<in> set rs. clock_ok now pe" and "lm_view (env_cache X) (pe_limiter pe) (Exact ip) = None"
    and "request_readings ip rs = t # ts" and "sorted (map unat (t # ts))"
  shows "\<exists>ds pe'. check_run X rs pe = Some (ds, pe') \<and> policy_inv pe'
    \<and> allowed_for ip rs ds * 1000
      \<le> buckets_made X ip rs pe * unat (capacity_fp (rl_capacity (lm_config (pe_limiter pe))))
        + (unat (last (t # ts)) - unat t) * unat (rl_refill_rate (lm_config (pe_limiter pe)) * 1000)"
proof -
  let ?R = "unat (rl_refill_rate (lm_config (pe_limiter pe)) * 1000)"
  obtain ds pe' cs where run: "check_run X rs pe = Some (ds, pe')" "policy_inv pe'"
    "allowed_for ip rs ds = admitted_for (Exact ip) cs (fst (consume_run (env_cache X) cs (pe_limiter pe)))"
    "subseq (readings (Exact ip) cs) (t # ts)"
    "buckets_made X ip rs pe = buckets_made_for (env_cache X) (Exact ip) cs (pe_limiter pe)"
    using check_run_consumes [OF assms(1-4), of ip] assms(6) by auto
  have inv: "lm_inv (env_cache X) (pe_limiter pe)" using assms(1) by (simp add: policy_inv_def)
  show ?thesis
  proof (cases "readings (Exact ip) cs")
    case Nil
    have "admitted_for (Exact ip) cs oks = 0" for oks
      using Nil by (auto simp: readings_def admitted_for_def filter_empty_conv dest: set_zip_leftD)
    then show ?thesis using run(1-3) by auto
  next
    case (Cons n ns)
    have span: "sorted (map unat (n # ns))" "unat t \<le> unat n" "unat (last (n # ns)) \<le> unat (last (t # ts))"
      using subseq_sorted_span [OF run(4) [unfolded Cons] assms(7)] by auto
    have "allowed_for ip rs ds * 1000 \<le> buckets_made X ip rs pe * unat (capacity_fp (rl_capacity (lm_config (pe_limiter pe))))
        + (unat (last (n # ns)) - unat n) * ?R"
      unfolding run(3,5) by (rule cache.consume_run_restarts [OF inv assms(5) Cons span(1)])
    moreover have "(unat (last (n # ns)) - unat n) * ?R \<le> (unat (last (t # ts)) - unat t) * ?R"
      using span(2,3) by (intro mult_right_mono) linarith+
    ultimately show ?thesis using run(1,2) by (intro exI [of _ ds] exI [of _ pe']) linarith
  qed
qed

lemma handle_no_buckets: "lm_view (env_cache X) (pe_limiter (ph_policy (PolicyHandle_new X e config))) k = None"
  by (simp add: PolicyHandle_new_def Let_def case_prod_unfold with_auto_ban_def PolicyEngine_new_def cache.lm_view_new)

end

locale policy_keeping = policy X einv eabs key answer + keep: moka_keeping "env_cache X"
  for X :: "('n, 'e, 'c, 'v, 'b) policy_env" and einv eabs key answer
begin

text \<open>Over a cache that keeps its entries one bucket is made for an address.\<close>

lemma check_run_one_bucket:
  assumes "policy_inv pe" and "pe_rate_limit_enabled pe" and "rl_bucket_mode (lm_config (pe_limiter pe)) = Ip"
    and "\<forall>(clk, now, a) \<in> set rs. clock_ok now pe"
  shows "buckets_made X ip rs pe \<le> 1"
proof -
  obtain cs where cs: "buckets_made X ip rs pe = buckets_made_for (env_cache X) (Exact ip) cs (pe_limiter pe)"
    using check_run_consumes [OF assms, of ip] by blast
  have "lm_inv (env_cache X) (pe_limiter pe)" using assms(1) by (simp add: policy_inv_def)
  from keep.buckets_made_once [OF this, of "Exact ip" cs] show ?thesis
    using cs by (cases "lm_view (env_cache X) (pe_limiter pe) (Exact ip)") auto
qed

end

section \<open>The policy over a standard engine\<close>

definition standard_env ::
  "'n ipnet_ops \<Rightarrow> ('c, 'n BucketKey) moka_ops \<Rightarrow> ('v, IpAddr, Instant list) dash_ops \<Rightarrow> ('b, IpAddr, Instant) dash_ops
     \<Rightarrow> ('n, 'n UncompressedTree StandardEngine, 'c, 'v, 'b) policy_env" where
  "standard_env N M DV DB = \<lparr>env_net = N, env_engine = StandardEngine_RadixEngine (UncompressedTree_RouteTree N),
     env_cache = M, env_violations = DV, env_banned = DB\<rparr>"

lemma policy_standard:
  assumes "ipnetwork N" and "moka M" and "dashmap DV" and "dashmap DB"
  shows "policy (standard_env N M DV DB) (se_inv (ut_inv N) ut_abs) (\<lambda>e. ut_abs (se_tree e)) (net_bits N)
    (\<lambda>e ip. rt_lookup (UncompressedTree_RouteTree N) ip (se_tree e))"
  unfolding policy_def standard_env_def policy_env.select_convs
  using auto_ban_standard [OF assms(1,3,4)] assms(2) by blast

lemma policy_keeping_standard:
  assumes "ipnetwork N" and "moka_keeping M" and "dashmap DV" and "dashmap DB"
  shows "policy_keeping (standard_env N M DV DB) (se_inv (ut_inv N) ut_abs) (\<lambda>e. ut_abs (se_tree e)) (net_bits N)
    (\<lambda>e ip. rt_lookup (UncompressedTree_RouteTree N) ip (se_tree e))"
  using policy_standard [OF assms(1) moka_keeping.axioms(1) [OF assms(2)] assms(3,4)] assms(2)
  by (simp add: policy_keeping_def standard_env_def)

interpretation pol: policy_keeping "standard_env cidr_ops map_cache alist_dash alist_dash" "se_inv (ut_inv cidr_ops) ut_abs"
  "\<lambda>e. ut_abs (se_tree e)" "net_bits cidr_ops" "\<lambda>e ip. rt_lookup (UncompressedTree_RouteTree cidr_ops) ip (se_tree e)"
  by (intro policy_keeping_standard cidr.ipnetwork_axioms map_cache.moka_keeping_axioms alist_dash.dashmap_axioms)

end
