(* ===== verification/Watcher.thy ===== *)
theory Watcher
  imports Policy
begin

text \<open>
  Hot reload (\<open>policy/src/watcher.rs\<close>): the policy state built from a configuration, the watcher
  that keeps it, and its handler of file events. The state is held once, the route limiters in a
  list the trie indexes; the file system, the YAML parser and the results of the \<open>notify\<close> crate
  are arguments.
\<close>

section \<open>Policy state\<close>

record ('n, 'c, 'v, 'b) PolicyState =
  ps_limiter :: "'c TokenBucketLimiter"
  ps_route_trie :: "RouteTrieNode option"
  ps_limiters :: "'c TokenBucketLimiter list"
  ps_auto_ban :: "('v, 'b) AutoBanTracker option"
  ps_config :: "'n RadixIpConfig"

text \<open>The route trie of a configuration and its limiters.\<close>

definition build_routes ::
  "('c, 'k) moka_ops \<Rightarrow> 'n RadixIpConfig \<Rightarrow> RouteTrieNode option \<times> 'c TokenBucketLimiter list" where
  "build_routes M cfg =
     (let routes = root_rate_limit_routes (radixip cfg) in
      if rr_enabled routes
      then (case insert_routes M (rr_routes routes) (RouteTrieNode_default, []) of (trie, ls) \<Rightarrow> (Some trie, ls))
      else (None, []))"

definition from_config_with_engine ::
  "('n, 'e, 'c, 'v, 'b) policy_env \<Rightarrow> 'n RadixIpConfig \<Rightarrow> ('n, 'c, 'v, 'b) PolicyState" where
  "from_config_with_engine X cfg =
     (let rl = root_rate_limit (radixip cfg);
          (route_trie, limiters) = build_routes (env_cache X) cfg;
          auto_ban = (if ab_enabled (root_auto_ban (radixip cfg))
            then Some (AutoBanTracker_new (env_violations X) (env_banned X) (root_auto_ban (radixip cfg))) else None)
      in \<lparr>ps_limiter = TokenBucketLimiter_new (env_cache X) rl, ps_route_trie = route_trie, ps_limiters = limiters,
          ps_auto_ban = auto_ban, ps_config = cfg\<rparr>)"

definition from_config ::
  "('n, 'e, 'c, 'v, 'b) policy_env \<Rightarrow> 'n RadixIpConfig \<Rightarrow> ('n, 'c, 'v, 'b) PolicyState" where
  "from_config X cfg =
     (let rl = root_rate_limit (radixip cfg);
          (route_trie, limiters) = build_routes (env_cache X) cfg
      in \<lparr>ps_limiter = TokenBucketLimiter_new (env_cache X) rl, ps_route_trie = route_trie, ps_limiters = limiters,
          ps_auto_ban = None, ps_config = cfg\<rparr>)"

text \<open>The state for a watcher with or without an engine.\<close>

definition build_state ::
  "('n, 'e, 'c, 'v, 'b) policy_env \<Rightarrow> bool \<Rightarrow> 'n RadixIpConfig \<Rightarrow> ('n, 'c, 'v, 'b) PolicyState" where
  "build_state X engine_given cfg = (if engine_given then from_config_with_engine X cfg else from_config X cfg)"

section \<open>The watcher\<close>

datatype WatchError = ConfigFailure ConfigError | NotifyFailure

text \<open>\<open>notify_ok\<close> and \<open>watch_ok\<close> say whether the watcher could be made and could watch the
  directory.\<close>

definition ConfigWatcher_new_with_engine ::
  "('n, 'e, 'c, 'v, 'b) policy_env \<Rightarrow> (string \<Rightarrow> string + string) \<Rightarrow> (string \<Rightarrow> string + 'n RadixIpConfig) \<Rightarrow> bool \<Rightarrow> bool
     \<Rightarrow> string \<Rightarrow> bool \<Rightarrow> WatchError + ('n, 'c, 'v, 'b) PolicyState" where
  "ConfigWatcher_new_with_engine X read_to_string from_str notify_ok watch_ok path engine_given =
     (case config_from_file read_to_string from_str path of
        Inl e \<Rightarrow> Inl (ConfigFailure e)
      | Inr cfg \<Rightarrow>
          (let initial_state = build_state X engine_given cfg in
           if \<not> notify_ok then Inl NotifyFailure
           else if \<not> watch_ok then Inl NotifyFailure
           else Inr initial_state))"

definition ConfigWatcher_new ::
  "('n, 'e, 'c, 'v, 'b) policy_env \<Rightarrow> (string \<Rightarrow> string + string) \<Rightarrow> (string \<Rightarrow> string + 'n RadixIpConfig) \<Rightarrow> bool \<Rightarrow> bool
     \<Rightarrow> string \<Rightarrow> WatchError + ('n, 'c, 'v, 'b) PolicyState" where
  "ConfigWatcher_new X read_to_string from_str notify_ok watch_ok path =
     ConfigWatcher_new_with_engine X read_to_string from_str notify_ok watch_ok path False"

text \<open>The event types of the \<open>notify\<close> crate, without the details the handler ignores.\<close>

datatype RenameMode = RenameAny | RenameTo | RenameFrom | RenameBoth | RenameOther

datatype ModifyKind = ModifyAny | ModifyData | ModifyMetadata | ModifyName RenameMode | ModifyOther

datatype EventKind = EventAny | EventAccess | EventCreate | EventModify ModifyKind | EventRemove | EventOther

record Event =
  ev_kind :: EventKind
  ev_paths :: "string list"

text \<open>Paths are equal when their components are: repeated separators and inner dots do not count.\<close>

definition components :: "string \<Rightarrow> string list" where
  "components p =
     (let parts = split_on (CHR ''/'') p in
      (if p \<noteq> [] \<and> hd p = CHR ''/'' then [''/''] else if hd parts = ''.'' then [''.''] else [])
      @ filter (\<lambda>s. s \<noteq> [] \<and> s \<noteq> ''.'') parts)"

fun interesting :: "EventKind \<Rightarrow> bool" where
  "interesting (EventModify ModifyData) = True"
| "interesting (EventModify (ModifyName RenameTo)) = True"
| "interesting EventCreate = True"
| "interesting _ = False"

text \<open>The configuration an event makes the watcher load, if it is about our file, of an interesting
  kind, and the file can be loaded.\<close>

definition reloaded_config ::
  "(string \<Rightarrow> string + string) \<Rightarrow> (string \<Rightarrow> string + 'n RadixIpConfig) \<Rightarrow> string \<Rightarrow> string + Event \<Rightarrow> 'n RadixIpConfig option" where
  "reloaded_config read_to_string from_str path res =
     (case res of
        Inl _ \<Rightarrow> None
      | Inr event \<Rightarrow>
          if \<not> list_ex (\<lambda>p. components p = components path) (ev_paths event) then None
          else if \<not> interesting (ev_kind event) then None
          else (case config_from_file read_to_string from_str path of Inr new_cfg \<Rightarrow> Some new_cfg | Inl _ \<Rightarrow> None))"

definition handle_event ::
  "('n, 'e, 'c, 'v, 'b) policy_env \<Rightarrow> (string \<Rightarrow> string + string) \<Rightarrow> (string \<Rightarrow> string + 'n RadixIpConfig) \<Rightarrow> string \<Rightarrow> bool
     \<Rightarrow> string + Event \<Rightarrow> ('n, 'c, 'v, 'b) PolicyState \<Rightarrow> ('n, 'c, 'v, 'b) PolicyState" where
  "handle_event X read_to_string from_str path engine_given res state =
     (case reloaded_config read_to_string from_str path res of
        Some new_cfg \<Rightarrow> build_state X engine_given new_cfg
      | None \<Rightarrow> state)"

section \<open>The shape of a state\<close>

text \<open>A state matches its configuration, which is valid: the limiters are those it asks for, every
  limiter the trie can name exists, and there is a tracker exactly when one is wanted.\<close>

definition trie_in_range :: "nat \<Rightarrow> RouteTrieNode \<Rightarrow> bool" where
  "trie_in_range n trie \<longleftrightarrow> (\<forall>q m i. filed_at trie q m = Some i \<longrightarrow> i < n)"

definition state_wf :: "bool \<Rightarrow> ('n, 'c, 'v, 'b) PolicyState \<Rightarrow> bool" where
  "state_wf engine_given st \<longleftrightarrow>
     (let root = radixip (ps_config st); routes = root_rate_limit_routes root in
      validate (ps_config st) = Inr ()
      \<and> lm_config (ps_limiter st) = root_rate_limit root
      \<and> map lm_config (ps_limiters st) = (if rr_enabled routes then map rt_rate_limit (rr_routes routes) else [])
      \<and> (ps_route_trie st \<noteq> None \<longleftrightarrow> rr_enabled routes)
      \<and> (\<forall>trie. ps_route_trie st = Some trie \<longrightarrow> trie_in_range (length (ps_limiters st)) trie)
      \<and> (ps_auto_ban st \<noteq> None \<longleftrightarrow> engine_given \<and> ab_enabled (root_auto_ban root)))"

lemma match_route_filed:
  assumes "match_route m path root = Some i"
  obtains q m' where "filed_at root q m' = Some i"
  using match_loop_sound [of "to_uppercase m" "split_path path" root None i "[]" root "[]"] assms
  by (auto simp: match_route_def)

lemma match_in_range: "trie_in_range n trie \<Longrightarrow> match_route m path trie = Some i \<Longrightarrow> i < n"
  by (elim match_route_filed) (simp add: trie_in_range_def)

lemma insert_routes_shape:
  assumes "insert_routes M rs (trie, ls) = (trie', ls')" and "trie_in_range (length ls) trie"
  shows "trie_in_range (length ls') trie' \<and> map lm_config ls' = map lm_config ls @ map rt_rate_limit rs"
  using assms
proof (induction rs arbitrary: trie ls)
  case (Cons r rs)
  have "trie_in_range (length (ls @ [TokenBucketLimiter_new M (rt_rate_limit r)]))
      (RouteTrie_insert (rt_path r) (rt_methods r) (length ls) trie)"
    using Cons.prems(2) by (fastforce simp: trie_in_range_def RouteTrie_insert_def trie_insert_filed)
  from Cons.IH [OF _ this] Cons.prems(1) show ?case by simp
qed simp

lemma build_routes_shape:
  assumes "build_routes M cfg = (trie, ls)"
  shows "map lm_config ls = (if rr_enabled (root_rate_limit_routes (radixip cfg))
      then map rt_rate_limit (rr_routes (root_rate_limit_routes (radixip cfg))) else [])
    \<and> (trie \<noteq> None \<longleftrightarrow> rr_enabled (root_rate_limit_routes (radixip cfg)))
    \<and> (\<forall>t. trie = Some t \<longrightarrow> trie_in_range (length ls) t)"
proof -
  have "trie_in_range (length ([] :: 'a TokenBucketLimiter list)) RouteTrieNode_default" by (simp add: trie_in_range_def)
  from insert_routes_shape [OF _ this] show ?thesis using assms by (auto simp: build_routes_def Let_def split: if_splits prod.splits)
qed

lemma build_state_wf: "validate cfg = Inr () \<Longrightarrow> state_wf engine_given (build_state X engine_given cfg)"
  using build_routes_shape [of "env_cache X" cfg "fst (build_routes (env_cache X) cfg)" "snd (build_routes (env_cache X) cfg)"]
  by (cases engine_given) (simp_all add: build_state_def from_config_with_engine_def from_config_def state_wf_def Let_def case_prod_unfold)

lemma config_from_file_valid: "config_from_file rd fs path = Inr cfg \<Longrightarrow> validate cfg = Inr ()"
  by (auto simp: config_from_file_def split: sum.splits)

lemma watcher_new_wf:
  "ConfigWatcher_new_with_engine X rd fs n w path engine_given = Inr st \<Longrightarrow> state_wf engine_given st"
  by (auto simp: ConfigWatcher_new_with_engine_def Let_def build_state_wf config_from_file_valid split: sum.splits if_splits)

lemma reloaded_config_valid: "reloaded_config rd fs path res = Some cfg \<Longrightarrow> validate cfg = Inr () \<and> (\<exists>raw. fs raw = Inr cfg)"
  by (auto simp: reloaded_config_def config_from_file_def split: sum.splits if_splits)

end
