(* ===== verification/Adapters.thy ===== *)
theory Adapters
  imports Watcher
begin

text \<open>
  The Rust middlewares (\<open>adapters/radixip-tower\<close>, \<open>radixip-axum\<close>, \<open>radixip-actix\<close> and
  \<open>interceptor\<close>): the services around a fixed \<open>PolicyEngine\<close> and those that read the state of a
  \<open>ConfigWatcher\<close> on every request. A service forwards a request to the service it wraps or answers
  it itself. What the HTTP crates return for a header is part of the request, a failing \<open>to_str\<close>
  being a missing header, and \<open>StatusCode::from_u16\<close> is an argument. \<open>None\<close> is a panic.
\<close>

section \<open>Requests and answers\<close>

record HttpRequest =
  rq_header :: "string \<Rightarrow> string option"
  rq_remote :: "IpAddr option"
  rq_method :: string
  rq_path :: string

record HttpResponse =
  res_status :: u16
  res_headers :: "(string \<times> string) list"
  res_body :: string

datatype Outcome = Forward | Answer HttpResponse

definition json :: "u16 \<Rightarrow> string \<Rightarrow> Outcome" where
  "json status body = Answer \<lparr>res_status = status, res_headers = [(''content-type'', ''application/json'')], res_body = body\<rparr>"

definition json_retry :: "u16 \<Rightarrow> string \<Rightarrow> Outcome" where
  "json_retry status body = Answer \<lparr>res_status = status,
     res_headers = [(''content-type'', ''application/json''), (''retry-after'', ''1'')], res_body = body\<rparr>"

text \<open>\<open>StatusCode::from_u16(code).unwrap_or(fallback)\<close>.\<close>

definition status_or :: "(u16 \<Rightarrow> u16 option) \<Rightarrow> u16 \<Rightarrow> u16 \<Rightarrow> u16" where
  "status_or from_u16 code fallback = (case from_u16 code of Some s \<Rightarrow> s | None \<Rightarrow> fallback)"

definition req_xff :: "HttpRequest \<Rightarrow> string option" where
  "req_xff req = rq_header req ''x-forwarded-for''"

definition req_real_ip :: "HttpRequest \<Rightarrow> string option" where
  "req_real_ip req = rq_header req ''x-real-ip''"

section \<open>Services around a policy engine\<close>

definition tower_call ::
  "('n, 'e, 'c, 'v, 'b) policy_env \<Rightarrow> (u16 \<Rightarrow> u16 option) \<Rightarrow> ResponseConfig \<Rightarrow> (nat \<Rightarrow> u32) \<Rightarrow> Instant \<Rightarrow> HttpRequest
     \<Rightarrow> ('n, 'e, 'c, 'v, 'b) PolicyEngine \<Rightarrow> (Outcome \<times> ('n, 'e, 'c, 'v, 'b) PolicyEngine) option" where
  "tower_call X from_u16 responses clk now req engine =
     map_option (\<lambda>(decision, engine).
        (case decision of
           Allow \<Rightarrow> Forward
         | Block \<Rightarrow> json (status_or from_u16 (rs_blocked responses) 403) ''{\"error\":\"blocked\",\"reason\":\"ip_blocked\"}''
         | AutoBanned \<Rightarrow> json (status_or from_u16 (rs_blocked responses) 403) ''{\"error\":\"blocked\",\"reason\":\"ip_blocked\"}''
         | Limit \<Rightarrow> json_retry (status_or from_u16 (rs_rate_limited responses) 429) ''{\"error\":\"rate limited\"}''
         | BadRequest msg \<Rightarrow> json 400 (''{\"error\": \"bad request: '' @ msg @ ''\"}''), engine))
       (check X clk now (req_xff req) (req_real_ip req) (rq_remote req) engine)"

definition axum_call ::
  "('n, 'e, 'c, 'v, 'b) policy_env \<Rightarrow> (u16 \<Rightarrow> u16 option) \<Rightarrow> ResponseConfig \<Rightarrow> (nat \<Rightarrow> u32) \<Rightarrow> Instant \<Rightarrow> HttpRequest
     \<Rightarrow> ('n, 'e, 'c, 'v, 'b) PolicyEngine \<Rightarrow> (Outcome \<times> ('n, 'e, 'c, 'v, 'b) PolicyEngine) option" where
  "axum_call X from_u16 responses clk now req engine =
     map_option (\<lambda>(decision, engine).
        (case decision of
           Allow \<Rightarrow> Forward
         | Block \<Rightarrow> json (status_or from_u16 (rs_blocked responses) 403) ''{\"error\":\"blocked\",\"reason\":\"ip_blocked\"}''
         | AutoBanned \<Rightarrow> json (status_or from_u16 (rs_blocked responses) 403) ''{\"error\":\"blocked\",\"reason\":\"ip_blocked\"}''
         | Limit \<Rightarrow> json_retry (status_or from_u16 (rs_rate_limited responses) 429) ''{\"error\":\"rate limited\"}''
         | BadRequest msg \<Rightarrow> json 400 (''{\"error\": \"bad request: '' @ msg @ ''\"}''), engine))
       (check X clk now (req_xff req) (req_real_ip req) (rq_remote req) engine)"

definition actix_call ::
  "('n, 'e, 'c, 'v, 'b) policy_env \<Rightarrow> (u16 \<Rightarrow> u16 option) \<Rightarrow> ResponseConfig \<Rightarrow> (nat \<Rightarrow> u32) \<Rightarrow> Instant \<Rightarrow> HttpRequest
     \<Rightarrow> ('n, 'e, 'c, 'v, 'b) PolicyEngine \<Rightarrow> (Outcome \<times> ('n, 'e, 'c, 'v, 'b) PolicyEngine) option" where
  "actix_call X from_u16 responses clk now req engine =
     map_option (\<lambda>(decision, engine).
        (case decision of
           Allow \<Rightarrow> Forward
         | Block \<Rightarrow> json (status_or from_u16 (rs_blocked responses) 403) ''{\"error\":\"blocked\",\"reason\":\"ip_blocked\"}''
         | AutoBanned \<Rightarrow> json (status_or from_u16 (rs_blocked responses) 403) ''{\"error\":\"blocked\",\"reason\":\"ip_blocked\"}''
         | Limit \<Rightarrow> json_retry (status_or from_u16 (rs_rate_limited responses) 429) ''{\"error\":\"rate limited\"}''
         | BadRequest msg \<Rightarrow> json 400 (''{\"error\": \"bad request: '' @ msg @ ''\"}''), engine))
       (check X clk now (req_xff req) (req_real_ip req) (rq_remote req) engine)"

definition grpc_call ::
  "('n, 'e, 'c, 'v, 'b) policy_env \<Rightarrow> (u16 \<Rightarrow> u16 option) \<Rightarrow> ResponseConfig \<Rightarrow> (nat \<Rightarrow> u32) \<Rightarrow> Instant \<Rightarrow> HttpRequest
     \<Rightarrow> ('n, 'e, 'c, 'v, 'b) PolicyEngine \<Rightarrow> (Outcome \<times> ('n, 'e, 'c, 'v, 'b) PolicyEngine) option" where
  "grpc_call X from_u16 responses clk now req engine =
     map_option (\<lambda>(decision, engine).
        (case decision of
           Allow \<Rightarrow> Forward
         | Block \<Rightarrow> json (status_or from_u16 (rs_blocked responses) 403) ''{\"error\":\"blocked\",\"reason\":\"ip_blocked\"}''
         | AutoBanned \<Rightarrow> json (status_or from_u16 (rs_blocked responses) 403) ''{\"error\":\"blocked\",\"reason\":\"ip_blocked\"}''
         | Limit \<Rightarrow> json_retry (status_or from_u16 (rs_rate_limited responses) 429) ''{\"error\":\"rate limited\"}''
         | BadRequest msg \<Rightarrow> json 400 (''{\"error\":\"bad request: '' @ msg @ ''\"}''), engine))
       (check X clk now (req_xff req) (req_real_ip req) (rq_remote req) engine)"

text \<open>The interceptor of \<open>tonic\<close> passes the request on or returns a status.\<close>

datatype StatusCode = PermissionDenied | ResourceExhausted | InvalidArgument

record Status =
  st_code :: StatusCode
  st_message :: string
  st_metadata :: "(string \<times> string) list"

definition interceptor_call ::
  "('n, 'e, 'c, 'v, 'b) policy_env \<Rightarrow> (nat \<Rightarrow> u32) \<Rightarrow> Instant \<Rightarrow> HttpRequest
     \<Rightarrow> ('n, 'e, 'c, 'v, 'b) PolicyEngine \<Rightarrow> ((Status + unit) \<times> ('n, 'e, 'c, 'v, 'b) PolicyEngine) option" where
  "interceptor_call X clk now req engine =
     map_option (\<lambda>(decision, engine).
        (case decision of
           Allow \<Rightarrow> Inr ()
         | Block \<Rightarrow> Inl \<lparr>st_code = PermissionDenied, st_message = ''blocked: IP is in blocklist'', st_metadata = []\<rparr>
         | AutoBanned \<Rightarrow> Inl \<lparr>st_code = PermissionDenied, st_message = ''blocked: IP is in blocklist'', st_metadata = []\<rparr>
         | Limit \<Rightarrow> Inl \<lparr>st_code = ResourceExhausted, st_message = ''rate limited: exceeded rate limit'',
             st_metadata = [(''retry-after'', ''1'')]\<rparr>
         | BadRequest msg \<Rightarrow> Inl \<lparr>st_code = InvalidArgument, st_message = ''failed to extract IP: '' @ msg, st_metadata = []\<rparr>,
         engine))
       (check X clk now (req_xff req) (req_real_ip req) (rq_remote req) engine)"

section \<open>Services that read a watched state\<close>

text \<open>The blocklist check and the choice of the limiter, which the services repeat: the limiter the
  trie names, or the global one.\<close>

definition watched_blocked ::
  "('n, 'e, 'c, 'v, 'b) policy_env \<Rightarrow> IpAddr \<Rightarrow> ('n, 'c, 'v, 'b) PolicyState \<Rightarrow> 'e \<Rightarrow> (bool \<times> 'e) option" where
  "watched_blocked X ip st e =
     (if bl_enabled (root_blocklist (radixip (ps_config st)))
      then map_option (\<lambda>(r, e). (r \<noteq> None, e)) (re_lookup (env_engine X) ip e)
      else Some (False, e))"

definition watched_denied ::
  "('n, 'e, 'c, 'v, 'b) policy_env \<Rightarrow> (nat \<Rightarrow> u32) \<Rightarrow> IpAddr \<Rightarrow> nat option \<Rightarrow> ('n, 'c, 'v, 'b) PolicyState \<Rightarrow> 'e
     \<Rightarrow> (bool \<times> ('n, 'c, 'v, 'b) PolicyState \<times> 'e) option" where
  "watched_denied X clk ip limiter_to_use st e =
     (case limiter_to_use of
        Some i \<Rightarrow> map_option (\<lambda>(ok, l, e). (\<not> ok, st\<lparr>ps_limiters := (ps_limiters st)[i := l]\<rparr>, e))
          (ask_limiter X clk ip (ps_limiters st ! i) e)
      | None \<Rightarrow> map_option (\<lambda>(ok, l, e). (\<not> ok, st\<lparr>ps_limiter := l\<rparr>, e)) (ask_limiter X clk ip (ps_limiter st) e))"

text \<open>A violation reported to the tracker of the state, if there is one.\<close>

definition watched_violation ::
  "('n, 'e, 'c, 'v, 'b) policy_env \<Rightarrow> Instant \<Rightarrow> IpAddr \<Rightarrow> ('n, 'c, 'v, 'b) PolicyState \<Rightarrow> 'e
     \<Rightarrow> (bool \<times> ('n, 'c, 'v, 'b) PolicyState \<times> 'e) option" where
  "watched_violation X now ip st e =
     (case ps_auto_ban st of
        None \<Rightarrow> Some (False, st, e)
      | Some tracker \<Rightarrow> map_option (\<lambda>(banned, tracker, e). (banned, st\<lparr>ps_auto_ban := Some tracker\<rparr>, e))
          (record_violation (env_net X) (env_engine X) (env_violations X) (env_banned X) now ip tracker e))"

definition tower_watched_call ::
  "('n, 'e, 'c, 'v, 'b) policy_env \<Rightarrow> (u16 \<Rightarrow> u16 option) \<Rightarrow> (nat \<Rightarrow> u32) \<Rightarrow> HttpRequest
     \<Rightarrow> ('n, 'c, 'v, 'b) PolicyState \<times> 'e \<Rightarrow> (Outcome \<times> ('n, 'c, 'v, 'b) PolicyState \<times> 'e) option" where
  "tower_watched_call X from_u16 clk req s =
     (let (st, e) = s; root = radixip (ps_config st); responses = mw_responses (root_middleware root) in
      case extract_ip (env_net X) (req_xff req) (req_real_ip req) (rq_remote req) (mw_trusted_proxies (root_middleware root)) of
        Inl err \<Rightarrow> Some (json 400 (''{\"error\":\"bad request: '' @ ExtractError_to_string err @ ''\"}''), st, e)
      | Inr ip \<Rightarrow>
          (case watched_blocked X ip st e of
             None \<Rightarrow> None
           | Some (True, e) \<Rightarrow> Some (json (status_or from_u16 (rs_blocked responses) 403) ''{\"error\":\"blocked\"}'', st, e)
           | Some (False, e) \<Rightarrow>
               if rl_enabled (root_rate_limit root) then
                 (case watched_denied X clk ip (Option.bind (ps_route_trie st) (match_route (rq_method req) (rq_path req))) st e of
                    None \<Rightarrow> None
                  | Some (True, st, e) \<Rightarrow>
                      Some (json_retry (status_or from_u16 (rs_rate_limited responses) 429) ''{\"error\":\"rate limited\"}'', st, e)
                  | Some (False, st, e) \<Rightarrow> Some (Forward, st, e))
               else Some (Forward, st, e)))"

definition internal_probe :: "string \<Rightarrow> bool" where
  "internal_probe path \<longleftrightarrow> path = ''/health'' \<or> path = ''/metrics'' \<or> prefix ''/healthz'' path"

text \<open>\<open>now 0\<close> is the clock reading of \<open>is_banned\<close>, \<open>now 1\<close> that of \<open>record_violation\<close>.\<close>

definition axum_watched_call ::
  "('n, 'e, 'c, 'v, 'b) policy_env \<Rightarrow> (u16 \<Rightarrow> u16 option) \<Rightarrow> (nat \<Rightarrow> u32) \<Rightarrow> (nat \<Rightarrow> Instant) \<Rightarrow> HttpRequest
     \<Rightarrow> ('n, 'c, 'v, 'b) PolicyState \<times> 'e \<Rightarrow> (Outcome \<times> ('n, 'c, 'v, 'b) PolicyState \<times> 'e) option" where
  "axum_watched_call X from_u16 clk now req s =
     (let (st, e) = s; root = radixip (ps_config st); responses = mw_responses (root_middleware root) in
      if internal_probe (rq_path req) then Some (Forward, st, e)
      else case extract_ip (env_net X) (req_xff req) (req_real_ip req) (rq_remote req) (mw_trusted_proxies (root_middleware root)) of
        Inl err \<Rightarrow> Some (json 400 (''{\"error\": \"bad request: '' @ ExtractError_to_string err @ ''\"}''), st, e)
      | Inr ip \<Rightarrow>
          if (case ps_auto_ban st of Some tracker \<Rightarrow> is_banned (env_banned X) (now 0) ip tracker | None \<Rightarrow> False)
          then Some (json (status_or from_u16 (rs_blocked responses) 403) ''{\"error\":\"auto-banned\"}'', st, e)
          else
            (case watched_blocked X ip st e of
               None \<Rightarrow> None
             | Some (True, e) \<Rightarrow> Some (json (status_or from_u16 (rs_blocked responses) 403) ''{\"error\":\"blocked\"}'', st, e)
             | Some (False, e) \<Rightarrow>
                 if rl_enabled (root_rate_limit root) then
                   (case watched_denied X clk ip (Option.bind (ps_route_trie st) (match_route (rq_method req) (rq_path req))) st e of
                      None \<Rightarrow> None
                    | Some (True, st, e) \<Rightarrow>
                        map_option (\<lambda>(_, st, e).
                            (json_retry (status_or from_u16 (rs_rate_limited responses) 429) ''{\"error\":\"rate limited\"}'', st, e))
                          (watched_violation X (now 1) ip st e)
                    | Some (False, st, e) \<Rightarrow> Some (Forward, st, e))
                 else Some (Forward, st, e)))"

definition actix_watched_call ::
  "('n, 'e, 'c, 'v, 'b) policy_env \<Rightarrow> (u16 \<Rightarrow> u16 option) \<Rightarrow> (nat \<Rightarrow> u32) \<Rightarrow> (nat \<Rightarrow> Instant) \<Rightarrow> HttpRequest
     \<Rightarrow> ('n, 'c, 'v, 'b) PolicyState \<times> 'e \<Rightarrow> (Outcome \<times> ('n, 'c, 'v, 'b) PolicyState \<times> 'e) option" where
  "actix_watched_call X from_u16 clk now req s =
     (let (st, e) = s; root = radixip (ps_config st); responses = mw_responses (root_middleware root) in
      if internal_probe (rq_path req) then Some (Forward, st, e)
      else case extract_ip (env_net X) (req_xff req) (req_real_ip req) (rq_remote req) (mw_trusted_proxies (root_middleware root)) of
        Inl err \<Rightarrow> Some (json 400 (''{\"error\": \"bad request: '' @ ExtractError_to_string err @ ''\"}''), st, e)
      | Inr ip \<Rightarrow>
          if (case ps_auto_ban st of Some tracker \<Rightarrow> is_banned (env_banned X) (now 0) ip tracker | None \<Rightarrow> False)
          then Some (json (status_or from_u16 (rs_blocked responses) 403) ''{\"error\":\"auto-banned\"}'', st, e)
          else
            (case watched_blocked X ip st e of
               None \<Rightarrow> None
             | Some (True, e) \<Rightarrow> Some (json (status_or from_u16 (rs_blocked responses) 403) ''{\"error\":\"blocked\"}'', st, e)
             | Some (False, e) \<Rightarrow>
                 if rl_enabled (root_rate_limit root) then
                   (case watched_denied X clk ip (Option.bind (ps_route_trie st) (match_route (rq_method req) (rq_path req))) st e of
                      None \<Rightarrow> None
                    | Some (True, st, e) \<Rightarrow>
                        map_option (\<lambda>(_, st, e).
                            (json_retry (status_or from_u16 (rs_rate_limited responses) 429) ''{\"error\":\"rate limited\"}'', st, e))
                          (watched_violation X (now 1) ip st e)
                    | Some (False, st, e) \<Rightarrow> Some (Forward, st, e))
                 else Some (Forward, st, e)))"

text \<open>The gRPC service: empty bodies, routes looked up under \<open>POST\<close>, and a ban answered as blocked.\<close>

definition grpc_watched_call ::
  "('n, 'e, 'c, 'v, 'b) policy_env \<Rightarrow> (u16 \<Rightarrow> u16 option) \<Rightarrow> (nat \<Rightarrow> u32) \<Rightarrow> Instant \<Rightarrow> HttpRequest
     \<Rightarrow> ('n, 'c, 'v, 'b) PolicyState \<times> 'e \<Rightarrow> (Outcome \<times> ('n, 'c, 'v, 'b) PolicyState \<times> 'e) option" where
  "grpc_watched_call X from_u16 clk now req s =
     (let (st, e) = s; root = radixip (ps_config st); responses = mw_responses (root_middleware root) in
      case extract_ip (env_net X) (req_xff req) (req_real_ip req) (rq_remote req) (mw_trusted_proxies (root_middleware root)) of
        Inl _ \<Rightarrow> Some (json 400 [], st, e)
      | Inr ip \<Rightarrow>
          (case watched_blocked X ip st e of
             None \<Rightarrow> None
           | Some (True, e) \<Rightarrow> Some (json (status_or from_u16 (rs_blocked responses) 403) [], st, e)
           | Some (False, e) \<Rightarrow>
               if rl_enabled (root_rate_limit root) then
                 (case watched_denied X clk ip (Option.bind (ps_route_trie st) (match_route ''POST'' (rq_path req))) st e of
                    None \<Rightarrow> None
                  | Some (True, st, e) \<Rightarrow>
                      map_option (\<lambda>(banned, st, e).
                          (if banned then json (status_or from_u16 (rs_blocked responses) 403) []
                           else json_retry (status_or from_u16 (rs_rate_limited responses) 429) [], st, e))
                        (watched_violation X now ip st e)
                  | Some (False, st, e) \<Rightarrow> Some (Forward, st, e))
               else Some (Forward, st, e)))"

text \<open>The watched interceptor has a tracker of its own, built once from the first configuration.\<close>

definition watched_interceptor_new ::
  "('n, 'e, 'c, 'v, 'b) policy_env \<Rightarrow> ('n, 'c, 'v, 'b) PolicyState \<Rightarrow> ('v, 'b) AutoBanTracker option" where
  "watched_interceptor_new X st =
     (if ab_enabled (root_auto_ban (radixip (ps_config st)))
      then Some (AutoBanTracker_new (env_violations X) (env_banned X) (root_auto_ban (radixip (ps_config st)))) else None)"

definition watched_interceptor_call ::
  "('n, 'e, 'c, 'v, 'b) policy_env \<Rightarrow> (nat \<Rightarrow> u32) \<Rightarrow> Instant \<Rightarrow> HttpRequest
     \<Rightarrow> ('v, 'b) AutoBanTracker option \<times> ('n, 'c, 'v, 'b) PolicyState \<times> 'e
     \<Rightarrow> ((Status + unit) \<times> ('v, 'b) AutoBanTracker option \<times> ('n, 'c, 'v, 'b) PolicyState \<times> 'e) option" where
  "watched_interceptor_call X clk now req s =
     (let (own_tracker, st, e) = s; root = radixip (ps_config st);
          limited = Inl \<lparr>st_code = ResourceExhausted, st_message = ''rate limited: exceeded rate limit'',
            st_metadata = [(''retry-after'', ''1'')]\<rparr>
      in case extract_ip (env_net X) (req_xff req) (req_real_ip req) (rq_remote req) (mw_trusted_proxies (root_middleware root)) of
        Inl err \<Rightarrow> Some (Inl \<lparr>st_code = InvalidArgument,
            st_message = ''failed to extract IP: '' @ ExtractError_to_string err, st_metadata = []\<rparr>, own_tracker, st, e)
      | Inr ip \<Rightarrow>
          (case watched_blocked X ip st e of
             None \<Rightarrow> None
           | Some (True, e) \<Rightarrow> Some (Inl \<lparr>st_code = PermissionDenied,
               st_message = ''blocked: IP is in blocklist'', st_metadata = []\<rparr>, own_tracker, st, e)
           | Some (False, e) \<Rightarrow>
               if rl_enabled (root_rate_limit root) then
                 (case watched_denied X clk ip None st e of
                    None \<Rightarrow> None
                  | Some (True, st, e) \<Rightarrow>
                      (case own_tracker of
                         None \<Rightarrow> Some (limited, None, st, e)
                       | Some tracker \<Rightarrow>
                           map_option (\<lambda>(banned, tracker, e).
                               (if banned then Inl \<lparr>st_code = PermissionDenied,
                                  st_message = ''auto-banned: exceeded violation threshold'', st_metadata = []\<rparr> else limited,
                                Some tracker, st, e))
                             (record_violation (env_net X) (env_engine X) (env_violations X) (env_banned X) now ip tracker e))
                  | Some (False, st, e) \<Rightarrow> Some (Inr (), own_tracker, st, e))
               else Some (Inr (), own_tracker, st, e)))"

end
