(* ===== verification/WatchedRun.thy ===== *)
theory WatchedRun
  imports Adapters
begin

text \<open>
  The middlewares as running systems. First the watched gRPC and Tower services against the services
  around a fixed policy engine. Then requests, file events and the sweepers of all trackers
  interleaved, for each of the four watched services: what one call and one event keep, and what holds
  for every run. A request reads the state once and is one step.
\<close>

section \<open>Sequences of requests\<close>

fun serve :: "('q \<Rightarrow> 's \<Rightarrow> (Outcome \<times> 's) option) \<Rightarrow> 'q list \<Rightarrow> 's \<Rightarrow> (Outcome list \<times> 's) option" where
  "serve f [] s = Some ([], s)"
| "serve f (q # qs) s =
     (case f q s of
        None \<Rightarrow> None
      | Some (out, s') \<Rightarrow> map_option (\<lambda>(outs, r). (out # outs, r)) (serve f qs s'))"

text \<open>An answer with its body rewritten. The watched gRPC service answers with empty bodies; the watched Tower
  service leaves out the reason of a block and a space in the body of a bad request.\<close>

definition with_body :: "(string \<Rightarrow> string) \<Rightarrow> Outcome \<Rightarrow> Outcome" where
  "with_body h out = (case out of Forward \<Rightarrow> Forward | Answer r \<Rightarrow> Answer (r\<lparr>res_body := h (res_body r)\<rparr>))"

definition no_body :: "string \<Rightarrow> string" where
  "no_body b = []"

definition tower_watched_body :: "string \<Rightarrow> string" where
  "tower_watched_body b =
     (if b = ''{\"error\":\"blocked\",\"reason\":\"ip_blocked\"}'' then ''{\"error\":\"blocked\"}''
      else if take 10 b = ''{\"error\": '' then take 9 b @ drop 10 b else b)"

lemma with_body_simps [simp]:
  "with_body h Forward = Forward"
  "with_body h (json s b) = json s (h b)"
  "with_body h (json_retry s b) = json_retry s (h b)"
  by (simp_all add: with_body_def json_def json_retry_def)

text \<open>Steps that agree up to an abstraction agree in runs.\<close>

lemma serve_abstraction:
  assumes "\<And>q s. P s \<Longrightarrow> map_option (map_prod id ab) (f q s) = map_option (map_prod h id) (g q (ab s))"
    and "\<And>q s out s'. P s \<Longrightarrow> f q s = Some (out, s') \<Longrightarrow> P s'"
  shows "P s \<Longrightarrow> map_option (map_prod id ab) (serve f qs s) = map_option (map_prod (map h) id) (serve g qs (ab s))"
proof (induction qs arbitrary: s)
  case (Cons q qs)
  show ?case
  proof (cases "f q s")
    case None
    then show ?thesis using assms(1) [OF Cons.prems, of q] by (cases "g q (ab s)") simp_all
  next
    case (Some r)
    obtain out s' where r: "r = (out, s')" by (cases r)
    obtain out' where g: "g q (ab s) = Some (out', ab s')" "h out' = out"
      using assms(1) [OF Cons.prems, of q] Some r by (cases "g q (ab s)") (auto simp: map_prod_def split: prod.splits)
    have "P s'" using assms(2) [OF Cons.prems] Some r by blast
    from Cons.IH [OF this] show ?thesis using Some r g
      by (cases "serve f qs s'"; cases "serve g qs (ab s')") auto
  qed
qed simp

section \<open>Watched and fixed services\<close>

text \<open>The policy engine a watched state and the engine amount to.\<close>

definition as_policy :: "('n, 'c, 'v, 'b) PolicyState \<times> 'e \<Rightarrow> ('n, 'e, 'c, 'v, 'b) PolicyEngine" where
  "as_policy s = (let root = radixip (ps_config (fst s)) in
     \<lparr>pe_engine = snd s, pe_limiter = ps_limiter (fst s), pe_middleware_cfg = root_middleware root,
      pe_rate_limit_enabled = rl_enabled (root_rate_limit root), pe_blocklist_enabled = bl_enabled (root_blocklist root),
      pe_auto_ban = ps_auto_ban (fst s)\<rparr>)"

lemma as_policy_build:
  "as_policy (build_state X True cfg, e) = ph_policy (PolicyHandle_new X e cfg)"
  by (simp add: as_policy_def build_state_def from_config_with_engine_def PolicyHandle_new_def PolicyEngine_new_def
      with_auto_ban_def Let_def case_prod_unfold)

lemma blocklisted_as_policy:
  "blocklisted X ip (as_policy (st, e)) = map_option (\<lambda>(b, e). (b, as_policy (st, e))) (watched_blocked X ip st e)"
  by (auto simp: blocklisted_def watched_blocked_def as_policy_def Let_def option.map_comp comp_def case_prod_unfold
      intro!: option.map_cong)

lemma on_violation_as_policy:
  "on_violation X now ip (as_policy (st, e))
     = map_option (\<lambda>(b, s). (if b then AutoBanned else Limit, as_policy s)) (watched_violation X now ip st e)"
  by (cases "ps_auto_ban st") (simp_all add: on_violation_def watched_violation_def as_policy_def Let_def option.map_comp comp_def
      case_prod_unfold)

lemma as_policy_simps [simp]:
  "pe_engine (as_policy (st, e)) = e"
  "pe_limiter (as_policy (st, e)) = ps_limiter st"
  "pe_middleware_cfg (as_policy (st, e)) = root_middleware (radixip (ps_config st))"
  "pe_rate_limit_enabled (as_policy (st, e)) = rl_enabled (root_rate_limit (radixip (ps_config st)))"
  "(as_policy (st, e))\<lparr>pe_limiter := l, pe_engine := e'\<rparr> = as_policy (st\<lparr>ps_limiter := l\<rparr>, e')"
  by (simp_all add: as_policy_def Let_def)

text \<open>What a call leaves as it is.\<close>

definition same_setup :: "('n, 'c, 'v, 'b) PolicyState \<Rightarrow> ('n, 'c, 'v, 'b) PolicyState \<Rightarrow> bool" where
  "same_setup st st' \<longleftrightarrow> ps_config st' = ps_config st \<and> ps_route_trie st' = ps_route_trie st
     \<and> (ps_auto_ban st = None \<longleftrightarrow> ps_auto_ban st' = None)"

lemma watched_denied_setup: "watched_denied X clk ip i st e = Some (b, st', e') \<Longrightarrow> same_setup st st'"
  by (auto simp: watched_denied_def same_setup_def split: option.splits)

lemma watched_violation_setup: "watched_violation X now ip st e = Some (b, st', e') \<Longrightarrow> same_setup st st'"
  by (auto simp: watched_violation_def same_setup_def split: option.splits)

lemma grpc_watched_setup: "grpc_watched_call X fu clk now req (st, e) = Some (out, st', e') \<Longrightarrow> same_setup st st'"
  by (auto simp: grpc_watched_call_def Let_def same_setup_def
      dest!: watched_denied_setup watched_violation_setup split: sum.splits option.splits bool.splits prod.splits if_splits)

lemma tower_watched_setup: "tower_watched_call X fu clk req (st, e) = Some (out, st', e') \<Longrightarrow> same_setup st st'"
  by (auto simp: tower_watched_call_def Let_def same_setup_def
      dest!: watched_denied_setup split: sum.splits option.splits bool.splits prod.splits if_splits)

text \<open>The decision of that policy engine, in the terms of the watched services.\<close>

lemma check_as_policy:
  "check X clk now xff real remote (as_policy (st, e)) =
     (case extract_ip (env_net X) xff real remote (mw_trusted_proxies (root_middleware (radixip (ps_config st)))) of
        Inl err \<Rightarrow> Some (BadRequest (ExtractError_to_string err), as_policy (st, e))
      | Inr ip \<Rightarrow>
          (case watched_blocked X ip st e of
             None \<Rightarrow> None
           | Some (True, e) \<Rightarrow> Some (Block, as_policy (st, e))
           | Some (False, e) \<Rightarrow>
               if rl_enabled (root_rate_limit (radixip (ps_config st))) then
                 (case watched_denied X clk ip None st e of
                    None \<Rightarrow> None
                  | Some (True, st, e) \<Rightarrow>
                      map_option (\<lambda>(b, s). (if b then AutoBanned else Limit, as_policy s)) (watched_violation X now ip st e)
                  | Some (False, st, e) \<Rightarrow> Some (Allow, as_policy (st, e)))
               else Some (Allow, as_policy (st, e))))"
  by (auto simp: check_def blocklisted_as_policy on_violation_as_policy watched_denied_def Let_def
      split: sum.split option.split bool.split prod.split)

text \<open>The ways a watched service can go before it asks a limiter, and after that.\<close>

lemma watched_cases:
  obtains (bad) err where "extract_ip (env_net X) xff real remote (mw_trusted_proxies (root_middleware (radixip (ps_config st)))) = Inl err"
  | (panic) ip where "extract_ip (env_net X) xff real remote (mw_trusted_proxies (root_middleware (radixip (ps_config st)))) = Inr ip"
      "watched_blocked X ip st e = None"
  | (blocked) ip e1 where "extract_ip (env_net X) xff real remote (mw_trusted_proxies (root_middleware (radixip (ps_config st)))) = Inr ip"
      "watched_blocked X ip st e = Some (True, e1)"
  | (free) ip e1 where "extract_ip (env_net X) xff real remote (mw_trusted_proxies (root_middleware (radixip (ps_config st)))) = Inr ip"
      "watched_blocked X ip st e = Some (False, e1)" "\<not> rl_enabled (root_rate_limit (radixip (ps_config st)))"
  | (asked) ip e1 where "extract_ip (env_net X) xff real remote (mw_trusted_proxies (root_middleware (radixip (ps_config st)))) = Inr ip"
      "watched_blocked X ip st e = Some (False, e1)" "rl_enabled (root_rate_limit (radixip (ps_config st)))"
proof (cases "extract_ip (env_net X) xff real remote (mw_trusted_proxies (root_middleware (radixip (ps_config st))))")
  case (Inl err)
  then show thesis by (rule bad)
next
  case (Inr ip)
  show thesis
  proof (cases "watched_blocked X ip st e")
    case None
    with Inr show thesis by (rule panic)
  next
    case (Some r)
    obtain b e1 where "r = (b, e1)" by (cases r)
    with Inr Some show thesis using blocked free asked by (cases b; cases "rl_enabled (root_rate_limit (radixip (ps_config st)))") simp_all
  qed
qed

lemma denied_cases:
  obtains (panic) "watched_denied X clk ip i st e = None"
  | (passed) st' e' where "watched_denied X clk ip i st e = Some (False, st', e')" "same_setup st st'"
  | (denied) st' e' where "watched_denied X clk ip i st e = Some (True, st', e')" "same_setup st st'"
proof (cases "watched_denied X clk ip i st e")
  case None
  then show thesis by (rule panic)
next
  case (Some r)
  obtain b st' e' where r: "r = (b, st', e')" by (cases r)
  have "same_setup st st'" using watched_denied_setup [of X clk ip i st e b st' e'] Some r by simp
  with Some r show thesis using passed denied by (cases b) simp_all
qed

lemma grpc_watched_step:
  assumes "ps_route_trie st = None"
  shows "map_option (map_prod id as_policy) (grpc_watched_call X fu clk now req (st, e))
    = map_option (map_prod (with_body no_body) id)
        (grpc_call X fu (mw_responses (root_middleware (radixip (ps_config st)))) clk now req (as_policy (st, e)))"
proof (cases rule: watched_cases [where X = X and xff = "req_xff req" and real = "req_real_ip req" and remote = "rq_remote req" and st = st and e = e])
  case (asked ip e1)
  then show ?thesis
  proof (cases rule: denied_cases [where X = X and clk = clk and ip = ip and i = None and st = st and e = e1])
    case (denied st' e')
    with asked assms show ?thesis
      by (cases "watched_violation X now ip st' e'") (auto simp: grpc_watched_call_def grpc_call_def check_as_policy no_body_def)
  qed (simp_all add: grpc_watched_call_def grpc_call_def check_as_policy no_body_def assms)
qed (simp_all add: grpc_watched_call_def grpc_call_def check_as_policy no_body_def)

lemma tower_watched_step:
  assumes "ps_route_trie st = None" and "ps_auto_ban st = None"
  shows "map_option (map_prod id as_policy) (tower_watched_call X fu clk req (st, e))
    = map_option (map_prod (with_body tower_watched_body) id)
        (tower_call X fu (mw_responses (root_middleware (radixip (ps_config st)))) clk now req (as_policy (st, e)))"
proof (cases rule: watched_cases [where X = X and xff = "req_xff req" and real = "req_real_ip req" and remote = "rq_remote req" and st = st and e = e])
  case (asked ip e1)
  then show ?thesis
  proof (cases rule: denied_cases [where X = X and clk = clk and ip = ip and i = None and st = st and e = e1])
    case (denied st' e')
    then have "watched_violation X now ip st' e' = Some (False, st', e')"
      using assms(2) by (simp add: same_setup_def watched_violation_def)
    with asked denied assms(1) show ?thesis by (simp add: tower_watched_call_def tower_call_def check_as_policy tower_watched_body_def)
  qed (simp_all add: tower_watched_call_def tower_call_def check_as_policy tower_watched_body_def assms)
qed (simp_all add: tower_watched_call_def tower_call_def check_as_policy tower_watched_body_def)

text \<open>A watched service that takes the same steps as a fixed one answers a sequence of requests as it
  does.\<close>

lemma watched_serve:
  assumes step: "\<And>clk now req st e. P st \<Longrightarrow> ps_config st = cfg \<Longrightarrow>
      map_option (map_prod id as_policy) (f clk now req (st, e)) = map_option (map_prod h id) (g clk now req (as_policy (st, e)))"
    and same: "\<And>clk now req st e out st' e'. f clk now req (st, e) = Some (out, st', e') \<Longrightarrow> same_setup st st'"
    and keep: "\<And>st st'. same_setup st st' \<Longrightarrow> P st \<Longrightarrow> P st'"
    and first: "P (build_state X True cfg)"
  shows "map_option fst (serve (\<lambda>(clk, now, req). f clk now req) qs (build_state X True cfg, e))
    = map_option (map h \<circ> fst) (serve (\<lambda>(clk, now, req). g clk now req) qs (ph_policy (PolicyHandle_new X e cfg)))"
proof -
  let ?P = "\<lambda>s. P (fst s) \<and> ps_config (fst s) = cfg"
  let ?f = "\<lambda>(clk, now, req). f clk now req" and ?g = "\<lambda>(clk, now, req). g clk now req"
  let ?s = "(build_state X True cfg, e)"
  have "map_option (map_prod id as_policy) (?f q s) = map_option (map_prod h id) (?g q (as_policy s))" if "?P s" for q s
    using that step by (cases q; cases s) simp
  moreover have "?P s'" if P: "?P s" and r: "?f q s = Some (out, s')" for q s out s'
  proof -
    obtain clk now req st e st' e' where "q = (clk, now, req)" "s = (st, e)" "s' = (st', e')" by (metis surj_pair)
    then show ?thesis using same [of clk now req st e out st' e'] keep [of st st'] P r by (simp add: same_setup_def)
  qed
  moreover have "?P ?s" using first by (simp add: build_state_def from_config_with_engine_def case_prod_unfold Let_def)
  ultimately have "map_option (map_prod id as_policy) (serve ?f qs ?s)
      = map_option (map_prod (map h) id) (serve ?g qs (as_policy ?s))"
    by (rule serve_abstraction [where P = ?P])
  then have "map_option fst (map_option (map_prod id as_policy) (serve ?f qs ?s))
      = map_option fst (map_option (map_prod (map h) id) (serve ?g qs (as_policy ?s)))" by simp
  then show ?thesis by (simp add: option.map_comp comp_def as_policy_build)
qed

lemma build_state_parts:
  "\<not> rr_enabled (root_rate_limit_routes (radixip cfg)) \<Longrightarrow> ps_route_trie (build_state X True cfg) = None"
  "\<not> ab_enabled (root_auto_ban (radixip cfg)) \<Longrightarrow> ps_auto_ban (build_state X True cfg) = None"
  by (simp_all add: build_state_def from_config_with_engine_def build_routes_def case_prod_unfold Let_def)

lemma grpc_watched_serve:
  assumes "\<not> rr_enabled (root_rate_limit_routes (radixip cfg))"
  shows "map_option fst (serve (\<lambda>(clk, now, req). grpc_watched_call X fu clk now req) qs (build_state X True cfg, e))
    = map_option (map (with_body no_body) \<circ> fst) (serve (\<lambda>(clk, now, req). grpc_call X fu (mw_responses (root_middleware (radixip cfg))) clk now req)
        qs (ph_policy (PolicyHandle_new X e cfg)))"
  by (rule watched_serve [where P = "\<lambda>st. ps_route_trie st = None"], simp add: grpc_watched_step, erule grpc_watched_setup,
      simp add: same_setup_def, rule build_state_parts(1) [OF assms])

lemma tower_watched_serve:
  fixes X :: "('n, 'e, 'c, 'v, 'b) policy_env"
  assumes "\<not> rr_enabled (root_rate_limit_routes (radixip cfg))" and "\<not> ab_enabled (root_auto_ban (radixip cfg))"
  shows "map_option fst (serve (\<lambda>(clk, now, req). tower_watched_call X fu clk req) qs (build_state X True cfg, e))
    = map_option (map (with_body tower_watched_body) \<circ> fst) (serve (\<lambda>(clk, now, req). tower_call X fu (mw_responses (root_middleware (radixip cfg))) clk now req)
        qs (ph_policy (PolicyHandle_new X e cfg)))"
proof (rule watched_serve [where P = "\<lambda>st. ps_route_trie st = None \<and> ps_auto_ban st = None"])
  fix clk now req and st :: "('n, 'c, 'v, 'b) PolicyState" and e
  assume "ps_route_trie st = None \<and> ps_auto_ban st = None" "ps_config st = cfg"
  then show "map_option (map_prod id as_policy) (tower_watched_call X fu clk req (st, e)) = map_option (map_prod (with_body tower_watched_body) id)
      (tower_call X fu (mw_responses (root_middleware (radixip cfg))) clk now req (as_policy (st, e)))"
    using tower_watched_step [of st X fu clk req e now] by simp
qed (auto dest!: tower_watched_setup simp: same_setup_def build_state_parts assms)

section \<open>Requests, reloads and sweepers\<close>

datatype Framework = Tower | Axum | Actix | Grpc

fun watched_call ::
  "('n, 'e, 'c, 'v, 'b) policy_env \<Rightarrow> (u16 \<Rightarrow> u16 option) \<Rightarrow> Framework \<Rightarrow> (nat \<Rightarrow> u32) \<Rightarrow> (nat \<Rightarrow> Instant) \<Rightarrow> HttpRequest
     \<Rightarrow> ('n, 'c, 'v, 'b) PolicyState \<times> 'e \<Rightarrow> (Outcome \<times> ('n, 'c, 'v, 'b) PolicyState \<times> 'e) option" where
  "watched_call X fu Tower clk now = tower_watched_call X fu clk"
| "watched_call X fu Axum clk now = axum_watched_call X fu clk now"
| "watched_call X fu Actix clk now = actix_watched_call X fu clk now"
| "watched_call X fu Grpc clk now = grpc_watched_call X fu clk (now 1)"

fun bypassed :: "Framework \<Rightarrow> HttpRequest \<Rightarrow> bool" where
  "bypassed Tower req = False"
| "bypassed Axum req = internal_probe (rq_path req)"
| "bypassed Actix req = internal_probe (rq_path req)"
| "bypassed Grpc req = False"

text \<open>The sweeper of a tracker never stops: when a reload replaces the tracker, its ban table goes to the
  list of tables whose sweepers still run.\<close>

datatype WatchEvent =
    Request "nat \<Rightarrow> u32" "nat \<Rightarrow> Instant" HttpRequest
  | Reload "string \<Rightarrow> string + string" "string + Event"
  | SweepCurrent Instant
  | SweepOld nat Instant

record ('n, 'c, 'v, 'b, 'e) System =
  sy_state :: "('n, 'c, 'v, 'b) PolicyState"
  sy_old :: "'b list"
  sy_engine :: 'e

fun watch_step ::
  "('n, 'e, 'c, 'v, 'b) policy_env \<Rightarrow> (u16 \<Rightarrow> u16 option) \<Rightarrow> Framework \<Rightarrow> (string \<Rightarrow> string + 'n RadixIpConfig) \<Rightarrow> string \<Rightarrow> bool
     \<Rightarrow> WatchEvent \<Rightarrow> ('n, 'c, 'v, 'b, 'e) System \<Rightarrow> (Outcome list \<times> ('n, 'c, 'v, 'b, 'e) System) option" where
  "watch_step X fu fw fs path g (Request clk now req) sy =
     map_option (\<lambda>(out, st, e). ([out], sy\<lparr>sy_state := st, sy_engine := e\<rparr>))
       (watched_call X fu fw clk now req (sy_state sy, sy_engine sy))"
| "watch_step X fu fw fs path g (Reload rd res) sy =
     Some ([], sy\<lparr>sy_state := handle_event X rd fs path g res (sy_state sy),
       sy_old := (case (reloaded_config rd fs path res, ps_auto_ban (sy_state sy)) of
           (Some _, Some tr) \<Rightarrow> sy_old sy @ [at_banned tr] | _ \<Rightarrow> sy_old sy)\<rparr>)"
| "watch_step X fu fw fs path g (SweepCurrent now) sy =
     (case ps_auto_ban (sy_state sy) of
        None \<Rightarrow> Some ([], sy)
      | Some tr \<Rightarrow> map_option (\<lambda>(b, e). ([], sy\<lparr>sy_state := (sy_state sy)\<lparr>ps_auto_ban := Some (tr\<lparr>at_banned := b\<rparr>)\<rparr>, sy_engine := e\<rparr>))
          (sweep (env_net X) (env_engine X) (env_banned X) now (at_banned tr) (sy_engine sy)))"
| "watch_step X fu fw fs path g (SweepOld i now) sy =
     (if i < length (sy_old sy)
      then map_option (\<lambda>(b, e). ([], sy\<lparr>sy_old := (sy_old sy)[i := b], sy_engine := e\<rparr>))
        (sweep (env_net X) (env_engine X) (env_banned X) now (sy_old sy ! i) (sy_engine sy))
      else Some ([], sy))"

fun watch_run ::
  "('n, 'e, 'c, 'v, 'b) policy_env \<Rightarrow> (u16 \<Rightarrow> u16 option) \<Rightarrow> Framework \<Rightarrow> (string \<Rightarrow> string + 'n RadixIpConfig) \<Rightarrow> string \<Rightarrow> bool
     \<Rightarrow> WatchEvent list \<Rightarrow> ('n, 'c, 'v, 'b, 'e) System \<Rightarrow> (Outcome list \<times> ('n, 'c, 'v, 'b, 'e) System) option" where
  "watch_run X fu fw fs path g [] sy = Some ([], sy)"
| "watch_run X fu fw fs path g (ev # evs) sy =
     (case watch_step X fu fw fs path g ev sy of
        None \<Rightarrow> None
      | Some (outs, sy') \<Rightarrow> map_option (\<lambda>(os, r). (outs @ os, r)) (watch_run X fu fw fs path g evs sy'))"

text \<open>The configuration of a running service is always one the file decoded to.\<close>

lemma axum_watched_setup: "axum_watched_call X fu clk now req (st, e) = Some (out, st', e') \<Longrightarrow> same_setup st st'"
  by (auto simp: axum_watched_call_def Let_def same_setup_def
      dest!: watched_denied_setup watched_violation_setup split: sum.splits option.splits bool.splits prod.splits if_splits)

lemma actix_as_axum: "actix_watched_call = axum_watched_call"
  by (intro ext) (simp only: actix_watched_call_def axum_watched_call_def)

lemma watched_call_setup: "watched_call X fu fw clk now req (st, e) = Some (out, st', e') \<Longrightarrow> same_setup st st'"
  by (cases fw) (auto simp: actix_as_axum intro: tower_watched_setup axum_watched_setup grpc_watched_setup)

lemma watch_step_config:
  assumes "watch_step X fu fw fs path g ev sy = Some (outs, sy')"
  shows "ps_config (sy_state sy') = ps_config (sy_state sy) \<or> (\<exists>raw. fs raw = Inr (ps_config (sy_state sy')))"
proof (cases ev)
  case (Request clk now req)
  then show ?thesis using assms by (auto simp: same_setup_def dest!: watched_call_setup)
next
  case (Reload rd res)
  then show ?thesis using assms reloaded_config_valid [of rd fs path res]
    by (auto simp: handle_event_def build_state_def from_config_with_engine_def from_config_def case_prod_unfold Let_def split: option.splits)
qed (use assms in \<open>auto split: option.splits if_splits\<close>)

lemma watch_run_config:
  "watch_run X fu fw fs path g evs sy = Some (outs, sy') \<Longrightarrow>
   ps_config (sy_state sy') = ps_config (sy_state sy) \<or> (\<exists>raw. fs raw = Inr (ps_config (sy_state sy')))"
proof (induction evs arbitrary: sy outs)
  case (Cons ev evs)
  then show ?case using watch_step_config [of X fu fw fs path g ev sy] by (fastforce split: option.splits)
qed simp

text \<open>A configuration whose subnet depths fit an address and whose bans end within the clock's range
  when they start no later than an instant; a request that reaches the tracker by then.\<close>

fun mode_fits :: "BucketKeyMode \<Rightarrow> bool" where
  "mode_fits Ip \<longleftrightarrow> True"
| "mode_fits (Subnet d4 d6) \<longleftrightarrow> unat d4 \<le> 32 \<and> unat d6 \<le> 128"
| "mode_fits (Both d4 d6) \<longleftrightarrow> unat d4 \<le> 32 \<and> unat d6 \<le> 128"

definition config_fits :: "Instant \<Rightarrow> 'n RadixIpConfig \<Rightarrow> bool" where
  "config_fits T cfg \<longleftrightarrow>
     (let root = radixip cfg in
      mode_fits (rl_bucket_mode (root_rate_limit root))
      \<and> list_all (\<lambda>r. mode_fits (rl_bucket_mode (rt_rate_limit r))) (rr_routes (root_rate_limit_routes root))
      \<and> T + int (from_secs (ab_ban_duration_seconds (root_auto_ban root))) < instant_bound)"

fun event_by :: "Instant \<Rightarrow> WatchEvent \<Rightarrow> bool" where
  "event_by T (Request clk now req) \<longleftrightarrow> now 1 \<le> T"
| "event_by T _ \<longleftrightarrow> True"

fun is_request :: "WatchEvent \<Rightarrow> bool" where
  "is_request (Request _ _ _) = True"
| "is_request _ = False"

lemma mode_fits_depth: "mode_fits m \<Longrightarrow> depth_ok m ip"
  by (cases m; cases ip) (simp_all add: depth_ok_def)

context policy
begin

text \<open>The networks of the engine other than hosts stay as they are.\<close>

definition keeps_networks :: "'e \<Rightarrow> 'e \<Rightarrow> bool" where
  "keeps_networks e e' \<longleftrightarrow> einv e' \<and> (\<forall>k. k \<notin> range host_key \<longrightarrow> eabs e' k = eabs e k)"

lemma keeps_trans: "keeps_networks e e1 \<Longrightarrow> keeps_networks e1 e2 \<Longrightarrow> keeps_networks e e2"
  by (simp add: keeps_networks_def)

lemma same_routes_keeps: "same_routes e e' \<Longrightarrow> keeps_networks e e'"
  by (simp add: same_routes_def keeps_networks_def)

definition watched_inv :: "bool \<Rightarrow> Instant \<Rightarrow> ('n, 'c, 'v, 'b) PolicyState \<times> 'e \<Rightarrow> bool" where
  "watched_inv g T s \<longleftrightarrow> (let st = fst s in
     state_wf g st \<and> config_fits T (ps_config st) \<and> einv (snd s)
     \<and> lm_inv (env_cache X) (ps_limiter st) \<and> list_all (lm_inv (env_cache X)) (ps_limiters st)
     \<and> (\<forall>tr. ps_auto_ban st = Some tr \<longrightarrow> at_ban_duration tr = from_secs (ab_ban_duration_seconds (root_auto_ban (radixip (ps_config st))))))"

lemma watched_inv_engine: "watched_inv g T (st, e) \<Longrightarrow> einv e' \<Longrightarrow> watched_inv g T (st, e')"
  by (simp add: watched_inv_def)

lemma watched_blocked_law:
  assumes "einv e"
  shows "\<exists>e'. watched_blocked X ip st e = Some (bl_enabled (root_blocklist (radixip (ps_config st))) \<and> answer e ip \<noteq> None, e')
    \<and> same_routes e e'"
proof -
  obtain e' where "re_lookup (env_engine X) ip e = Some (answer e ip, e')" "einv e'" "eabs e' = eabs e" "answer e' = answer e"
    using eng.engine_lookup [OF assms, of ip] by blast
  then show ?thesis using assms same_routes_refl
    by (cases "bl_enabled (root_blocklist (radixip (ps_config st)))") (auto simp: watched_blocked_def same_routes_def)
qed

text \<open>Every limiter a service can ask is one the configuration asks for.\<close>

lemma watched_denied_law:
  assumes "watched_inv g T (st, e)" and "\<forall>j. i = Some j \<longrightarrow> j < length (ps_limiters st)"
  shows "\<exists>b st' e'. watched_denied X clk ip i st e = Some (b, st', e') \<and> watched_inv g T (st', e') \<and> keeps_networks e e'"
proof -
  let ?root = "radixip (ps_config st)"
  define l where "l = (case i of Some j \<Rightarrow> ps_limiters st ! j | None \<Rightarrow> ps_limiter st)"
  have inv: "state_wf g st" "config_fits T (ps_config st)" "einv e" "lm_inv (env_cache X) (ps_limiter st)"
      "list_all (lm_inv (env_cache X)) (ps_limiters st)"
    using assms(1) by (simp_all add: watched_inv_def Let_def)
  have l: "lm_inv (env_cache X) l \<and> mode_fits (rl_bucket_mode (lm_config l))"
  proof (cases i)
    case None
    then show ?thesis using inv by (simp add: l_def state_wf_def config_fits_def Let_def)
  next
    case (Some j)
    then have j: "j < length (ps_limiters st)" using assms(2) by simp
    have ls: "map lm_config (ps_limiters st) = (if rr_enabled (root_rate_limit_routes ?root)
        then map rt_rate_limit (rr_routes (root_rate_limit_routes ?root)) else [])"
      using inv(1) by (simp add: state_wf_def Let_def)
    then have "lm_config (ps_limiters st ! j) \<in> rt_rate_limit ` set (rr_routes (root_rate_limit_routes ?root))"
      using j by (metis (no_types) imageE imageI length_map length_pos_if_in_set list.map_disc_iff list.set_map nth_mem
          less_nat_zero_code list.size(3))
    then show ?thesis using j inv(2,5) Some by (auto simp: l_def config_fits_def Let_def list_all_iff)
  qed
  obtain ok l' e' where a: "ask_limiter X clk ip l e = Some (ok, l', e')" "same_routes e e'" "lm_inv (env_cache X) l'" "lm_config l' = lm_config l"
    using ask_limiter_law [OF mode_fits_depth inv(3)] l by blast
  let ?st = "case i of Some j \<Rightarrow> st\<lparr>ps_limiters := (ps_limiters st)[j := l']\<rparr> | None \<Rightarrow> st\<lparr>ps_limiter := l'\<rparr>"
  have "watched_denied X clk ip i st e = Some (\<not> ok, ?st, e')"
    using a(1) by (cases i) (simp_all add: watched_denied_def l_def)
  moreover have "map lm_config ((ps_limiters st)[j := l']) = map lm_config (ps_limiters st)" if "i = Some j" for j
    using a(4) that by (simp add: l_def map_update list_update_id nth_map flip: map_update) (metis list_update_id map_update)
  then have "watched_inv g T (?st, e')"
    using assms(1) a(2,3,4) by (cases i) (auto simp: watched_inv_def state_wf_def same_routes_def Let_def l_def list_all_iff dest!: subsetD [OF set_update_subset_insert])
  ultimately show ?thesis using same_routes_keeps [OF a(2)] by blast
qed

lemma watched_violation_law:
  assumes "watched_inv g T (st, e)" and "now \<le> T"
  shows "\<exists>b st' e'. watched_violation X now ip st e = Some (b, st', e') \<and> watched_inv g T (st', e') \<and> keeps_networks e e'"
proof (cases "ps_auto_ban st")
  case None
  then show ?thesis using assms(1) by (auto simp: watched_violation_def keeps_networks_def watched_inv_def Let_def)
next
  case (Some tr)
  have inv: "einv e" "now + int (at_ban_duration tr) < instant_bound"
    using assms Some by (auto simp: watched_inv_def config_fits_def Let_def)
  obtain b tr' e' where r: "record_violation (env_net X) (env_engine X) (env_violations X) (env_banned X) now ip tr e = Some (b, tr', e')"
    "at_ban_duration tr' = at_ban_duration tr" "keeps_networks e e'"
  proof (cases "Suc (length (filter (\<lambda>t. cutoff now (at_window tr) \<le> t) (stamps (env_violations X) tr ip))) < unat (at_threshold tr)")
    case True
    from record_violation_below [OF this] that show ?thesis using inv(1) by (fastforce simp: keeps_networks_def)
  next
    case False
    from record_violation_bans [OF inv this] that show ?thesis by (fastforce simp: keeps_networks_def)
  qed
  then have "watched_violation X now ip st e = Some (b, st\<lparr>ps_auto_ban := Some tr'\<rparr>, e')" using Some by (simp add: watched_violation_def)
  moreover have "watched_inv g T (st\<lparr>ps_auto_ban := Some tr'\<rparr>, e')"
    using assms(1) Some r(2,3) by (simp add: watched_inv_def state_wf_def keeps_networks_def Let_def)
  ultimately show ?thesis using r(3) by blast
qed

text \<open>What a step may do: end without a panic in a state that satisfies the invariant, with the
  networks of the engine as they were.\<close>

definition good_result :: "bool \<Rightarrow> Instant \<Rightarrow> 'e \<Rightarrow> ('o \<times> ('n, 'c, 'v, 'b) PolicyState \<times> 'e) option \<Rightarrow> bool" where
  "good_result g T e r \<longleftrightarrow> (\<exists>out st' e'. r = Some (out, st', e') \<and> watched_inv g T (st', e') \<and> keeps_networks e e')"

lemma good_resultI: "watched_inv g T (st', e') \<Longrightarrow> keeps_networks e e' \<Longrightarrow> good_result g T e (Some (out, st', e'))"
  by (simp add: good_result_def)

lemma good_blocked:
  assumes "watched_inv g T (st, e)" and "watched_blocked X ip st e = Some (b, e1)"
  shows "watched_inv g T (st, e1)" and "keeps_networks e e1"
proof -
  have "einv e" using assms(1) by (simp add: watched_inv_def Let_def)
  then have "same_routes e e1" using watched_blocked_law [of e ip st] assms(2) by auto
  then show "watched_inv g T (st, e1)" and "keeps_networks e e1"
    using assms(1) watched_inv_engine same_routes_keeps by (auto simp: same_routes_def)
qed

lemma blocked_total: "watched_inv g T (st, e) \<Longrightarrow> watched_blocked X ip st e \<noteq> None"
  using watched_blocked_law [of e ip st] by (auto simp: watched_inv_def Let_def)

lemma route_in_range:
  assumes "watched_inv g T (st, e)" and "Option.bind (ps_route_trie st) (match_route m p) = Some j"
  shows "j < length (ps_limiters st)"
proof -
  obtain trie where "ps_route_trie st = Some trie" "match_route m p trie = Some j"
    using assms(2) by (cases "ps_route_trie st") simp_all
  then show ?thesis using assms(1) match_in_range by (auto simp: watched_inv_def state_wf_def Let_def)
qed

text \<open>The limiter of a route, and the report after it.\<close>

lemma good_denied:
  assumes "watched_inv g T (st, e)"
  obtains b st' e' where
    "watched_denied X clk ip (Option.bind (ps_route_trie st) (match_route m p)) st e = Some (b, st', e')"
    "watched_inv g T (st', e')" "keeps_networks e e'"
  using watched_denied_law [OF assms] route_in_range [OF assms] that by blast

lemma good_violation:
  assumes "watched_inv g T (st, e)" and "now \<le> T" and "keeps_networks e0 e"
  shows "good_result g T e0 (map_option (\<lambda>(b, st, e). (out b, st, e)) (watched_violation X now ip st e))"
proof -
  obtain b st' e' where "watched_violation X now ip st e = Some (b, st', e')" "watched_inv g T (st', e')" "keeps_networks e e'"
    using watched_violation_law [OF assms(1,2), of ip] by blast
  then show ?thesis using keeps_trans [OF assms(3)] by (auto simp: good_result_def)
qed

lemma keeps_refl: "watched_inv g T (st, e) \<Longrightarrow> keeps_networks e e"
  by (simp add: watched_inv_def keeps_networks_def Let_def)

lemma tower_good:
  assumes inv: "watched_inv g T (st, e)"
  shows "good_result g T e (tower_watched_call X fu clk req (st, e))"
proof (cases rule: watched_cases [where X = X and xff = "req_xff req" and real = "req_real_ip req" and remote = "rq_remote req" and st = st and e = e])
  case (asked ip e1)
  note e1 = good_blocked [OF inv asked(2)]
  from good_denied [OF e1(1), of clk ip "rq_method req" "rq_path req"] obtain b st' e' where
    "watched_denied X clk ip (Option.bind (ps_route_trie st) (match_route (rq_method req) (rq_path req))) st e1 = Some (b, st', e')"
    "watched_inv g T (st', e')" "keeps_networks e1 e'" by blast
  with asked show ?thesis using keeps_trans [OF e1(2)] by (cases b) (simp_all add: tower_watched_call_def good_resultI)
qed (use inv good_blocked [OF inv] blocked_total [OF inv] keeps_refl in \<open>simp_all add: tower_watched_call_def good_resultI\<close>)

lemma grpc_good:
  assumes inv: "watched_inv g T (st, e)" and "now \<le> T"
  shows "good_result g T e (grpc_watched_call X fu clk now req (st, e))"
proof (cases rule: watched_cases [where X = X and xff = "req_xff req" and real = "req_real_ip req" and remote = "rq_remote req" and st = st and e = e])
  case (asked ip e1)
  note e1 = good_blocked [OF inv asked(2)]
  from good_denied [OF e1(1), of clk ip "''POST''" "rq_path req"] obtain b st' e' where
    d: "watched_denied X clk ip (Option.bind (ps_route_trie st) (match_route ''POST'' (rq_path req))) st e1 = Some (b, st', e')"
    "watched_inv g T (st', e')" "keeps_networks e1 e'" by blast
  have k: "keeps_networks e e'" using keeps_trans [OF e1(2) d(3)] .
  from asked d k good_violation [OF d(2) assms(2) k] show ?thesis
    by (cases b) (simp_all add: grpc_watched_call_def Let_def good_resultI)
qed (use inv good_blocked [OF inv] blocked_total [OF inv] keeps_refl in \<open>simp_all add: grpc_watched_call_def good_resultI\<close>)

lemma axum_good:
  assumes inv: "watched_inv g T (st, e)" and "now 1 \<le> T"
  shows "good_result g T e (axum_watched_call X fu clk now req (st, e))"
proof (cases rule: watched_cases [where X = X and xff = "req_xff req" and real = "req_real_ip req" and remote = "rq_remote req" and st = st and e = e])
  case (asked ip e1)
  note e1 = good_blocked [OF inv asked(2)]
  from good_denied [OF e1(1), of clk ip "rq_method req" "rq_path req"] obtain b st' e' where
    d: "watched_denied X clk ip (Option.bind (ps_route_trie st) (match_route (rq_method req) (rq_path req))) st e1 = Some (b, st', e')"
    "watched_inv g T (st', e')" "keeps_networks e1 e'" by blast
  have k: "keeps_networks e e'" using keeps_trans [OF e1(2) d(3)] .
  have "good_result g T e (map_option (\<lambda>(_, st, e). (out, st, e)) (watched_violation X (now 1) ip st' e'))" for out :: Outcome
    using good_violation [OF d(2) assms(2) k, of "\<lambda>_. out"] by simp
  with asked d k inv keeps_refl [OF inv] show ?thesis
    by (cases b) (simp_all add: axum_watched_call_def Let_def good_resultI)
qed (use inv good_blocked [OF inv] blocked_total [OF inv] keeps_refl in \<open>simp_all add: axum_watched_call_def Let_def good_resultI\<close>)

lemma watched_call_good:
  assumes "watched_inv g T (st, e)" and "now 1 \<le> T"
  shows "good_result g T e (watched_call X fu fw clk now req (st, e))"
  using tower_good [OF assms(1)] axum_good [of g T st e now, OF assms] grpc_good [OF assms] by (cases fw) (simp_all add: actix_as_axum)

text \<open>A request from an address on the blocklist is answered as blocked.\<close>

lemma watched_call_blocked:
  assumes "watched_inv g T (st, e)" and "\<not> bypassed fw req" and "bl_enabled (root_blocklist (radixip (ps_config st)))"
    and "extract_ip (env_net X) (req_xff req) (req_real_ip req) (rq_remote req) (mw_trusted_proxies (root_middleware (radixip (ps_config st)))) = Inr ip"
    and "answer e ip \<noteq> None"
  shows "\<exists>r st' e'. watched_call X fu fw clk now req (st, e) = Some (Answer r, st', e')
    \<and> res_status r = status_or fu (rs_blocked (mw_responses (root_middleware (radixip (ps_config st))))) 403"
proof -
  have "einv e" using assms(1) by (simp add: watched_inv_def Let_def)
  then obtain e1 where "watched_blocked X ip st e = Some (True, e1)" using watched_blocked_law [of e ip st] assms(3,5) by auto
  then show ?thesis using assms(2,4)
    by (cases fw) (auto simp: tower_watched_call_def axum_watched_call_def actix_watched_call_def grpc_watched_call_def Let_def json_def)
qed

text \<open>One event.\<close>

lemma build_state_inv:
  assumes "validate cfg = Inr ()" and "config_fits T cfg" and "einv e"
  shows "watched_inv g T (build_state X g cfg, e)"
proof -
  have "list_all (lm_inv (env_cache X)) (snd (insert_routes (env_cache X) rs (trie, ls)))" if "list_all (lm_inv (env_cache X)) ls" for rs trie ls
    using that by (induction rs arbitrary: trie ls) (simp_all add: cache.lm_inv_new)
  then have "list_all (lm_inv (env_cache X)) (snd (build_routes (env_cache X) cfg))"
    by (simp add: build_routes_def Let_def case_prod_unfold)
  then show ?thesis using build_state_wf [OF assms(1), of g X] assms(2,3) cache.lm_inv_new
    by (auto simp: watched_inv_def build_state_def from_config_with_engine_def from_config_def AutoBanTracker_new_def Let_def case_prod_unfold)
qed

lemma watcher_new_inv:
  assumes "ConfigWatcher_new_with_engine X rd fs notify_ok watch_ok path g = Inr st"
    and "\<And>raw cfg. fs raw = Inr cfg \<Longrightarrow> config_fits T cfg" and "einv e"
  shows "watched_inv g T (st, e)"
proof -
  obtain cfg where cfg: "config_from_file rd fs path = Inr cfg" "st = build_state X g cfg"
    using assms(1) by (auto simp: ConfigWatcher_new_with_engine_def Let_def split: sum.splits if_splits)
  then have "\<exists>raw. fs raw = Inr cfg" by (auto simp: config_from_file_def split: sum.splits)
  then show ?thesis using cfg(2) build_state_inv [OF config_from_file_valid [OF cfg(1)] _ assms(3)] assms(2) by blast
qed

definition system_inv :: "bool \<Rightarrow> Instant \<Rightarrow> ('n, 'c, 'v, 'b, 'e) System \<Rightarrow> bool" where
  "system_inv g T sy \<longleftrightarrow> watched_inv g T (sy_state sy, sy_engine sy)"

lemma sweep_keeps:
  assumes "einv e"
  obtains b e' where "sweep (env_net X) (env_engine X) (env_banned X) now banned e = Some (b, e')" "keeps_networks e e'"
  using sweep_law [OF assms, of now banned] that by (auto simp: keeps_networks_def)

lemma watch_step_good:
  assumes "system_inv g T sy" and "event_by T ev" and "\<And>raw cfg. fs raw = Inr cfg \<Longrightarrow> config_fits T cfg"
  shows "\<exists>outs sy'. watch_step X fu fw fs path g ev sy = Some (outs, sy') \<and> system_inv g T sy'
    \<and> keeps_networks (sy_engine sy) (sy_engine sy') \<and> length outs = (if is_request ev then 1 else 0)"
proof -
  have inv: "watched_inv g T (sy_state sy, sy_engine sy)" and e: "einv (sy_engine sy)"
    using assms(1) by (simp_all add: system_inv_def watched_inv_def Let_def)
  show ?thesis
  proof (cases ev)
    case (Request clk now req)
    with assms(2) watched_call_good [OF inv, of now fu fw clk req] show ?thesis
      by (auto simp: good_result_def system_inv_def)
  next
    case (Reload rd res)
    then show ?thesis
      using inv keeps_refl [OF inv] e build_state_inv [of _ T "sy_engine sy" g] reloaded_config_valid [of rd fs path res] assms(3)
      by (cases "reloaded_config rd fs path res") (auto simp: system_inv_def handle_event_def)
  next
    case (SweepCurrent now)
    show ?thesis
    proof (cases "ps_auto_ban (sy_state sy)")
      case None
      then show ?thesis using SweepCurrent assms(1) keeps_refl [OF inv] by simp
    next
      case (Some tr)
      obtain b e' where "sweep (env_net X) (env_engine X) (env_banned X) now (at_banned tr) (sy_engine sy) = Some (b, e')"
        "keeps_networks (sy_engine sy) e'" using sweep_keeps [OF e] by blast
      then show ?thesis using SweepCurrent Some inv
        by (simp add: system_inv_def watched_inv_def state_wf_def keeps_networks_def Let_def)
    qed
  next
    case (SweepOld i now)
    obtain b e' where "sweep (env_net X) (env_engine X) (env_banned X) now (sy_old sy ! i) (sy_engine sy) = Some (b, e')"
      "keeps_networks (sy_engine sy) e'" using sweep_keeps [OF e] by blast
    then show ?thesis using SweepOld inv keeps_refl [OF inv]
      by (auto simp: system_inv_def watched_inv_def keeps_networks_def Let_def)
  qed
qed

text \<open>Any sequence of events.\<close>

lemma watch_run_good:
  assumes "system_inv g T sy" and "list_all (event_by T) evs" and "\<And>raw cfg. fs raw = Inr cfg \<Longrightarrow> config_fits T cfg"
  shows "\<exists>outs sy'. watch_run X fu fw fs path g evs sy = Some (outs, sy') \<and> system_inv g T sy'
    \<and> keeps_networks (sy_engine sy) (sy_engine sy') \<and> length outs = length (filter is_request evs)"
  using assms(1,2)
proof (induction evs arbitrary: sy)
  case Nil
  then show ?case by (simp add: system_inv_def keeps_refl)
next
  case (Cons ev evs)
  obtain outs sy1 where s: "watch_step X fu fw fs path g ev sy = Some (outs, sy1)" "system_inv g T sy1"
      "keeps_networks (sy_engine sy) (sy_engine sy1)" "length outs = (if is_request ev then 1 else 0)"
    using watch_step_good [OF Cons.prems(1) _ assms(3)] Cons.prems(2) by fastforce
  obtain os sy' where "watch_run X fu fw fs path g evs sy1 = Some (os, sy')" "system_inv g T sy'"
      "keeps_networks (sy_engine sy1) (sy_engine sy')" "length os = length (filter is_request evs)"
    using Cons.IH [OF s(2)] Cons.prems(2) by auto
  with s show ?case using keeps_trans [OF s(3)] by auto
qed

text \<open>A network of the blocklist that is no host stays blocked through any sequence of events.\<close>

lemma network_stays_blocked:
  assumes "keeps_networks e e'" and "eabs e k = Some (n, m)" and "k \<notin> range host_key"
    and "network_contains_ip (env_net X) n ip"
  shows "answer e' ip \<noteq> None"
proof -
  have e': "einv e'" "eabs e' k = Some (n, m)" using assms(1,2,3) by (simp_all add: keeps_networks_def)
  then show ?thesis using eng.answer_None_iff [OF e'(1), of ip] assms(4) by blast
qed

end

end
