(* ===== verification/Node16Simd.thy ===== *)
theory Node16Simd
  imports Prelude
begin

text \<open>
  Key search of the 16-way node of the adaptive radix tree
  (\<open>engine/src/art/node16_simd.rs\<close>): the vector routines, with the processor intrinsics they
  use written out on lists of bytes, and the scalar loop they stand for.
\<close>

section \<open>Intrinsics\<close>

definition mm_set1_epi8 :: "u8 \<Rightarrow> u8 list" where
  "mm_set1_epi8 b = replicate 16 b"

definition mm_cmpeq_epi8 :: "u8 list \<Rightarrow> u8 list \<Rightarrow> u8 list" where
  "mm_cmpeq_epi8 a b = map2 (\<lambda>x y. if x = y then 0xFF else 0) a b"

text \<open>Bit \<open>i\<close> of the result is the top bit of byte \<open>i\<close>.\<close>

definition mm_movemask_epi8 :: "u8 list \<Rightarrow> u32" where
  "mm_movemask_epi8 v = horner_sum of_bool 2 (map (\<lambda>b. bit b 7) v)"

text \<open>Two neighbouring bytes as one 16-bit lane, little-endian; lanes shifted right and cut to
  bytes; eight bytes as one 64-bit lane.\<close>

definition vreinterpretq_u16_u8 :: "u8 list \<Rightarrow> u16 list" where
  "vreinterpretq_u16_u8 v = map (\<lambda>j. ucast (v ! (2 * j)) OR push_bit 8 (ucast (v ! (2 * j + 1)))) [0..<8]"

definition vshrn_n_u16 :: "nat \<Rightarrow> u16 list \<Rightarrow> u8 list" where
  "vshrn_n_u16 n = map (\<lambda>l. ucast (drop_bit n l))"

definition vget_lane_u64 :: "u8 list \<Rightarrow> u64" where
  "vget_lane_u64 v = foldr (\<lambda>b acc. push_bit 8 acc OR ucast b) v 0"

definition trailing_zeros :: "'a::len word \<Rightarrow> nat" where
  "trailing_zeros w = length (takeWhile (\<lambda>n. \<not> bit w n) [0..<LENGTH('a)])"

section \<open>The searches\<close>

definition find_scalar :: "u8 list \<Rightarrow> u8 \<Rightarrow> u8 \<Rightarrow> nat option" where
  "find_scalar keys target count = find (\<lambda>i. keys ! i = target) [0..<unat count]"

definition find_avx2 :: "u8 list \<Rightarrow> u8 \<Rightarrow> u8 \<Rightarrow> nat option" where
  "find_avx2 keys target count =
     (let target_vec = mm_set1_epi8 target;
          cmp = mm_cmpeq_epi8 keys target_vec;
          mask = mm_movemask_epi8 cmp;
          valid_mask = mask AND (push_bit (unat count mod 32) 1 - 1)
      in if valid_mask = 0 then None else Some (trailing_zeros valid_mask))"

definition find_sse4_1 :: "u8 list \<Rightarrow> u8 \<Rightarrow> u8 \<Rightarrow> nat option" where
  "find_sse4_1 keys target count =
     (let target_vec = mm_set1_epi8 target;
          cmp = mm_cmpeq_epi8 keys target_vec;
          mask = mm_movemask_epi8 cmp;
          valid_mask = mask AND (push_bit (unat count mod 32) 1 - 1)
      in if valid_mask = 0 then None else Some (trailing_zeros valid_mask))"

text \<open>The shift by \<open>count * 4\<close> takes its distance modulo 64 in the release build.\<close>

definition find_neon :: "u8 list \<Rightarrow> u8 \<Rightarrow> u8 \<Rightarrow> nat option" where
  "find_neon keys target count =
     (let target_vec = mm_set1_epi8 target;
          cmp = mm_cmpeq_epi8 keys target_vec;
          bit_mask = vshrn_n_u16 4 (vreinterpretq_u16_u8 cmp);
          as_u64 = vget_lane_u64 bit_mask;
          valid = as_u64 AND (push_bit (unat count * 4 mod 64) 1 - 1)
      in if valid = 0 then None else Some (trailing_zeros valid div 4))"

text \<open>The routine the target architecture and its detected features select.\<close>

datatype Isa = Avx2 | Sse41 | Neon | Scalar

definition simd_find_child :: "Isa \<Rightarrow> u8 list \<Rightarrow> u8 \<Rightarrow> u8 \<Rightarrow> nat option" where
  "simd_find_child isa keys target count =
     (if count = 0 then None
      else case isa of
        Avx2 \<Rightarrow> find_avx2 keys target count
      | Sse41 \<Rightarrow> find_sse4_1 keys target count
      | Neon \<Rightarrow> find_neon keys target count
      | Scalar \<Rightarrow> find_scalar keys target count)"

section \<open>First set bit and first match\<close>

lemma trailing_zeros_least:
  assumes "bit w n" and "\<And>i. i < n \<Longrightarrow> \<not> bit w i"
  shows "trailing_zeros w = n"
proof -
  have n: "n < LENGTH('a)" using assms(1) bit_imp_le_length [of w n] by simp
  have "[0..<LENGTH('a)] = [0..<n] @ n # [Suc n..<LENGTH('a)]"
    using n by (metis less_imp_le_nat upt_add_eq_append upt_conv_Cons add_diff_inverse_nat le0 less_imp_not_less)
  moreover have "takeWhile (\<lambda>n. \<not> bit w n) ([0..<n] @ n # xs) = [0..<n]" for xs
    using assms by (subst takeWhile_append2) auto
  ultimately show ?thesis by (simp add: trailing_zeros_def)
qed

text \<open>A mask with \<open>k\<close> bits per position: its first set bit is the first position.\<close>

lemma first_match:
  assumes "\<And>n. bit w n \<longleftrightarrow> n < k * c \<and> P (n div k)" and "0 < k"
  shows "(if w = 0 then None else Some (trailing_zeros w div k)) = find P [0..<c]"
proof (cases "find P [0..<c]")
  case None
  then have "\<not> bit w n" for n
    using assms by (auto simp: find_None_iff less_mult_imp_div_less mult.commute)
  then have "w = 0" by (intro bit_word_eqI) simp
  with None show ?thesis by simp
next
  case (Some i)
  then have i: "i < c" "P i" and first: "\<And>j. j < i \<Longrightarrow> \<not> P j"
    by (auto simp: find_Some_iff)
  have "k * i < k * c" using i(1) assms(2) by simp
  then have "bit w (k * i)" using assms i by simp
  moreover have "\<not> bit w n" if "n < k * i" for n
    using assms(1) first [of "n div k"] that assms(2) by (simp add: less_mult_imp_div_less mult.commute)
  ultimately have "trailing_zeros w = k * i" by (rule trailing_zeros_least)
  moreover have "w \<noteq> 0" using \<open>bit w (k * i)\<close> by auto
  ultimately show ?thesis using Some assms(2) by simp
qed

lemma bit_low_mask: "bit (2 ^ m - 1 :: 'a::len word) n \<longleftrightarrow> n < LENGTH('a) \<and> n < m"
proof -
  have "2 ^ m - 1 = (mask m :: 'a word)" by (simp add: mask_eq_exp_minus_1)
  then show ?thesis by (auto simp: bit_mask_iff)
qed

lemma byte_ones: "(0xFF :: u8) = - 1"
  by simp

section \<open>The x86 routines\<close>

lemma bit_movemask_cmpeq:
  assumes "length keys = 16"
  shows "bit (mm_movemask_epi8 (mm_cmpeq_epi8 keys (mm_set1_epi8 t))) n \<longleftrightarrow> n < 16 \<and> keys ! n = t"
  using assms unfolding mm_movemask_epi8_def mm_cmpeq_epi8_def byte_ones
  by (auto simp: mm_set1_epi8_def bit_horner_sum_bit_iff possible_bit_def split: if_splits)

lemma find_avx2_scalar:
  assumes "length keys = 16" and "unat count \<le> 16"
  shows "find_avx2 keys t count = find_scalar keys t count"
proof -
  let ?w = "mm_movemask_epi8 (mm_cmpeq_epi8 keys (mm_set1_epi8 t)) AND (2 ^ (unat count mod 32) - 1)"
  have "bit ?w n \<longleftrightarrow> n < 1 * unat count \<and> keys ! (n div 1) = t" for n
    using assms by (auto simp: bit_and_iff bit_movemask_cmpeq bit_low_mask)
  from first_match [OF this] show ?thesis by (auto simp: find_avx2_def find_scalar_def Let_def split: if_splits)
qed

lemma find_sse4_1_avx2: "find_sse4_1 keys t count = find_avx2 keys t count"
  by (simp add: find_sse4_1_def find_avx2_def)

section \<open>The NEON routine\<close>

lemma bit_vget_lane: "bit (vget_lane_u64 v) n \<longleftrightarrow> n < 64 \<and> n < 8 * length v \<and> bit (v ! (n div 8)) (n mod 8)"
proof (induction v arbitrary: n)
  case (Cons b v)
  have "vget_lane_u64 (b # v) = push_bit 8 (vget_lane_u64 v) OR ucast b" by (simp add: vget_lane_u64_def)
  moreover have "\<not> bit b n" if "8 \<le> n" using that bit_imp_le_length [of b n] by auto
  moreover have "(n - 8) div 8 = n div 8 - 1" "(n - 8) mod 8 = n mod 8" "n div 8 = Suc (n div 8 - 1)" if "8 \<le> n"
    using that by (simp_all add: le_div_geq le_mod_geq)
  ultimately show ?case
    by (cases "n < 8") (auto simp: bit_or_iff bit_push_bit_iff bit_ucast_iff Cons.IH [of "n - 8"])
qed (simp add: vget_lane_u64_def)

lemma bit_neon_mask:
  assumes "length keys = 16"
  shows "bit (vget_lane_u64 (vshrn_n_u16 4 (vreinterpretq_u16_u8 (mm_cmpeq_epi8 keys (mm_set1_epi8 t))))) n
    \<longleftrightarrow> n < 64 \<and> keys ! (n div 4) = t"
proof (cases "n < 64")
  case True
  let ?cmp = "mm_cmpeq_epi8 keys (mm_set1_epi8 t)"
  define j r where "j = n div 8" and "r = n mod 8"
  have jr: "j < 8" "r < 8" "n = 8 * j + r" using True by (auto simp: j_def r_def)
  have byte: "bit (?cmp ! i) m \<longleftrightarrow> m < 8 \<and> keys ! i = t" if "i < 16" for i m
    using that assms unfolding mm_cmpeq_epi8_def byte_ones by (auto simp: mm_set1_epi8_def)
  have "bit (vget_lane_u64 (vshrn_n_u16 4 (vreinterpretq_u16_u8 ?cmp))) n \<longleftrightarrow>
      bit (ucast (?cmp ! (2 * j)) OR push_bit 8 (ucast (?cmp ! (2 * j + 1))) :: u16) (4 + r)"
    using jr(1,2) True unfolding j_def r_def
    by (simp add: bit_vget_lane vshrn_n_u16_def vreinterpretq_u16_u8_def bit_ucast_iff bit_drop_bit_eq bit_or_iff)
  also have "\<dots> \<longleftrightarrow> (if r < 4 then keys ! (2 * j) = t else keys ! (2 * j + 1) = t)"
    using jr(1,2) less_imp_diff_less [OF jr(2), of 4] byte [of "2 * j" "4 + r"] byte [of "2 * j + 1" "4 + r - 8"]
    by (cases "r < 4") (simp_all add: bit_or_iff bit_push_bit_iff bit_ucast_iff)
  also have "\<dots> \<longleftrightarrow> keys ! (n div 4) = t"
  proof -
    have "n div 4 = 2 * j + r div 4" unfolding jr(3)
      using div_mult_self2 [of 4 r "2 * j"] by (simp add: add.commute)
    moreover have "r div 4 = (if r < 4 then 0 else 1)" using jr(2) by (simp add: div_nat_eqI)
    ultimately show ?thesis by simp
  qed
  finally show ?thesis using True by simp
qed (simp add: bit_vget_lane)

lemma find_neon_scalar:
  assumes "length keys = 16" and "unat count < 16"
  shows "find_neon keys t count = find_scalar keys t count"
proof -
  let ?w = "vget_lane_u64 (vshrn_n_u16 4 (vreinterpretq_u16_u8 (mm_cmpeq_epi8 keys (mm_set1_epi8 t))))
    AND (2 ^ (unat count * 4 mod 64) - 1)"
  have "bit ?w n \<longleftrightarrow> n < 4 * unat count \<and> keys ! (n div 4) = t" for n
    using assms by (auto simp: bit_and_iff bit_neon_mask bit_low_mask)
  from first_match [OF this] show ?thesis by (auto simp: find_neon_def find_scalar_def Let_def split: if_splits)
qed

text \<open>With sixteen keys the shift distance is 64, which wraps to 0: the mask is empty.\<close>

lemma find_neon_full: "find_neon keys t 16 = None"
  by (simp add: find_neon_def Let_def)

text \<open>Every routine is the scalar search, the NEON one for fewer than sixteen keys.\<close>

lemma simd_find_child_scalar:
  assumes "length keys = 16" and "unat count \<le> 16" and "isa = Neon \<Longrightarrow> unat count < 16"
  shows "simd_find_child isa keys t count = find_scalar keys t count"
  using assms
  by (cases isa) (auto simp: simd_find_child_def find_avx2_scalar find_sse4_1_avx2 find_neon_scalar find_scalar_def)

end
