(* ===== verification/ArtNode.thy ===== *)
theory ArtNode
  imports Node16Simd
begin

text \<open>
  The nodes of the adaptive radix tree (\<open>engine/src/art/mod.rs\<close>). A raw pointer is an
  option (\<open>None\<close> is null) of the type \<open>'a\<close> of what it points to; arrays are lists of the
  array's length. \<open>isa\<close> selects the vector routine of the 16-way node.
\<close>

section \<open>Data\<close>

datatype NodeType = NT_Node4 | NT_Node16 | NT_Node48 | NT_Node256 | NT_Leaf

record Header =
  h_node_type :: NodeType
  h_num_children :: u8
  h_prefix_len :: u8
  h_prefix :: "u8 list"

text \<open>The structs of the five kinds are the arguments of the constructors; a leaf holds the value
  pointer, the prefix length and the 16 bytes of the masked key.\<close>

datatype 'a NodeBox =
    N4 Header "u8 list" "'a option list"
  | N16 Header "u8 list" "'a option list"
  | N48 Header "u8 list" "'a option list"
  | N256 Header "'a option list"
  | Leaf "'a option" u8 "u8 list"

definition Node4_default :: "'a NodeBox" where
  "Node4_default = N4 \<lparr>h_node_type = NT_Node4, h_num_children = 0, h_prefix_len = 0, h_prefix = replicate 8 0\<rparr>
     (replicate 4 0) (replicate 4 None)"

text \<open>\<open>0xFF << (8 - remain_bits)\<close>.\<close>

definition boundary_mask :: "nat \<Rightarrow> u8" where
  "boundary_mask remain_bits = push_bit (8 - remain_bits) 0xFF"

definition leaf_matches :: "u8 \<Rightarrow> u8 list \<Rightarrow> u8 list \<Rightarrow> bool" where
  "leaf_matches prefix_len masked_key ip =
     (let full_bytes = unat prefix_len div 8; remain_bits = unat prefix_len mod 8 in
      list_all (\<lambda>i. ip ! i = masked_key ! i) [0..<min full_bytes (length ip)]
      \<and> (remain_bits > 0 \<and> full_bytes < length ip \<longrightarrow>
           ip ! full_bytes AND boundary_mask remain_bits = masked_key ! full_bytes AND boundary_mask remain_bits))"

section \<open>Queries\<close>

fun node_type :: "'a NodeBox \<Rightarrow> NodeType" where
  "node_type (N4 _ _ _) = NT_Node4"
| "node_type (N16 _ _ _) = NT_Node16"
| "node_type (N48 _ _ _) = NT_Node48"
| "node_type (N256 _ _) = NT_Node256"
| "node_type (Leaf _ _ _) = NT_Leaf"

fun is_empty :: "'a NodeBox \<Rightarrow> bool" where
  "is_empty (N4 h _ _) = (h_num_children h = 0)"
| "is_empty (N16 h _ _) = (h_num_children h = 0)"
| "is_empty (N48 h _ _) = (h_num_children h = 0)"
| "is_empty (N256 h _) = (h_num_children h = 0)"
| "is_empty (Leaf _ _ _) = False"

fun is_full :: "'a NodeBox \<Rightarrow> bool" where
  "is_full (N4 h _ _) = (4 \<le> h_num_children h)"
| "is_full (N16 h _ _) = (16 \<le> h_num_children h)"
| "is_full (N48 h _ _) = (48 \<le> h_num_children h)"
| "is_full (N256 h _) = (255 \<le> h_num_children h)"
| "is_full (Leaf _ _ _) = True"

fun max_children :: "'a NodeBox \<Rightarrow> u16" where
  "max_children (N4 _ _ _) = 4"
| "max_children (N16 _ _ _) = 16"
| "max_children (N48 _ _ _) = 48"
| "max_children (N256 _ _) = 256"
| "max_children (Leaf _ _ _) = 0"

fun min_children :: "'a NodeBox \<Rightarrow> u8" where
  "min_children (N4 _ _ _) = 1"
| "min_children (N16 _ _ _) = 4"
| "min_children (N48 _ _ _) = 17"
| "min_children (N256 _ _) = 49"
| "min_children (Leaf _ _ _) = 0"

text \<open>The search loop of the 4-way node is the scalar search.\<close>

fun find_child :: "Isa \<Rightarrow> 'a NodeBox \<Rightarrow> u8 \<Rightarrow> 'a option option" where
  "find_child isa (N4 h keys ch) byte = map_option (nth ch) (find_scalar keys byte (h_num_children h))"
| "find_child isa (N16 h keys ch) byte = map_option (nth ch) (simd_find_child isa keys byte (h_num_children h))"
| "find_child isa (N48 h index ch) byte =
     (let idx = index ! unat byte in if idx < 48 then Some (ch ! unat idx) else None)"
| "find_child isa (N256 h ch) byte =
     (let child = ch ! unat byte in if child \<noteq> None then Some child else None)"
| "find_child isa (Leaf _ _ _) byte = None"

section \<open>Adding a child\<close>

text \<open>The copies into the next larger node.\<close>

definition grow_4_16 :: "Header \<Rightarrow> u8 list \<Rightarrow> 'a option list \<Rightarrow> Header \<times> u8 list \<times> 'a option list" where
  "grow_4_16 h keys ch =
     (let n = unat (h_num_children h) in
      (h\<lparr>h_node_type := NT_Node16\<rparr>, take n keys @ replicate (16 - n) 0, take n ch @ replicate (16 - n) None))"

definition grow_16_48 :: "Header \<Rightarrow> u8 list \<Rightarrow> 'a option list \<Rightarrow> Header \<times> u8 list \<times> 'a option list" where
  "grow_16_48 h keys ch =
     (let n = unat (h_num_children h) in
      (h\<lparr>h_node_type := NT_Node48\<rparr>,
       fold (\<lambda>i index. index[unat (keys ! i) := of_nat i]) [0..<n] (replicate 256 48),
       take n ch @ replicate (48 - n) None))"

definition grow_48_256 :: "Header \<Rightarrow> u8 list \<Rightarrow> 'a option list \<Rightarrow> Header \<times> 'a option list" where
  "grow_48_256 h index ch =
     (h\<lparr>h_node_type := NT_Node256\<rparr>,
      map (\<lambda>i. let idx = index ! i in if unat idx < 48 then ch ! unat idx else None) [0..<256])"

definition add_child_256 :: "u8 \<Rightarrow> 'a option \<Rightarrow> Header \<Rightarrow> 'a option list \<Rightarrow> 'a NodeBox" where
  "add_child_256 byte child h ch =
     N256 (if ch ! unat byte = None then h\<lparr>h_num_children := h_num_children h + 1\<rparr> else h) (ch[unat byte := child])"

definition add_child_48 :: "u8 \<Rightarrow> 'a option \<Rightarrow> Header \<Rightarrow> u8 list \<Rightarrow> 'a option list \<Rightarrow> 'a NodeBox" where
  "add_child_48 byte child h index ch =
     (if 48 \<le> h_num_children h
      then (case grow_48_256 h index ch of (h', ch') \<Rightarrow> add_child_256 byte child h' ch')
      else (let idx = h_num_children h;
                index = index[unat byte := idx];
                ch = ch[unat idx := child];
                h = h\<lparr>h_num_children := h_num_children h + 1\<rparr>
            in if 45 \<le> h_num_children h
               then (case grow_48_256 h index ch of (h', ch') \<Rightarrow> N256 h' ch')
               else N48 h index ch))"

definition add_child_16 :: "u8 \<Rightarrow> 'a option \<Rightarrow> Header \<Rightarrow> u8 list \<Rightarrow> 'a option list \<Rightarrow> 'a NodeBox" where
  "add_child_16 byte child h keys ch =
     (if 16 \<le> h_num_children h
      then (case grow_16_48 h keys ch of (h', index, ch') \<Rightarrow> add_child_48 byte child h' index ch')
      else (let idx = unat (h_num_children h) in
            N16 (h\<lparr>h_num_children := h_num_children h + 1\<rparr>) (keys[idx := byte]) (ch[idx := child])))"

definition add_child_4 :: "u8 \<Rightarrow> 'a option \<Rightarrow> Header \<Rightarrow> u8 list \<Rightarrow> 'a option list \<Rightarrow> 'a NodeBox" where
  "add_child_4 byte child h keys ch =
     (if 4 \<le> h_num_children h
      then (case grow_4_16 h keys ch of (h', keys', ch') \<Rightarrow> add_child_16 byte child h' keys' ch')
      else (let idx = unat (h_num_children h) in
            N4 (h\<lparr>h_num_children := h_num_children h + 1\<rparr>) (keys[idx := byte]) (ch[idx := child])))"

fun add_child :: "u8 \<Rightarrow> 'a option \<Rightarrow> 'a NodeBox \<Rightarrow> 'a NodeBox" where
  "add_child byte child (N4 h keys ch) = add_child_4 byte child h keys ch"
| "add_child byte child (N16 h keys ch) = add_child_16 byte child h keys ch"
| "add_child byte child (N48 h index ch) = add_child_48 byte child h index ch"
| "add_child byte child (N256 h ch) = add_child_256 byte child h ch"
| "add_child byte child (Leaf v p mk) = Leaf child p mk"

section \<open>Removing and replacing a child\<close>

text \<open>The loop that shifts the entries after position \<open>i\<close> one to the left; the last slot keeps
  its old content.\<close>

definition shift_left :: "nat \<Rightarrow> nat \<Rightarrow> 'b list \<Rightarrow> 'b list" where
  "shift_left i n xs = map (\<lambda>j. if i \<le> j \<and> j < n - 1 then xs ! (j + 1) else xs ! j) [0..<length xs]"

definition remove_child_4 :: "u8 \<Rightarrow> Header \<Rightarrow> u8 list \<Rightarrow> 'a option list \<Rightarrow> 'a NodeBox" where
  "remove_child_4 byte h keys ch =
     (case find_scalar keys byte (h_num_children h) of
        None \<Rightarrow> N4 h keys ch
      | Some i \<Rightarrow> (let n = unat (h_num_children h) in
          N4 (h\<lparr>h_num_children := h_num_children h - 1\<rparr>) (shift_left i n keys) (shift_left i n ch)))"

definition remove_child_16 :: "u8 \<Rightarrow> Header \<Rightarrow> u8 list \<Rightarrow> 'a option list \<Rightarrow> 'a NodeBox" where
  "remove_child_16 byte h keys ch =
     (case find_scalar keys byte (h_num_children h) of
        None \<Rightarrow> N16 h keys ch
      | Some i \<Rightarrow>
          (let n = unat (h_num_children h);
               keys = shift_left i n keys; ch = shift_left i n ch;
               h = h\<lparr>h_num_children := h_num_children h - 1\<rparr>;
               m = unat (h_num_children h)
           in if h_num_children h < 4
              then N4 (h\<lparr>h_node_type := NT_Node4\<rparr>) (take m keys @ replicate (4 - m) 0) (take m ch @ replicate (4 - m) None)
              else N16 h keys ch))"

definition shrink_48_16 :: "Header \<Rightarrow> u8 list \<Rightarrow> 'a option list \<Rightarrow> 'a NodeBox" where
  "shrink_48_16 h index ch =
     (let used = filter (\<lambda>i. unat (index ! i) < 48 \<and> ch ! unat (index ! i) \<noteq> None) [0..<256];
          m = length used
      in N16 (h\<lparr>h_num_children := of_nat m, h_node_type := NT_Node16\<rparr>)
           (map of_nat used @ replicate (16 - m) 0)
           (map (\<lambda>i. ch ! unat (index ! i)) used @ replicate (16 - m) None))"

definition remove_child_48 :: "u8 \<Rightarrow> Header \<Rightarrow> u8 list \<Rightarrow> 'a option list \<Rightarrow> 'a NodeBox" where
  "remove_child_48 byte h index ch =
     (let idx = index ! unat byte in
      if unat idx < 48 then
        (let ch = ch[unat idx := None]; index = index[unat byte := 48];
             h = h\<lparr>h_num_children := h_num_children h - 1\<rparr>
         in if h_num_children h < 17 then shrink_48_16 h index ch else N48 h index ch)
      else N48 h index ch)"

definition shrink_256_48 :: "Header \<Rightarrow> 'a option list \<Rightarrow> 'a NodeBox" where
  "shrink_256_48 h ch =
     (let used = filter (\<lambda>i. ch ! i \<noteq> None) [0..<256]; m = length used
      in N48 (h\<lparr>h_node_type := NT_Node48, h_num_children := of_nat m\<rparr>)
           (fold (\<lambda>k index. index[used ! k := of_nat k]) [0..<m] (replicate 256 48))
           (map (\<lambda>i. ch ! i) used @ replicate (48 - m) None))"

definition remove_child_256 :: "u8 \<Rightarrow> Header \<Rightarrow> 'a option list \<Rightarrow> 'a NodeBox" where
  "remove_child_256 byte h ch =
     (if ch ! unat byte \<noteq> None then
        (let ch = ch[unat byte := None]; h = h\<lparr>h_num_children := h_num_children h - 1\<rparr>
         in if h_num_children h < 49 then shrink_256_48 h ch else N256 h ch)
      else N256 h ch)"

fun remove_child :: "u8 \<Rightarrow> 'a NodeBox \<Rightarrow> 'a NodeBox" where
  "remove_child byte (N4 h keys ch) = remove_child_4 byte h keys ch"
| "remove_child byte (N16 h keys ch) = remove_child_16 byte h keys ch"
| "remove_child byte (N48 h index ch) = remove_child_48 byte h index ch"
| "remove_child byte (N256 h ch) = remove_child_256 byte h ch"
| "remove_child byte (Leaf _ _ _) = Leaf None 0 (replicate 16 0)"

fun update_child :: "u8 \<Rightarrow> 'a option \<Rightarrow> 'a NodeBox \<Rightarrow> 'a NodeBox" where
  "update_child byte c (N4 h keys ch) =
     (case find_scalar keys byte (h_num_children h) of None \<Rightarrow> N4 h keys ch | Some i \<Rightarrow> N4 h keys (ch[i := c]))"
| "update_child byte c (N16 h keys ch) =
     (case find_scalar keys byte (h_num_children h) of None \<Rightarrow> N16 h keys ch | Some i \<Rightarrow> N16 h keys (ch[i := c]))"
| "update_child byte c (N48 h index ch) =
     (let idx = index ! unat byte in if unat idx < 48 then N48 h index (ch[unat idx := c]) else N48 h index ch)"
| "update_child byte c (N256 h ch) = N256 h (ch[unat byte := c])"
| "update_child byte c (Leaf v p mk) = Leaf v p mk"

section \<open>Nodes as finite maps\<close>

text \<open>The used slots of a 4-way or 16-way node as an association list.\<close>

definition slots :: "u8 \<Rightarrow> u8 list \<Rightarrow> 'a option list \<Rightarrow> (u8 \<times> 'a option) list" where
  "slots n keys ch = zip (take (unat n) keys) (take (unat n) ch)"

definition slots_inv :: "nat \<Rightarrow> Header \<Rightarrow> u8 list \<Rightarrow> 'a option list \<Rightarrow> bool" where
  "slots_inv c h keys ch \<longleftrightarrow>
     length keys = c \<and> length ch = c \<and> unat (h_num_children h) \<le> c
     \<and> distinct (take (unat (h_num_children h)) keys) \<and> None \<notin> set (take (unat (h_num_children h)) ch)"

definition used :: "u8 list \<Rightarrow> nat set" where
  "used index = {i. i < 256 \<and> index ! i < 48}"

definition index_inv :: "Header \<Rightarrow> u8 list \<Rightarrow> 'a option list \<Rightarrow> bool" where
  "index_inv h index ch \<longleftrightarrow>
     length index = 256 \<and> length ch = 48 \<and> inj_on (nth index) (used index)
     \<and> (\<forall>i\<in>used index. ch ! unat (index ! i) \<noteq> None) \<and> card (used index) = unat (h_num_children h)"

definition direct_inv :: "Header \<Rightarrow> 'a option list \<Rightarrow> bool" where
  "direct_inv h ch \<longleftrightarrow>
     length ch = 256 \<and> card {i. i < 256 \<and> ch ! i \<noteq> None} mod 256 = unat (h_num_children h)"

fun node_inv :: "'a NodeBox \<Rightarrow> bool" where
  "node_inv (N4 h keys ch) = slots_inv 4 h keys ch"
| "node_inv (N16 h keys ch) = slots_inv 16 h keys ch"
| "node_inv (N48 h index ch) = index_inv h index ch"
| "node_inv (N256 h ch) = direct_inv h ch"
| "node_inv (Leaf _ _ _) = False"

text \<open>The slots of a 48-way node are filled from the left: what \<^const>\<open>add_child_48\<close> relies on.\<close>

fun compact :: "'a NodeBox \<Rightarrow> bool" where
  "compact (N48 h index ch) = (\<forall>i\<in>used index. index ! i < h_num_children h)"
| "compact _ = True"

subsection \<open>Slots\<close>

lemma find_append_case: "find P (xs @ ys) = (case find P xs of None \<Rightarrow> find P ys | Some x \<Rightarrow> Some x)"
  by (induction xs) auto

lemma find_scalar_slots:
  assumes "unat n \<le> length keys" and "unat n \<le> length ch"
  shows "map_option (nth ch) (find_scalar keys b n) = map_of (slots n keys ch) b"
proof -
  have "map_option (nth ch) (find (\<lambda>i. keys ! i = b) [0..<k]) = map_of (zip (take k keys) (take k ch)) b"
    if "k \<le> length keys" "k \<le> length ch" for k
    using that
  proof (induction k)
    case (Suc k)
    then have IH: "map_of (zip (take k keys) (take k ch)) b = map_option (nth ch) (find (\<lambda>i. keys ! i = b) [0..<k])"
      by simp
    show ?case using Suc.prems
      by (simp add: take_Suc_conv_app_nth map_add_def find_append_case IH split: option.splits)
  qed simp
  with assms show ?thesis by (simp add: find_scalar_def slots_def)
qed

lemma find_scalar_nth:
  assumes "find_scalar keys b n = Some i"
  shows "i < unat n" and "keys ! i = b"
  using assms by (auto simp: find_scalar_def find_Some_iff)

lemma unat_u8: "unat (b :: u8) < 256"
  using unsigned_less [where w = b, where 'a = nat] by simp

lemma unat_eq_u8: "unat (x :: u8) = unat y \<longleftrightarrow> x = y"
  by (auto intro: unsigned_word_eqI)

lemma unat_Suc_u8: "n < (255 :: u8) \<Longrightarrow> unat (n + 1) = Suc (unat n)"
  by (simp add: unat_word_ariths(1) word_less_nat_alt)

lemma unat_pred_u8: "0 < unat n \<Longrightarrow> unat (n - 1 :: u8) = unat n - 1"
  by (metis One_nat_def Suc_leI unat_eq_0 unat_minus_one neq0_conv unat_0)

lemma slots_push:
  assumes "slots_inv c h keys ch" and "unat (h_num_children h) < c" and "c \<le> 16"
    and "map_of (slots (h_num_children h) keys ch) b = None" and "v \<noteq> None"
  defines "h' \<equiv> h\<lparr>h_num_children := h_num_children h + 1\<rparr>" and "i \<equiv> unat (h_num_children h)"
  shows "slots_inv c h' (keys[i := b]) (ch[i := v])"
    and "map_of (slots (h_num_children h') (keys[i := b]) (ch[i := v])) b' =
      (if b' = b then Some v else map_of (slots (h_num_children h) keys ch) b')"
proof -
  have i: "i < c" "length keys = c" "length ch = c" using assms by (auto simp: slots_inv_def)
  have n: "unat (h_num_children h') = Suc i"
    using assms(2,3) unat_Suc_u8 [of "h_num_children h"] by (simp add: h'_def i_def word_less_nat_alt)
  have k: "take (Suc i) (keys[i := b]) = take i keys @ [b]" "take (Suc i) (ch[i := v]) = take i ch @ [v]"
    using i by (simp_all add: take_Suc_conv_app_nth)
  have fresh: "b \<notin> set (take i keys)"
    using assms(4) i dom_map_of_zip [of "take i keys" "take i ch"] by (auto simp: slots_def i_def)
  show "slots_inv c h' (keys[i := b]) (ch[i := v])"
    using assms(1,5) i n k fresh by (auto simp: slots_inv_def i_def)
  have "slots (h_num_children h') (keys[i := b]) (ch[i := v]) = slots (h_num_children h) keys ch @ [(b, v)]"
    unfolding slots_def n k i_def [symmetric] using i by simp
  then show "map_of (slots (h_num_children h') (keys[i := b]) (ch[i := v])) b' =
      (if b' = b then Some v else map_of (slots (h_num_children h) keys ch) b')"
    using assms(4) by (auto simp del: map_of_eq_None_iff simp: map_add_def split: option.splits)
qed

lemma length_shift_left [simp]: "length (shift_left i n xs) = length xs"
  by (simp add: shift_left_def)

lemma take_shift_left:
  assumes "i < n" and "n \<le> length xs"
  shows "take (n - 1) (shift_left i n xs) = take i xs @ drop (Suc i) (take n xs)"
  using assms by (intro nth_equalityI) (auto simp: shift_left_def nth_append min_def split: if_splits)

lemma map_of_remove_nth:
  assumes "distinct (map fst xs)" and "i < length xs" and "fst (xs ! i) = b"
  shows "map_of (take i xs @ drop (Suc i) xs) b' = (if b' = b then None else map_of xs b')"
proof -
  have xs: "xs = take i xs @ xs ! i # drop (Suc i) xs" using assms(2) by (simp add: id_take_nth_drop)
  have d: "distinct (map fst (take i xs @ xs ! i # drop (Suc i) xs))" using assms(1) xs by simp
  have "map_of xs b' = map_of (take i xs @ xs ! i # drop (Suc i) xs) b'" using xs by simp
  moreover have "map_of (take i xs) b = None" "map_of (drop (Suc i) xs) b = None"
    using d assms(3) by (auto simp: map_of_eq_None_iff)
  ultimately show ?thesis using assms(3) by (cases "xs ! i") (auto simp: map_add_def split: option.splits)
qed

lemma slots_drop:
  assumes "slots_inv c h keys ch" and "find_scalar keys b (h_num_children h) = Some i"
  defines "n \<equiv> unat (h_num_children h)" and "h' \<equiv> h\<lparr>h_num_children := h_num_children h - 1\<rparr>"
  shows "slots_inv c h' (shift_left i n keys) (shift_left i n ch)"
    and "map_of (slots (h_num_children h') (shift_left i n keys) (shift_left i n ch)) b' =
      (if b' = b then None else map_of (slots (h_num_children h) keys ch) b')"
proof -
  note i = find_scalar_nth [OF assms(2), folded n_def]
  have l: "length keys = c" "length ch = c" "n \<le> c" and d: "distinct (take n keys)" and nn: "None \<notin> set (take n ch)"
    using assms(1) by (auto simp: slots_inv_def n_def)
  have n': "unat (h_num_children h') = n - 1"
    using i(1) unat_pred_u8 [of "h_num_children h"] by (simp add: h'_def n_def)
  have t: "take (n - 1) (shift_left i n keys) = take i keys @ drop (Suc i) (take n keys)"
    "take (n - 1) (shift_left i n ch) = take i ch @ drop (Suc i) (take n ch)"
    using i l take_shift_left [of i n keys] take_shift_left [of i n ch] by auto
  have tk: "take i keys = take i (take n keys)" "take i ch = take i (take n ch)" using i by simp_all
  have d': "distinct (take i keys @ drop (Suc i) (take n keys))"
    using d id_take_nth_drop [of i "take n keys"] i l unfolding tk(1)
    by (metis distinct.simps(2) distinct_append length_take min.absorb2 set_ConsD Int_insert_right_if0
        distinct_take distinct_drop disjoint_insert(1) list.simps(15))
  have nn': "None \<notin> set (take i ch @ drop (Suc i) (take n ch))"
    unfolding set_append Un_iff by (metis nn tk(2) in_set_takeD in_set_dropD)
  show "slots_inv c h' (shift_left i n keys) (shift_left i n ch)"
    unfolding slots_inv_def n' t using l d' nn' by simp
  have z: "zip (take i keys @ drop (Suc i) (take n keys)) (take i ch @ drop (Suc i) (take n ch)) =
      take i (zip (take n keys) (take n ch)) @ drop (Suc i) (zip (take n keys) (take n ch))"
    using i l by (simp add: take_zip drop_zip min_def)
  have "map_of (take i (zip (take n keys) (take n ch)) @ drop (Suc i) (zip (take n keys) (take n ch))) b' =
      (if b' = b then None else map_of (zip (take n keys) (take n ch)) b')"
    by (rule map_of_remove_nth) (use i l d in auto)
  then show "map_of (slots (h_num_children h') (shift_left i n keys) (shift_left i n ch)) b' =
      (if b' = b then None else map_of (slots (h_num_children h) keys ch) b')"
    unfolding slots_def n' t z n_def [symmetric] .
qed

subsection \<open>Index arrays\<close>

lemma fold_index:
  assumes "inj_on f {..<n}" and "f ` {..<n} \<subseteq> {..<256}"
  defines "X \<equiv> fold (\<lambda>i index. index[f i := of_nat i]) [0..<n] (replicate 256 (48 :: u8))"
  shows "length X = 256" and "\<And>i. i < n \<Longrightarrow> X ! f i = of_nat i"
    and "\<And>b. b < 256 \<Longrightarrow> b \<notin> f ` {..<n} \<Longrightarrow> X ! b = 48"
proof -
  have "let X = fold (\<lambda>i index. index[f i := of_nat i]) [0..<m] (replicate 256 (48 :: u8)) in
      length X = 256 \<and> (\<forall>i<m. X ! f i = of_nat i) \<and> (\<forall>b<256. b \<notin> f ` {..<m} \<longrightarrow> X ! b = 48)"
    if "m \<le> n" for m
    using that
  proof (induction m)
    case (Suc m)
    define Y where "Y = fold (\<lambda>i index. index[f i := of_nat i]) [0..<m] (replicate 256 (48 :: u8))"
    have Y: "length Y = 256" "\<And>i. i < m \<Longrightarrow> Y ! f i = of_nat i" "\<And>b. b < 256 \<Longrightarrow> b \<notin> f ` {..<m} \<Longrightarrow> Y ! b = 48"
      using Suc by (auto simp: Y_def Let_def)
    have fm: "f m < 256" using assms(2) Suc.prems by (simp add: image_subset_iff Suc_le_eq)
    have "f m \<noteq> f i" if "i < m" for i
      using assms(1) Suc.prems that by (auto dest: inj_onD)
    then have "\<forall>i<Suc m. Y[f m := of_nat m] ! f i = of_nat i" using Y fm by (auto simp: less_Suc_eq)
    moreover have "\<forall>b<256. b \<notin> f ` {..<Suc m} \<longrightarrow> Y[f m := of_nat m] ! b = 48"
      using Y by (auto simp: lessThan_Suc)
    ultimately show ?case using Y(1) by (simp add: Let_def Y_def [symmetric])
  qed simp
  from this [of n]
  show "length X = 256" and "\<And>i. i < n \<Longrightarrow> X ! f i = of_nat i"
    and "\<And>b. b < 256 \<Longrightarrow> b \<notin> f ` {..<n} \<Longrightarrow> X ! b = 48"
    by (auto simp: X_def Let_def)
qed

lemma unat_of_small: "i < 48 \<Longrightarrow> unat (of_nat i :: u8) = i"
  by (simp add: unat_of_nat)

lemma of_small_less: "i < 48 \<Longrightarrow> (of_nat i :: u8) < 48"
  by (simp add: word_less_nat_alt unat_of_small)

text \<open>A freshly built 48-way node.\<close>

lemma index_new:
  assumes "inj_on f {..<n}" and "f ` {..<n} \<subseteq> {..<256}" and "n \<le> 48"
    and "length vs = n" and "None \<notin> set vs" and "unat (h_num_children h) = n"
  defines "X \<equiv> fold (\<lambda>i index. index[f i := of_nat i]) [0..<n] (replicate 256 48)"
    and "ch \<equiv> vs @ replicate (48 - n) None"
  shows "index_inv h X ch" and "compact (N48 h X ch)"
    and "\<And>i. i < n \<Longrightarrow> find_child isa (N48 h X ch) (of_nat (f i)) = Some (vs ! i)"
    and "\<And>b. unat b \<notin> f ` {..<n} \<Longrightarrow> find_child isa (N48 h X ch) b = None"
proof -
  note X = fold_index [OF assms(1,2), folded X_def]
  have at: "unat (X ! f i) = i" "X ! f i < 48" if "i < n" for i
    using that X(2) assms(3) by (auto simp: unat_of_small of_small_less)
  have used: "used X = f ` {..<n}"
    using X(3) at assms(2) by (auto simp: used_def) (metis imageI lessThan_iff less_irrefl)
  have inj: "inj_on (nth X) (used X)"
    unfolding used by (rule inj_onI) (metis (no_types, lifting) at(1) image_iff lessThan_iff)
  have ch: "ch ! i = vs ! i" if "i < n" for i using that assms(4) by (simp add: ch_def nth_append)
  have nn: "\<forall>i\<in>used X. ch ! unat (X ! i) \<noteq> None"
    unfolding used using at ch assms(4,5) by (auto simp: in_set_conv_nth)
  have "card (used X) = n" unfolding used using assms(1) by (simp add: card_image)
  then show "index_inv h X ch" using X(1) inj nn assms(3,4,6) by (simp add: index_inv_def ch_def)
  show "compact (N48 h X ch)" using at assms(6) by (auto simp: used word_less_nat_alt)
  have f: "unat (of_nat (f i) :: u8) = f i" if "i < n" for i
    using that assms(2) by (auto simp: unat_of_nat)
  show "find_child isa (N48 h X ch) (of_nat (f i)) = Some (vs ! i)" if "i < n" for i
    using at [OF that] ch [OF that] f [OF that] by simp
  show "find_child isa (N48 h X ch) b = None" if "unat b \<notin> f ` {..<n}" for b
    using X(3) [OF _ that] unat_u8 [of b] by simp
qed

text \<open>Writing one entry of the index array, and clearing one.\<close>

lemma used_set: "length index = 256 \<Longrightarrow> b < 256 \<Longrightarrow> i < 48 \<Longrightarrow> used (index[b := i]) = insert b (used index)"
  by (auto simp: used_def nth_list_update)

lemma used_clear: "length index = 256 \<Longrightarrow> b < 256 \<Longrightarrow> used (index[b := 48]) = used index - {b}"
  by (auto simp: used_def nth_list_update split: if_splits)

lemma finite_used [simp]: "finite (used index)"
  by (simp add: used_def)

lemma used_find: "find_child isa (N48 h index ch) b = (if unat b \<in> used index then Some (ch ! unat (index ! unat b)) else None)"
  using unat_u8 [of b] by (simp add: used_def)

lemma index_push:
  assumes "index_inv h index ch" and "compact (N48 h index ch)" and "h_num_children h < 48"
    and "find_child isa (N48 h index ch) b = None" and "v \<noteq> None"
  defines "h' \<equiv> h\<lparr>h_num_children := h_num_children h + 1\<rparr>"
    and "index' \<equiv> index[unat b := h_num_children h]" and "ch' \<equiv> ch[unat (h_num_children h) := v]"
  shows "index_inv h' index' ch'" and "compact (N48 h' index' ch')"
    and "find_child isa (N48 h' index' ch') b' = (if b' = b then Some v else find_child isa (N48 h index ch) b')"
proof -
  let ?n = "h_num_children h"
  have b: "unat b < 256" using unat_u8 [of b] by simp
  have n: "unat ?n < 48" using assms(3) by (simp add: word_less_nat_alt)
  have n': "unat (h_num_children h') = Suc (unat ?n)" using n unat_Suc_u8 [of ?n] by (simp add: h'_def word_less_nat_alt)
  have l: "length index = 256" "length ch = 48" and inj: "inj_on (nth index) (used index)"
    and nn: "\<forall>i\<in>used index. ch ! unat (index ! i) \<noteq> None" and card: "card (used index) = unat ?n"
    using assms(1) by (auto simp: index_inv_def)
  have below: "index ! i < ?n" if "i \<in> used index" for i using assms(2) that by simp
  have fresh: "unat b \<notin> used index" using assms(4) unfolding used_find by (simp split: if_splits)
  have used: "used index' = insert (unat b) (used index)" unfolding index'_def by (rule used_set [OF l(1) b assms(3)])
  have at: "index' ! unat b = ?n" using l b by (simp add: index'_def)
  have at': "index' ! i = index ! i" if "i \<in> used index" for i using that fresh unfolding index'_def by (metis nth_list_update_neq)
  have ch: "ch' ! unat (index ! i) = ch ! unat (index ! i)" if "i \<in> used index" for i
    using below [OF that] by (auto simp: ch'_def word_less_nat_alt)
  have "inj_on (nth index') (used index')"
    unfolding used using inj fresh at at' below by (auto simp: inj_on_def dest!: below)
  moreover have "\<forall>i\<in>used index'. ch' ! unat (index' ! i) \<noteq> None"
    unfolding used using at at' ch nn assms(5) n l by (auto simp: ch'_def)
  moreover have "card (used index') = unat (h_num_children h')" unfolding used n' using fresh card by simp
  ultimately show "index_inv h' index' ch'" using l by (simp add: index_inv_def) (simp add: index'_def ch'_def)
  show "compact (N48 h' index' ch')"
    unfolding used compact.simps using at at' below n' by (auto simp: word_less_nat_alt less_Suc_eq)
  show "find_child isa (N48 h' index' ch') b' = (if b' = b then Some v else find_child isa (N48 h index ch) b')"
    unfolding used_find used using at at' ch n l by (auto simp: ch'_def unat_eq_u8)
qed

lemma index_drop:
  assumes "index_inv h index ch" and "unat b \<in> used index"
  defines "h' \<equiv> h\<lparr>h_num_children := h_num_children h - 1\<rparr>"
    and "index' \<equiv> index[unat b := 48]" and "ch' \<equiv> ch[unat (index ! unat b) := None]"
  shows "index_inv h' index' ch'"
    and "find_child isa (N48 h' index' ch') b' = (if b' = b then None else find_child isa (N48 h index ch) b')"
proof -
  have l: "length index = 256" "length ch = 48" and inj: "inj_on (nth index) (used index)"
    and nn: "\<forall>i\<in>used index. ch ! unat (index ! i) \<noteq> None" and card: "card (used index) = unat (h_num_children h)"
    using assms(1) by (auto simp: index_inv_def)
  have used: "used index' = used index - {unat b}" unfolding index'_def by (rule used_clear [OF l(1) unat_u8])
  have other: "i \<in> used index" "unat b \<noteq> i" if "i \<in> used index'" for i using that by (auto simp: used)
  have at: "index' ! i = index ! i" if "i \<in> used index'" for i
    unfolding index'_def by (rule nth_list_update_neq) (rule other [OF that])
  have "unat (index ! unat b) \<noteq> unat (index ! i)" if "i \<in> used index'" for i
    using inj_onD [OF inj _ assms(2) other(1) [OF that]] other(2) [OF that] by (auto simp: unat_eq_u8)
  then have ch: "ch' ! unat (index ! i) = ch ! unat (index ! i)" if "i \<in> used index'" for i
    unfolding ch'_def using that by (intro nth_list_update_neq)
  have "inj_on (nth index') (used index')"
    using inj at unfolding used by (auto simp: inj_on_def)
  moreover have "\<forall>i\<in>used index'. ch' ! unat (index' ! i) \<noteq> None"
    using at ch nn unfolding used by auto
  moreover have "0 < unat (h_num_children h)" using card assms(2) by (metis card_gt_0_iff empty_iff finite_used)
  then have "card (used index') = unat (h_num_children h')"
    unfolding used h'_def using assms(2) card unat_pred_u8 [of "h_num_children h"] by simp
  ultimately show "index_inv h' index' ch'" using l by (simp add: index_inv_def) (simp add: index'_def ch'_def)
  show "find_child isa (N48 h' index' ch') b' = (if b' = b then None else find_child isa (N48 h index ch) b')"
    unfolding used_find using at [of "unat b'"] ch [of "unat b'"] by (auto simp: used unat_eq_u8)
qed

subsection \<open>Direct nodes\<close>

lemma direct_push:
  assumes "direct_inv h ch" and "ch ! unat b = None" and "v \<noteq> None"
  shows "node_inv (add_child_256 b v h ch)"
    and "find_child isa (add_child_256 b v h ch) b' = (if b' = b then Some v else find_child isa (N256 h ch) b')"
proof -
  let ?S = "{i. i < 256 \<and> ch ! i \<noteq> None}"
  have l: "length ch = 256" using assms(1) by (simp add: direct_inv_def)
  have "{i. i < 256 \<and> ch[unat b := v] ! i \<noteq> None} = insert (unat b) ?S"
    using l unat_u8 [of b] assms(3) by (auto simp: nth_list_update)
  moreover have "card (insert (unat b) ?S) = Suc (card ?S)" using assms(2) by simp
  moreover have "Suc (card ?S) mod 256 = unat (h_num_children h + 1)"
    using assms(1) mod_Suc_eq [of "card ?S" 256] by (simp add: direct_inv_def unat_word_ariths(1))
  ultimately show "node_inv (add_child_256 b v h ch)"
    using l assms(2) by (simp add: add_child_256_def direct_inv_def)
  show "find_child isa (add_child_256 b v h ch) b' = (if b' = b then Some v else find_child isa (N256 h ch) b')"
    using l unat_u8 [of b] assms(3) by (auto simp: add_child_256_def nth_list_update Let_def unat_eq_u8)
qed

lemma ne_emptyI: "x \<in> A \<Longrightarrow> A \<noteq> {}"
  by blast

lemma direct_drop:
  assumes "direct_inv h ch" and "ch ! unat b \<noteq> None"
  defines "h' \<equiv> h\<lparr>h_num_children := h_num_children h - 1\<rparr>" and "ch' \<equiv> ch[unat b := None]"
  shows "direct_inv h' ch'"
    and "find_child isa (N256 h' ch') b' = (if b' = b then None else find_child isa (N256 h ch) b')"
proof -
  let ?S = "{i. i < 256 \<and> ch ! i \<noteq> None}"
  have l: "length ch = 256" using assms(1) by (simp add: direct_inv_def)
  have S: "{i. i < 256 \<and> ch' ! i \<noteq> None} = ?S - {unat b}"
    using l unat_u8 [of b] by (auto simp: ch'_def nth_list_update split: if_splits)
  have b: "unat b \<in> ?S" using unat_u8 [of b] assms(2) by simp
  have "finite ?S" by simp
  moreover from b have "?S \<noteq> {}" by (rule ne_emptyI)
  ultimately have pos: "0 < card ?S" by (simp only: card_gt_0_iff simp_thms not_False_eq_True)
  have "unat (h_num_children h) = unat (of_nat (card ?S) :: u8)"
    using assms(1) unfolding direct_inv_def unat_of_nat by simp
  then have "h_num_children h = of_nat (card ?S)" unfolding unat_eq_u8 .
  moreover have "(of_nat (card ?S - 1) :: u8) = of_nat (card ?S) - 1" using pos of_nat_diff [of 1 "card ?S"] by simp
  ultimately have "h_num_children h' = of_nat (card ?S - 1)" by (simp add: h'_def)
  then have "unat (h_num_children h') = (card ?S - 1) mod 256" by (simp add: unat_of_nat)
  then show "direct_inv h' ch'" using l S b unfolding direct_inv_def S by (simp add: ch'_def)
  show "find_child isa (N256 h' ch') b' = (if b' = b then None else find_child isa (N256 h ch) b')"
    using l unat_u8 [of b] by (auto simp: ch'_def nth_list_update Let_def unat_eq_u8)
qed

subsection \<open>Changing the kind of a node\<close>

text \<open>The vector search is the scalar one except for the NEON routine.\<close>

lemma find_child_scalar:
  assumes "node_inv nb" and "isa \<noteq> Neon"
  shows "find_child isa nb b = find_child Scalar nb b"
proof (cases nb)
  case (N16 h keys ch)
  then have "length keys = 16" "unat (h_num_children h) \<le> 16" using assms(1) by (auto simp: slots_inv_def)
  then have "simd_find_child isa keys b (h_num_children h) = find_scalar keys b (h_num_children h)"
    using assms(2) by (intro simd_find_child_scalar) auto
  moreover have "simd_find_child Scalar keys b (h_num_children h) = find_scalar keys b (h_num_children h)"
    by (simp add: simd_find_child_def find_scalar_def)
  ultimately show ?thesis using N16 by simp
qed auto

lemma find_child_slots:
  "slots_inv 4 h keys ch \<Longrightarrow> find_child Scalar (N4 h keys ch) b = map_of (slots (h_num_children h) keys ch) b"
  "slots_inv 16 h keys ch \<Longrightarrow> find_child Scalar (N16 h keys ch) b = map_of (slots (h_num_children h) keys ch) b"
proof -
  have "simd_find_child Scalar keys b (h_num_children h) = find_scalar keys b (h_num_children h)"
    by (simp add: simd_find_child_def find_scalar_def)
  then show "slots_inv 4 h keys ch \<Longrightarrow> find_child Scalar (N4 h keys ch) b = map_of (slots (h_num_children h) keys ch) b"
    and "slots_inv 16 h keys ch \<Longrightarrow> find_child Scalar (N16 h keys ch) b = map_of (slots (h_num_children h) keys ch) b"
    by (auto simp: slots_inv_def find_scalar_slots)
qed

lemma grow_4_16_slots:
  assumes "slots_inv 4 h keys ch" and "grow_4_16 h keys ch = (h', keys', ch')"
  shows "slots_inv 16 h' keys' ch'" and "slots (h_num_children h') keys' ch' = slots (h_num_children h) keys ch"
    and "h_num_children h' = h_num_children h"
  using assms by (auto simp: grow_4_16_def slots_inv_def slots_def Let_def)

lemma slots_map_of:
  assumes "slots_inv c h keys ch"
  shows "i < unat (h_num_children h) \<Longrightarrow> map_of (slots (h_num_children h) keys ch) (keys ! i) = Some (ch ! i)"
    and "b \<notin> nth keys ` {..<unat (h_num_children h)} \<Longrightarrow> map_of (slots (h_num_children h) keys ch) b = None"
proof -
  let ?n = "unat (h_num_children h)"
  have l: "length keys = c" "length ch = c" "?n \<le> c" and d: "distinct (take ?n keys)"
    using assms by (auto simp: slots_inv_def)
  show "map_of (slots (h_num_children h) keys ch) (keys ! i) = Some (ch ! i)" if "i < ?n"
    using map_of_zip_nth [of "take ?n keys" "take ?n ch" i] that l d by (simp add: slots_def)
  show "map_of (slots (h_num_children h) keys ch) b = None" if "b \<notin> nth keys ` {..<?n}"
    using that l dom_map_of_zip [of "take ?n keys" "take ?n ch"]
    by (auto simp: slots_def in_set_conv_nth set_zip map_of_eq_None_iff)
qed

lemma grow_16_48_index:
  assumes "slots_inv 16 h keys ch" and "grow_16_48 h keys ch = (h', index, ch')"
  shows "index_inv h' index ch'" and "compact (N48 h' index ch')" and "h_num_children h' = h_num_children h"
    and "find_child isa (N48 h' index ch') b = find_child Scalar (N16 h keys ch) b"
proof -
  let ?n = "unat (h_num_children h)" and ?f = "\<lambda>i. unat (keys ! i)"
  have l: "length keys = 16" "length ch = 16" "?n \<le> 16" and d: "distinct (take ?n keys)" and nn: "None \<notin> set (take ?n ch)"
    using assms(1) by (auto simp: slots_inv_def)
  have g: "h' = h\<lparr>h_node_type := NT_Node48\<rparr>" "ch' = take ?n ch @ replicate (48 - ?n) None"
    "index = fold (\<lambda>i index. index[?f i := of_nat i]) [0..<?n] (replicate 256 48)"
    using assms(2) by (auto simp: grow_16_48_def Let_def)
  show n: "h_num_children h' = h_num_children h" by (simp add: g)
  have inj: "inj_on ?f {..<?n}"
    using d l inj_on_nth [OF d, of "{..<?n}"] by (auto simp: inj_on_def unat_eq_u8)
  have rng: "?f ` {..<?n} \<subseteq> {..<256}" using unat_u8 by auto
  have "?n \<le> 48" "length (take ?n ch) = ?n" "unat (h_num_children h') = ?n" using l n by simp_all
  note new = index_new [OF inj rng this(1,2) nn this(3), folded g(2,3)]
  show "index_inv h' index ch'" "compact (N48 h' index ch')" by (fact new)+
  show "find_child isa (N48 h' index ch') b = find_child Scalar (N16 h keys ch) b"
  proof (cases "b \<in> nth keys ` {..<?n}")
    case True
    then obtain i where i: "i < ?n" "b = keys ! i" by auto
    then show ?thesis using new(3) [OF i(1)] slots_map_of(1) [OF assms(1) i(1)] l find_child_slots(2) [OF assms(1)]
      by (simp del: find_child.simps)
  next
    case False
    then have "unat b \<notin> ?f ` {..<?n}" by (auto simp: unat_eq_u8)
    then show ?thesis using new(4) slots_map_of(2) [OF assms(1) False] find_child_slots(2) [OF assms(1)]
      by (simp del: find_child.simps)
  qed
qed

lemma grow_48_256_direct:
  assumes "index_inv h index ch" and "grow_48_256 h index ch = (h', ch')"
  shows "direct_inv h' ch'" and "h_num_children h' = h_num_children h"
    and "find_child isa (N256 h' ch') b = find_child isa (N48 h index ch) b"
proof -
  have g: "h' = h\<lparr>h_node_type := NT_Node256\<rparr>"
    "ch' = map (\<lambda>i. if index ! i < 48 then ch ! unat (index ! i) else None) [0..<256]"
    using assms(2) by (auto simp: grow_48_256_def Let_def word_less_nat_alt)
  show "h_num_children h' = h_num_children h" by (simp add: g)
  have at: "ch' ! i = (if i \<in> used index then ch ! unat (index ! i) else None)" if "i < 256" for i
    using that by (simp add: g used_def)
  have nn: "\<forall>i\<in>used index. ch ! unat (index ! i) \<noteq> None" and card: "card (used index) = unat (h_num_children h)"
    using assms(1) by (auto simp: index_inv_def)
  have "{i. i < 256 \<and> ch' ! i \<noteq> None} = used index"
    using at nn by (auto simp: used_def split: if_splits)
  then show "direct_inv h' ch'" using card unat_u8 [of "h_num_children h"] by (simp add: direct_inv_def g)
  show "find_child isa (N256 h' ch') b = find_child isa (N48 h index ch) b"
    unfolding used_find using at [of "unat b"] unat_u8 [of b] nn by (simp add: Let_def)
qed

text \<open>Shrinking keeps the map: the bytes in use are listed in ascending order.\<close>

lemma slots_of_list:
  fixes h :: Header and t :: NodeType
  assumes "distinct L" and "set L \<subseteq> {..<256}" and "length L \<le> 16" and "\<forall>i\<in>set L. f i \<noteq> None"
  defines "h' \<equiv> h\<lparr>h_num_children := of_nat (length L), h_node_type := t\<rparr>"
    and "keys \<equiv> map of_nat L @ replicate (16 - length L) 0" and "ch \<equiv> map f L @ replicate (16 - length L) None"
  shows "slots_inv 16 h' keys ch"
    and "map_of (slots (h_num_children h') keys ch) b = (if unat b \<in> set L then Some (f (unat b)) else None)"
proof -
  have n: "unat (h_num_children h') = length L" using assms(3) by (simp add: h'_def unat_of_nat)
  have small: "unat (of_nat i :: u8) = i" if "i \<in> set L" for i using that assms(2) by (auto simp: unat_of_nat)
  have "inj_on (of_nat :: nat \<Rightarrow> u8) (set L)" by (rule inj_onI) (metis small)
  then have d: "distinct (map of_nat L :: u8 list)" using assms(1) by (simp add: distinct_map)
  then show "slots_inv 16 h' keys ch"
    using assms(3,4) n by (auto simp: slots_inv_def keys_def ch_def)
  have "slots (h_num_children h') keys ch = map (\<lambda>i. (of_nat i, f i)) L"
    unfolding slots_def n keys_def ch_def by (simp add: zip_map_map zip_same_conv_map)
  moreover have "map_of (map (\<lambda>i. (of_nat i :: u8, f i)) L) b = (if unat b \<in> set L then Some (f (unat b)) else None)"
  proof (cases "unat b \<in> set L")
    case True
    have "(b, f (unat b)) \<in> set (map (\<lambda>i. (of_nat i :: u8, f i)) L)" using True by (force simp: image_iff)
    moreover have "distinct (map fst (map (\<lambda>i. (of_nat i :: u8, f i)) L))" using d by (simp add: comp_def)
    ultimately show ?thesis using True by simp
  next
    case False
    then have "b \<notin> of_nat ` set L" using small by auto
    then show ?thesis using False by (auto simp: map_of_eq_None_iff image_iff)
  qed
  ultimately show "map_of (slots (h_num_children h') keys ch) b = (if unat b \<in> set L then Some (f (unat b)) else None)"
    by simp
qed

lemma shrink_48_16_slots:
  assumes "index_inv h index ch" and "h_num_children h < 17"
  shows "node_inv (shrink_48_16 h index ch)"
    and "find_child Scalar (shrink_48_16 h index ch) b = find_child Scalar (N48 h index ch) b"
proof -
  define L where "L = filter (\<lambda>i. unat (index ! i) < 48 \<and> ch ! unat (index ! i) \<noteq> None) [0..<256]"
  have nn: "\<forall>i\<in>used index. ch ! unat (index ! i) \<noteq> None" and card: "card (used index) = unat (h_num_children h)"
    using assms(1) by (auto simp: index_inv_def)
  have L: "set L = used index" "distinct L"
    using nn by (auto simp: L_def used_def word_less_nat_alt)
  then have "length L = card (used index)" using distinct_card by metis
  then have len: "length L \<le> 16" using card assms(2) by (simp add: word_less_nat_alt)
  have "set L \<subseteq> {..<256}" using L by (auto simp: used_def)
  note s = slots_of_list [where f = "\<lambda>i. ch ! unat (index ! i)" and h = h and t = NT_Node16, OF L(2) this len, unfolded L(1), OF nn]
  have eq: "shrink_48_16 h index ch = N16 (h\<lparr>h_num_children := of_nat (length L), h_node_type := NT_Node16\<rparr>)
      (map of_nat L @ replicate (16 - length L) 0) (map (\<lambda>i. ch ! unat (index ! i)) L @ replicate (16 - length L) None)"
    by (simp add: shrink_48_16_def L_def Let_def)
  show "node_inv (shrink_48_16 h index ch)" unfolding eq using s(1) by simp
  show "find_child Scalar (shrink_48_16 h index ch) b = find_child Scalar (N48 h index ch) b"
    unfolding eq find_child_slots(2) [OF s(1)] s(2) used_find by simp
qed

lemma shrink_256_48_index:
  assumes "direct_inv h ch" and "h_num_children h < 49" and "i < 256" and "ch ! i = None"
  shows "node_inv (shrink_256_48 h ch)" and "compact (shrink_256_48 h ch)"
    and "find_child isa (shrink_256_48 h ch) b = find_child isa (N256 h ch) b"
proof -
  define L where "L = filter (\<lambda>i. ch ! i \<noteq> None) [0..<256]"
  let ?S = "{i. i < 256 \<and> ch ! i \<noteq> None}"
  have L: "set L = ?S" "distinct L" by (auto simp: L_def)
  have len: "length L = card ?S" using distinct_card [OF L(2)] L(1) by simp
  have "?S \<subseteq> {..<256} - {i}" using assms(4) by auto
  then have "card ?S \<le> card ({..<256} - {i})" by (intro card_mono) auto
  then have "card ?S < 256" using assms(3) by simp
  then have m: "length L \<le> 48" using assms(1,2) len by (simp add: direct_inv_def word_less_nat_alt)
  have inj: "inj_on (nth L) {..<length L}" using L(2) by (auto intro: inj_on_nth)
  have rng: "nth L ` {..<length L} = ?S" unfolding L(1) [symmetric] by (auto simp: set_conv_nth)
  then have sub: "nth L ` {..<length L} \<subseteq> {..<256}" by auto
  define h' where "h' = h\<lparr>h_node_type := NT_Node48, h_num_children := of_nat (length L)\<rparr>"
  have "\<forall>i\<in>set L. ch ! i \<noteq> None" unfolding L(1) by simp
  then have nn: "None \<notin> set (map (nth ch) L)" "length (map (nth ch) L) = length L" by (metis imageE set_map, simp)
  have n: "unat (h_num_children h') = length L" using m by (simp add: h'_def unat_of_nat)
  note new = index_new [OF inj sub m nn(2) nn(1) n]
  have eq: "shrink_256_48 h ch = N48 h' (fold (\<lambda>k index. index[L ! k := of_nat k]) [0..<length L] (replicate 256 48))
      (map (nth ch) L @ replicate (48 - length L) None)"
    by (simp add: shrink_256_48_def L_def h'_def Let_def)
  show "node_inv (shrink_256_48 h ch)" "compact (shrink_256_48 h ch)"
    unfolding eq using new(1,2) by simp_all
  show "find_child isa (shrink_256_48 h ch) b = find_child isa (N256 h ch) b"
  proof (cases "unat b \<in> ?S")
    case True
    then obtain k where k: "k < length L" "L ! k = unat b" using L(1) by (metis (no_types, lifting) in_set_conv_nth)
    then have "of_nat (L ! k) = b" by simp
    then show ?thesis using new(3) [OF k(1), of isa] k True unfolding eq by (simp del: find_child.simps(3) add: Let_def)
  next
    case False
    then have "ch ! unat b = None" using unat_u8 [of b] by simp
    then show ?thesis using new(4) [of b isa] False unfolding eq rng by (simp del: find_child.simps(3) add: Let_def)
  qed
qed

section \<open>The laws of the operations\<close>

definition child_added :: "u8 \<Rightarrow> 'a option \<Rightarrow> 'a NodeBox \<Rightarrow> 'a NodeBox \<Rightarrow> bool" where
  "child_added b v nb nb' \<longleftrightarrow> node_inv nb' \<and> compact nb'
     \<and> (\<forall>b'. find_child Scalar nb' b' = (if b' = b then Some v else find_child Scalar nb b'))"

lemma child_addedI:
  "node_inv nb' \<Longrightarrow> compact nb' \<Longrightarrow> (\<And>b'. find_child Scalar nb' b' = (if b' = b then Some v else find_child Scalar nb b'))
   \<Longrightarrow> child_added b v nb nb'"
  by (simp add: child_added_def)

lemma add_child_256_added:
  assumes "direct_inv h ch" and "find_child Scalar (N256 h ch) b = None" and "v \<noteq> None"
  shows "child_added b v (N256 h ch) (add_child_256 b v h ch)"
proof -
  have "ch ! unat b = None" using assms(2) by (simp add: Let_def split: if_splits)
  then show ?thesis using direct_push [OF assms(1) _ assms(3)]
    by (intro child_addedI) (auto simp: add_child_256_def)
qed

lemma add_child_48_added:
  assumes "index_inv h index ch" and "compact (N48 h index ch)"
    and "find_child Scalar (N48 h index ch) b = None" and "v \<noteq> None"
  shows "child_added b v (N48 h index ch) (add_child_48 b v h index ch)"
proof (cases "48 \<le> h_num_children h")
  case True
  obtain h' ch' where g: "grow_48_256 h index ch = (h', ch')" by fastforce
  note d = grow_48_256_direct [OF assms(1) g]
  have "child_added b v (N256 h' ch') (add_child_256 b v h' ch')"
    using d(3) assms(3) by (intro add_child_256_added [OF d(1) _ assms(4)]) simp
  then show ?thesis using d(3) True g by (simp add: child_added_def add_child_48_def del: find_child.simps)
next
  case False
  then have "h_num_children h < 48" by simp
  note p = index_push [OF assms(1,2) this assms(3,4)]
  let ?h = "h\<lparr>h_num_children := h_num_children h + 1\<rparr>"
  let ?index = "index[unat b := h_num_children h]" and ?ch = "ch[unat (h_num_children h) := v]"
  obtain h' ch' where g: "grow_48_256 ?h ?index ?ch = (h', ch')" by fastforce
  note d = grow_48_256_direct [OF p(1) g]
  show ?thesis
  proof (cases "45 \<le> h_num_children h + 1")
    case True
    then have "add_child_48 b v h index ch = N256 h' ch'" using False g by (simp add: add_child_48_def Let_def)
    then show ?thesis using d(1,3) p(3) by (simp add: child_added_def del: find_child.simps)
  next
    case less: False
    then have "add_child_48 b v h index ch = N48 ?h ?index ?ch" using False by (simp add: add_child_48_def Let_def)
    then show ?thesis using p by (simp add: child_added_def del: find_child.simps compact.simps)
  qed
qed

lemma add_child_16_added:
  assumes "slots_inv 16 h keys ch" and "find_child Scalar (N16 h keys ch) b = None" and "v \<noteq> None"
  shows "child_added b v (N16 h keys ch) (add_child_16 b v h keys ch)"
proof (cases "16 \<le> h_num_children h")
  case True
  obtain h' index ch' where g: "grow_16_48 h keys ch = (h', index, ch')" by (metis prod_cases3)
  note i = grow_16_48_index [OF assms(1) g]
  have "child_added b v (N48 h' index ch') (add_child_48 b v h' index ch')"
    using i(4) assms(2) by (intro add_child_48_added [OF i(1,2) _ assms(3)]) simp
  then show ?thesis using i(4) True g by (simp add: child_added_def add_child_16_def del: find_child.simps)
next
  case False
  then have "unat (h_num_children h) < 16" by (simp add: word_less_nat_alt not_le)
  from slots_push [OF assms(1) this _ assms(2) [unfolded find_child_slots(2) [OF assms(1)]] assms(3)]
  show ?thesis using False
    by (simp add: child_added_def add_child_16_def Let_def find_child_slots assms(1) del: find_child.simps)
qed

lemma add_child_4_added:
  assumes "slots_inv 4 h keys ch" and "find_child Scalar (N4 h keys ch) b = None" and "v \<noteq> None"
  shows "child_added b v (N4 h keys ch) (add_child_4 b v h keys ch)"
proof (cases "4 \<le> h_num_children h")
  case True
  obtain h' keys' ch' where g: "grow_4_16 h keys ch = (h', keys', ch')" by (metis prod_cases3)
  note i = grow_4_16_slots [OF assms(1) g]
  have eq: "find_child Scalar (N16 h' keys' ch') b' = find_child Scalar (N4 h keys ch) b'" for b'
    unfolding find_child_slots(1) [OF assms(1)] find_child_slots(2) [OF i(1)] i(2) ..
  have "child_added b v (N16 h' keys' ch') (add_child_16 b v h' keys' ch')"
    using eq assms(2) by (intro add_child_16_added [OF i(1) _ assms(3)]) simp
  then show ?thesis using eq True g by (simp add: child_added_def add_child_4_def del: find_child.simps)
next
  case False
  then have "unat (h_num_children h) < 4" by (simp add: word_less_nat_alt not_le)
  from slots_push [OF assms(1) this _ assms(2) [unfolded find_child_slots(1) [OF assms(1)]] assms(3)]
  show ?thesis using False
    by (simp add: child_added_def add_child_4_def Let_def find_child_slots assms(1) del: find_child.simps)
qed

lemma add_child_added:
  assumes "node_inv nb" and "compact nb" and "find_child Scalar nb b = None" and "v \<noteq> None"
  shows "child_added b v nb (add_child b v nb)"
  using assms by (cases nb) (auto simp del: find_child.simps compact.simps
      intro: add_child_4_added add_child_16_added add_child_48_added add_child_256_added)

definition child_removed :: "u8 \<Rightarrow> 'a NodeBox \<Rightarrow> 'a NodeBox \<Rightarrow> bool" where
  "child_removed b nb nb' \<longleftrightarrow> node_inv nb'
     \<and> (\<forall>b'. find_child Scalar nb' b' = (if b' = b then None else find_child Scalar nb b'))"

lemma child_removed_none: "node_inv nb \<Longrightarrow> find_child Scalar nb b = None \<Longrightarrow> child_removed b nb nb"
  by (simp add: child_removed_def)

lemma find_scalar_child:
  assumes "find_scalar keys b (h_num_children h) = None"
  shows "find_child Scalar (N4 h keys ch) b = None" and "find_child Scalar (N16 h keys ch) b = None"
  using assms by (auto simp: simd_find_child_def)

lemma remove_child_4_removed:
  assumes "slots_inv 4 h keys ch"
  shows "child_removed b (N4 h keys ch) (remove_child_4 b h keys ch)"
proof (cases "find_scalar keys b (h_num_children h)")
  case None
  have "child_removed b (N4 h keys ch) (N4 h keys ch)"
    using find_scalar_child(1) [OF None] assms by (intro child_removed_none) simp_all
  then show ?thesis using None by (simp add: remove_child_4_def)
next
  case (Some i)
  from slots_drop [OF assms Some] show ?thesis using Some assms
    by (simp add: child_removed_def remove_child_4_def Let_def find_child_slots del: find_child.simps)
qed

lemma remove_child_16_removed:
  assumes "slots_inv 16 h keys ch"
  shows "child_removed b (N16 h keys ch) (remove_child_16 b h keys ch)"
proof (cases "find_scalar keys b (h_num_children h)")
  case None
  have "child_removed b (N16 h keys ch) (N16 h keys ch)"
    using find_scalar_child(2) [OF None] assms by (intro child_removed_none) simp_all
  then show ?thesis using None by (simp add: remove_child_16_def)
next
  case (Some i)
  let ?n = "unat (h_num_children h)" and ?h = "h\<lparr>h_num_children := h_num_children h - 1\<rparr>"
  let ?m = "unat (h_num_children ?h)"
  note d = slots_drop [OF assms Some]
  show ?thesis
  proof (cases "h_num_children ?h < 4")
    case True
    let ?keys = "take ?m (shift_left i ?n keys) @ replicate (4 - ?m) 0"
    let ?ch = "take ?m (shift_left i ?n ch) @ replicate (4 - ?m) None"
    let ?h4 = "?h\<lparr>h_node_type := NT_Node4\<rparr>"
    have m: "?m \<le> 4" using True by (simp add: word_less_nat_alt)
    have s: "slots_inv 4 ?h4 ?keys ?ch" using d(1) m by (auto simp: slots_inv_def)
    have "slots (h_num_children ?h4) ?keys ?ch = slots (h_num_children ?h) (shift_left i ?n keys) (shift_left i ?n ch)"
      using d(1) m by (auto simp: slots_inv_def slots_def)
    moreover have "remove_child_16 b h keys ch = N4 ?h4 ?keys ?ch"
      using Some True by (simp add: remove_child_16_def Let_def)
    ultimately show ?thesis using s d(2) assms
      by (simp add: child_removed_def find_child_slots del: find_child.simps)
  next
    case False
    then have "remove_child_16 b h keys ch = N16 ?h (shift_left i ?n keys) (shift_left i ?n ch)"
      using Some by (simp add: remove_child_16_def Let_def)
    then show ?thesis using d assms by (simp add: child_removed_def find_child_slots del: find_child.simps)
  qed
qed

lemma remove_child_48_removed:
  assumes "index_inv h index ch"
  shows "child_removed b (N48 h index ch) (remove_child_48 b h index ch)"
proof (cases "unat b \<in> used index")
  case True
  let ?h = "h\<lparr>h_num_children := h_num_children h - 1\<rparr>"
  let ?index = "index[unat b := 48]" and ?ch = "ch[unat (index ! unat b) := None]"
  note d = index_drop [OF assms True]
  have eq: "remove_child_48 b h index ch = (if h_num_children ?h < 17 then shrink_48_16 ?h ?index ?ch else N48 ?h ?index ?ch)"
    using True by (simp add: remove_child_48_def used_def Let_def word_less_nat_alt)
  show ?thesis
    unfolding eq using d shrink_48_16_slots [OF d(1)] by (auto simp: child_removed_def simp del: find_child.simps)
next
  case False
  then have "find_child Scalar (N48 h index ch) b = None" unfolding used_find by simp
  moreover have "remove_child_48 b h index ch = N48 h index ch"
    using False unat_u8 [of b] by (simp add: remove_child_48_def used_def word_less_nat_alt)
  ultimately show ?thesis using assms child_removed_none [of "N48 h index ch" b] by simp
qed

lemma remove_child_256_removed:
  assumes "direct_inv h ch"
  shows "child_removed b (N256 h ch) (remove_child_256 b h ch)"
proof (cases "ch ! unat b = None")
  case True
  then show ?thesis using assms child_removed_none [of "N256 h ch" b] by (simp add: remove_child_256_def)
next
  case False
  let ?h = "h\<lparr>h_num_children := h_num_children h - 1\<rparr>" and ?ch = "ch[unat b := None]"
  note d = direct_drop [OF assms False]
  have "?ch ! unat b = None" using assms unat_u8 [of b] by (simp add: direct_inv_def)
  note s = shrink_256_48_index [OF d(1) _ unat_u8 this]
  have eq: "remove_child_256 b h ch = (if h_num_children ?h < 49 then shrink_256_48 ?h ?ch else N256 ?h ?ch)"
    using False by (simp add: remove_child_256_def Let_def)
  show ?thesis unfolding eq using d s by (auto simp: child_removed_def simp del: find_child.simps)
qed

lemma remove_child_removed: "node_inv nb \<Longrightarrow> child_removed b nb (remove_child b nb)"
  by (cases nb) (simp_all add: remove_child_4_removed remove_child_16_removed remove_child_48_removed
      remove_child_256_removed)

definition child_updated :: "u8 \<Rightarrow> 'a option \<Rightarrow> 'a NodeBox \<Rightarrow> 'a NodeBox \<Rightarrow> bool" where
  "child_updated b v nb nb' \<longleftrightarrow> node_inv nb' \<and> (compact nb \<longrightarrow> compact nb')
     \<and> (\<forall>b'. find_child Scalar nb' b' = (if b' = b then Some v else find_child Scalar nb b'))"

lemma slots_update:
  assumes "slots_inv c h keys ch" and "find_scalar keys b (h_num_children h) = Some i" and "v \<noteq> None"
  shows "slots_inv c h keys (ch[i := v])"
    and "map_of (slots (h_num_children h) keys (ch[i := v])) b' =
      (if b' = b then Some v else map_of (slots (h_num_children h) keys ch) b')"
proof -
  let ?n = "unat (h_num_children h)"
  note i = find_scalar_nth [OF assms(2)]
  have "None \<notin> set (take ?n (ch[i := v]))"
    using assms(1,3) set_update_subset_insert [of "take ?n ch" i v] by (auto simp: slots_inv_def take_update_swap)
  then show s: "slots_inv c h keys (ch[i := v])" using assms(1) by (simp add: slots_inv_def)
  have l: "i < length ch" using i assms(1) by (simp add: slots_inv_def)
  show "map_of (slots (h_num_children h) keys (ch[i := v])) b' =
      (if b' = b then Some v else map_of (slots (h_num_children h) keys ch) b')"
  proof (cases "b' \<in> nth keys ` {..<?n}")
    case True
    then obtain j where j: "j < ?n" "b' = keys ! j" by auto
    have "b' = b \<longleftrightarrow> j = i"
      using slots_map_of(1) [OF s i(1)] j i assms(1) inj_on_nth [of "take ?n keys" "{..<?n}"]
      by (auto simp: slots_inv_def inj_on_def)
    then show ?thesis
      using slots_map_of(1) [OF s j(1)] slots_map_of(1) [OF assms(1) j(1)] j l by (auto simp: nth_list_update)
  next
    case False
    moreover have "b \<in> nth keys ` {..<?n}" using i by auto
    ultimately show ?thesis using slots_map_of(2) [OF s False] slots_map_of(2) [OF assms(1) False] by auto
  qed
qed

lemma update_child_updated:
  assumes "node_inv nb" and "find_child Scalar nb b \<noteq> None" and "v \<noteq> None"
  shows "child_updated b v nb (update_child b v nb)"
proof (cases nb)
  case (N4 h keys ch)
  then obtain i where i: "find_scalar keys b (h_num_children h) = Some i" using assms(2) by auto
  have s: "slots_inv 4 h keys ch" using assms(1) N4 by simp
  show ?thesis using slots_update [OF s i assms(3)] s i N4
    by (simp add: child_updated_def find_child_slots del: find_child.simps)
next
  case (N16 h keys ch)
  then obtain i where i: "find_scalar keys b (h_num_children h) = Some i"
    using assms(2) by (auto simp: simd_find_child_def split: if_splits)
  have s: "slots_inv 16 h keys ch" using assms(1) N16 by simp
  show ?thesis using slots_update [OF s i assms(3)] s i N16
    by (simp add: child_updated_def find_child_slots del: find_child.simps)
next
  case (N48 h index ch)
  then have b: "unat b \<in> used index" using assms(2) used_find [of Scalar h index ch b] by (auto split: if_splits)
  let ?ch = "ch[unat (index ! unat b) := v]"
  have l: "length ch = 48" and inj: "inj_on (nth index) (used index)"
    and nn: "\<forall>i\<in>used index. ch ! unat (index ! i) \<noteq> None"
    using assms(1) N48 by (auto simp: index_inv_def)
  have at: "?ch ! unat (index ! i) = (if i = unat b then v else ch ! unat (index ! i))" if "i \<in> used index" for i
    using that b inj l by (auto simp: nth_list_update unat_eq_u8 inj_on_def used_def word_less_nat_alt)
  have "update_child b v nb = N48 h index ?ch"
    using N48 b by (simp add: used_def word_less_nat_alt Let_def)
  moreover have "index_inv h index ?ch" using assms(1,3) N48 at nn by (auto simp: index_inv_def)
  ultimately show ?thesis
    using N48 b at by (auto simp: child_updated_def used_find unat_eq_u8 simp del: find_child.simps)
next
  case (N256 h ch)
  then have b: "ch ! unat b \<noteq> None" using assms(2) by (simp add: Let_def split: if_splits)
  have l: "length ch = 256" using assms(1) N256 by (simp add: direct_inv_def)
  have "{i. i < 256 \<and> ch[unat b := v] ! i \<noteq> None} = {i. i < 256 \<and> ch ! i \<noteq> None}"
    using l b assms(3) unat_u8 [of b] by (auto simp: nth_list_update split: if_splits)
  then have "direct_inv h (ch[unat b := v])" using assms(1) N256 by (simp add: direct_inv_def)
  then show ?thesis using N256 l unat_u8 [of b] assms(3)
    by (auto simp: child_updated_def nth_list_update unat_eq_u8 Let_def)
qed (use assms in simp)

section \<open>The interface the tree uses\<close>

text \<open>A node as a finite map from bytes to non-null child pointers.\<close>

locale byte_map =
  fixes find_at :: "'n \<Rightarrow> u8 \<Rightarrow> 'c option option"
    and put :: "u8 \<Rightarrow> 'c option \<Rightarrow> 'n \<Rightarrow> 'n"
    and del :: "u8 \<Rightarrow> 'n \<Rightarrow> 'n"
    and upd :: "u8 \<Rightarrow> 'c option \<Rightarrow> 'n \<Rightarrow> 'n"
    and inv :: "'n \<Rightarrow> bool"
    and packed :: "'n \<Rightarrow> bool"
  assumes put_inv: "inv n \<Longrightarrow> packed n \<Longrightarrow> find_at n b = None \<Longrightarrow> v \<noteq> None \<Longrightarrow> inv (put b v n) \<and> packed (put b v n)"
    and find_put: "inv n \<Longrightarrow> packed n \<Longrightarrow> find_at n b = None \<Longrightarrow> v \<noteq> None \<Longrightarrow>
      find_at (put b v n) b' = (if b' = b then Some v else find_at n b')"
    and del_inv: "inv n \<Longrightarrow> inv (del b n)"
    and find_del: "inv n \<Longrightarrow> find_at (del b n) b' = (if b' = b then None else find_at n b')"
    and upd_inv: "inv n \<Longrightarrow> find_at n b \<noteq> None \<Longrightarrow> v \<noteq> None \<Longrightarrow> inv (upd b v n) \<and> (packed n \<longrightarrow> packed (upd b v n))"
    and find_upd: "inv n \<Longrightarrow> find_at n b \<noteq> None \<Longrightarrow> v \<noteq> None \<Longrightarrow>
      find_at (upd b v n) b' = (if b' = b then Some v else find_at n b')"
begin

lemma puts_inv:
  assumes "inv n" and "packed n" and "distinct (map fst cs)" and "\<forall>(b, v) \<in> set cs. find_at n b = None \<and> v \<noteq> None"
  shows "inv (fold (\<lambda>(b, v). put b v) cs n) \<and> packed (fold (\<lambda>(b, v). put b v) cs n)
    \<and> (\<forall>b. find_at (fold (\<lambda>(b, v). put b v) cs n) b = (case map_of cs b of None \<Rightarrow> find_at n b | Some v \<Rightarrow> Some v))"
  using assms
proof (induction cs arbitrary: n)
  case (Cons c cs)
  obtain b v where c: "c = (b, v)" by fastforce
  have new: "find_at n b = None" "v \<noteq> None" using Cons.prems(4) c by auto
  note p = put_inv [OF Cons.prems(1,2) new] and f = find_put [OF Cons.prems(1,2) new]
  have b: "b \<notin> fst ` set cs" using Cons.prems(3) c by simp
  have "\<forall>(b', v') \<in> set cs. find_at (put b v n) b' = None \<and> v' \<noteq> None"
    using Cons.prems(4) b f by (force simp: c)
  from Cons.IH [OF conjunct1 [OF p] conjunct2 [OF p] _ this] Cons.prems(3)
  have IH: "inv (fold (\<lambda>(b, v). put b v) cs (put b v n)) \<and> packed (fold (\<lambda>(b, v). put b v) cs (put b v n))"
    "find_at (fold (\<lambda>(b, v). put b v) cs (put b v n)) b' =
      (case map_of cs b' of None \<Rightarrow> find_at (put b v n) b' | Some v \<Rightarrow> Some v)" for b'
    by simp_all
  have "map_of cs b = None" using b by (simp add: map_of_eq_None_iff)
  then show ?case using IH by (simp add: c f split: option.splits)
qed simp

end

lemma byte_map_nodes:
  assumes "isa \<noteq> Neon"
  shows "byte_map (find_child isa) add_child remove_child update_child node_inv compact"
proof -
  have f: "node_inv nb \<Longrightarrow> find_child isa nb b = find_child Scalar nb b" for nb :: "'a NodeBox" and b
    using find_child_scalar assms by blast
  show ?thesis
  proof unfold_locales
    fix n :: "'a NodeBox" and b b' and v :: "'a option"
    show "node_inv (add_child b v n) \<and> compact (add_child b v n)"
      and "find_child isa (add_child b v n) b' = (if b' = b then Some v else find_child isa n b')"
      if "node_inv n" "compact n" "find_child isa n b = None" "v \<noteq> None"
      using add_child_added [of n b v] that f by (auto simp: child_added_def)
    show "node_inv (remove_child b n)"
      and "find_child isa (remove_child b n) b' = (if b' = b then None else find_child isa n b')"
      if "node_inv n"
      using remove_child_removed [of n b] that f by (auto simp: child_removed_def)
    show "node_inv (update_child b v n) \<and> (compact n \<longrightarrow> compact (update_child b v n))"
      and "find_child isa (update_child b v n) b' = (if b' = b then Some v else find_child isa n b')"
      if "node_inv n" "find_child isa n b \<noteq> None" "v \<noteq> None"
      using update_child_updated [of n b v] that f by (auto simp: child_updated_def)
  qed
qed

interpretation avx2_node: byte_map "find_child Avx2" add_child remove_child update_child node_inv compact
  by (rule byte_map_nodes) simp

interpretation scalar_node: byte_map "find_child Scalar" add_child remove_child update_child node_inv compact
  by (rule byte_map_nodes) simp

lemma Node4_default_inv: "node_inv Node4_default" "compact Node4_default" "find_child isa Node4_default b = None"
  by (simp_all add: Node4_default_def slots_inv_def find_scalar_def)

text \<open>Removing a child leaves a hole in a 48-way node, and the next child is added at the number of children,
  where the child with the highest slot still is: that child is lost.\<close>

lemma add_after_remove_48:
  assumes "index_inv h index ch" and "compact (N48 h index ch)" and "17 < h_num_children h" and "v \<noteq> None"
    and "index ! unat b0 < 48" and "index ! unat b1 = h_num_children h - 1" and "b0 \<noteq> b1" and "b \<noteq> b1"
  shows "find_child isa (add_child b v (remove_child b0 (N48 h index ch))) b1 = Some v"
proof -
  let ?n = "h_num_children h"
  have len: "length index = 256" "length ch = 48" and card: "card (used index) = unat ?n"
    and inj: "inj_on (nth index) (used index)" using assms(1) by (simp_all add: index_inv_def)
  have byte: "unat (x :: u8) < 256" for x using unsigned_less [of x] by simp
  have "unat ?n \<le> 48"
  proof -
    have "(\<lambda>i. unat (index ! i)) ` used index \<subseteq> {..<48}" by (auto simp: used_def word_less_nat_alt)
    moreover have "inj_on (\<lambda>i. unat (index ! i)) (used index)" using inj by (simp add: inj_on_def word_unat_eq_iff)
    ultimately show ?thesis using card_inj_on_le [of "\<lambda>i. unat (index ! i)" "used index" "{..<48}"] card by simp
  qed
  moreover have low: "unat (?n - 1) = unat ?n - 1" using assms(3) by (intro unat_minus_one) auto
  ultimately have n: "unat (?n - 1) < 48" "\<not> ?n - 1 < 17" "\<not> 48 \<le> ?n - 1" "?n - 1 < 48"
    using assms(3) by (simp_all add: word_less_nat_alt word_le_nat_alt)
  have ne: "unat b0 \<noteq> unat b1" "unat b \<noteq> unat b1" using assms(7,8) by (simp_all add: word_unat_eq_iff)
  have b0: "unat (index ! unat b0) < 48" using assms(5) by (simp add: word_less_nat_alt)
  show ?thesis
    using n ne b0 len assms(4,6) byte [of b1]
    by (simp add: remove_child_48_def add_child_48_def grow_48_256_def Let_def)
qed

end
