(* ===== verification/ArtTree.thy ===== *)
theory ArtTree
  imports ArtNode
begin

text \<open>
  The adaptive radix tree (\<open>engine/src/art/tree.rs\<close>). The raw pointers own what they point to
  and are never aliased, so a pointer is modelled by the object behind it: a node, or a value
  the caller allocated (named by its address). In-place updates through a pointer become
  updates of the parent's slot. The functions are given keys that hold at least as many bytes as the
  prefix length asks for, as the engine's callers pass them; an index past the end of a key is a
  panic the model does not reach.
\<close>

section \<open>Data\<close>

datatype Obj = Node "Obj NodeBox" | Val nat

record Tree =
  tr_root :: "Obj option"
  tr_size :: usize

definition Tree_new :: Tree where
  "Tree_new = \<lparr>tr_root = Some (Node Node4_default), tr_size = 0\<rparr>"

section \<open>Operations\<close>

definition index_byte :: "u8 list \<Rightarrow> nat \<Rightarrow> u8 \<Rightarrow> u8" where
  "index_byte key depth prefix_len =
     (let b = key ! depth; full_bytes = unat prefix_len div 8; remain_bits = unat prefix_len mod 8 in
      if depth = full_bytes \<and> remain_bits > 0 then b AND boundary_mask remain_bits else b)"

definition masked_key :: "u8 list \<Rightarrow> u8 \<Rightarrow> u8 list" where
  "masked_key key prefix_len =
     (let full_bytes = unat prefix_len div 8; remain_bits = unat prefix_len mod 8;
          mk = map (\<lambda>i. if i < min full_bytes (length key) then key ! i else 0) [0..<16]
      in if remain_bits > 0 \<and> full_bytes < length key
         then mk[full_bytes := key ! full_bytes AND boundary_mask remain_bits] else mk)"

definition make_leaf :: "u8 list \<Rightarrow> u8 \<Rightarrow> Obj option \<Rightarrow> Obj option" where
  "make_leaf key prefix_len value = Some (Node (Leaf value prefix_len (masked_key key prefix_len)))"

text \<open>At the last byte an existing leaf is rewritten in place with the new value, prefix length
  and masked key, anything else is replaced by a new leaf; both leave the same leaf.\<close>

function insert_node :: "Isa \<Rightarrow> Obj option \<Rightarrow> u8 list \<Rightarrow> nat \<Rightarrow> u8 \<Rightarrow> Obj option \<Rightarrow> Obj option" where
  "insert_node isa node_ptr key depth prefix_len value =
     (let max_depth = (unat prefix_len + 7) div 8 in
      if depth \<ge> max_depth then make_leaf key prefix_len value
      else (case node_ptr of
          Some (Node (Leaf v pl mk)) \<Rightarrow>
            (let existing_depth = unat pl div 8;
                 existing_b = (if depth < existing_depth then index_byte mk depth pl else mk ! depth);
                 new_box = add_child existing_b (Some (Node (Leaf v pl mk))) Node4_default;
                 new_b = index_byte key depth prefix_len;
                 new_child = insert_node isa None key (depth + 1) prefix_len value
             in Some (Node (add_child new_b new_child new_box)))
        | _ \<Rightarrow>
            (let node = (case node_ptr of Some (Node nb) \<Rightarrow> nb | _ \<Rightarrow> Node4_default);
                 b = index_byte key depth prefix_len
             in case find_child isa node b of
                  Some child_ptr \<Rightarrow>
                    (let new_child = insert_node isa child_ptr key (depth + 1) prefix_len value
                     in Some (Node (update_child b new_child node)))
                | None \<Rightarrow> Some (Node (add_child b (make_leaf key prefix_len value) node)))))"
  by pat_completeness auto
termination
  by (relation "measure (\<lambda>(isa, p, key, depth, pl, v). (unat pl + 7) div 8 - depth)") auto

function search :: "Isa \<Rightarrow> Obj option \<Rightarrow> u8 list \<Rightarrow> nat \<Rightarrow> Obj option option" where
  "search isa node_ptr key depth =
     (case node_ptr of
        None \<Rightarrow> None
      | Some (Val _) \<Rightarrow> None
      | Some (Node (Leaf v pl mk)) \<Rightarrow> (if leaf_matches pl mk key then Some v else None)
      | Some (Node node) \<Rightarrow>
          (if depth \<ge> length key then None
           else (case find_child isa node (key ! depth) of
               Some child \<Rightarrow> search isa child key (depth + 1)
             | None \<Rightarrow> None)))"
  by pat_completeness auto
termination
  by (relation "measure (\<lambda>(isa, p, key, depth). length key - depth)") auto

function delete_node :: "Isa \<Rightarrow> Obj option \<Rightarrow> u8 list \<Rightarrow> nat \<Rightarrow> u8 \<Rightarrow> bool \<times> Obj option" where
  "delete_node isa node_ptr key depth prefix_len =
     (case node_ptr of
        None \<Rightarrow> (False, None)
      | Some (Val _) \<Rightarrow> (False, node_ptr)
      | Some (Node (Leaf v pl mk)) \<Rightarrow>
          (if pl = prefix_len \<and> leaf_matches pl mk key then (True, None) else (False, node_ptr))
      | Some (Node node) \<Rightarrow>
          (let max_depth = (unat prefix_len + 7) div 8 in
           if depth \<ge> max_depth then (False, node_ptr)
           else (let b = index_byte key depth prefix_len in
             case find_child isa node b of
               None \<Rightarrow> (False, node_ptr)
             | Some child_ptr \<Rightarrow>
                 (let (deleted, new_child) = delete_node isa child_ptr key (depth + 1) prefix_len in
                  if \<not> deleted then (False, node_ptr)
                  else if new_child = None then (True, Some (Node (remove_child b node)))
                  else (True, Some (Node (update_child b new_child node)))))))"
  by pat_completeness auto
termination
  by (relation "measure (\<lambda>(isa, p, key, depth, pl). (unat pl + 7) div 8 - depth)") auto

declare insert_node.simps [simp del] search.simps [simp del] delete_node.simps [simp del]

definition insert_prefix :: "Isa \<Rightarrow> u8 list \<Rightarrow> u8 \<Rightarrow> Obj option \<Rightarrow> Tree \<Rightarrow> Tree" where
  "insert_prefix isa ip prefix_len value t =
     t\<lparr>tr_root := insert_node isa (tr_root t) ip 0 prefix_len value, tr_size := tr_size t + 1\<rparr>"

definition Tree_insert :: "Isa \<Rightarrow> u8 list \<Rightarrow> Obj option \<Rightarrow> Tree \<Rightarrow> Tree" where
  "Tree_insert isa ip value t = insert_prefix isa ip (of_nat (length ip * 8)) value t"

definition match_ip :: "Isa \<Rightarrow> u8 list \<Rightarrow> Tree \<Rightarrow> Obj option option" where
  "match_ip isa ip t = search isa (tr_root t) ip 0"

definition delete_prefix :: "Isa \<Rightarrow> u8 list \<Rightarrow> u8 \<Rightarrow> Tree \<Rightarrow> bool \<times> Tree" where
  "delete_prefix isa ip prefix_len t =
     (let (deleted, root) = delete_node isa (tr_root t) ip 0 prefix_len;
          t = (if deleted then t\<lparr>tr_size := (if tr_size t = 0 then 0 else tr_size t - 1)\<rparr> else t)
      in (deleted, t\<lparr>tr_root := root\<rparr>))"

definition Tree_delete :: "Isa \<Rightarrow> u8 list \<Rightarrow> Tree \<Rightarrow> bool \<times> Tree" where
  "Tree_delete isa ip t = delete_prefix isa ip (of_nat (length ip * 8)) t"

section \<open>Matching a leaf\<close>

lemma bit_boundary_mask:
  assumes "n < 8"
  shows "bit (boundary_mask r) n \<longleftrightarrow> 8 - r \<le> n"
  using assms unfolding boundary_mask_def byte_ones by (simp add: bit_push_bit_iff bit_not_iff bit_mask_iff not_less)

lemma boundary_eq_iff:
  assumes "r \<le> 8"
  shows "x AND boundary_mask r = y AND boundary_mask r \<longleftrightarrow> (\<forall>j<r. bit x (7 - j) = bit (y :: u8) (7 - j))"
proof
  assume eq: "x AND boundary_mask r = y AND boundary_mask r"
  show "\<forall>j<r. bit x (7 - j) = bit y (7 - j)"
  proof (intro allI impI)
    fix j
    assume j: "j < r"
    have "bit (x AND boundary_mask r) (7 - j) = bit (y AND boundary_mask r) (7 - j)" using eq by simp
    moreover have "8 - r \<le> 7 - j" using j assms by arith
    ultimately show "bit x (7 - j) = bit y (7 - j)" by (simp add: bit_and_iff bit_boundary_mask)
  qed
next
  assume eq: "\<forall>j<r. bit x (7 - j) = bit y (7 - j)"
  show "x AND boundary_mask r = y AND boundary_mask r"
  proof (rule bit_word_eqI)
    fix n
    assume "n < LENGTH(8)"
    then have n: "n < 8" by simp
    then show "bit (x AND boundary_mask r) n = bit (y AND boundary_mask r) n"
      using spec [OF eq, of "7 - n"] by (auto simp: bit_and_iff bit_boundary_mask)
  qed
qed

lemma boundary_mask_full: "x AND boundary_mask 8 = x"
  unfolding boundary_mask_def byte_ones by simp

lemma byte_bits:
  assumes "i < length ip" and "length key = length ip" and "r \<le> 8"
  shows "ip ! i AND boundary_mask r = key ! i AND boundary_mask r \<longleftrightarrow>
    (\<forall>j<r. bytes_bit ip (8 * i + j) = bytes_bit key (8 * i + j))"
  using assms by (auto simp: boundary_eq_iff bytes_bit_def)

lemma leading_bits:
  assumes "f \<le> length ip" and "length key = length ip" and "r < 8" and "0 < r \<Longrightarrow> f < length ip"
  shows "(\<forall>p < 8 * f + r. bytes_bit ip p = bytes_bit key p) \<longleftrightarrow>
    (\<forall>i<f. ip ! i = key ! i) \<and> (0 < r \<longrightarrow> ip ! f AND boundary_mask r = key ! f AND boundary_mask r)"
proof -
  have "(\<forall>p < 8 * f + r. bytes_bit ip p = bytes_bit key p) \<longleftrightarrow>
      (\<forall>i<f. \<forall>j<8. bytes_bit ip (8 * i + j) = bytes_bit key (8 * i + j))
      \<and> (\<forall>j<r. bytes_bit ip (8 * f + j) = bytes_bit key (8 * f + j))" (is "?L \<longleftrightarrow> ?A \<and> ?B")
  proof
    assume L: ?L
    show "?A \<and> ?B" using L by auto
  next
    assume AB: "?A \<and> ?B"
    show ?L
    proof (intro allI impI)
      fix p
      assume p: "p < 8 * f + r"
      have eq: "p = 8 * (p div 8) + p mod 8" by simp
      have "p div 8 \<le> f" using p assms(3) by auto
      then consider "p div 8 < f" | "p div 8 = f" by linarith
      then show "bytes_bit ip p = bytes_bit key p"
      proof cases
        case 1
        then show ?thesis using AB eq by (metis mod_less_divisor zero_less_numeral)
      next
        case 2
        then have "p mod 8 < r" using p eq by linarith
        then show ?thesis using AB eq 2 by metis
      qed
    qed
  qed
  moreover have "?A \<longleftrightarrow> (\<forall>i<f. ip ! i = key ! i)"
    using byte_bits [of _ ip key 8] assms(1,2) by (auto simp: boundary_mask_full)
  moreover have "?B \<longleftrightarrow> (0 < r \<longrightarrow> ip ! f AND boundary_mask r = key ! f AND boundary_mask r)"
    using byte_bits [of f ip key r] assms by auto
  ultimately show ?thesis by blast
qed

lemma length_masked_key [simp]: "length (masked_key key pl) = 16"
  by (simp add: masked_key_def Let_def)

text \<open>A leaf made for \<open>key\<close> matches the addresses that agree with \<open>key\<close> on the leading bits.\<close>

lemma leaf_matches_masked:
  assumes "length key = length ip" and "length key \<le> 16" and "unat pl \<le> 8 * length key"
  shows "leaf_matches pl (masked_key key pl) ip \<longleftrightarrow> (\<forall>p < unat pl. bytes_bit ip p = bytes_bit key p)"
proof -
  define f where "f = unat pl div 8"
  define r where "r = unat pl mod 8"
  have pl: "unat pl = 8 * f + r" and r: "r < 8" by (simp_all add: f_def r_def)
  have fl: "f \<le> length key" "0 < r \<Longrightarrow> f < length key" using assms(3) pl by auto
  have full: "masked_key key pl ! i = key ! i" if "i < f" for i
    using that fl assms(2) by (auto simp: masked_key_def Let_def f_def [symmetric] r_def [symmetric])
  have part: "masked_key key pl ! f = key ! f AND boundary_mask r" if "0 < r"
    using that fl assms(2) by (simp add: masked_key_def Let_def f_def [symmetric] r_def [symmetric])
  have "leaf_matches pl (masked_key key pl) ip \<longleftrightarrow>
      (\<forall>i<f. ip ! i = key ! i) \<and> (0 < r \<longrightarrow> ip ! f AND boundary_mask r = key ! f AND boundary_mask r)"
    using fl assms(1) full part
    by (auto simp: leaf_matches_def Let_def f_def [symmetric] r_def [symmetric] list_all_iff and.assoc)
  then show ?thesis unfolding pl using leading_bits [of f ip key r] fl r assms(1) by simp
qed

lemma leaf_matches_first: "leaf_matches pl mk ip \<Longrightarrow> 8 \<le> unat pl \<Longrightarrow> 0 < length ip \<Longrightarrow> ip ! 0 = mk ! 0"
proof -
  assume m: "leaf_matches pl mk ip" and "8 \<le> unat pl" and "0 < length ip"
  then have "0 < min (unat pl div 8) (length ip)" by auto
  then have "0 \<in> set [0..<min (unat pl div 8) (length ip)]" unfolding set_upt by simp
  with m show ?thesis by (auto simp: leaf_matches_def Let_def list_all_iff)
qed

lemma masked_key_first: "8 \<le> unat pl \<Longrightarrow> 0 < length key \<Longrightarrow> masked_key key pl ! 0 = key ! 0"
proof -
  assume "8 \<le> unat pl" and "0 < length key"
  then have "0 < unat pl div 8" "0 < length key" by auto
  then show ?thesis by (simp add: masked_key_def Let_def)
qed

section \<open>One step of each traversal\<close>

lemma index_byte_full: "depth < unat pl div 8 \<Longrightarrow> index_byte key depth pl = key ! depth"
  by (simp add: index_byte_def Let_def)

lemma search_inner:
  "node_inv nb \<Longrightarrow> depth < length key \<Longrightarrow>
   search isa (Some (Node nb)) key depth =
     (case find_child isa nb (key ! depth) of Some child \<Rightarrow> search isa child key (depth + 1) | None \<Rightarrow> None)"
  by (subst search.simps) (cases nb; simp)

lemma search_leaf:
  "search isa (make_leaf k pl v) key depth = (if leaf_matches pl (masked_key k pl) key then Some v else None)"
  by (subst search.simps) (simp add: make_leaf_def)

lemma insert_node_inner:
  assumes "node_inv nb" and "depth < (unat pl + 7) div 8"
  shows "insert_node isa (Some (Node nb)) key depth pl v =
    (let b = index_byte key depth pl in
     case find_child isa nb b of
       Some c \<Rightarrow> Some (Node (update_child b (insert_node isa c key (depth + 1) pl v) nb))
     | None \<Rightarrow> Some (Node (add_child b (make_leaf key pl v) nb)))"
  using assms by (subst insert_node.simps) (cases nb; simp add: Let_def del: find_child.simps add_child.simps update_child.simps remove_child.simps split: option.split)

lemma insert_node_last: "(unat pl + 7) div 8 \<le> depth \<Longrightarrow> insert_node isa p key depth pl v = make_leaf key pl v"
  by (subst insert_node.simps) simp

lemma insert_node_expand:
  assumes "depth < (unat pl + 7) div 8" and "depth < unat pl0 div 8"
  shows "insert_node isa (make_leaf k pl0 v0) key depth pl v =
    Some (Node (add_child (index_byte key depth pl) (insert_node isa None key (depth + 1) pl v)
      (add_child (masked_key k pl0 ! depth) (make_leaf k pl0 v0) Node4_default)))"
  using assms by (subst insert_node.simps) (simp add: make_leaf_def Let_def index_byte_full)

lemma delete_node_inner:
  assumes "node_inv nb" and "depth < (unat pl + 7) div 8"
  shows "delete_node isa (Some (Node nb)) key depth pl =
    (let b = index_byte key depth pl in
     case find_child isa nb b of
       None \<Rightarrow> (False, Some (Node nb))
     | Some c \<Rightarrow>
         (let (deleted, new_child) = delete_node isa c key (depth + 1) pl in
          if \<not> deleted then (False, Some (Node nb))
          else if new_child = None then (True, Some (Node (remove_child b nb)))
          else (True, Some (Node (update_child b new_child nb)))))"
  using assms by (subst delete_node.simps)
    (cases nb; simp add: Let_def del: find_child.simps add_child.simps update_child.simps remove_child.simps
      split: option.split prod.split)

lemma delete_node_leaf:
  "delete_node isa (make_leaf k pl0 v) key depth pl =
    (if pl0 = pl \<and> leaf_matches pl0 (masked_key k pl0) key then (True, None) else (False, make_leaf k pl0 v))"
  by (subst delete_node.simps) (simp add: make_leaf_def)

section \<open>Trees whose routes differ in the first byte\<close>

text \<open>\<open>flat isa M t\<close>: the root's children are leaves, the leaf under byte \<open>b\<close> made from the entry
  \<open>M b\<close>, a key that starts with \<open>b\<close>, a prefix length of at least eight and a value.\<close>

type_synonym art_entries = "u8 \<rightharpoonup> u8 list \<times> u8 \<times> Obj option"

definition flat_root :: "Isa \<Rightarrow> art_entries \<Rightarrow> Obj NodeBox \<Rightarrow> bool" where
  "flat_root isa M nb \<longleftrightarrow> node_inv nb
     \<and> (\<forall>b. find_child isa nb b = map_option (\<lambda>(k, pl, v). make_leaf k pl v) (M b))
     \<and> (\<forall>b k pl v. M b = Some (k, pl, v) \<longrightarrow> k ! 0 = b \<and> 8 \<le> unat pl)"

definition flat :: "Isa \<Rightarrow> art_entries \<Rightarrow> Tree \<Rightarrow> bool" where
  "flat isa M t \<longleftrightarrow> (\<exists>nb. tr_root t = Some (Node nb) \<and> flat_root isa M nb)"

definition packed_root :: "Tree \<Rightarrow> bool" where
  "packed_root t \<longleftrightarrow> (\<exists>nb. tr_root t = Some (Node nb) \<and> compact nb)"

lemma flat_new: "flat isa (\<lambda>_. None) Tree_new" "packed_root Tree_new"
  by (simp_all add: flat_def flat_root_def packed_root_def Tree_new_def Node4_default_inv)

lemma flat_match:
  assumes "flat isa M t" and "0 < length ip"
  shows "match_ip isa ip t = (case M (ip ! 0) of
      Some (k, pl, v) \<Rightarrow> if leaf_matches pl (masked_key k pl) ip then Some v else None
    | None \<Rightarrow> None)"
  using assms by (auto simp: flat_def flat_root_def match_ip_def search_inner search_leaf split: option.splits)

lemma flat_insert:
  assumes "isa \<noteq> Neon" and "flat isa M t" and "packed_root t" and "M (key ! 0) = None" and "8 \<le> unat pl"
  shows "flat isa (M(key ! 0 \<mapsto> (key, pl, v))) (insert_prefix isa key pl v t)"
    and "packed_root (insert_prefix isa key pl v t)"
    and "tr_size (insert_prefix isa key pl v t) = tr_size t + 1"
proof -
  obtain nb where nb: "tr_root t = Some (Node nb)" "node_inv nb" "compact nb"
    and find: "\<And>b. find_child isa nb b = map_option (\<lambda>(k, pl, v). make_leaf k pl v) (M b)"
    and keys: "\<forall>b k pl v. M b = Some (k, pl, v) \<longrightarrow> k ! 0 = b \<and> 8 \<le> unat pl"
    using assms(2,3) by (auto simp: flat_def flat_root_def packed_root_def)
  have d: "0 < (unat pl + 7) div 8" and i: "index_byte key 0 pl = key ! 0"
    using assms(5) by (auto intro: index_byte_full)
  have none: "find_child isa nb (key ! 0) = None" using find assms(4) by simp
  have root: "tr_root (insert_prefix isa key pl v t) = Some (Node (add_child (key ! 0) (make_leaf key pl v) nb))"
    using none by (simp add: insert_prefix_def nb insert_node_inner [OF nb(2) d] i)
  have leaf: "make_leaf key pl v \<noteq> None" by (simp add: make_leaf_def)
  note laws = byte_map_nodes [OF assms(1)]
  note put = byte_map.put_inv [OF laws nb(2,3) none leaf] byte_map.find_put [OF laws nb(2,3) none leaf]
  show "flat isa (M(key ! 0 \<mapsto> (key, pl, v))) (insert_prefix isa key pl v t)"
    using root put find keys assms(5) by (auto simp: flat_def flat_root_def)
  show "packed_root (insert_prefix isa key pl v t)" using root put by (simp add: packed_root_def)
  show "tr_size (insert_prefix isa key pl v t) = tr_size t + 1" by (simp add: insert_prefix_def)
qed

lemma flat_delete:
  assumes "isa \<noteq> Neon" and "flat isa M t" and "8 \<le> unat pl"
  shows "flat isa (case M (key ! 0) of
        Some (k, pl0, v) \<Rightarrow> if pl0 = pl \<and> leaf_matches pl (masked_key k pl) key then M(key ! 0 := None) else M
      | None \<Rightarrow> M) (snd (delete_prefix isa key pl t))"
proof -
  obtain nb where nb: "tr_root t = Some (Node nb)" "node_inv nb" "flat_root isa M nb"
    and find: "\<And>b. find_child isa nb b = map_option (\<lambda>(k, pl, v). make_leaf k pl v) (M b)"
    using assms(2) by (auto simp: flat_def flat_root_def)
  have d: "0 < (unat pl + 7) div 8" and i: "index_byte key 0 pl = key ! 0"
    using assms(3) by (auto intro: index_byte_full)
  note del = byte_map.del_inv [OF byte_map_nodes [OF assms(1)] nb(2), of "key ! 0"]
    byte_map.find_del [OF byte_map_nodes [OF assms(1)] nb(2), of "key ! 0"]
  have drop: "flat_root isa (M(key ! 0 := None)) (remove_child (key ! 0) nb)"
    using nb(3) del by (auto simp: flat_root_def)
  show ?thesis
  proof (cases "M (key ! 0)")
    case None
    then show ?thesis using nb find by (simp add: flat_def delete_prefix_def delete_node_inner [OF nb(2) d] i)
  next
    case (Some e)
    obtain k pl0 v where e: "e = (k, pl0, v)" by (metis prod_cases3)
    show ?thesis using Some e nb drop find [of "key ! 0"]
      by (simp add: flat_def delete_prefix_def delete_node_inner [OF nb(2) d] i delete_node_leaf) auto
  qed
qed

lemma delete_prefix_miss:
  assumes "isa \<noteq> Neon" and "flat isa M t" and "M (key ! 0) = Some (k, pl0, v)" and "8 \<le> unat pl" and "pl0 \<noteq> pl"
  shows "delete_prefix isa key pl t = (False, t)"
proof -
  obtain nb where nb: "tr_root t = Some (Node nb)" "node_inv nb"
    and find: "find_child isa nb (key ! 0) = Some (make_leaf k pl0 v)"
    using assms(2,3) by (auto simp: flat_def flat_root_def)
  have d: "0 < (unat pl + 7) div 8" and i: "index_byte key 0 pl = key ! 0"
    using assms(4) by (auto intro: index_byte_full)
  show ?thesis using nb find assms(5)
    by (simp add: delete_prefix_def delete_node_inner [OF nb(2) d] i delete_node_leaf)
qed

section \<open>A second host below a leaf\<close>

text \<open>Splitting a leaf files the old and the new route under one byte when they agree there; the
  search sees only the first.\<close>

lemma add_child_first:
  "add_child b v Node4_default =
    N4 \<lparr>h_node_type = NT_Node4, h_num_children = 1, h_prefix_len = 0, h_prefix = replicate 8 0\<rparr> [b, 0, 0, 0] [v, None, None, None]"
proof -
  have r: "replicate 4 x = [x, x, x, x]" for x :: 'c by (simp add: numeral_eq_Suc)
  show ?thesis by (simp add: Node4_default_def add_child_4_def r)
qed

lemma add_child_second:
  "add_child c w (add_child b v Node4_default) =
    N4 \<lparr>h_node_type = NT_Node4, h_num_children = 2, h_prefix_len = 0, h_prefix = replicate 8 0\<rparr> [b, c, 0, 0] [v, w, None, None]"
  unfolding add_child_first by (simp add: add_child_4_def word_le_nat_alt)

lemma find_child_first: "find_child isa (add_child b v Node4_default) b = Some v"
  unfolding add_child_first by (simp add: find_scalar_def)

lemma find_child_second: "find_child isa (add_child c w (add_child b v Node4_default)) b = Some v"
proof -
  have "[0..<2] = [0, 1 :: nat]" by (simp add: upt_rec)
  then show ?thesis unfolding add_child_second by (simp add: find_scalar_def)
qed

lemma search_inner_N4:
  "depth < length key \<Longrightarrow> search isa (Some (Node (N4 h ks ch))) key depth =
     (case find_child isa (N4 h ks ch) (key ! depth) of Some child \<Rightarrow> search isa child key (depth + 1) | None \<Rightarrow> None)"
  by (subst search.simps) simp

lemma second_host_hidden:
  assumes "length k1 = length k2" and "1 < length k1" and "length k1 \<le> 16" and "k1 \<noteq> k2"
    and "k1 ! 0 = k2 ! 0" and "k1 ! 1 = k2 ! 1"
  shows "match_ip isa k2 (Tree_insert isa k2 v2 (Tree_insert isa k1 v1 Tree_new)) = None"
proof -
  define pl :: u8 where "pl = of_nat (length k1 * 8)"
  have pl: "unat pl = 8 * length k1" unfolding pl_def unat_of_nat using assms(3) by simp
  have d: "0 < (unat pl + 7) div 8" "Suc 0 < (unat pl + 7) div 8" "0 < unat pl div 8" "Suc 0 < unat pl div 8"
    using assms(2) by (auto simp: pl)
  have i: "index_byte k 0 pl = k ! 0" "index_byte k (Suc 0) pl = k ! 1" for k using d by (simp_all add: index_byte_full)
  have mk: "masked_key k1 pl ! Suc 0 = k1 ! 1" using assms(2,3) pl by (simp add: masked_key_def Let_def)
  have ne: "k2 \<noteq> []" using assms(1,2) by auto
  let ?leaf = "make_leaf k1 pl v1"
  let ?n1 = "add_child (k1 ! 0) ?leaf Node4_default"
  have n1: "node_inv ?n1"
    using add_child_added [of Node4_default "k1 ! 0" ?leaf]
    by (simp add: child_added_def Node4_default_inv make_leaf_def)
  have root1: "insert_node isa (Some (Node Node4_default)) k1 0 pl v1 = Some (Node ?n1)"
    by (simp add: insert_node_inner Node4_default_inv d i)
  let ?new = "insert_node isa None k2 (Suc (Suc 0)) pl v2"
  let ?n2 = "add_child (k2 ! 1) ?new (add_child (k1 ! 1) ?leaf Node4_default)"
  have "insert_node isa ?leaf k2 (Suc 0) pl v2 = Some (Node ?n2)"
    using insert_node_expand [OF d(2,4), of isa k1 v1 k2 v2] by (simp add: i mk)
  then have "insert_node isa (Some (Node ?n1)) k2 0 pl v2 = Some (Node (update_child (k1 ! 0) (Some (Node ?n2)) ?n1))"
    using insert_node_inner [OF n1 d(1), of isa k2 v2] find_child_first [of isa "k1 ! 0" ?leaf] assms(5)
    by (simp add: i Let_def del: find_child.simps add_child.simps update_child.simps)
  moreover have "search isa (Some (Node (update_child (k1 ! 0) (Some (Node ?n2)) ?n1))) k2 0 =
      search isa (Some (Node ?n2)) k2 (Suc 0)"
    using assms(5) ne search_inner_N4 [of 0 k2] unfolding add_child_first
    by (simp add: find_scalar_def)
  moreover have "search isa (Some (Node ?n2)) k2 (Suc 0) = search isa ?leaf k2 (Suc (Suc 0))"
    using assms(1,2,6) find_child_second [where isa = isa and c = "k2 ! 1" and w = ?new and b = "k1 ! 1" and v = ?leaf] unfolding add_child_second
    by (simp add: search_inner_N4 del: find_child.simps)
  moreover have "\<not> leaf_matches pl (masked_key k1 pl) k2"
    using bytes_eqI [of k1 k2] assms(1,3,4) pl by (auto simp: leaf_matches_masked)
  ultimately show ?thesis
    unfolding match_ip_def Tree_insert_def insert_prefix_def Tree_new_def assms(1) [symmetric] pl_def [symmetric]
    by (simp add: root1 search_leaf)
qed

end
