(* ===== verification/EngineArt.thy ===== *)
theory EngineArt
  imports Engine ArtTree
begin

text \<open>
  The engines over the adaptive radix tree (\<open>engine/src/engine_art.rs\<close>). The tree holds raw
  pointers to boxed metadata, so the adapter carries the heap of those boxes: \<open>insert\<close>
  allocates, \<open>lookup\<close> reads through the pointer, \<open>remove\<close> takes the box back and frees it.
  Reading or freeing a box that is no longer allocated is undefined behaviour; an operation that
  does so has the value \<open>None\<close>. The locks only serialise the operations. The sharded adapter
  has one tree per shard.
\<close>

section \<open>Adapter\<close>

record ARTEngineAdapter =
  ad_tree :: Tree
  ad_heap :: "nat \<rightharpoonup> Metadata"
  ad_next :: nat

definition ARTEngineAdapter_new :: ARTEngineAdapter where
  "ARTEngineAdapter_new = \<lparr>ad_tree = Tree_new, ad_heap = Map.empty, ad_next = 0\<rparr>"

definition deref :: "ARTEngineAdapter \<Rightarrow> Obj option \<Rightarrow> Metadata option" where
  "deref e p = (case p of Some (Val a) \<Rightarrow> ad_heap e a | _ \<Rightarrow> None)"

definition free :: "Obj option \<Rightarrow> ARTEngineAdapter \<Rightarrow> ARTEngineAdapter" where
  "free p e = (case p of Some (Val a) \<Rightarrow> e\<lparr>ad_heap := (ad_heap e)(a := None)\<rparr> | _ \<Rightarrow> e)"

definition ART_insert :: "'n ipnet_ops \<Rightarrow> Isa \<Rightarrow> 'n \<Rightarrow> Metadata \<Rightarrow> ARTEngineAdapter \<Rightarrow> (string + unit) \<times> ARTEngineAdapter" where
  "ART_insert N isa pfx metadata e =
     (let ip_bytes = octets (net_ip N pfx);
          metadata_ptr = Some (Val (ad_next e));
          e = e\<lparr>ad_heap := (ad_heap e)(ad_next e \<mapsto> metadata), ad_next := ad_next e + 1\<rparr>
      in (Inr (), e\<lparr>ad_tree := insert_prefix isa ip_bytes (of_nat (net_prefix N pfx)) metadata_ptr (ad_tree e)\<rparr>))"

definition ART_lookup :: "Isa \<Rightarrow> IpAddr \<Rightarrow> ARTEngineAdapter \<Rightarrow> Metadata option option" where
  "ART_lookup isa ip e =
     (case match_ip isa (octets ip) (ad_tree e) of
        Some p \<Rightarrow> (case deref e p of Some metadata \<Rightarrow> Some (Some metadata) | None \<Rightarrow> None)
      | None \<Rightarrow> Some None)"

definition ART_remove :: "'n ipnet_ops \<Rightarrow> Isa \<Rightarrow> 'n \<Rightarrow> ARTEngineAdapter \<Rightarrow> (Metadata option \<times> ARTEngineAdapter) option" where
  "ART_remove N isa pfx e =
     (let ip_bytes = octets (net_ip N pfx);
          old = (case match_ip isa ip_bytes (ad_tree e) of
              Some p \<Rightarrow> (case deref e p of Some metadata \<Rightarrow> Some (Some metadata, free p e) | None \<Rightarrow> None)
            | None \<Rightarrow> Some (None, e))
      in case old of
           None \<Rightarrow> None
         | Some (old_metadata, e) \<Rightarrow>
             Some (old_metadata,
               e\<lparr>ad_tree := snd (delete_prefix isa ip_bytes (of_nat (net_prefix N pfx)) (ad_tree e))\<rparr>))"

definition ART_contains :: "'n ipnet_ops \<Rightarrow> Isa \<Rightarrow> 'n \<Rightarrow> ARTEngineAdapter \<Rightarrow> bool" where
  "ART_contains N isa pfx e \<longleftrightarrow> match_ip isa (octets (net_ip N pfx)) (ad_tree e) \<noteq> None"

text \<open>Dropping the old tree frees its nodes and leaves the metadata boxes allocated.\<close>

definition ART_clear :: "ARTEngineAdapter \<Rightarrow> ARTEngineAdapter" where
  "ART_clear e = e\<lparr>ad_tree := Tree_new\<rparr>"

definition ART_size :: "ARTEngineAdapter \<Rightarrow> usize" where
  "ART_size e = tr_size (ad_tree e)"

definition ART_stats :: "ARTEngineAdapter \<Rightarrow> EngineStats" where
  "ART_stats e = EngineStats_default\<lparr>st_size := ART_size e\<rparr>"

section \<open>Sharded adapter\<close>

record ShardedARTEngineAdapter =
  sa_shards :: "ARTEngineAdapter list"
  sa_num_shards :: usize
  sa_shard_size :: usize
  sa_mask_bits :: u8

definition ShardedART_new :: "usize \<Rightarrow> usize \<Rightarrow> u8 \<Rightarrow> ShardedARTEngineAdapter" where
  "ShardedART_new num_shards shard_size mask_bits =
     \<lparr>sa_shards = replicate (unat num_shards) ARTEngineAdapter_new, sa_num_shards = num_shards,
      sa_shard_size = shard_size, sa_mask_bits = 32\<rparr>"

text \<open>The hash is the one of \<open>ShardedEngine::get_shard\<close>, line for line.\<close>

definition ShardedART_get_shard :: "ShardedARTEngineAdapter \<Rightarrow> IpAddr \<Rightarrow> usize option" where
  "ShardedART_get_shard e ip =
     (if sa_num_shards e = 0 then None else Some (get_shard_hash (sa_mask_bits e) ip mod sa_num_shards e))"

fun insert_shards :: "'n ipnet_ops \<Rightarrow> Isa \<Rightarrow> 'n \<Rightarrow> Metadata \<Rightarrow> ARTEngineAdapter list \<Rightarrow> (string + unit) \<times> ARTEngineAdapter list" where
  "insert_shards N isa pfx metadata [] = (Inr (), [])"
| "insert_shards N isa pfx metadata (s # ss) =
     (case ART_insert N isa pfx metadata s of
        (Inl err, s') \<Rightarrow> (Inl err, s' # ss)
      | (Inr _, s') \<Rightarrow> (case insert_shards N isa pfx metadata ss of (r, ss') \<Rightarrow> (r, s' # ss')))"

definition ShardedART_insert ::
  "'n ipnet_ops \<Rightarrow> Isa \<Rightarrow> 'n \<Rightarrow> Metadata \<Rightarrow> ShardedARTEngineAdapter \<Rightarrow> (string + unit) \<times> ShardedARTEngineAdapter" where
  "ShardedART_insert N isa pfx metadata e =
     (case insert_shards N isa pfx metadata (sa_shards e) of (r, ss) \<Rightarrow> (r, e\<lparr>sa_shards := ss\<rparr>))"

definition ShardedART_lookup :: "Isa \<Rightarrow> IpAddr \<Rightarrow> ShardedARTEngineAdapter \<Rightarrow> Metadata option option" where
  "ShardedART_lookup isa ip e =
     (case ShardedART_get_shard e ip of
        None \<Rightarrow> None
      | Some shard_idx \<Rightarrow>
          (if unat shard_idx < length (sa_shards e) then ART_lookup isa ip (sa_shards e ! unat shard_idx) else None))"

fun remove_shards ::
  "'n ipnet_ops \<Rightarrow> Isa \<Rightarrow> 'n \<Rightarrow> Metadata option \<Rightarrow> ARTEngineAdapter list \<Rightarrow> (Metadata option \<times> ARTEngineAdapter list) option" where
  "remove_shards N isa pfx removed [] = Some (removed, [])"
| "remove_shards N isa pfx removed (s # ss) =
     (case ART_remove N isa pfx s of
        None \<Rightarrow> None
      | Some (shard_removed, s') \<Rightarrow>
          map_option (\<lambda>(r, ss'). (r, s' # ss'))
            (remove_shards N isa pfx (if removed = None then shard_removed else removed) ss))"

definition ShardedART_remove ::
  "'n ipnet_ops \<Rightarrow> Isa \<Rightarrow> 'n \<Rightarrow> ShardedARTEngineAdapter \<Rightarrow> (Metadata option \<times> ShardedARTEngineAdapter) option" where
  "ShardedART_remove N isa pfx e =
     map_option (\<lambda>(r, ss). (r, e\<lparr>sa_shards := ss\<rparr>)) (remove_shards N isa pfx None (sa_shards e))"

definition ShardedART_contains :: "'n ipnet_ops \<Rightarrow> Isa \<Rightarrow> 'n \<Rightarrow> ShardedARTEngineAdapter \<Rightarrow> bool" where
  "ShardedART_contains N isa pfx e = (case sa_shards e of [] \<Rightarrow> False | s # _ \<Rightarrow> ART_contains N isa pfx s)"

definition ShardedART_clear :: "ShardedARTEngineAdapter \<Rightarrow> ShardedARTEngineAdapter" where
  "ShardedART_clear e = e\<lparr>sa_shards := map ART_clear (sa_shards e)\<rparr>"

definition ShardedART_size :: "ShardedARTEngineAdapter \<Rightarrow> usize" where
  "ShardedART_size e = (case sa_shards e of [] \<Rightarrow> 0 | s # _ \<Rightarrow> ART_size s)"

definition ShardedART_stats :: "ShardedARTEngineAdapter \<Rightarrow> EngineStats" where
  "ShardedART_stats e =
     foldl (\<lambda>total s. let stats = ART_stats s in
         \<lparr>st_inserts = st_inserts total + st_inserts stats, st_lookups = st_lookups total + st_lookups stats,
          st_hits = st_hits total + st_hits stats, st_misses = st_misses total + st_misses stats,
          st_removals = st_removals total + st_removals stats, st_size = st_size total + st_size stats\<rparr>)
       EngineStats_default (sa_shards e)"

section \<open>The shards agree\<close>

text \<open>A history of route changes, on one adapter and on the sharded one.\<close>

datatype 'n art_op = ArtInsert 'n Metadata | ArtRemove 'n

fun ART_op :: "'n ipnet_ops \<Rightarrow> Isa \<Rightarrow> 'n art_op \<Rightarrow> ARTEngineAdapter \<Rightarrow> ARTEngineAdapter option" where
  "ART_op N isa (ArtInsert n md) e = Some (snd (ART_insert N isa n md e))"
| "ART_op N isa (ArtRemove n) e = map_option snd (ART_remove N isa n e)"

fun ShardedART_op :: "'n ipnet_ops \<Rightarrow> Isa \<Rightarrow> 'n art_op \<Rightarrow> ShardedARTEngineAdapter \<Rightarrow> ShardedARTEngineAdapter option" where
  "ShardedART_op N isa (ArtInsert n md) e = Some (snd (ShardedART_insert N isa n md e))"
| "ShardedART_op N isa (ArtRemove n) e = map_option snd (ShardedART_remove N isa n e)"

fun ART_ops :: "'n ipnet_ops \<Rightarrow> Isa \<Rightarrow> 'n art_op list \<Rightarrow> ARTEngineAdapter \<Rightarrow> ARTEngineAdapter option" where
  "ART_ops N isa [] e = Some e"
| "ART_ops N isa (c # cs) e = Option.bind (ART_op N isa c e) (ART_ops N isa cs)"

fun ShardedART_ops :: "'n ipnet_ops \<Rightarrow> Isa \<Rightarrow> 'n art_op list \<Rightarrow> ShardedARTEngineAdapter \<Rightarrow> ShardedARTEngineAdapter option" where
  "ShardedART_ops N isa [] e = Some e"
| "ShardedART_ops N isa (c # cs) e = Option.bind (ShardedART_op N isa c e) (ShardedART_ops N isa cs)"

lemma insert_shards_replicate:
  "insert_shards N isa n md (replicate k e) = (Inr (), replicate k (snd (ART_insert N isa n md e)))"
  by (induction k) (simp_all add: ART_insert_def Let_def)

lemma remove_shards_replicate:
  assumes "ART_remove N isa n e = Some (r, e')"
  shows "remove_shards N isa n removed (replicate k e) =
    Some (if removed = None \<and> 0 < k then r else removed, replicate k e')"
  using assms by (induction k arbitrary: removed) auto

lemma remove_shards_undefined:
  "ART_remove N isa n e = None \<Longrightarrow> 0 < k \<Longrightarrow> remove_shards N isa n removed (replicate k e) = None"
  by (cases k) simp_all

definition mirrors :: "ARTEngineAdapter \<Rightarrow> ShardedARTEngineAdapter \<Rightarrow> bool" where
  "mirrors e s \<longleftrightarrow> sa_num_shards s \<noteq> 0 \<and> sa_shards s = replicate (unat (sa_num_shards s)) e"

lemma mirrors_op:
  assumes "mirrors e s"
  shows "rel_option mirrors (ART_op N isa c e) (ShardedART_op N isa c s)"
proof (cases c)
  case (ArtInsert n md)
  then show ?thesis using assms by (simp add: mirrors_def ShardedART_insert_def insert_shards_replicate)
next
  case (ArtRemove n)
  have k: "0 < unat (sa_num_shards s)" using assms by (simp add: mirrors_def unat_gt_0)
  show ?thesis
  proof (cases "ART_remove N isa n e")
    case None
    then show ?thesis using ArtRemove assms k
      by (simp add: mirrors_def ShardedART_remove_def remove_shards_undefined)
  next
    case (Some p)
    obtain r e' where p: "p = (r, e')" by fastforce
    show ?thesis using ArtRemove assms k Some p
      by (simp add: mirrors_def ShardedART_remove_def remove_shards_replicate)
  qed
qed

lemma mirrors_ops:
  "mirrors e s \<Longrightarrow> rel_option mirrors (ART_ops N isa cs e) (ShardedART_ops N isa cs s)"
proof (induction cs arbitrary: e s)
  case (Cons c cs)
  from mirrors_op [OF Cons.prems, of N isa c] show ?case
    by (cases rule: option.rel_cases) (auto intro: Cons.IH)
qed simp

lemma mirrors_new: "n \<noteq> 0 \<Longrightarrow> mirrors ARTEngineAdapter_new (ShardedART_new n k m)"
  by (simp add: mirrors_def ShardedART_new_def)

lemma mirrors_lookup:
  assumes "mirrors e s"
  shows "ShardedART_lookup isa ip s = ART_lookup isa ip e"
proof -
  have "get_shard_hash (sa_mask_bits s) ip mod sa_num_shards s < sa_num_shards s"
    using assms by (intro word_mod_less_divisor) (simp add: mirrors_def word_gt_0)
  then show ?thesis using assms
    by (simp add: mirrors_def ShardedART_lookup_def ShardedART_get_shard_def word_less_nat_alt)
qed

lemma mirrors_inserts:
  "mirrors e s \<Longrightarrow> mirrors (fold (\<lambda>(n, md) e. snd (ART_insert N isa n md e)) rs e)
     (fold (\<lambda>(n, md) e. snd (ShardedART_insert N isa n md e)) rs s)"
proof (induction rs arbitrary: e s)
  case (Cons r rs)
  obtain n md where r: "r = (n, md)" by fastforce
  have "mirrors (snd (ART_insert N isa n md e)) (snd (ShardedART_insert N isa n md s))"
    using mirrors_op [OF Cons.prems, of N isa "ArtInsert n md"] by simp
  from Cons.IH [OF this] show ?case by (simp add: r)
qed simp

section \<open>Routes that differ in the first octet\<close>

definition first_octet :: "'n ipnet_ops \<Rightarrow> 'n \<Rightarrow> u8" where
  "first_octet N n = octets (net_ip N n) ! 0"

text \<open>\<open>art_state N isa v4 T e\<close>: the adapter holds exactly the routes \<open>T\<close>, filed by their first
  octet, all of one address family and at least eight bits long.\<close>

definition art_state :: "'n ipnet_ops \<Rightarrow> Isa \<Rightarrow> bool \<Rightarrow> (u8 \<rightharpoonup> 'n \<times> Metadata) \<Rightarrow> ARTEngineAdapter \<Rightarrow> bool" where
  "art_state N isa v4 T e \<longleftrightarrow> (\<exists>M. flat isa M (ad_tree e)
     \<and> (\<forall>b. T b = None \<longrightarrow> M b = None)
     \<and> (\<forall>b n md. T b = Some (n, md) \<longrightarrow>
          first_octet N n = b \<and> is_ipv4 (net_ip N n) = v4 \<and> 8 \<le> net_prefix N n
          \<and> (\<exists>a < ad_next e. ad_heap e a = Some md
              \<and> M b = Some (octets (net_ip N n), of_nat (net_prefix N n), Some (Val a)))))"

lemma art_state_new: "art_state N isa v4 Map.empty ARTEngineAdapter_new"
  using flat_new(1) by (auto simp: art_state_def ARTEngineAdapter_new_def)

lemma length_octets_le: "length (octets ip) \<le> 16" "0 < length (octets ip)"
  by (cases ip; simp)+

context ipnetwork
begin

lemma unat_prefix: "unat (of_nat (net_prefix N n) :: u8) = net_prefix N n"
proof -
  have "ip_width (net_ip N n) \<le> 128" by (cases "net_ip N n") simp_all
  then have "net_prefix N n < 256" using net_prefix_le [of n] by linarith
  then show ?thesis unfolding unat_of_nat by simp
qed

lemma leaf_matches_contains:
  assumes "is_ipv4 ip = is_ipv4 (net_ip N n)"
  shows "leaf_matches (of_nat (net_prefix N n)) (masked_key (octets (net_ip N n)) (of_nat (net_prefix N n))) (octets ip)
    \<longleftrightarrow> network_contains_ip N n ip"
proof -
  have w: "ip_width ip = ip_width (net_ip N n)" by (rule ip_width_family [OF assms])
  have l: "length (octets (net_ip N n)) = length (octets ip)"
    using w length_octets [of ip] length_octets [of "net_ip N n"] by linarith
  have "take (net_prefix N n) (ip_bits ip) = take (net_prefix N n) (ip_bits (net_ip N n)) \<longleftrightarrow>
      (\<forall>p < net_prefix N n. bytes_bit (octets ip) p = bytes_bit (octets (net_ip N n)) p)"
    using net_prefix_le [of n] w by (auto simp: list_eq_iff_nth_eq ip_bits_nth min_def)
  then show ?thesis
    using l length_octets_le [of "net_ip N n"] net_prefix_le [of n] length_octets [of "net_ip N n"] assms
    by (simp add: leaf_matches_masked unat_prefix network_contains_ip_iff net_v4_def net_network_family
        take_eq_prefix net_bits_ip)
qed

lemma contains_first_octet:
  assumes "network_contains_ip N n ip" and "8 \<le> net_prefix N n"
  shows "first_octet N n = octets ip ! 0"
proof -
  have fam: "is_ipv4 ip = is_ipv4 (net_ip N n)"
    using assms(1) by (simp add: network_contains_ip_iff net_v4_def net_network_family)
  from leaf_matches_contains [OF fam] assms(1)
  have "leaf_matches (of_nat (net_prefix N n)) (masked_key (octets (net_ip N n)) (of_nat (net_prefix N n))) (octets ip)"
    by simp
  then have "octets ip ! 0 = masked_key (octets (net_ip N n)) (of_nat (net_prefix N n)) ! 0"
    by (rule leaf_matches_first) (unfold unat_prefix, rule assms(2), rule length_octets_le(2))
  also have "\<dots> = octets (net_ip N n) ! 0"
    by (rule masked_key_first) (unfold unat_prefix, rule assms(2), rule length_octets_le(2))
  finally show ?thesis by (simp add: first_octet_def)
qed

lemma art_insert_state:
  fixes md :: Metadata
  assumes "isa \<noteq> Neon" and "art_state N isa v4 T e" and "packed_root (ad_tree e)"
    and "T (first_octet N n) = None" and "is_ipv4 (net_ip N n) = v4" and "8 \<le> net_prefix N n"
  defines "e' \<equiv> snd (ART_insert N isa n md e)"
  shows "art_state N isa v4 (T(first_octet N n \<mapsto> (n, md))) e'" and "packed_root (ad_tree e')"
    and "ART_size e' = ART_size e + 1"
proof -
  obtain M where M: "flat isa M (ad_tree e)" "\<forall>b. T b = None \<longrightarrow> M b = None"
    and T: "\<And>b n md. T b = Some (n, md) \<Longrightarrow>
          first_octet N n = b \<and> is_ipv4 (net_ip N n) = v4 \<and> 8 \<le> net_prefix N n
          \<and> (\<exists>a < ad_next e. ad_heap e a = Some md
              \<and> M b = Some (octets (net_ip N n), of_nat (net_prefix N n), Some (Val a)))"
    using assms(2) by (auto simp: art_state_def)
  let ?k = "octets (net_ip N n)" and ?pl = "of_nat (net_prefix N n) :: u8"
  have none: "M (?k ! 0) = None" and pl: "8 \<le> unat ?pl"
    using M(2) assms(4,6) by (auto simp: first_octet_def unat_prefix)
  note ins = flat_insert [OF assms(1) M(1) assms(3) none pl, of "Some (Val (ad_next e))"]
  have e': "ad_tree e' = insert_prefix isa ?k ?pl (Some (Val (ad_next e))) (ad_tree e)"
    "ad_heap e' = (ad_heap e)(ad_next e \<mapsto> md)" "ad_next e' = Suc (ad_next e)"
    by (simp_all add: e'_def ART_insert_def Let_def)
  let ?M = "M(first_octet N n \<mapsto> (?k, ?pl, Some (Val (ad_next e))))"
  have "flat isa ?M (ad_tree e')" using ins(1) e' by (simp add: first_octet_def)
  moreover have "\<forall>b. (T(first_octet N n \<mapsto> (n, md))) b = None \<longrightarrow> ?M b = None" using M(2) by simp
  moreover have "first_octet N n' = b \<and> is_ipv4 (net_ip N n') = v4 \<and> 8 \<le> net_prefix N n'"
    if "(T(first_octet N n \<mapsto> (n, md))) b = Some (n', md')" for b n' md'
    using that T [of b n' md'] assms(5,6) by (cases "b = first_octet N n") simp_all
  moreover have "\<exists>a < ad_next e'. ad_heap e' a = Some md'
      \<and> ?M b = Some (octets (net_ip N n'), of_nat (net_prefix N n'), Some (Val a))"
    if new: "(T(first_octet N n \<mapsto> (n, md))) b = Some (n', md')" for b n' md'
  proof (cases "b = first_octet N n")
    case True
    then show ?thesis using new e' by (intro exI [of _ "ad_next e"]) simp
  next
    case False
    then obtain a where "a < ad_next e" "ad_heap e a = Some md'"
      "M b = Some (octets (net_ip N n'), of_nat (net_prefix N n'), Some (Val a))"
      using T [of b n' md'] new by auto
    then show ?thesis using False e' by (intro exI [of _ a]) simp
  qed
  ultimately show "art_state N isa v4 (T(first_octet N n \<mapsto> (n, md))) e'"
    unfolding art_state_def by blast
  show "packed_root (ad_tree e')" "ART_size e' = ART_size e + 1" using ins(2,3) e' by (simp_all add: ART_size_def)
qed

lemma art_lookup_state:
  assumes "art_state N isa v4 T e" and "is_ipv4 ip = v4"
  shows "ART_lookup isa ip e = Some (case T (octets ip ! 0) of
      Some (n, md) \<Rightarrow> if network_contains_ip N n ip then Some md else None
    | None \<Rightarrow> None)"
proof -
  obtain M where M: "flat isa M (ad_tree e)" "\<forall>b. T b = None \<longrightarrow> M b = None"
    and T: "\<And>b n md. T b = Some (n, md) \<Longrightarrow>
          first_octet N n = b \<and> is_ipv4 (net_ip N n) = v4 \<and> 8 \<le> net_prefix N n
          \<and> (\<exists>a < ad_next e. ad_heap e a = Some md
              \<and> M b = Some (octets (net_ip N n), of_nat (net_prefix N n), Some (Val a)))"
    using assms(1) by (auto simp: art_state_def)
  note m = flat_match [OF M(1) length_octets_le(2)]
  show ?thesis
  proof (cases "T (octets ip ! 0)")
    case None
    then show ?thesis using M(2) m [of ip] by (simp add: ART_lookup_def)
  next
    case (Some p)
    obtain n md where p: "p = (n, md)" by fastforce
    from T [OF Some [unfolded p]] obtain a where a: "is_ipv4 (net_ip N n) = v4" "ad_heap e a = Some md"
      "M (octets ip ! 0) = Some (octets (net_ip N n), of_nat (net_prefix N n), Some (Val a))"
      by blast
    then show ?thesis using Some p m [of ip] leaf_matches_contains [of ip n] assms(2)
      by (simp add: ART_lookup_def deref_def)
  qed
qed

text \<open>Removing a route that was inserted, and removing a route that was not inserted but whose
  address an inserted one covers.\<close>

lemma match_state:
  assumes "art_state N isa v4 T e" and "T (octets ip ! 0) = Some (n, md)" and "network_contains_ip N n ip"
  shows "\<exists>a M. flat isa M (ad_tree e) \<and> match_ip isa (octets ip) (ad_tree e) = Some (Some (Val a)) \<and> ad_heap e a = Some md
    \<and> M (octets ip ! 0) = Some (octets (net_ip N n), of_nat (net_prefix N n), Some (Val a))"
proof -
  obtain M a where M: "flat isa M (ad_tree e)" "ad_heap e a = Some md"
    "M (octets ip ! 0) = Some (octets (net_ip N n), of_nat (net_prefix N n), Some (Val a))"
    using assms(1,2) unfolding art_state_def by blast
  have "is_ipv4 ip = is_ipv4 (net_ip N n)"
    using assms(3) by (simp add: network_contains_ip_iff net_v4_def net_network_family)
  from leaf_matches_contains [OF this] assms(3) flat_match [OF M(1) length_octets_le(2), of ip]
  have "match_ip isa (octets ip) (ad_tree e) = Some (Some (Val a))" by (simp add: M(3))
  with M show ?thesis by blast
qed

lemma of_nat_prefix_eq: "(of_nat (net_prefix N n) :: u8) = of_nat (net_prefix N n') \<longleftrightarrow> net_prefix N n = net_prefix N n'"
  by (metis unat_prefix)

lemma art_remove_other_length:
  assumes "isa \<noteq> Neon" and "art_state N isa v4 T e" and "T (first_octet N n') = Some (n, md)"
    and "network_contains_ip N n (net_ip N n')" and "net_prefix N n' \<noteq> net_prefix N n" and "8 \<le> net_prefix N n'"
  shows "\<exists>e'. ART_remove N isa n' e = Some (Some md, e') \<and> ART_size e' = ART_size e
    \<and> (\<forall>ip. network_contains_ip N n ip \<longrightarrow> ART_lookup isa ip e' = None)"
proof -
  let ?k = "octets (net_ip N n')" and ?pl = "of_nat (net_prefix N n') :: u8"
  obtain a M where m: "flat isa M (ad_tree e)" "match_ip isa ?k (ad_tree e) = Some (Some (Val a))" "ad_heap e a = Some md"
    "M (?k ! 0) = Some (octets (net_ip N n), of_nat (net_prefix N n), Some (Val a))"
    using match_state [OF assms(2) assms(3) [unfolded first_octet_def] assms(4)] by blast
  let ?t = "snd (delete_prefix isa ?k ?pl (ad_tree e))"
  have pl: "8 \<le> unat ?pl" using assms(6) by (simp add: unat_prefix)
  have ne: "(of_nat (net_prefix N n) :: u8) \<noteq> ?pl" using assms(5) by (simp add: of_nat_prefix_eq)
  have flat: "flat isa M ?t" using flat_delete [OF assms(1) m(1) pl, of ?k] m(4) ne by simp
  have size: "tr_size ?t = tr_size (ad_tree e)" using delete_prefix_miss [OF assms(1) m(1,4) pl ne] by simp
  let ?e' = "(free (Some (Val a)) e)\<lparr>ad_tree := ?t\<rparr>"
  have "ART_remove N isa n' e = Some (Some md, ?e')"
    using m(2,3) by (simp add: ART_remove_def deref_def Let_def free_def)
  moreover have "ART_size ?e' = ART_size e" using size by (simp add: ART_size_def)
  moreover have "ART_lookup isa ip ?e' = None" if "network_contains_ip N n ip" for ip
  proof -
    have n: "first_octet N n = ?k ! 0" "8 \<le> net_prefix N n"
      using assms(2,3) unfolding art_state_def first_octet_def by blast+
    then have b: "octets ip ! 0 = ?k ! 0" using contains_first_octet [OF that n(2)] by simp
    have "is_ipv4 ip = is_ipv4 (net_ip N n)"
      using that by (simp add: network_contains_ip_iff net_v4_def net_network_family)
    from leaf_matches_contains [OF this] that flat_match [OF flat length_octets_le(2), of ip] m(4)
    have "match_ip isa (octets ip) ?t = Some (Some (Val a))" by (simp add: b)
    then show ?thesis by (simp add: ART_lookup_def deref_def free_def)
  qed
  ultimately show ?thesis by blast
qed

text \<open>After inserting routes that differ in their first octet, the lookup is the crate's reference
  search over them.\<close>

lemma art_inserts_state:
  assumes "isa \<noteq> Neon" and "art_state N isa v4 T e" and "packed_root (ad_tree e)"
    and "distinct (map (\<lambda>(n, md). first_octet N n) rs)"
    and "\<forall>(n, md) \<in> set rs. T (first_octet N n) = None \<and> is_ipv4 (net_ip N n) = v4 \<and> 8 \<le> net_prefix N n"
  shows "art_state N isa v4 (T ++ map_of (map (\<lambda>(n, md). (first_octet N n, n, md)) rs))
      (fold (\<lambda>(n, md) e. snd (ART_insert N isa n md e)) rs e)
    \<and> ART_size (fold (\<lambda>(n, md) e. snd (ART_insert N isa n md e)) rs e) = ART_size e + of_nat (length rs)"
  using assms(2-)
proof (induction rs arbitrary: T e)
  case (Cons r rs)
  obtain n md where r: "r = (n, md)" by fastforce
  let ?T = "T(first_octet N n \<mapsto> (n, md))" and ?e = "snd (ART_insert N isa n md e)"
  have fresh: "first_octet N n \<notin> (\<lambda>(n, md). first_octet N n) ` set rs" using Cons.prems(3) r by simp
  note ins = art_insert_state [OF assms(1) Cons.prems(1,2), of n md]
  have st: "art_state N isa v4 ?T ?e" "packed_root (ad_tree ?e)" and size: "ART_size ?e = ART_size e + 1"
    using ins Cons.prems(4) r by auto
  have all: "\<forall>(n', md') \<in> set rs. ?T (first_octet N n') = None \<and> is_ipv4 (net_ip N n') = v4 \<and> 8 \<le> net_prefix N n'"
    using Cons.prems(4) fresh by (force simp: image_iff)
  have "distinct (map (\<lambda>(n, md). first_octet N n) rs)" using Cons.prems(3) by simp
  note IH = Cons.IH [of ?T ?e, OF st this all]
  have "first_octet N n \<notin> dom (map_of (map (\<lambda>(n, md). (first_octet N n, n, md)) rs))"
    using fresh by (auto simp: dom_map_of_conv_image_fst image_image case_prod_unfold)
  then have eq: "?T ++ map_of (map (\<lambda>(n, md). (first_octet N n, n, md)) rs) =
      T ++ map_of (map (\<lambda>(n, md). (first_octet N n, n, md)) (r # rs))"
    using r by (simp add: map_add_upd_left)
  have "fold (\<lambda>(n, md) e. snd (ART_insert N isa n md e)) (r # rs) e = fold (\<lambda>(n, md) e. snd (ART_insert N isa n md e)) rs ?e"
    by (simp add: r)
  moreover have "ART_size e + of_nat (length (r # rs)) = ART_size ?e + of_nat (length rs)" using size by simp
  ultimately show ?case using IH unfolding eq by (simp only: simp_thms)
qed simp

lemma LPM_lookup_unique:
  assumes "\<And>n md n' md'. (n, md) \<in> set rs \<Longrightarrow> (n', md') \<in> set rs \<Longrightarrow>
      network_contains_ip N n ip \<Longrightarrow> network_contains_ip N n' ip \<Longrightarrow> md = md'"
    and "(n, md) \<in> set rs" and "network_contains_ip N n ip"
  shows "LPM_lookup N rs ip = Some md"
proof (cases "LPM_lookup N rs ip")
  case None
  then show ?thesis using assms(2,3) by (auto simp: LPM_lookup_None_iff)
next
  case (Some md')
  then obtain n' where "best_entry N ip (set rs) (n', md')" using LPM_lookup_SomeD by blast
  then show ?thesis using Some assms unfolding best_entry_def by fastforce
qed

lemma art_lookup_is_lpm:
  assumes "isa \<noteq> Neon" and "distinct (map (\<lambda>(n, md). first_octet N n) rs)"
    and "\<forall>(n, md) \<in> set rs. is_ipv4 (net_ip N n) = is_ipv4 ip \<and> 8 \<le> net_prefix N n"
  shows "ART_lookup isa ip (fold (\<lambda>(n, md) e. snd (ART_insert N isa n md e)) rs ARTEngineAdapter_new) = Some (LPM_lookup N rs ip)"
proof -
  let ?T = "map_of (map (\<lambda>(n, md). (first_octet N n, n, md)) rs)"
  have "packed_root (ad_tree ARTEngineAdapter_new)" by (simp add: ARTEngineAdapter_new_def flat_new)
  then have st: "art_state N isa (is_ipv4 ip) ?T (fold (\<lambda>(n, md) e. snd (ART_insert N isa n md e)) rs ARTEngineAdapter_new)"
    using art_inserts_state [OF assms(1) art_state_new _ assms(2), of "is_ipv4 ip"] assms(3) by simp
  have d: "distinct (map fst (map (\<lambda>(n, md). (first_octet N n, n, md)) rs))"
    using assms(2) by (simp add: comp_def case_prod_unfold)
  have T: "?T b = Some (n, md) \<longleftrightarrow> (n, md) \<in> set rs \<and> first_octet N n = b" for b n md
    unfolding map_of_eq_Some_iff [OF d] by (auto simp: image_iff intro!: bexI [of _ "(n, md)"])
  have cov: "?T (octets ip ! 0) = Some (n, md)" if "(n, md) \<in> set rs" "network_contains_ip N n ip" for n md
    using that contains_first_octet [of n ip] assms(3) by (auto simp: T)
  show ?thesis
  proof (cases "\<exists>n md. (n, md) \<in> set rs \<and> network_contains_ip N n ip")
    case True
    then obtain n md where c: "(n, md) \<in> set rs" "network_contains_ip N n ip" by blast
    have "LPM_lookup N rs ip = Some md"
    proof (rule LPM_lookup_unique [OF _ c])
      fix n1 md1 n2 md2
      assume "(n1, md1) \<in> set rs" "(n2, md2) \<in> set rs" "network_contains_ip N n1 ip" "network_contains_ip N n2 ip"
      then show "md1 = md2" using cov [of n1 md1] cov [of n2 md2] by simp
    qed
    then show ?thesis using art_lookup_state [OF st refl] cov [OF c] c(2) by simp
  next
    case False
    then have "LPM_lookup N rs ip = None" by (auto simp: LPM_lookup_None_iff)
    then show ?thesis using art_lookup_state [OF st refl] False T by (auto split: option.splits)
  qed
qed

end

end
