(* ===== verification/EngineWrapper.thy ===== *)
theory EngineWrapper
  imports EngineArt
begin

text \<open>
  \<open>EngineWrapper\<close> (\<open>engine.rs\<close>): the choice of an engine from the configured variant, tree and
  shard count, the shard counts derived from the machine, and the dispatch of the engine
  operations. The machine is a parameter: the result of \<open>available_parallelism\<close> and the
  memory the \<open>sysinfo\<close> crate reports as available.
\<close>

record Host =
  host_parallelism :: "usize option"
  host_available_memory :: u64

section \<open>Shard counts\<close>

definition shards_from_cpu :: "Host \<Rightarrow> (usize \<times> usize) list \<Rightarrow> usize \<Rightarrow> usize" where
  "shards_from_cpu host breakpoints dflt =
     (let cpus = (case host_parallelism host of Some c \<Rightarrow> c | None \<Rightarrow> 1) in
      case find (\<lambda>(max_cpus, _). cpus \<le> max_cpus) breakpoints of
        Some (_, shards) \<Rightarrow> shards
      | None \<Rightarrow> dflt)"

definition detect_available_memory :: "Host \<Rightarrow> u64" where
  "detect_available_memory host = host_available_memory host"

definition saturating_mul :: "u64 \<Rightarrow> u64 \<Rightarrow> u64" where
  "saturating_mul a b = (if unat a * unat b < 2 ^ 64 then a * b else - 1)"

definition usable_memory_bytes :: "Host \<Rightarrow> u64" where
  "usable_memory_bytes host = saturating_mul (detect_available_memory host) 3 div 4"

definition shards_from_memory :: "Host \<Rightarrow> usize" where
  "shards_from_memory host =
     (let usable_mb = usable_memory_bytes host div (1024 * 1024) in
      if usable_mb \<le> 512 then 2 else if usable_mb \<le> 2048 then 8 else if usable_mb \<le> 4096 then 16
      else if usable_mb \<le> 8192 then 32 else 64)"

fun calculate_optimal_shards :: "Host \<Rightarrow> EngineVariant \<Rightarrow> usize" where
  "calculate_optimal_shards host Standard = 1"
| "calculate_optimal_shards host LockFree = 1"
| "calculate_optimal_shards host ART = shards_from_cpu host [(2, 2), (4, 4), (8, 8)] 16"
| "calculate_optimal_shards host Concurrent = shards_from_cpu host [(2, 2), (4, 8), (8, 16), (16, 32)] 64"
| "calculate_optimal_shards host Adaptive =
     min (shards_from_cpu host [(2, 2), (4, 8), (8, 16), (16, 32)] 64) (shards_from_memory host)"

section \<open>Construction\<close>

datatype 'n EngineWrapper =
    StandardUncompressed "'n UncompressedTree StandardEngine"
  | ConcurrentUncompressed "'n UncompressedTree ShardedEngine"
  | StandardCompressed "'n CompressedTree StandardEngine"
  | ConcurrentCompressed "'n CompressedTree ShardedEngine"
  | StandardART ARTEngineAdapter
  | ConcurrentART ShardedARTEngineAdapter

definition resolved_node_variant :: "EngineVariant \<Rightarrow> NodeVariant \<Rightarrow> bool \<Rightarrow> NodeVariant" where
  "resolved_node_variant variant node_variant compressed =
     (case variant of
        LockFree \<Rightarrow> if compressed then NV_LockFreeRadixNode else NV_LockFreeTrieNode
      | Adaptive \<Rightarrow> if compressed then NV_AtomicRadixNode else NV_AtomicTrieNode
      | _ \<Rightarrow> node_variant)"

definition EngineWrapper_new :: "Host \<Rightarrow> EngineVariant \<Rightarrow> NodeVariant \<Rightarrow> bool \<Rightarrow> usize option \<Rightarrow> 'n EngineWrapper" where
  "EngineWrapper_new host variant node_variant compressed num_shards =
     (let shard_count = (case num_shards of Some n \<Rightarrow> n | None \<Rightarrow> calculate_optimal_shards host variant) in
      if variant = ART then
        (if 1 < shard_count then ConcurrentART (ShardedART_new shard_count 32 32) else StandardART ARTEngineAdapter_new)
      else
        (let rnv = resolved_node_variant variant node_variant compressed;
             effective_shards = (case variant of LockFree \<Rightarrow> 1 | _ \<Rightarrow> shard_count)
         in if compressed then
              (let tree = CompressedTree_new rnv in
               if 1 < effective_shards then ConcurrentCompressed (ShardedEngine_new effective_shards tree)
               else StandardCompressed (StandardEngine_new tree))
            else
              (let tree = UncompressedTree_new rnv in
               if 1 < effective_shards then ConcurrentUncompressed (ShardedEngine_new effective_shards tree)
               else StandardUncompressed (StandardEngine_new tree))))"

section \<open>Dispatch\<close>

text \<open>\<open>None\<close> is a panic or undefined behaviour of the engine below.\<close>

fun wrapper_insert ::
  "'n ipnet_ops \<Rightarrow> Isa \<Rightarrow> 'n \<Rightarrow> Metadata \<Rightarrow> 'n EngineWrapper \<Rightarrow> ((string + unit) \<times> 'n EngineWrapper) option" where
  "wrapper_insert N isa n md (StandardUncompressed e) =
     map_option (map_prod id StandardUncompressed) (StandardEngine_insert (UncompressedTree_RouteTree N) n md e)"
| "wrapper_insert N isa n md (ConcurrentUncompressed e) =
     map_option (map_prod id ConcurrentUncompressed) (ShardedEngine_insert (UncompressedTree_RouteTree N) n md e)"
| "wrapper_insert N isa n md (StandardCompressed e) =
     map_option (map_prod id StandardCompressed) (StandardEngine_insert (CompressedTree_RouteTree N) n md e)"
| "wrapper_insert N isa n md (ConcurrentCompressed e) =
     map_option (map_prod id ConcurrentCompressed) (ShardedEngine_insert (CompressedTree_RouteTree N) n md e)"
| "wrapper_insert N isa n md (StandardART e) = Some (map_prod id StandardART (ART_insert N isa n md e))"
| "wrapper_insert N isa n md (ConcurrentART e) = Some (map_prod id ConcurrentART (ShardedART_insert N isa n md e))"

fun wrapper_lookup ::
  "'n ipnet_ops \<Rightarrow> Isa \<Rightarrow> IpAddr \<Rightarrow> 'n EngineWrapper \<Rightarrow> (Metadata option \<times> 'n EngineWrapper) option" where
  "wrapper_lookup N isa ip (StandardUncompressed e) =
     Some (map_prod id StandardUncompressed (StandardEngine_lookup (UncompressedTree_RouteTree N) ip e))"
| "wrapper_lookup N isa ip (ConcurrentUncompressed e) =
     map_option (map_prod id ConcurrentUncompressed) (ShardedEngine_lookup (UncompressedTree_RouteTree N) ip e)"
| "wrapper_lookup N isa ip (StandardCompressed e) =
     Some (map_prod id StandardCompressed (StandardEngine_lookup (CompressedTree_RouteTree N) ip e))"
| "wrapper_lookup N isa ip (ConcurrentCompressed e) =
     map_option (map_prod id ConcurrentCompressed) (ShardedEngine_lookup (CompressedTree_RouteTree N) ip e)"
| "wrapper_lookup N isa ip (StandardART e) = map_option (\<lambda>r. (r, StandardART e)) (ART_lookup isa ip e)"
| "wrapper_lookup N isa ip (ConcurrentART e) = map_option (\<lambda>r. (r, ConcurrentART e)) (ShardedART_lookup isa ip e)"

fun wrapper_remove ::
  "'n ipnet_ops \<Rightarrow> Isa \<Rightarrow> 'n \<Rightarrow> 'n EngineWrapper \<Rightarrow> (Metadata option \<times> 'n EngineWrapper) option" where
  "wrapper_remove N isa n (StandardUncompressed e) =
     Some (map_prod id StandardUncompressed (StandardEngine_remove (UncompressedTree_RouteTree N) n e))"
| "wrapper_remove N isa n (ConcurrentUncompressed e) =
     Some (map_prod id ConcurrentUncompressed (ShardedEngine_remove (UncompressedTree_RouteTree N) n e))"
| "wrapper_remove N isa n (StandardCompressed e) =
     Some (map_prod id StandardCompressed (StandardEngine_remove (CompressedTree_RouteTree N) n e))"
| "wrapper_remove N isa n (ConcurrentCompressed e) =
     Some (map_prod id ConcurrentCompressed (ShardedEngine_remove (CompressedTree_RouteTree N) n e))"
| "wrapper_remove N isa n (StandardART e) = map_option (map_prod id StandardART) (ART_remove N isa n e)"
| "wrapper_remove N isa n (ConcurrentART e) = map_option (map_prod id ConcurrentART) (ShardedART_remove N isa n e)"

fun wrapper_contains :: "'n ipnet_ops \<Rightarrow> Isa \<Rightarrow> 'n \<Rightarrow> 'n EngineWrapper \<Rightarrow> bool" where
  "wrapper_contains N isa n (StandardUncompressed e) = StandardEngine_contains (UncompressedTree_RouteTree N) n e"
| "wrapper_contains N isa n (ConcurrentUncompressed e) = ShardedEngine_contains (UncompressedTree_RouteTree N) n e"
| "wrapper_contains N isa n (StandardCompressed e) = StandardEngine_contains (CompressedTree_RouteTree N) n e"
| "wrapper_contains N isa n (ConcurrentCompressed e) = ShardedEngine_contains (CompressedTree_RouteTree N) n e"
| "wrapper_contains N isa n (StandardART e) = ART_contains N isa n e"
| "wrapper_contains N isa n (ConcurrentART e) = ShardedART_contains N isa n e"

fun wrapper_clear :: "'n ipnet_ops \<Rightarrow> 'n EngineWrapper \<Rightarrow> 'n EngineWrapper option" where
  "wrapper_clear N (StandardUncompressed e) =
     map_option StandardUncompressed (StandardEngine_clear (UncompressedTree_RouteTree N) e)"
| "wrapper_clear N (ConcurrentUncompressed e) =
     map_option ConcurrentUncompressed (ShardedEngine_clear (UncompressedTree_RouteTree N) e)"
| "wrapper_clear N (StandardCompressed e) =
     map_option StandardCompressed (StandardEngine_clear (CompressedTree_RouteTree N) e)"
| "wrapper_clear N (ConcurrentCompressed e) =
     map_option ConcurrentCompressed (ShardedEngine_clear (CompressedTree_RouteTree N) e)"
| "wrapper_clear N (StandardART e) = Some (StandardART (ART_clear e))"
| "wrapper_clear N (ConcurrentART e) = Some (ConcurrentART (ShardedART_clear e))"

fun wrapper_size :: "'n EngineWrapper \<Rightarrow> usize" where
  "wrapper_size (StandardUncompressed e) = StandardEngine_size e"
| "wrapper_size (ConcurrentUncompressed e) = ShardedEngine_size e"
| "wrapper_size (StandardCompressed e) = StandardEngine_size e"
| "wrapper_size (ConcurrentCompressed e) = ShardedEngine_size e"
| "wrapper_size (StandardART e) = ART_size e"
| "wrapper_size (ConcurrentART e) = ShardedART_size e"

fun wrapper_stats :: "'n EngineWrapper \<Rightarrow> EngineStats" where
  "wrapper_stats (StandardUncompressed e) = StandardEngine_stats e"
| "wrapper_stats (ConcurrentUncompressed e) = ShardedEngine_stats e"
| "wrapper_stats (StandardCompressed e) = StandardEngine_stats e"
| "wrapper_stats (ConcurrentCompressed e) = ShardedEngine_stats e"
| "wrapper_stats (StandardART e) = ART_stats e"
| "wrapper_stats (ConcurrentART e) = ShardedART_stats e"

section \<open>The shard counts are positive and bounded\<close>

lemma shards_from_cpu_cases:
  "shards_from_cpu host bps dflt = dflt \<or> (\<exists>c. (c, shards_from_cpu host bps dflt) \<in> set bps)"
proof -
  define cpus where "cpus = (case host_parallelism host of Some c \<Rightarrow> c | None \<Rightarrow> 1)"
  show ?thesis
  proof (cases "find (\<lambda>(max_cpus, _). cpus \<le> max_cpus) bps")
    case None
    then show ?thesis by (simp add: shards_from_cpu_def cpus_def)
  next
    case (Some x)
    then have "x \<in> set bps" unfolding find_Some_iff by (auto simp: in_set_conv_nth)
    moreover obtain c k where x: "x = (c, k)" by fastforce
    moreover have "shards_from_cpu host bps dflt = k"
      using Some x unfolding shards_from_cpu_def Let_def cpus_def by simp
    ultimately show ?thesis by auto
  qed
qed

lemma cpu_shards:
  "shards_from_cpu host [(2, 2), (4, 8), (8, 16), (16, 32)] 64 \<in> {2, 8, 16, 32, 64}"
  "shards_from_cpu host [(2, 2), (4, 4), (8, 8)] 16 \<in> {2, 4, 8, 16}"
  using shards_from_cpu_cases [of host "[(2, 2), (4, 8), (8, 16), (16, 32)]" 64]
    shards_from_cpu_cases [of host "[(2, 2), (4, 4), (8, 8)]" 16]
  by auto

lemma memory_shards: "shards_from_memory host \<in> {2, 8, 16, 32, 64}"
  by (simp add: shards_from_memory_def Let_def)

lemma calculate_optimal_shards_range:
  "calculate_optimal_shards host v \<in> {1, 2, 4, 8, 16, 32, 64}"
proof (cases v)
  case Adaptive
  then show ?thesis using cpu_shards(1) [of host] memory_shards [of host]
    unfolding min_def by (simp only: calculate_optimal_shards.simps) (auto simp: min_def)
qed (use cpu_shards [of host] in auto)

section \<open>Uncompressed wrappers\<close>

text \<open>A run of operations on a wrapper, and on the engine inside it.\<close>

fun wrapper_op :: "'n ipnet_ops \<Rightarrow> Isa \<Rightarrow> 'n EngineOp \<Rightarrow> 'n EngineWrapper \<Rightarrow> 'n EngineWrapper option" where
  "wrapper_op N isa (EInsert n m) w = map_option snd (wrapper_insert N isa n m w)"
| "wrapper_op N isa (ELookup ip) w = map_option snd (wrapper_lookup N isa ip w)"
| "wrapper_op N isa (ERemove n) w = map_option snd (wrapper_remove N isa n w)"

fun wrapper_ops :: "'n ipnet_ops \<Rightarrow> Isa \<Rightarrow> 'n EngineOp list \<Rightarrow> 'n EngineWrapper \<Rightarrow> 'n EngineWrapper option" where
  "wrapper_ops N isa [] w = Some w"
| "wrapper_ops N isa (x # xs) w = Option.bind (wrapper_op N isa x w) (wrapper_ops N isa xs)"

lemma wrapper_ops_standard:
  "wrapper_ops N isa xs (StandardUncompressed e) =
   map_option StandardUncompressed (engine_ops (StandardEngine_RadixEngine (UncompressedTree_RouteTree N)) xs e)"
proof (induction xs arbitrary: e)
  case (Cons x xs)
  have "wrapper_op N isa x (StandardUncompressed e) =
      map_option StandardUncompressed (engine_op (StandardEngine_RadixEngine (UncompressedTree_RouteTree N)) x e)"
    by (cases x) (simp_all add: StandardEngine_RadixEngine_def option.map_comp comp_def)
  then show ?case using Cons.IH
    by (cases "engine_op (StandardEngine_RadixEngine (UncompressedTree_RouteTree N)) x e") simp_all
qed simp

lemma wrapper_ops_sharded:
  "wrapper_ops N isa xs (ConcurrentUncompressed e) =
   map_option ConcurrentUncompressed (engine_ops (ShardedEngine_RadixEngine (UncompressedTree_RouteTree N)) xs e)"
proof (induction xs arbitrary: e)
  case (Cons x xs)
  have "wrapper_op N isa x (ConcurrentUncompressed e) =
      map_option ConcurrentUncompressed (engine_op (ShardedEngine_RadixEngine (UncompressedTree_RouteTree N)) x e)"
    by (cases x) (simp_all add: ShardedEngine_RadixEngine_def option.map_comp comp_def)
  then show ?case using Cons.IH
    by (cases "engine_op (ShardedEngine_RadixEngine (UncompressedTree_RouteTree N)) x e") simp_all
qed simp

lemma wrapper_new_uncompressed:
  assumes "v \<noteq> ART"
  obtains t where "EngineWrapper_new host v nv False k = StandardUncompressed (StandardEngine_new (UncompressedTree_new t))"
  | t j where "0 < j" "EngineWrapper_new host v nv False k = ConcurrentUncompressed (ShardedEngine_new j (UncompressedTree_new t))"
proof -
  define j where "j = (case v of LockFree \<Rightarrow> 1 | _ \<Rightarrow> (case k of Some n \<Rightarrow> n | None \<Rightarrow> calculate_optimal_shards host v))"
  define t where "t = resolved_node_variant v nv False"
  have eq: "EngineWrapper_new host v nv False k =
      (if 1 < j then ConcurrentUncompressed (ShardedEngine_new j (UncompressedTree_new t))
       else StandardUncompressed (StandardEngine_new (UncompressedTree_new t)))"
    using assms by (simp add: EngineWrapper_new_def Let_def j_def t_def)
  show thesis
  proof (cases "1 < j")
    case True
    have "0 < j" by (rule le_less_trans [OF word_zero_le True])
    then show thesis using that(2) eq True by simp
  next
    case False
    then show thesis using that(1) eq by simp
  qed
qed

lemma wrapper_uncompressed_lookup:
  assumes "ipnetwork N" and "v \<noteq> ART"
  shows "\<exists>w r w'. wrapper_ops N isa xs (EngineWrapper_new host v nv False k) = Some w
    \<and> wrapper_lookup N isa ip w = Some (r, w')
    \<and> lpm_result N (ran (table_engine_ops (net_bits N) xs Map.empty)) ip r
    \<and> wrapper_size w = of_nat (card (dom (table_engine_ops (net_bits N) xs Map.empty)))"
proof -
  note lpm = UncompressedTree_lpm_tree [OF assms(1)]
  show ?thesis
  proof (rule wrapper_new_uncompressed [OF assms(2), of host nv k])
    fix t
    assume w: "EngineWrapper_new host v nv False k = StandardUncompressed (StandardEngine_new (UncompressedTree_new t) :: 'a UncompressedTree StandardEngine)"
    from lpm_tree.se_run_lookup [OF lpm, of "StandardEngine_new (UncompressedTree_new t)" xs ip]
    show ?thesis unfolding w wrapper_ops_standard by (force simp: StandardEngine_RadixEngine_def)
  next
    fix t j
    assume "0 < j"
      and w: "EngineWrapper_new host v nv False k = ConcurrentUncompressed (ShardedEngine_new j (UncompressedTree_new t) :: 'a UncompressedTree ShardedEngine)"
    then show ?thesis
      using lpm_tree.sh_run_lookup [OF lpm, of "ShardedEngine_new j (UncompressedTree_new t)" xs ip]
      unfolding w wrapper_ops_sharded by (force simp: ShardedEngine_RadixEngine_def)
  qed
qed

section \<open>Compressed wrappers and IPv4 routes\<close>

text \<open>A compressed tree that holds one IPv4 route, whose bits are all zero.\<close>

definition collapsed :: "'n ipnet_ops \<Rightarrow> 'n \<Rightarrow> Metadata \<Rightarrow> 'n CompressedTree \<Rightarrow> bool" where
  "collapsed N n m t \<longleftrightarrow> ct_inv N t \<and> ct_abs t = [ckey N n \<mapsto> (n, m)] \<and> edge (ct_root t) = ckey N n"

context ipnetwork
begin

lemma collapsed_lookup: "collapsed N n m t \<Longrightarrow> net_v4 N n \<Longrightarrow> CompressedTree_lookup (V4 a) t = Some m"
  by (simp add: collapsed_def ct_V4_edge)

lemma collapsed_first:
  assumes "CompressedTree_insert N n m (CompressedTree_new v) = Some (r, t)"
  shows "collapsed N n m t"
  using ct_first_insert [OF assms] by (simp add: collapsed_def)

lemma collapsed_again:
  assumes "collapsed N n m t" and "CompressedTree_insert N n m t = Some (r, t')"
  shows "collapsed N n m t'"
  using assms ct_insert_again [of t n m r t'] by (simp add: collapsed_def)

lemma collapsed_standard:
  assumes "\<And>r t. CompressedTree_insert N n m (se_tree e) = Some (r, t) \<Longrightarrow> collapsed N n m t"
    and "StandardEngine_insert (CompressedTree_RouteTree N) n m e = Some (Inr (), e')"
  shows "collapsed N n m (se_tree e')"
  using assms by (auto simp: StandardEngine_insert_def CompressedTree_RouteTree_def Let_def split: option.splits sum.splits if_splits)

lemma collapsed_sharded:
  assumes "collapsed N n m t" and "sharded_insert_loop (CompressedTree_RouteTree N) n m t ss = Some (Inr (), t', ss')"
  shows "collapsed N n m t'"
  using assms
proof (induction ss arbitrary: t ss')
  case (Cons s ss)
  obtain x e where e: "StandardEngine_insert (CompressedTree_RouteTree N) n m (shard_engine t s) = Some (x, e)"
    using Cons.prems(2) by (auto split: option.splits)
  have x: "x = Inr ()" using Cons.prems(2) e by (cases x) auto
  have "collapsed N n m u" if "CompressedTree_insert N n m (se_tree (shard_engine t s)) = Some (r, u)" for r u
    using collapsed_again [OF Cons.prems(1), of r u] that by (simp add: shard_engine_def)
  then have "collapsed N n m (se_tree e)" by (rule collapsed_standard [OF _ e [unfolded x]])
  then show ?case using Cons.IH [of "se_tree e"] Cons.prems(2) e x by auto
qed simp

lemma collapsed_new_standard:
  shows "\<exists>e. StandardEngine_insert (CompressedTree_RouteTree N) n m (StandardEngine_new (CompressedTree_new v)) = Some (Inr (), e)
    \<and> collapsed N n m (se_tree e)"
proof -
  note tree = clearing_tree.axioms(1) [OF CompressedTree_clearing_tree [OF ipnetwork_axioms]]
  obtain e where e: "StandardEngine_insert (CompressedTree_RouteTree N) n m (StandardEngine_new (CompressedTree_new v)) = Some (Inr (), e)"
    using route_tree.se_insert [OF tree, of "StandardEngine_new (CompressedTree_new v)" n m] by auto
  then show ?thesis using collapsed_standard [OF _ e] collapsed_first by auto
qed

lemma collapsed_new_sharded:
  assumes "0 < j"
  shows "\<exists>e. ShardedEngine_insert (CompressedTree_RouteTree N) n m (ShardedEngine_new j (CompressedTree_new v)) = Some (Inr (), e)
    \<and> collapsed N n m (sh_tree e) \<and> sh_num_shards e = j \<and> length (sh_shards e) = unat j"
proof -
  note tree = clearing_tree.axioms(1) [OF CompressedTree_clearing_tree [OF ipnetwork_axioms]]
  let ?T = "CompressedTree_RouteTree N" and ?t = "CompressedTree_new v" and ?s = "\<lparr>sd_size = 0, sd_stats = EngineStats_default\<rparr> :: Shard"
  obtain k where k: "unat j = Suc k" using assms by (metis unat_gt_0 gr0_implies_Suc word_neq_0_conv)
  obtain e where e: "StandardEngine_insert ?T n m (shard_engine ?t ?s) = Some (Inr (), e)" "collapsed N n m (se_tree e)"
    using collapsed_new_standard [of n m v] by (auto simp: shard_engine_def StandardEngine_new_def)
  obtain t' ss' where l: "sharded_insert_loop ?T n m ?t (?s # replicate k ?s) = Some (Inr (), t', ss')" "length ss' = Suc k"
    using route_tree.sharded_insert_first [OF tree CompressedTree_new_table(1), where n = n and m = m and s = ?s and ss = "replicate k ?s"]
    unfolding length_replicate by blast
  obtain ss'' where "sharded_insert_loop ?T n m (se_tree e) (replicate k ?s) = Some (Inr (), t', ss'')"
    using l(1) e(1) by auto
  from collapsed_sharded [OF e(2) this] show ?thesis
    using l k by (simp add: ShardedEngine_insert_def ShardedEngine_new_def engine_shard_def StandardEngine_new_def)
qed

lemma wrapper_compressed_ipv4:
  fixes n :: 'n
  assumes "v \<noteq> ART" and "net_v4 N n"
  shows "\<exists>w w'. wrapper_insert N isa n m (EngineWrapper_new host v nv True k) = Some (Inr (), w)
    \<and> wrapper_lookup N isa (V4 a) w = Some (Some m, w')"
proof -
  define j where "j = (case v of LockFree \<Rightarrow> 1 | _ \<Rightarrow> (case k of Some n \<Rightarrow> n | None \<Rightarrow> calculate_optimal_shards host v))"
  define t where "t = resolved_node_variant v nv True"
  have new: "(EngineWrapper_new host v nv True k :: 'n EngineWrapper) =
      (if 1 < j then ConcurrentCompressed (ShardedEngine_new j (CompressedTree_new t))
       else StandardCompressed (StandardEngine_new (CompressedTree_new t)))"
    using assms(1) by (simp add: EngineWrapper_new_def Let_def j_def t_def)
  show ?thesis
  proof (cases "1 < j")
    case True
    then have j: "0 < j" by (rule le_less_trans [OF word_zero_le])
    obtain e where e: "ShardedEngine_insert (CompressedTree_RouteTree N) n m (ShardedEngine_new j (CompressedTree_new t)) = Some (Inr (), e)"
      "collapsed N n m (sh_tree e)" "sh_num_shards e = j" "length (sh_shards e) = unat j"
      using collapsed_new_sharded [OF j] by blast
    obtain i where "get_shard e (V4 a) = Some i" "unat i < unat j"
      using get_shard_less [of e "V4 a"] e(3) j by (auto simp: word_neq_0_conv)
    then show ?thesis using True new e collapsed_lookup [OF e(2) assms(2), of a]
      by (simp add: ShardedEngine_lookup_def StandardEngine_lookup_def shard_engine_def CompressedTree_RouteTree_def Let_def)
  next
    case False
    obtain e where e: "StandardEngine_insert (CompressedTree_RouteTree N) n m (StandardEngine_new (CompressedTree_new t)) = Some (Inr (), e)"
      "collapsed N n m (se_tree e)"
      using collapsed_new_standard by blast
    then show ?thesis using False new collapsed_lookup [OF e(2) assms(2), of a]
      by (simp add: StandardEngine_lookup_def CompressedTree_RouteTree_def Let_def)
  qed
qed

end

section \<open>The wrapper as an engine\<close>

definition wrapper_RadixEngine :: "'n ipnet_ops \<Rightarrow> Isa \<Rightarrow> ('n EngineWrapper, 'n) RadixEngine" where
  "wrapper_RadixEngine N isa = \<lparr>
     re_insert = wrapper_insert N isa,
     re_lookup = wrapper_lookup N isa,
     re_remove = wrapper_remove N isa,
     re_contains = wrapper_contains N isa,
     re_clear = wrapper_clear N,
     re_size = wrapper_size,
     re_stats = wrapper_stats\<rparr>"

text \<open>A wrapper around an uncompressed tree meets the contract of the engine inside it.\<close>

fun wrapper_inv :: "'n ipnet_ops \<Rightarrow> 'n EngineWrapper \<Rightarrow> bool" where
  "wrapper_inv N (StandardUncompressed e) = se_inv (ut_inv N) ut_abs e"
| "wrapper_inv N (ConcurrentUncompressed e) = sh_inv (ut_inv N) ut_abs e"
| "wrapper_inv N _ = False"

fun wrapper_abs :: "'n EngineWrapper \<Rightarrow> bool list \<rightharpoonup> 'n \<times> Metadata" where
  "wrapper_abs (StandardUncompressed e) = ut_abs (se_tree e)"
| "wrapper_abs (ConcurrentUncompressed e) = ut_abs (sh_tree e)"
| "wrapper_abs _ = Map.empty"

fun wrapper_answer :: "'n ipnet_ops \<Rightarrow> 'n EngineWrapper \<Rightarrow> IpAddr \<Rightarrow> Metadata option" where
  "wrapper_answer N (StandardUncompressed e) ip = UncompressedTree_lookup N ip (se_tree e)"
| "wrapper_answer N (ConcurrentUncompressed e) ip = UncompressedTree_lookup N ip (sh_tree e)"
| "wrapper_answer N _ ip = None"

lemma wrapper_lpm_engine:
  assumes "ipnetwork N"
  shows "lpm_engine (wrapper_RadixEngine N isa) (wrapper_inv N) wrapper_abs (net_bits N) (wrapper_answer N) N"
proof -
  note tree = UncompressedTree_lpm_tree [OF assms]
  note std = lpm_tree.standard_lpm_engine [OF tree]
  note shd = lpm_tree.sharded_lpm_engine [OF tree]
  note stdr = lpm_engine.axioms(1) [OF std] and shdr = lpm_engine.axioms(1) [OF shd]
  note unfold = wrapper_RadixEngine_def StandardEngine_RadixEngine_def ShardedEngine_RadixEngine_def UncompressedTree_RouteTree_def
  show ?thesis
  proof unfold_locales
    fix w :: "'a EngineWrapper" and n :: 'a and m and ip and k
    assume w: "wrapper_inv N w"
    then consider (St) e where "w = StandardUncompressed e" "se_inv (ut_inv N) ut_abs e"
      | (Sh) e where "w = ConcurrentUncompressed e" "sh_inv (ut_inv N) ut_abs e"
      by (cases w) auto
    note cases = this
    show "\<exists>w'. re_insert (wrapper_RadixEngine N isa) n m w = Some (Inr (), w') \<and> wrapper_inv N w'
        \<and> wrapper_abs w' = (wrapper_abs w)(net_bits N n \<mapsto> (n, m))"
      using cases
    proof cases
      case (St e)
      with radix_engine.engine_insert [OF stdr St(2), of n m] show ?thesis by (auto simp: unfold)
    next
      case (Sh e)
      with radix_engine.engine_insert [OF shdr Sh(2), of n m] show ?thesis by (auto simp: unfold)
    qed
    show "\<exists>w'. re_lookup (wrapper_RadixEngine N isa) ip w = Some (wrapper_answer N w ip, w') \<and> wrapper_inv N w'
        \<and> wrapper_abs w' = wrapper_abs w \<and> wrapper_answer N w' = wrapper_answer N w"
      using cases
    proof cases
      case (St e)
      with radix_engine.engine_lookup [OF stdr St(2), of ip] show ?thesis by (auto simp: unfold fun_eq_iff)
    next
      case (Sh e)
      with radix_engine.engine_lookup [OF shdr Sh(2), of ip] show ?thesis by (auto simp: unfold fun_eq_iff)
    qed
    show "\<exists>w'. re_remove (wrapper_RadixEngine N isa) n w = Some (map_option snd (wrapper_abs w (net_bits N n)), w')
        \<and> wrapper_inv N w' \<and> wrapper_abs w' = (wrapper_abs w)(net_bits N n := None)"
      using cases
    proof cases
      case (St e)
      with radix_engine.engine_remove [OF stdr St(2), of n] show ?thesis by (auto simp: unfold)
    next
      case (Sh e)
      with radix_engine.engine_remove [OF shdr Sh(2), of n] show ?thesis by (auto simp: unfold)
    qed
    show "re_contains (wrapper_RadixEngine N isa) n w \<longleftrightarrow> wrapper_abs w (net_bits N n) \<noteq> None"
      using cases radix_engine.engine_contains [OF stdr] radix_engine.engine_contains [OF shdr]
      by cases (simp_all add: unfold)
    show "re_size (wrapper_RadixEngine N isa) w = of_nat (card (dom (wrapper_abs w)))"
      using cases radix_engine.engine_size [OF stdr] radix_engine.engine_size [OF shdr]
      by cases (simp_all add: unfold)
    show "lpm_result N (ran (wrapper_abs w)) ip (wrapper_answer N w ip)"
      using cases lpm_engine.engine_lpm [OF std] lpm_engine.engine_lpm [OF shd]
      by cases (simp_all add: unfold)
    show "net_bits N n = k" if "wrapper_abs w k = Some (n, m)"
      using cases that lpm_engine.engine_filed [OF std] lpm_engine.engine_filed [OF shd]
      by cases (simp_all add: unfold)
  qed
qed

lemma wrapper_new_inv:
  fixes N :: "'n ipnet_ops"
  assumes "v \<noteq> ART"
  shows "wrapper_inv N (EngineWrapper_new host v nv False k) \<and> wrapper_abs (EngineWrapper_new host v nv False k :: 'n EngineWrapper) = Map.empty"
proof (rule wrapper_new_uncompressed [OF assms, of host nv k, where 'a = 'n])
  fix t j
  assume "0 < j" and w: "(EngineWrapper_new host v nv False k :: 'n EngineWrapper) = ConcurrentUncompressed (ShardedEngine_new j (UncompressedTree_new t))"
  have "sh_inv (ut_inv N) ut_abs (ShardedEngine_new j (UncompressedTree_new t))"
    by (rule ShardedEngine_new_inv [OF _ _ \<open>0 < j\<close>]) simp_all
  then show ?thesis by (simp add: w)
qed simp

interpretation wrapped: lpm_engine "wrapper_RadixEngine cidr_ops isa" "wrapper_inv cidr_ops" wrapper_abs
  "net_bits cidr_ops" "wrapper_answer cidr_ops" cidr_ops for isa
  by (rule wrapper_lpm_engine [OF cidr.ipnetwork_axioms])

end
