(* ===== verification/MemCache.thy ===== *)
theory MemCache
  imports Clock IpNet
begin

text \<open>
  The in-memory cache with expiry (\<open>cache/src/memory.rs\<close>). A \<open>HashMap\<close> is an association
  list with distinct keys; which key its iterator yields first is unspecified, so it is a
  parameter \<open>first_key\<close>. \<open>None\<close> is the panic of an \<open>Instant\<close> overflow.
\<close>

section \<open>Hash maps\<close>

definition hash_map :: "('k \<times> 'v) list \<Rightarrow> bool" where
  "hash_map m \<longleftrightarrow> distinct (map fst m)"

definition picks_key :: "('k list \<Rightarrow> 'k) \<Rightarrow> bool" where
  "picks_key first_key \<longleftrightarrow> (\<forall>ks. ks \<noteq> [] \<longrightarrow> first_key ks \<in> set ks)"

text \<open>\<open>if len() >= max_entries\<close>, remove the first key the iterator yields, if any.\<close>

definition evict_one :: "('k list \<Rightarrow> 'k) \<Rightarrow> usize \<Rightarrow> ('k \<times> 'v) list \<Rightarrow> ('k \<times> 'v) list" where
  "evict_one first_key max_entries m =
     (if unat max_entries \<le> length m then
        (case map fst m of [] \<Rightarrow> m | ks \<Rightarrow> AList.delete (first_key ks) m)
      else m)"

definition put_bounded :: "('k list \<Rightarrow> 'k) \<Rightarrow> usize \<Rightarrow> 'k \<Rightarrow> 'v \<Rightarrow> ('k \<times> 'v) list \<Rightarrow> ('k \<times> 'v) list" where
  "put_bounded first_key max_entries k v m = AList.update k v (evict_one first_key max_entries m)"

lemma hash_map_Nil [simp]: "hash_map []"
  by (simp add: hash_map_def)

lemma hash_map_delete [simp]: "hash_map m \<Longrightarrow> hash_map (AList.delete k m)"
  unfolding hash_map_def by (rule distinct_delete)

lemma hash_map_update [simp]: "hash_map m \<Longrightarrow> hash_map (AList.update k v m)"
  unfolding hash_map_def by (rule distinct_update)

lemma hash_map_filter [simp]: "hash_map m \<Longrightarrow> hash_map (filter P m)"
  unfolding hash_map_def by (rule distinct_map_filter)

lemma length_delete:
  assumes "hash_map m" and "k \<in> fst ` set m"
  shows "Suc (length (AList.delete k m)) = length m"
  using assms
proof (induction m)
  case (Cons p m)
  show ?case
  proof (cases "fst p = k")
    case True
    then have "k \<notin> fst ` set m" using Cons.prems(1) by (auto simp: hash_map_def)
    then show ?thesis using True by (simp add: delete_id AList.delete_eq) (metis (mono_tags, lifting) case_prod_unfold filter_True imageI)
  next
    case False
    then show ?thesis using Cons by (cases p) (auto simp: hash_map_def)
  qed
qed simp

lemma length_update_le: "length (AList.update k v m) \<le> Suc (length m)"
  by (induction m) auto

lemma hash_map_evict [simp]: "hash_map m \<Longrightarrow> hash_map (evict_one f mx m)"
  by (simp add: evict_one_def split: list.split)

lemma map_of_evict: "hash_map m \<Longrightarrow> map_of (evict_one f mx m) k = Some v \<Longrightarrow> map_of m k = Some v"
  by (auto simp: evict_one_def delete_conv' split: if_splits list.splits)

text \<open>The table never holds more than the configured number of entries, or one.\<close>

lemma put_bounded_length:
  assumes "hash_map m" and "picks_key f" and "length m \<le> max 1 (unat mx)"
  shows "length (put_bounded f mx k v m) \<le> max 1 (unat mx)"
proof (cases "unat mx \<le> length m \<and> m \<noteq> []")
  case True
  then have "map fst m \<noteq> []" by simp
  then have "f (map fst m) \<in> set (map fst m)" using assms(2) unfolding picks_key_def by blast
  then have "Suc (length (AList.delete (f (map fst m)) m)) = length m" using assms(1) by (intro length_delete) auto
  moreover have "evict_one f mx m = AList.delete (f (map fst m)) m"
    using True by (cases m) (auto simp: evict_one_def)
  ultimately show ?thesis
    using assms(3) length_update_le [of k v "evict_one f mx m"] by (simp add: put_bounded_def)
next
  case False
  then have e: "evict_one f mx m = m" by (cases m) (auto simp: evict_one_def)
  from False have "Suc (length m) \<le> max 1 (unat mx)" by auto
  then show ?thesis using length_update_le [of k v m] by (simp add: put_bounded_def e)
qed

section \<open>The cache\<close>

record CacheConfig =
  cc_max_entries :: usize
  cc_ttl_seconds :: "u64 option"

record 'v CacheEntry =
  en_value :: 'v
  en_expires_at :: "Instant option"

record 'v MemCache =
  mc_cache :: "(IpAddr \<times> 'v CacheEntry) list"
  mc_config :: CacheConfig

definition MemCache_new :: "CacheConfig \<Rightarrow> 'v MemCache" where
  "MemCache_new config = \<lparr>mc_cache = [], mc_config = config\<rparr>"

definition MemCache_get :: "Instant \<Rightarrow> IpAddr \<Rightarrow> 'v MemCache \<Rightarrow> 'v option \<times> 'v MemCache" where
  "MemCache_get now ip c =
     (case map_of (mc_cache c) ip of
        None \<Rightarrow> (None, c)
      | Some entry \<Rightarrow>
          (let should_remove = (case en_expires_at entry of Some expires_at \<Rightarrow> expires_at \<le> now | None \<Rightarrow> False) in
           if should_remove then (None, c\<lparr>mc_cache := AList.delete ip (mc_cache c)\<rparr>)
           else (map_option en_value (map_of (mc_cache c) ip), c)))"

definition MemCache_insert ::
  "(IpAddr list \<Rightarrow> IpAddr) \<Rightarrow> Instant \<Rightarrow> IpAddr \<Rightarrow> 'v \<Rightarrow> 'v MemCache \<Rightarrow> 'v MemCache option" where
  "MemCache_insert first_key now ip value c =
     (case cc_ttl_seconds (mc_config c) of
        None \<Rightarrow> Some (c\<lparr>mc_cache := put_bounded first_key (cc_max_entries (mc_config c)) ip
            \<lparr>en_value = value, en_expires_at = None\<rparr> (mc_cache c)\<rparr>)
      | Some ttl \<Rightarrow>
          (case checked_add now (from_secs ttl) of
             None \<Rightarrow> None
           | Some expires_at \<Rightarrow>
               Some (c\<lparr>mc_cache := put_bounded first_key (cc_max_entries (mc_config c)) ip
                 \<lparr>en_value = value, en_expires_at = Some expires_at\<rparr> (mc_cache c)\<rparr>)))"

definition MemCache_invalidate_prefix :: "(IpAddr \<Rightarrow> bool) \<Rightarrow> 'v MemCache \<Rightarrow> 'v MemCache" where
  "MemCache_invalidate_prefix matches c = c\<lparr>mc_cache := filter (\<lambda>(ip, _). \<not> matches ip) (mc_cache c)\<rparr>"

definition MemCache_clear :: "'v MemCache \<Rightarrow> 'v MemCache" where
  "MemCache_clear c = c\<lparr>mc_cache := []\<rparr>"

section \<open>What the cache returns\<close>

definition mem_inv :: "'v MemCache \<Rightarrow> bool" where
  "mem_inv c \<longleftrightarrow> hash_map (mc_cache c) \<and> length (mc_cache c) \<le> max 1 (unat (cc_max_entries (mc_config c)))"

lemma mem_inv_new: "mem_inv (MemCache_new cfg)"
  by (simp add: mem_inv_def MemCache_new_def)

lemma mem_inv_get: "mem_inv c \<Longrightarrow> mem_inv (snd (MemCache_get now ip c))"
  using length_delete_le [of ip "mc_cache c"]
  by (auto simp: mem_inv_def MemCache_get_def Let_def split: option.split)

lemma mem_inv_insert:
  "mem_inv c \<Longrightarrow> picks_key f \<Longrightarrow> MemCache_insert f now ip v c = Some c' \<Longrightarrow> mem_inv c' \<and> mc_config c' = mc_config c"
  using put_bounded_length [of "mc_cache c" f "cc_max_entries (mc_config c)" ip]
  by (auto simp: mem_inv_def MemCache_insert_def put_bounded_def split: option.splits)

lemma mem_inv_invalidate: "mem_inv c \<Longrightarrow> mem_inv (MemCache_invalidate_prefix P c)"
  by (auto simp: mem_inv_def MemCache_invalidate_prefix_def intro: order_trans [OF length_filter_le])

text \<open>An entry is returned until its time to live is over, and dropped by the first read after.\<close>

lemma get_after_insert:
  assumes "MemCache_insert f now ip v c = Some c'"
  shows "fst (MemCache_get later ip c') =
    (case cc_ttl_seconds (mc_config c) of
       Some ttl \<Rightarrow> if now + int (from_secs ttl) \<le> later then None else Some v
     | None \<Rightarrow> Some v)"
  using assms
  by (auto simp: MemCache_insert_def MemCache_get_def put_bounded_def update_conv' checked_add_def Let_def split: option.splits if_splits)

lemma expired_dropped:
  assumes "hash_map (mc_cache c)" and "map_of (mc_cache c) ip = Some e" and "en_expires_at e = Some t" and "t \<le> now"
  shows "MemCache_get now ip c = (None, c\<lparr>mc_cache := AList.delete ip (mc_cache c)\<rparr>)"
    and "map_of (mc_cache (snd (MemCache_get now ip c))) ip = None"
  using assms by (auto simp: MemCache_get_def delete_conv')

end
