(* ===== verification/Redis.thy ===== *)
theory Redis
  imports IpText Lpm
begin

text \<open>
  The Redis client (\<open>cache/src/redis.rs\<close>). The server with the \<open>redis\<close> crate is a
  parameter: a record of commands on a server state, each of which may fail; \<open>redis_store\<close>
  states what the commands of a reachable server are documented to do. The encodings of
  \<open>serde_json\<close> and the text form of networks are a second parameter, with the round trips
  they are relied on for as \<open>serde_codec\<close>. A subscription is driven by the events its
  stream delivers.
\<close>

section \<open>Server and encodings\<close>

record 's redis_server =
  rd_open :: "string \<Rightarrow> string + unit"
  rd_connect :: "'s \<Rightarrow> string + unit"
  rd_subscribe :: "string \<Rightarrow> 's \<Rightarrow> string + unit"
  rd_get :: "string \<Rightarrow> 's \<Rightarrow> string + string option"
  rd_set :: "string \<Rightarrow> string \<Rightarrow> 's \<Rightarrow> (string + unit) \<times> 's"
  rd_hgetall :: "string \<Rightarrow> 's \<Rightarrow> string + (string \<times> string) list"
  rd_hset :: "string \<Rightarrow> string \<Rightarrow> string \<Rightarrow> 's \<Rightarrow> (string + unit) \<times> 's"
  rd_hdel :: "string \<Rightarrow> string \<Rightarrow> 's \<Rightarrow> (string + unit) \<times> 's"
  rd_publish :: "string \<Rightarrow> string \<Rightarrow> 's \<Rightarrow> (string + unit) \<times> 's"

text \<open>\<open>'j\<close> is \<open>serde_json::Value\<close>.\<close>

datatype ('n, 'j) RedisCacheUpdate = UInsert 'n 'j | URemove 'n | UClear

record ('n, 'j) serde =
  sj_to_string :: "Metadata \<Rightarrow> string option"
  sj_from_str :: "string \<Rightarrow> Metadata option"
  sj_to_value :: "Metadata \<Rightarrow> 'j option"
  sj_from_value :: "'j \<Rightarrow> Metadata option"
  sj_null :: 'j
  sj_update_to_string :: "('n, 'j) RedisCacheUpdate \<Rightarrow> string option"
  sj_update_from_str :: "string \<Rightarrow> ('n, 'j) RedisCacheUpdate option"
  sj_net_to_string :: "'n \<Rightarrow> string"
  sj_net_from_str :: "string \<Rightarrow> 'n option"

locale redis_store =
  fixes R :: "'s redis_server"
  assumes connect: "rd_connect R s = Inr ()"
    and subscribe_ok: "rd_subscribe R c s = Inr ()"
    and set_ok: "\<exists>s'. rd_set R k v s = (Inr (), s')"
    and get_set: "rd_set R k v s = (Inr (), s') \<Longrightarrow> rd_get R k' s' = (if k' = k then Inr (Some v) else rd_get R k' s)"
    and get_hset: "rd_hset R h f v s = (r, s') \<Longrightarrow> k \<noteq> h \<Longrightarrow> rd_get R k s' = rd_get R k s"
    and get_hdel: "rd_hdel R h f s = (r, s') \<Longrightarrow> k \<noteq> h \<Longrightarrow> rd_get R k s' = rd_get R k s"

locale serde_codec =
  fixes J :: "('n, 'j) serde"
  assumes from_to_string: "sj_to_string J m = Some t \<Longrightarrow> sj_from_str J t = Some m"
    and from_to_value: "sj_to_value J m = Some j \<Longrightarrow> sj_from_value J j = Some m"
    and update_round_trip: "sj_update_to_string J u = Some t \<Longrightarrow> sj_update_from_str J t = Some u"
    and net_round_trip: "sj_net_from_str J (sj_net_to_string J n) = Some n"

section \<open>Client\<close>

datatype RedisPubSubError = RedisErr string | SendError | RecvError

record RedisClient =
  rcl_config :: RedisConfig

definition redis_err :: "string + 'a \<Rightarrow> RedisPubSubError + 'a" where
  "redis_err r = map_sum RedisErr id r"

definition RedisClient_new :: "'s redis_server \<Rightarrow> RedisConfig \<Rightarrow> 's \<Rightarrow> RedisPubSubError + RedisClient" where
  "RedisClient_new R config s =
     (case redis_err (rd_open R (rc_url config)) of
        Inl e \<Rightarrow> Inl e
      | Inr _ \<Rightarrow>
          (case redis_err (rd_connect R s) of
             Inl e \<Rightarrow> Inl e
           | Inr _ \<Rightarrow> Inr \<lparr>rcl_config = config\<rparr>))"

definition get_sync_connection :: "'s redis_server \<Rightarrow> 's \<Rightarrow> RedisPubSubError + unit" where
  "get_sync_connection R s = redis_err (rd_connect R s)"

definition get_sync :: "'s redis_server \<Rightarrow> string \<Rightarrow> 's \<Rightarrow> RedisPubSubError + string option" where
  "get_sync R key s = (case get_sync_connection R s of Inl e \<Rightarrow> Inl e | Inr _ \<Rightarrow> redis_err (rd_get R key s))"

definition set_sync :: "'s redis_server \<Rightarrow> string \<Rightarrow> string \<Rightarrow> 's \<Rightarrow> (RedisPubSubError + unit) \<times> 's" where
  "set_sync R key value s =
     (case get_sync_connection R s of Inl e \<Rightarrow> (Inl e, s) | Inr _ \<Rightarrow> map_prod redis_err id (rd_set R key value s))"

definition hgetall_sync :: "'s redis_server \<Rightarrow> string \<Rightarrow> 's \<Rightarrow> RedisPubSubError + (string \<times> string) list" where
  "hgetall_sync R key s = (case get_sync_connection R s of Inl e \<Rightarrow> Inl e | Inr _ \<Rightarrow> redis_err (rd_hgetall R key s))"

definition hset_sync :: "'s redis_server \<Rightarrow> string \<Rightarrow> string \<Rightarrow> string \<Rightarrow> 's \<Rightarrow> (RedisPubSubError + unit) \<times> 's" where
  "hset_sync R key field value s =
     (case get_sync_connection R s of Inl e \<Rightarrow> (Inl e, s) | Inr _ \<Rightarrow> map_prod redis_err id (rd_hset R key field value s))"

definition hdel_sync :: "'s redis_server \<Rightarrow> string \<Rightarrow> string \<Rightarrow> 's \<Rightarrow> (RedisPubSubError + unit) \<times> 's" where
  "hdel_sync R key field s =
     (case get_sync_connection R s of Inl e \<Rightarrow> (Inl e, s) | Inr _ \<Rightarrow> map_prod redis_err id (rd_hdel R key field s))"

text \<open>The bodies of the \<open>async\<close> methods: they run only when the future is awaited or spawned.\<close>

definition publish :: "'s redis_server \<Rightarrow> string \<Rightarrow> string \<Rightarrow> 's \<Rightarrow> (RedisPubSubError + unit) \<times> 's" where
  "publish R channel message s = map_prod redis_err id (rd_publish R channel message s)"

definition publish_json ::
  "'s redis_server \<Rightarrow> ('n, 'j) serde \<Rightarrow> string \<Rightarrow> ('n, 'j) RedisCacheUpdate \<Rightarrow> 's \<Rightarrow> (RedisPubSubError + unit) \<times> 's" where
  "publish_json R J channel update s =
     (case sj_update_to_string J update of
        None \<Rightarrow> (Inl (RedisErr ''Serialization error''), s)
      | Some json \<Rightarrow> publish R channel json s)"

definition publish_insert ::
  "'s redis_server \<Rightarrow> ('n, 'j) serde \<Rightarrow> string \<Rightarrow> 'n \<Rightarrow> 'j \<Rightarrow> 's \<Rightarrow> (RedisPubSubError + unit) \<times> 's" where
  "publish_insert R J channel pfx metadata s = publish_json R J channel (UInsert pfx metadata) s"

definition publish_clear :: "'s redis_server \<Rightarrow> ('n, 'j) serde \<Rightarrow> string \<Rightarrow> 's \<Rightarrow> (RedisPubSubError + unit) \<times> 's" where
  "publish_clear R J channel s = publish_json R J channel UClear s"

definition publish_remove ::
  "'s redis_server \<Rightarrow> ('n, 'j) serde \<Rightarrow> string \<Rightarrow> 'n \<Rightarrow> 's \<Rightarrow> (RedisPubSubError + unit) \<times> 's" where
  "publish_remove R J channel pfx s = publish_json R J channel (URemove pfx) s"

section \<open>Subscriptions\<close>

record PubSubMessage =
  ps_channel :: string
  ps_payload :: string
  ps_pattern :: "string option"

text \<open>What the select loop sees next: a message (its payload may fail to decode as text), the
  end of the stream, or the shutdown signal.\<close>

datatype StreamEvent = Delivery string "string option" | StreamEnded | ShutdownSignal

definition pubsub_msg :: "string \<Rightarrow> string option \<Rightarrow> PubSubMessage" where
  "pubsub_msg channel payload =
     \<lparr>ps_channel = channel, ps_payload = (case payload of Some p \<Rightarrow> p | None \<Rightarrow> []), ps_pattern = None\<rparr>"

fun subscribe_loop :: "(PubSubMessage \<Rightarrow> 'a \<Rightarrow> 'a) \<Rightarrow> StreamEvent list \<Rightarrow> 'a \<Rightarrow> 'a" where
  "subscribe_loop callback [] a = a"
| "subscribe_loop callback (Delivery channel payload # evs) a = subscribe_loop callback evs (callback (pubsub_msg channel payload) a)"
| "subscribe_loop callback (StreamEnded # evs) a = a"
| "subscribe_loop callback (ShutdownSignal # evs) a = a"

definition get_async_pubsub :: "'s redis_server \<Rightarrow> string \<Rightarrow> 's \<Rightarrow> RedisPubSubError + unit" where
  "get_async_pubsub R channel s =
     (case redis_err (rd_connect R s) of Inl e \<Rightarrow> Inl e | Inr _ \<Rightarrow> redis_err (rd_subscribe R channel s))"

text \<open>\<open>events\<close> are the events the spawned loop sees.\<close>

definition subscribe ::
  "'s redis_server \<Rightarrow> string \<Rightarrow> (PubSubMessage \<Rightarrow> 'a \<Rightarrow> 'a) \<Rightarrow> StreamEvent list \<Rightarrow> 's \<Rightarrow> 'a \<Rightarrow> (RedisPubSubError + unit) \<times> 'a" where
  "subscribe R channel callback events s a =
     (case get_async_pubsub R channel s of
        Inl e \<Rightarrow> (Inl e, a)
      | Inr _ \<Rightarrow> (Inr (), subscribe_loop callback events a))"

text \<open>A payload that does not decode is reported and handled as \<open>Clear\<close>.\<close>

definition decode_update :: "('n, 'j) serde \<Rightarrow> PubSubMessage \<Rightarrow> ('n, 'j) RedisCacheUpdate" where
  "decode_update J message =
     (case sj_update_from_str J (ps_payload message) of Some update \<Rightarrow> update | None \<Rightarrow> UClear)"

definition subscribe_engine_updates ::
  "'s redis_server \<Rightarrow> ('n, 'j) serde \<Rightarrow> string \<Rightarrow> (('n, 'j) RedisCacheUpdate \<Rightarrow> 'a \<Rightarrow> 'a) \<Rightarrow> StreamEvent list \<Rightarrow> 's \<Rightarrow> 'a
     \<Rightarrow> (RedisPubSubError + unit) \<times> 'a" where
  "subscribe_engine_updates R J channel on_update = subscribe R channel (\<lambda>message. on_update (decode_update J message))"

text \<open>\<open>subscribe_to_channel\<close> forwards into a bounded channel; \<open>send\<close> is false once the
  receiver is gone.\<close>

fun forward_loop :: "(PubSubMessage \<Rightarrow> 'a \<Rightarrow> bool \<times> 'a) \<Rightarrow> StreamEvent list \<Rightarrow> 'a \<Rightarrow> 'a" where
  "forward_loop send [] a = a"
| "forward_loop send (Delivery channel payload # evs) a =
     (case send (pubsub_msg channel payload) a of
        (True, a') \<Rightarrow> forward_loop send evs a'
      | (False, a') \<Rightarrow> a')"
| "forward_loop send (StreamEnded # evs) a = a"
| "forward_loop send (ShutdownSignal # evs) a = a"

definition subscribe_to_channel ::
  "'s redis_server \<Rightarrow> string \<Rightarrow> (PubSubMessage \<Rightarrow> 'a \<Rightarrow> bool \<times> 'a) \<Rightarrow> StreamEvent list \<Rightarrow> 's \<Rightarrow> 'a
     \<Rightarrow> (RedisPubSubError + unit) \<times> 'a" where
  "subscribe_to_channel R channel send events s a =
     (case get_async_pubsub R channel s of
        Inl e \<Rightarrow> (Inl e, a)
      | Inr _ \<Rightarrow> (Inr (), forward_loop send events a))"

section \<open>Text of an address\<close>

text \<open>\<open>Display\<close> of \<open>Ipv6Addr\<close>: lower-case groups, the longest run of two or more zero groups
  replaced by \<open>::\<close>, and the mapped IPv4 addresses in dotted form.\<close>

definition hex_char :: "nat \<Rightarrow> char" where
  "hex_char d = (if d < 10 then char_of (48 + d) else char_of (87 + d))"

definition fmt_hex :: "u16 \<Rightarrow> string" where
  "fmt_hex g = (let n = unat g in
     if n < 16 then [hex_char n]
     else if n < 256 then [hex_char (n div 16), hex_char (n mod 16)]
     else if n < 4096 then [hex_char (n div 256), hex_char (n div 16 mod 16), hex_char (n mod 16)]
     else [hex_char (n div 4096), hex_char (n div 256 mod 16), hex_char (n div 16 mod 16), hex_char (n mod 16)])"

fun fmt_subslice :: "u16 list \<Rightarrow> string" where
  "fmt_subslice [] = []"
| "fmt_subslice [g] = fmt_hex g"
| "fmt_subslice (g # gs) = fmt_hex g @ CHR '':'' # fmt_subslice gs"

fun zero_span :: "nat \<Rightarrow> nat \<times> nat \<Rightarrow> nat \<times> nat \<Rightarrow> u16 list \<Rightarrow> nat \<times> nat" where
  "zero_span i longest current [] = longest"
| "zero_span i longest current (g # gs) =
     (if g = 0 then
        (let current = (if snd current = 0 then i else fst current, snd current + 1);
             longest = (if snd current > snd longest then current else longest)
         in zero_span (i + 1) longest current gs)
      else zero_span (i + 1) longest (0, 0) gs)"

definition fmt_ipv6 :: "u128 \<Rightarrow> string" where
  "fmt_ipv6 a = (let gs = segments a in
     if take 6 gs = [0, 0, 0, 0, 0, 0xFFFF] then ''::ffff:'' @ fmt_octets (drop 12 (octets (V6 a)))
     else (let (start, len) = zero_span 0 (0, 0) (0, 0) gs in
       if len > 1 then fmt_subslice (take start gs) @ ''::'' @ fmt_subslice (drop (start + len) gs)
       else fmt_subslice gs))"

fun fmt_ip :: "IpAddr \<Rightarrow> string" where
  "fmt_ip (V4 a) = fmt_ipv4 a"
| "fmt_ip (V6 a) = fmt_ipv6 a"

section \<open>A server and encodings that meet the contracts\<close>

record kv_state =
  kv_strings :: "string \<rightharpoonup> string"
  kv_hashes :: "string \<Rightarrow> (string \<times> string) list"
  kv_log :: "(string \<times> string) list"

definition kv_server :: "kv_state redis_server" where
  "kv_server = \<lparr>rd_open = (\<lambda>_. Inr ()), rd_connect = (\<lambda>_. Inr ()), rd_subscribe = (\<lambda>_ _. Inr ()),
     rd_get = (\<lambda>k s. Inr (kv_strings s k)),
     rd_set = (\<lambda>k v s. (Inr (), s\<lparr>kv_strings := (kv_strings s)(k \<mapsto> v)\<rparr>)),
     rd_hgetall = (\<lambda>k s. Inr (kv_hashes s k)),
     rd_hset = (\<lambda>h f v s. (Inr (), s\<lparr>kv_hashes := (kv_hashes s)(h := AList.update f v (kv_hashes s h))\<rparr>)),
     rd_hdel = (\<lambda>h f s. (Inr (), s\<lparr>kv_hashes := (kv_hashes s)(h := AList.delete f (kv_hashes s h))\<rparr>)),
     rd_publish = (\<lambda>c m s. (Inr (), s\<lparr>kv_log := kv_log s @ [(c, m)]\<rparr>))\<rparr>"

definition kv_empty :: kv_state where
  "kv_empty = \<lparr>kv_strings = Map.empty, kv_hashes = (\<lambda>_. []), kv_log = []\<rparr>"

interpretation kv: redis_store kv_server
  by unfold_locales (auto simp: kv_server_def)

text \<open>Networks as family, length and address bytes; metadata without attributes as its value.\<close>

definition enc_net :: "cidr \<Rightarrow> string" where
  "enc_net c = char_of (of_bool (is_ipv4 (cidr_ip c)) :: nat) # char_of (cidr_prefix c) # map (\<lambda>b. char_of (unat b)) (octets (cidr_ip c))"

definition dec_net :: "string \<Rightarrow> cidr option" where
  "dec_net s = (case s of
     f # p # bs \<Rightarrow>
       (let bytes = map (\<lambda>c. of_nat (of_char c)) bs in
        Some (cidr_of (if of_char f = (1 :: nat) then V4 (of_be_bytes bytes) else V6 (of_be_bytes bytes)) (of_char p)))
   | _ \<Rightarrow> None)"

fun enc_update :: "(cidr, string) RedisCacheUpdate \<Rightarrow> string" where
  "enc_update (UInsert n j) = CHR ''i'' # char_of (length (enc_net n)) # enc_net n @ j"
| "enc_update (URemove n) = CHR ''r'' # enc_net n"
| "enc_update UClear = ''c''"

definition dec_update :: "string \<Rightarrow> (cidr, string) RedisCacheUpdate option" where
  "dec_update s = (case s of
     op # rest \<Rightarrow>
       (if op = CHR ''i'' then
          (case rest of k # r \<Rightarrow> map_option (\<lambda>n. UInsert n (drop (of_char k) r)) (dec_net (take (of_char k) r)) | [] \<Rightarrow> None)
        else if op = CHR ''r'' then map_option URemove (dec_net rest)
        else if s = ''c'' then Some UClear else None)
   | [] \<Rightarrow> None)"

definition plain_serde :: "(cidr, string) serde" where
  "plain_serde = \<lparr>
     sj_to_string = (\<lambda>m. if md_attributes m = Map.empty then Some (md_value m) else None),
     sj_from_str = (\<lambda>t. Some (Metadata_new t)),
     sj_to_value = (\<lambda>m. if md_attributes m = Map.empty then Some (md_value m) else None),
     sj_from_value = (\<lambda>t. Some (Metadata_new t)), sj_null = [],
     sj_update_to_string = (\<lambda>u. Some (enc_update u)), sj_update_from_str = dec_update,
     sj_net_to_string = enc_net, sj_net_from_str = dec_net\<rparr>"

lemma dec_enc_net: "dec_net (enc_net c) = Some c"
proof -
  have w: "cidr_prefix c \<le> ip_width (cidr_ip c)" using cidr.net_prefix_le [of c] by (simp add: cidr_ops_def)
  have "ip_width (cidr_ip c) \<le> 128" by (cases "cidr_ip c") simp_all
  then have "cidr_prefix c < 256" using w by linarith
  then have p: "of_char (char_of (cidr_prefix c)) = cidr_prefix c" by (simp add: of_char_of)
  have b: "map (\<lambda>x. of_nat (of_char (char_of (unat x)))) bs = bs" for bs :: "u8 list"
  proof (intro map_idI)
    fix x :: u8
    have "unat x < 256" using unsigned_less [where w = x, where 'a = nat] by simp
    then show "of_nat (of_char (char_of (unat x))) = x" by (simp add: of_char_of)
  qed
  have eq: "cidr_of (cidr_ip c) (cidr_prefix c) = c"
    using cidr.net_ext [of "cidr_of (cidr_ip c) (cidr_prefix c)" c] w by (simp add: cidr_ops_def)
  show ?thesis
  proof (cases "cidr_ip c")
    case (V4 a)
    then show ?thesis using eq p b [of "octets (V4 a)"] of_be_bytes_be_bytes [of 4 a]
      by (simp add: dec_net_def enc_net_def Let_def comp_def of_char_of)
  next
    case (V6 a)
    then show ?thesis using eq p b [of "octets (V6 a)"] of_be_bytes_be_bytes [of 16 a]
      by (simp add: dec_net_def enc_net_def Let_def comp_def of_char_of)
  qed
qed

lemma length_enc_net: "length (enc_net c) < 256"
  by (cases "cidr_ip c") (simp_all add: enc_net_def)

interpretation plain: serde_codec plain_serde
proof
  fix u :: "(cidr, string) RedisCacheUpdate" and t
  show "sj_update_to_string plain_serde u = Some t \<Longrightarrow> sj_update_from_str plain_serde t = Some u"
    using length_enc_net by (cases u) (auto simp: plain_serde_def dec_update_def dec_enc_net of_char_of)
qed (auto simp: plain_serde_def dec_enc_net Metadata_new_def split: if_splits)

end
