(* ===== verification/Cache.thy ===== *)
theory Cache
  imports MemCache Redis Engine
begin

text \<open>
  The cached engine (\<open>engine/src/cache.rs\<close>) over any engine of the trait \<open>RadixEngine\<close>. The
  wrapped engine is shared through an \<open>Arc\<close>; its state is held once, in \<open>cd_inner\<close>. With a
  Redis client the cache carries the state of the server it talks to. \<open>None\<close> is a panic of the
  wrapped engine.
\<close>

section \<open>Lookup cache\<close>

record 's RadixCache =
  rx_cache :: "(IpAddr \<times> Metadata option) list"
  rx_config :: CacheConfig
  rx_redis :: "'s option"

text \<open>Entries of the hash \<open>radixip:entries\<close> that parse are inserted; a failed insertion is
  ignored.\<close>

fun boot_load ::
  "('n, 'j) serde \<Rightarrow> ('e, 'n) RadixEngine \<Rightarrow> (string \<times> string) list \<Rightarrow> 'e \<Rightarrow> 'e option" where
  "boot_load J E [] e = Some e"
| "boot_load J E ((cidr, meta_json) # entries) e =
     (case (sj_net_from_str J cidr, sj_from_str J meta_json) of
        (Some network, Some metadata) \<Rightarrow>
          (case re_insert E network metadata e of None \<Rightarrow> None | Some (_, e') \<Rightarrow> boot_load J E entries e')
      | _ \<Rightarrow> boot_load J E entries e)"

definition RadixCache_new ::
  "'s redis_server \<Rightarrow> ('n, 'j) serde \<Rightarrow> ('e, 'n) RadixEngine \<Rightarrow> CacheConfig \<Rightarrow> 's option \<Rightarrow> 'e \<Rightarrow> ('s RadixCache \<times> 'e) option" where
  "RadixCache_new R J E config redis e =
     (let cache = \<lparr>rx_cache = [], rx_config = config, rx_redis = redis\<rparr> in
      case redis of
        Some s \<Rightarrow>
          (case hgetall_sync R ''radixip:entries'' s of
             Inr entries \<Rightarrow> map_option (\<lambda>e'. (cache, e')) (boot_load J E entries e)
           | Inl _ \<Rightarrow> Some (cache, e))
      | None \<Rightarrow> Some (cache, e))"

definition lookup_key :: "IpAddr \<Rightarrow> string" where
  "lookup_key ip = ''radixip:lookup:'' @ fmt_ip ip"

text \<open>The second chance in Redis after a miss in the engine, and the copy of a hit to Redis.\<close>

definition redis_lookup ::
  "'s redis_server \<Rightarrow> ('n, 'j) serde \<Rightarrow> IpAddr \<Rightarrow> 's option \<Rightarrow> Metadata option \<Rightarrow> Metadata option" where
  "redis_lookup R J ip redis result =
     (if result = None then
        (case redis of
           Some s \<Rightarrow>
             (case get_sync R (lookup_key ip) s of
                Inr (Some cached_meta) \<Rightarrow> sj_from_str J cached_meta
              | _ \<Rightarrow> None)
         | None \<Rightarrow> None)
      else result)"

definition redis_store_result ::
  "'s redis_server \<Rightarrow> ('n, 'j) serde \<Rightarrow> IpAddr \<Rightarrow> Metadata option \<Rightarrow> 's option \<Rightarrow> 's option" where
  "redis_store_result R J ip result redis =
     (case (redis, result) of
        (Some s, Some res) \<Rightarrow>
          (case sj_to_string J res of
             Some json \<Rightarrow> Some (snd (set_sync R (lookup_key ip) json s))
           | None \<Rightarrow> Some s)
      | _ \<Rightarrow> redis)"

definition lookup_with_cache ::
  "(IpAddr list \<Rightarrow> IpAddr) \<Rightarrow> 's redis_server \<Rightarrow> ('n, 'j) serde \<Rightarrow> ('e, 'n) RadixEngine \<Rightarrow> IpAddr
     \<Rightarrow> 's RadixCache \<Rightarrow> 'e \<Rightarrow> (Metadata option \<times> 's RadixCache \<times> 'e) option" where
  "lookup_with_cache first_key R J E ip c e =
     (case map_of (rx_cache c) ip of
        Some entry \<Rightarrow> Some (entry, c, e)
      | None \<Rightarrow>
          (case re_lookup E ip e of
             None \<Rightarrow> None
           | Some (found, e') \<Rightarrow>
               (let result = redis_lookup R J ip (rx_redis c) found;
                    cache = put_bounded first_key (cc_max_entries (rx_config c)) ip result (rx_cache c);
                    redis = redis_store_result R J ip result (rx_redis c)
                in Some (result, c\<lparr>rx_cache := cache, rx_redis := redis\<rparr>, e'))))"

definition invalidate :: "'n ipnet_ops \<Rightarrow> 'n \<Rightarrow> 's RadixCache \<Rightarrow> 's RadixCache" where
  "invalidate N pfx c = c\<lparr>rx_cache := filter (\<lambda>(ip, _). \<not> network_contains_ip N pfx ip) (rx_cache c)\<rparr>"

definition RadixCache_clear :: "'s RadixCache \<Rightarrow> 's RadixCache" where
  "RadixCache_clear c = c\<lparr>rx_cache := []\<rparr>"

section \<open>Cached engine\<close>

record ('e, 's) CachedEngine =
  cd_inner :: 'e
  cd_cache :: "'s RadixCache"

definition CachedEngine_new ::
  "'s redis_server \<Rightarrow> ('n, 'j) serde \<Rightarrow> ('e, 'n) RadixEngine \<Rightarrow> CacheConfig \<Rightarrow> 's option \<Rightarrow> 'e \<Rightarrow> ('e, 's) CachedEngine option" where
  "CachedEngine_new R J E config redis inner =
     map_option (\<lambda>(c, e). \<lparr>cd_inner = e, cd_cache = c\<rparr>) (RadixCache_new R J E config redis inner)"

definition CachedEngine_insert ::
  "'s redis_server \<Rightarrow> ('n, 'j) serde \<Rightarrow> 'n ipnet_ops \<Rightarrow> ('e, 'n) RadixEngine \<Rightarrow> 'n \<Rightarrow> Metadata
     \<Rightarrow> ('e, 's) CachedEngine \<Rightarrow> ((string + unit) \<times> ('e, 's) CachedEngine) option" where
  "CachedEngine_insert R J N E pfx metadata ce =
     (case re_insert E pfx metadata (cd_inner ce) of
        None \<Rightarrow> None
      | Some (Inl err, e) \<Rightarrow> Some (Inl err, ce\<lparr>cd_inner := e\<rparr>)
      | Some (Inr _, e) \<Rightarrow>
          (let c = cd_cache ce;
               c = (case (rx_redis c, sj_to_string J metadata) of
                   (Some s, Some json) \<Rightarrow>
                     c\<lparr>rx_redis := Some (snd (hset_sync R ''radixip:entries'' (sj_net_to_string J pfx) json s))\<rparr>
                 | _ \<Rightarrow> c)
           in Some (Inr (), ce\<lparr>cd_inner := e, cd_cache := invalidate N pfx c\<rparr>)))"

definition CachedEngine_lookup ::
  "(IpAddr list \<Rightarrow> IpAddr) \<Rightarrow> 's redis_server \<Rightarrow> ('n, 'j) serde \<Rightarrow> ('e, 'n) RadixEngine \<Rightarrow> IpAddr
     \<Rightarrow> ('e, 's) CachedEngine \<Rightarrow> (Metadata option \<times> ('e, 's) CachedEngine) option" where
  "CachedEngine_lookup first_key R J E ip ce =
     map_option (\<lambda>(r, c, e). (r, ce\<lparr>cd_inner := e, cd_cache := c\<rparr>))
       (lookup_with_cache first_key R J E ip (cd_cache ce) (cd_inner ce))"

definition CachedEngine_remove ::
  "'s redis_server \<Rightarrow> ('n, 'j) serde \<Rightarrow> 'n ipnet_ops \<Rightarrow> ('e, 'n) RadixEngine \<Rightarrow> 'n
     \<Rightarrow> ('e, 's) CachedEngine \<Rightarrow> (Metadata option \<times> ('e, 's) CachedEngine) option" where
  "CachedEngine_remove R J N E pfx ce =
     (case re_remove E pfx (cd_inner ce) of
        None \<Rightarrow> None
      | Some (result, e) \<Rightarrow>
          (let c = cd_cache ce;
               c = (case rx_redis c of
                   Some s \<Rightarrow> c\<lparr>rx_redis := Some (snd (hdel_sync R ''radixip:entries'' (sj_net_to_string J pfx) s))\<rparr>
                 | None \<Rightarrow> c)
           in Some (result, ce\<lparr>cd_inner := e, cd_cache := invalidate N pfx c\<rparr>)))"

definition CachedEngine_contains :: "('e, 'n) RadixEngine \<Rightarrow> 'n \<Rightarrow> ('e, 's) CachedEngine \<Rightarrow> bool" where
  "CachedEngine_contains E pfx ce = re_contains E pfx (cd_inner ce)"

definition CachedEngine_clear :: "('e, 'n) RadixEngine \<Rightarrow> ('e, 's) CachedEngine \<Rightarrow> ('e, 's) CachedEngine option" where
  "CachedEngine_clear E ce =
     map_option (\<lambda>e. ce\<lparr>cd_inner := e, cd_cache := RadixCache_clear (cd_cache ce)\<rparr>) (re_clear E (cd_inner ce))"

definition CachedEngine_size :: "('e, 'n) RadixEngine \<Rightarrow> ('e, 's) CachedEngine \<Rightarrow> usize" where
  "CachedEngine_size E ce = re_size E (cd_inner ce)"

definition CachedEngine_stats :: "('e, 'n) RadixEngine \<Rightarrow> ('e, 's) CachedEngine \<Rightarrow> EngineStats" where
  "CachedEngine_stats E ce = re_stats E (cd_inner ce)"

definition CachedEngine_RadixEngine ::
  "(IpAddr list \<Rightarrow> IpAddr) \<Rightarrow> 's redis_server \<Rightarrow> ('n, 'j) serde \<Rightarrow> 'n ipnet_ops \<Rightarrow> ('e, 'n) RadixEngine
     \<Rightarrow> (('e, 's) CachedEngine, 'n) RadixEngine" where
  "CachedEngine_RadixEngine first_key R J N E = \<lparr>
     re_insert = CachedEngine_insert R J N E,
     re_lookup = CachedEngine_lookup first_key R J E,
     re_remove = CachedEngine_remove R J N E,
     re_contains = CachedEngine_contains E,
     re_clear = CachedEngine_clear E,
     re_size = CachedEngine_size E,
     re_stats = CachedEngine_stats E\<rparr>"

lemma map_of_filter_key: "map_of (filter (\<lambda>(k, _). P k) xs) k = (if P k then map_of xs k else None)"
  by (induction xs) auto

lemma invalidate_fields [simp]:
  "rx_config (invalidate N n c) = rx_config c" "rx_redis (invalidate N n c) = rx_redis c"
  by (simp_all add: invalidate_def)

section \<open>Locality of longest-prefix answers\<close>

text \<open>Tables filed by their bits that agree on the networks around an address give it the same
  answer; a change of one network changes only answers inside it, if networks with the same bits are
  of the same family. \<open>fam\<close> is the family of the networks with given bits.\<close>

definition one_family :: "'n ipnet_ops \<Rightarrow> (bool list \<Rightarrow> bool) \<Rightarrow> (bool list \<rightharpoonup> 'n \<times> Metadata) \<Rightarrow> bool" where
  "one_family N fam tab \<longleftrightarrow> (\<forall>k n m. tab k = Some (n, m) \<longrightarrow> net_v4 N n = fam k)"

lemma lpm_result_agree:
  assumes "\<And>n m. network_contains_ip N n ip \<Longrightarrow> (n, m) \<in> S \<longleftrightarrow> (n, m) \<in> S'"
    and "lpm_result N S ip r"
  shows "lpm_result N S' ip r"
proof -
  have "best_entry N ip S (n, m) \<longleftrightarrow> best_entry N ip S' (n, m)" for n m
    using assms(1) unfolding best_entry_def fst_conv by blast
  then show ?thesis using assms unfolding lpm_result_def by (cases r) (simp_all, blast)
qed

context ipnetwork
begin

lemma same_bits_contains:
  "net_bits N n = net_bits N n' \<Longrightarrow> net_v4 N n = net_v4 N n' \<Longrightarrow> network_contains_ip N n ip = network_contains_ip N n' ip"
  by (simp add: network_contains_ip_iff)

lemma change_outside:
  assumes "\<And>k n m. f k = Some (n, m) \<Longrightarrow> net_bits N n = k" and "one_family N fam f"
    and "net_v4 N p = fam (net_bits N p)" and "\<not> network_contains_ip N p ip"
    and "x = None \<or> (\<exists>m. x = Some (p, m))" and "network_contains_ip N n ip"
  shows "(n, m) \<in> ran f \<longleftrightarrow> (n, m) \<in> ran (f(net_bits N p := x))"
proof
  assume "(n, m) \<in> ran f"
  then obtain k where k: "f k = Some (n, m)" by (auto simp: ran_def)
  have fam: "net_v4 N n = fam k" using assms(2) k unfolding one_family_def by blast
  have "k \<noteq> net_bits N p"
  proof
    assume "k = net_bits N p"
    then have "net_bits N n = net_bits N p" using assms(1) [OF k] by simp
    from same_bits_contains [OF this] fam \<open>k = net_bits N p\<close> assms(3,4,6) show False by simp
  qed
  then have "(f(net_bits N p := x)) k = Some (n, m)" using k by simp
  then show "(n, m) \<in> ran (f(net_bits N p := x))" unfolding ran_def by blast
next
  assume "(n, m) \<in> ran (f(net_bits N p := x))"
  then obtain k where k: "(f(net_bits N p := x)) k = Some (n, m)" by (auto simp: ran_def)
  have "k \<noteq> net_bits N p" using k assms(4,5,6) by auto
  then have "f k = Some (n, m)" using k by simp
  then show "(n, m) \<in> ran f" unfolding ran_def by blast
qed

end

section \<open>The cache is coherent\<close>

definition cache_inv ::
  "('e \<Rightarrow> bool) \<Rightarrow> ('e \<Rightarrow> bool list \<rightharpoonup> 'n \<times> Metadata) \<Rightarrow> ('e \<Rightarrow> IpAddr \<Rightarrow> Metadata option) \<Rightarrow> 'n ipnet_ops \<Rightarrow> (bool list \<Rightarrow> bool)
     \<Rightarrow> ('e, 's) CachedEngine \<Rightarrow> bool" where
  "cache_inv einv eabs ans N fam ce \<longleftrightarrow>
     einv (cd_inner ce) \<and> one_family N fam (eabs (cd_inner ce)) \<and> rx_redis (cd_cache ce) = None
     \<and> hash_map (rx_cache (cd_cache ce))
     \<and> length (rx_cache (cd_cache ce)) \<le> max 1 (unat (cc_max_entries (rx_config (cd_cache ce))))
     \<and> (\<forall>ip r. map_of (rx_cache (cd_cache ce)) ip = Some r \<longrightarrow> ans (cd_inner ce) ip = r)"

lemma cache_invD:
  assumes "cache_inv einv eabs ans N fam ce"
  shows "einv (cd_inner ce)" and "one_family N fam (eabs (cd_inner ce))" and "rx_redis (cd_cache ce) = None"
    and "hash_map (rx_cache (cd_cache ce))"
    and "length (rx_cache (cd_cache ce)) \<le> max 1 (unat (cc_max_entries (rx_config (cd_cache ce))))"
    and "map_of (rx_cache (cd_cache ce)) ip = Some r \<Longrightarrow> ans (cd_inner ce) ip = r"
  using assms unfolding cache_inv_def by blast+

lemma cache_invI:
  assumes "einv e" and "one_family N fam (eabs e)" and "hash_map m" and "length m \<le> max 1 (unat (cc_max_entries cfg))"
    and "\<And>ip r. map_of m ip = Some r \<Longrightarrow> ans e ip = r"
  shows "cache_inv einv eabs ans N fam \<lparr>cd_inner = e, cd_cache = \<lparr>rx_cache = m, rx_config = cfg, rx_redis = None\<rparr>\<rparr>"
  using assms unfolding cache_inv_def by simp

fun op_family :: "'n ipnet_ops \<Rightarrow> (bool list \<Rightarrow> bool) \<Rightarrow> 'n EngineOp \<Rightarrow> bool" where
  "op_family N fam (EInsert n m) = (net_v4 N n = fam (net_bits N n))"
| "op_family N fam (ELookup ip) = True"
| "op_family N fam (ERemove n) = (net_v4 N n = fam (net_bits N n))"

text \<open>No two networks of a run have the same bits in different families.\<close>

fun op_nets :: "'n EngineOp \<Rightarrow> 'n set" where
  "op_nets (EInsert n m) = {n}"
| "op_nets (ELookup ip) = {}"
| "op_nets (ERemove n) = {n}"

definition families_apart :: "'n ipnet_ops \<Rightarrow> 'n EngineOp list \<Rightarrow> bool" where
  "families_apart N xs \<longleftrightarrow> (\<forall>n \<in> \<Union> (op_nets ` set xs). \<forall>n' \<in> \<Union> (op_nets ` set xs).
     net_bits N n = net_bits N n' \<longrightarrow> net_v4 N n = net_v4 N n')"

lemma families_apart_family:
  assumes "families_apart N xs"
  obtains fam where "list_all (op_family N fam) xs"
proof
  let ?fam = "\<lambda>k. \<exists>n \<in> \<Union> (op_nets ` set xs). net_bits N n = k \<and> net_v4 N n"
  have fam: "net_v4 N n = ?fam (net_bits N n)" if "x \<in> set xs" "n \<in> op_nets x" for x n
    using assms that unfolding families_apart_def by blast
  have "op_family N ?fam x" if "x \<in> set xs" for x
    using fam [OF that] by (cases x) simp_all
  then show "list_all (op_family N ?fam) xs" by (simp add: list_all_iff)
qed

locale cached_engine = lpm_engine E inv abs "net_bits N" answer N + ipnetwork N
  for E :: "('e, 'n) RadixEngine" and inv abs answer and N :: "'n ipnet_ops" +
  fixes first_key :: "IpAddr list \<Rightarrow> IpAddr"
  assumes first_key: "picks_key first_key"
begin

lemma answer_unique: "inv e \<Longrightarrow> lpm_result N (ran (abs e)) ip r \<Longrightarrow> r = answer e ip"
  using engine_lpm [of e ip] lpm_result_fun [OF ipnetwork_axioms, of "abs e"] engine_filed by blast

lemma answer_outside:
  assumes "inv e" and "inv e'" and "abs e' = (abs e)(net_bits N p := x)" and "one_family N fam (abs e)"
    and "net_v4 N p = fam (net_bits N p)" and "\<not> network_contains_ip N p ip" and "x = None \<or> (\<exists>m. x = Some (p, m))"
  shows "answer e' ip = answer e ip"
proof -
  have "lpm_result N (ran (abs e')) ip (answer e ip)"
    unfolding assms(3)
    by (rule lpm_result_agree [OF _ engine_lpm [OF assms(1)]],
        rule change_outside [OF engine_filed [OF assms(1)] assms(4-7)])
  then show ?thesis using answer_unique [OF assms(2)] by simp
qed

lemma cached_lookup:
  assumes "cache_inv inv abs answer N fam ce"
  shows "\<exists>ce'. CachedEngine_lookup first_key R J E ip ce = Some (answer (cd_inner ce) ip, ce')
    \<and> cache_inv inv abs answer N fam ce' \<and> abs (cd_inner ce') = abs (cd_inner ce)
    \<and> rx_config (cd_cache ce') = rx_config (cd_cache ce)"
proof -
  obtain e m cfg where ce: "ce = \<lparr>cd_inner = e, cd_cache = \<lparr>rx_cache = m, rx_config = cfg, rx_redis = None\<rparr>\<rparr>"
    using cache_invD(3) [OF assms] by (cases ce, cases "cd_cache ce") auto
  note inv = cache_invD [OF assms, unfolded ce, simplified]
  show ?thesis
  proof (cases "map_of m ip")
    case (Some r)
    then have "CachedEngine_lookup first_key R J E ip ce = Some (r, ce)"
      by (simp add: CachedEngine_lookup_def lookup_with_cache_def ce)
    moreover have "answer (cd_inner ce) ip = r" using inv(6) [OF Some] by (simp add: ce)
    ultimately show ?thesis using assms by blast
  next
    case None
    obtain e' where e': "re_lookup E ip e = Some (answer e ip, e')" "inv e'" "abs e' = abs e" "answer e' = answer e"
      using engine_lookup [OF inv(1)] by blast
    let ?m = "put_bounded first_key (cc_max_entries cfg) ip (answer e ip) m"
    let ?ce = "\<lparr>cd_inner = e', cd_cache = \<lparr>rx_cache = ?m, rx_config = cfg, rx_redis = None\<rparr>\<rparr>"
    have "redis_lookup R J ip None (answer e ip) = answer e ip"
      "redis_store_result R J ip (answer e ip) None = None"
      by (simp_all add: redis_lookup_def redis_store_result_def)
    then have eq: "CachedEngine_lookup first_key R J E ip ce = Some (answer (cd_inner ce) ip, ?ce)"
      using None e'(1) by (simp add: CachedEngine_lookup_def lookup_with_cache_def Let_def ce)
    have "answer e' ip' = r" if "map_of ?m ip' = Some r" for ip' r
      using that map_of_evict [OF inv(4), of first_key _ ip' r] inv(6) [of ip' r] e'(4)
      by (simp add: put_bounded_def update_conv' split: if_splits)
    then have "cache_inv inv abs answer N fam ?ce"
      using e'(2,3) inv(2,4) put_bounded_length [OF inv(4) first_key, of "cc_max_entries cfg"] inv(5)
      by (intro cache_invI) (simp_all add: put_bounded_def)
    then show ?thesis using eq e'(3) by (simp add: ce)
  qed
qed

lemma cache_inv_change:
  assumes "cache_inv inv abs answer N fam ce" and "inv e'" and "abs e' = (abs (cd_inner ce))(net_bits N p := x)"
    and "net_v4 N p = fam (net_bits N p)" and "x = None \<or> (\<exists>m. x = Some (p, m))"
  shows "cache_inv inv abs answer N fam (ce\<lparr>cd_inner := e', cd_cache := invalidate N p (cd_cache ce)\<rparr>)"
proof -
  obtain e m cfg where ce: "ce = \<lparr>cd_inner = e, cd_cache = \<lparr>rx_cache = m, rx_config = cfg, rx_redis = None\<rparr>\<rparr>"
    using cache_invD(3) [OF assms(1)] by (cases ce, cases "cd_cache ce") auto
  note inv = cache_invD [OF assms(1), unfolded ce, simplified]
  let ?m = "filter (\<lambda>(ip, _). \<not> network_contains_ip N p ip) m"
  have "abs e' = (abs e)(net_bits N p := x)" using assms(3) by (simp add: ce)
  note outside = answer_outside [OF inv(1) assms(2) this inv(2) assms(4) _ assms(5)]
  have a: "answer e' ip = r" if "map_of ?m ip = Some r" for ip r
    using that outside [of ip] inv(6) [of ip r] by (simp add: map_of_filter_key split: if_splits)
  have "one_family N fam (abs e')"
    using inv(2) assms(3,4,5) by (auto simp: one_family_def ce split: if_splits)
  moreover have "length ?m \<le> max 1 (unat (cc_max_entries cfg))"
    using inv(5) by (simp add: order_trans [OF length_filter_le])
  moreover have "hash_map ?m" using inv(4) by simp
  ultimately have "cache_inv inv abs answer N fam
      \<lparr>cd_inner = e', cd_cache = \<lparr>rx_cache = ?m, rx_config = cfg, rx_redis = None\<rparr>\<rparr>"
    using a assms(2) by (intro cache_invI)
  then show ?thesis by (simp add: ce invalidate_def)
qed

lemma cached_op:
  assumes "cache_inv inv abs answer N fam ce" and "op_family N fam x"
  shows "\<exists>ce'. engine_op (CachedEngine_RadixEngine first_key R J N E) x ce = Some ce'
    \<and> cache_inv inv abs answer N fam ce' \<and> abs (cd_inner ce') = table_engine_op (net_bits N) x (abs (cd_inner ce))
    \<and> rx_config (cd_cache ce') = rx_config (cd_cache ce)"
proof (cases x)
  case (ELookup ip)
  with cached_lookup [OF assms(1), of R J ip] show ?thesis by (auto simp: CachedEngine_RadixEngine_def)
next
  case (EInsert n m)
  have inv: "inv (cd_inner ce)" "rx_redis (cd_cache ce) = None" using cache_invD(1,3) [OF assms(1)] .
  obtain e' where e': "re_insert E n m (cd_inner ce) = Some (Inr (), e')" "inv e'"
    "abs e' = (abs (cd_inner ce))(net_bits N n \<mapsto> (n, m))"
    using engine_insert [OF inv(1)] by blast
  have "cache_inv inv abs answer N fam (ce\<lparr>cd_inner := e', cd_cache := invalidate N n (cd_cache ce)\<rparr>)"
    using assms(2) EInsert by (intro cache_inv_change [OF assms(1) e'(2,3)]) auto
  then show ?thesis using EInsert e' inv(2)
    by (simp add: CachedEngine_RadixEngine_def CachedEngine_insert_def Let_def)
next
  case (ERemove n)
  have inv: "inv (cd_inner ce)" "rx_redis (cd_cache ce) = None" using cache_invD(1,3) [OF assms(1)] .
  obtain e' where e': "re_remove E n (cd_inner ce) = Some (map_option snd (abs (cd_inner ce) (net_bits N n)), e')" "inv e'"
    "abs e' = (abs (cd_inner ce))(net_bits N n := None)"
    using engine_remove [OF inv(1)] by blast
  have "cache_inv inv abs answer N fam (ce\<lparr>cd_inner := e', cd_cache := invalidate N n (cd_cache ce)\<rparr>)"
    using assms(2) ERemove by (intro cache_inv_change [OF assms(1) e'(2,3)]) auto
  then show ?thesis using ERemove e' inv(2)
    by (simp add: CachedEngine_RadixEngine_def CachedEngine_remove_def Let_def)
qed

lemma cached_ops:
  "cache_inv inv abs answer N fam ce \<Longrightarrow> list_all (op_family N fam) xs \<Longrightarrow>
   \<exists>ce'. engine_ops (CachedEngine_RadixEngine first_key R J N E) xs ce = Some ce'
    \<and> cache_inv inv abs answer N fam ce' \<and> abs (cd_inner ce') = table_engine_ops (net_bits N) xs (abs (cd_inner ce))
    \<and> rx_config (cd_cache ce') = rx_config (cd_cache ce)"
proof (induction xs arbitrary: ce)
  case (Cons x xs)
  obtain u where u: "engine_op (CachedEngine_RadixEngine first_key R J N E) x ce = Some u"
    "cache_inv inv abs answer N fam u" "abs (cd_inner u) = table_engine_op (net_bits N) x (abs (cd_inner ce))"
    "rx_config (cd_cache u) = rx_config (cd_cache ce)"
    using cached_op [OF Cons.prems(1), of x R J] Cons.prems(2) by auto
  with Cons.IH [OF u(2)] Cons.prems(2) show ?case by (auto simp: table_engine_ops_def)
qed (simp add: table_engine_ops_def)

lemma cached_run:
  assumes "inv e" and "abs e = Map.empty" and "list_all (op_family N fam) xs"
  shows "\<exists>ce ce' r ce''. CachedEngine_new R J E config None e = Some ce
    \<and> engine_ops (CachedEngine_RadixEngine first_key R J N E) xs ce = Some ce'
    \<and> CachedEngine_lookup first_key R J E ip ce' = Some (r, ce'')
    \<and> lpm_result N (ran (table_engine_ops (net_bits N) xs Map.empty)) ip r
    \<and> length (rx_cache (cd_cache ce'')) \<le> max 1 (unat (cc_max_entries config))"
proof -
  let ?ce = "\<lparr>cd_inner = e, cd_cache = \<lparr>rx_cache = [], rx_config = config, rx_redis = None\<rparr>\<rparr>"
  have new: "CachedEngine_new R J E config None e = Some ?ce"
    by (simp add: CachedEngine_new_def RadixCache_new_def Let_def)
  have "cache_inv inv abs answer N fam ?ce" using assms(1,2) by (intro cache_invI) (simp_all add: one_family_def)
  from cached_ops [OF this assms(3), of R J] obtain ce' where ce':
    "engine_ops (CachedEngine_RadixEngine first_key R J N E) xs ?ce = Some ce'" "cache_inv inv abs answer N fam ce'"
    "abs (cd_inner ce') = table_engine_ops (net_bits N) xs Map.empty" "rx_config (cd_cache ce') = config"
    using assms(2) by auto
  obtain ce'' where l: "CachedEngine_lookup first_key R J E ip ce' = Some (answer (cd_inner ce') ip, ce'')"
    "cache_inv inv abs answer N fam ce''" "rx_config (cd_cache ce'') = config"
    using cached_lookup [OF ce'(2), of R J ip] ce'(4) by auto
  have "lpm_result N (ran (abs (cd_inner ce'))) ip (answer (cd_inner ce') ip)"
    by (rule engine_lpm [OF cache_invD(1) [OF ce'(2)]])
  then show ?thesis using new ce'(1,3) l(1,3) cache_invD(5) [OF l(2)] by auto
qed

text \<open>Two networks with the same bits in different families displace each other in the engine, but only the
  answers in the family of the network inserted last are dropped from the cache.\<close>

lemma cached_family_stale:
  assumes "inv e" and "abs e = Map.empty" and "net_bits N n' = net_bits N n" and "net_v4 N n' \<noteq> net_v4 N n"
    and "network_contains_ip N n ip"
  shows "\<exists>ce ce' ce''. CachedEngine_new R J E config None e = Some ce
    \<and> engine_ops (CachedEngine_RadixEngine first_key R J N E) [EInsert n m, ELookup ip, EInsert n' m'] ce = Some ce'
    \<and> CachedEngine_lookup first_key R J E ip ce' = Some (Some m, ce'')
    \<and> lpm_result N (ran (table_engine_ops (net_bits N) [EInsert n m, ELookup ip, EInsert n' m'] Map.empty)) ip None"
proof -
  have out: "\<not> network_contains_ip N n' ip" using assms(3-5) by (auto simp: network_contains_ip_iff)
  obtain e1 where e1: "re_insert E n m e = Some (Inr (), e1)" "inv e1" "abs e1 = [net_bits N n \<mapsto> (n, m)]"
    using engine_insert [OF assms(1), of n m] assms(2) by auto
  obtain e2 where e2: "re_lookup E ip e1 = Some (answer e1 ip, e2)" "inv e2"
    using engine_lookup [OF e1(2)] by blast
  obtain e3 where e3: "re_insert E n' m' e2 = Some (Inr (), e3)" using engine_insert [OF e2(2)] by blast
  have ans: "answer e1 ip = Some m"
    using answer_unique [OF e1(2), of ip "Some m"] assms(5) by (simp add: e1(3) lpm_result_singleton)
  let ?ce = "\<lambda>e m. \<lparr>cd_inner = e, cd_cache = \<lparr>rx_cache = m, rx_config = config, rx_redis = None\<rparr>\<rparr>"
  let ?m = "put_bounded first_key (cc_max_entries config) ip (Some m) []"
  have m: "?m = [(ip, Some m)]" by (simp add: put_bounded_def evict_one_def)
  have "CachedEngine_insert R J N E n m (?ce e []) = Some (Inr (), ?ce e1 [])"
    using e1(1) by (simp add: CachedEngine_insert_def invalidate_def Let_def)
  moreover have "CachedEngine_lookup first_key R J E ip (?ce e1 []) = Some (Some m, ?ce e2 [(ip, Some m)])"
    using e2(1) ans m
    by (simp add: CachedEngine_lookup_def lookup_with_cache_def redis_lookup_def redis_store_result_def Let_def)
  moreover have "CachedEngine_insert R J N E n' m' (?ce e2 [(ip, Some m)]) = Some (Inr (), ?ce e3 [(ip, Some m)])"
    using e3 out by (simp add: CachedEngine_insert_def invalidate_def Let_def)
  moreover have "CachedEngine_lookup first_key R J E ip (?ce e3 [(ip, Some m)]) = Some (Some m, ?ce e3 [(ip, Some m)])"
    by (simp add: CachedEngine_lookup_def lookup_with_cache_def)
  moreover have "table_engine_ops (net_bits N) [EInsert n m, ELookup ip, EInsert n' m'] Map.empty = [net_bits N n' \<mapsto> (n', m')]"
    by (simp add: table_engine_ops_def assms(3))
  ultimately show ?thesis using out
    by (intro exI [of _ "?ce e []"] exI [of _ "?ce e3 [(ip, Some m)]"])
       (simp add: CachedEngine_new_def RadixCache_new_def CachedEngine_RadixEngine_def lpm_result_singleton Let_def)
qed

end

section \<open>The shared lookup cache keeps removed routes\<close>

text \<open>A hit is copied to the key of its address in Redis; a removal deletes the network from
  the hash of entries and nothing else.\<close>

locale cached_redis = cached_engine E inv abs answer N first_key + redis_store R + serde_codec J
  for E :: "('e, 'n) RadixEngine" and inv abs answer and N :: "'n ipnet_ops" and first_key
    and R :: "'s redis_server" and J :: "('n, 'j) serde"
begin

lemma lookup_miss:
  assumes "map_of (rx_cache c) ip = None" and "re_lookup E ip e = Some (r, e')" and "rx_redis c = Some s"
  shows "CachedEngine_lookup first_key R J E ip \<lparr>cd_inner = e, cd_cache = c\<rparr> =
    (let result = redis_lookup R J ip (Some s) r in
     Some (result, \<lparr>cd_inner = e', cd_cache = c\<lparr>
       rx_cache := put_bounded first_key (cc_max_entries (rx_config c)) ip result (rx_cache c),
       rx_redis := redis_store_result R J ip result (Some s)\<rparr>\<rparr>))"
  using assms by (simp add: CachedEngine_lookup_def lookup_with_cache_def Let_def)

lemma store_result:
  assumes "sj_to_string J m = Some t"
  shows "\<exists>s'. redis_store_result R J ip (Some m) (Some s) = Some s' \<and> rd_get R (lookup_key ip) s' = Inr (Some t)"
proof -
  obtain s' where s': "rd_set R (lookup_key ip) t s = (Inr (), s')" using set_ok by blast
  then have "rd_get R (lookup_key ip) s' = Inr (Some t)" using get_set [OF s', of "lookup_key ip"] by simp
  then show ?thesis
    using s' assms connect by (simp add: redis_store_result_def set_sync_def get_sync_connection_def redis_err_def)
qed

lemma hdel_keeps_lookup:
  "rd_get R (lookup_key ip) (snd (hdel_sync R ''radixip:entries'' f s)) = rd_get R (lookup_key ip) s"
proof -
  have "lookup_key ip \<noteq> ''radixip:entries''" by (simp add: lookup_key_def)
  then show ?thesis using get_hdel [OF prod.collapse [symmetric], of "lookup_key ip" "''radixip:entries''" f s] connect
    by (simp add: hdel_sync_def get_sync_connection_def redis_err_def)
qed

lemma redis_lookup_hit:
  assumes "rd_get R (lookup_key ip) s = Inr (Some t)" and "sj_to_string J m = Some t"
  shows "redis_lookup R J ip (Some s) None = Some m"
  using assms from_to_string [OF assms(2)] connect
  by (simp add: redis_lookup_def get_sync_def get_sync_connection_def redis_err_def)

lemma stale_after_remove:
  assumes "inv e" and "abs e = Map.empty" and "rd_hgetall R ''radixip:entries'' s = Inr []"
    and "network_contains_ip N n ip" and t: "sj_to_string J m = Some t"
  shows "\<exists>ce0 ce1 ce2 ce3 ce4 e'. CachedEngine_new R J E config (Some s) e = Some ce0
    \<and> CachedEngine_insert R J N E n m ce0 = Some (Inr (), ce1)
    \<and> CachedEngine_lookup first_key R J E ip ce1 = Some (Some m, ce2)
    \<and> CachedEngine_remove R J N E n ce2 = Some (Some m, ce3)
    \<and> re_lookup E ip (cd_inner ce3) = Some (None, e')
    \<and> CachedEngine_lookup first_key R J E ip ce3 = Some (Some m, ce4)"
proof -
  define c0 where "c0 = \<lparr>rx_cache = [], rx_config = config, rx_redis = Some s\<rparr>"
  have new: "CachedEngine_new R J E config (Some s) e = Some \<lparr>cd_inner = e, cd_cache = c0\<rparr>"
    using assms(3) connect
    by (simp add: CachedEngine_new_def RadixCache_new_def hgetall_sync_def get_sync_connection_def redis_err_def c0_def)
  obtain e1 where e1: "re_insert E n m e = Some (Inr (), e1)" "inv e1" "abs e1 = [net_bits N n \<mapsto> (n, m)]"
    using engine_insert [OF assms(1)] assms(2) by auto
  define s1 where "s1 = snd (hset_sync R ''radixip:entries'' (sj_net_to_string J n) t s)"
  have ins: "CachedEngine_insert R J N E n m \<lparr>cd_inner = e, cd_cache = c0\<rparr> =
      Some (Inr (), \<lparr>cd_inner = e1, cd_cache = c0\<lparr>rx_redis := Some s1\<rparr>\<rparr>)"
    using e1(1) t by (simp add: CachedEngine_insert_def c0_def s1_def invalidate_def)
  have "lpm_result N (ran (abs e1)) ip (Some m)"
    using assms(4) by (auto simp: e1(3) lpm_result_def best_entry_def)
  then have "answer e1 ip = Some m" using answer_unique [OF e1(2)] by simp
  then obtain e2 where e2: "re_lookup E ip e1 = Some (Some m, e2)" "inv e2" "abs e2 = abs e1"
    using engine_lookup [OF e1(2), of ip] by auto
  obtain s2 where s2: "redis_store_result R J ip (Some m) (Some s1) = Some s2" "rd_get R (lookup_key ip) s2 = Inr (Some t)"
    using store_result [OF t] by blast
  define c2 where "c2 = c0\<lparr>rx_cache := put_bounded first_key (cc_max_entries config) ip (Some m) [], rx_redis := Some s2\<rparr>"
  have "CachedEngine_lookup first_key R J E ip \<lparr>cd_inner = e1, cd_cache = c0\<lparr>rx_redis := Some s1\<rparr>\<rparr> =
      Some (Some m, \<lparr>cd_inner = e2, cd_cache = c2\<rparr>)"
    using lookup_miss [OF _ e2(1), of "c0\<lparr>rx_redis := Some s1\<rparr>" s1] s2(1) by (simp add: c0_def c2_def redis_lookup_def Let_def)
  moreover obtain e3 where e3: "re_remove E n e2 = Some (Some m, e3)" "inv e3" "abs e3 = Map.empty"
    using engine_remove [OF e2(2), of n] e2(3) e1(3) by auto
  define s3 where "s3 = snd (hdel_sync R ''radixip:entries'' (sj_net_to_string J n) s2)"
  have m0: "map_of (rx_cache (invalidate N n c2)) ip = None"
    using assms(4) by (simp add: invalidate_def c2_def map_of_filter_key)
  have "CachedEngine_remove R J N E n \<lparr>cd_inner = e2, cd_cache = c2\<rparr> =
      Some (Some m, \<lparr>cd_inner = e3, cd_cache = invalidate N n c2\<lparr>rx_redis := Some s3\<rparr>\<rparr>)"
    using e3(1) by (simp add: CachedEngine_remove_def c2_def s3_def invalidate_def)
  moreover have "answer e3 ip = None" using answer_None_iff [OF e3(2)] e3(3) by simp
  then obtain e4 where e4: "re_lookup E ip e3 = Some (None, e4)" using engine_lookup [OF e3(2), of ip] by auto
  moreover have "redis_lookup R J ip (Some s3) None = Some m"
    using s2(2) hdel_keeps_lookup by (intro redis_lookup_hit [OF _ t]) (simp add: s3_def)
  then have "\<exists>ce4. CachedEngine_lookup first_key R J E ip \<lparr>cd_inner = e3, cd_cache = invalidate N n c2\<lparr>rx_redis := Some s3\<rparr>\<rparr>
      = Some (Some m, ce4)"
    using lookup_miss [OF _ e4, of "invalidate N n c2\<lparr>rx_redis := Some s3\<rparr>" s3] m0 by (simp add: Let_def)
  ultimately show ?thesis using new ins by force
qed

end

section \<open>The laws for the standard engine\<close>

lemma standard_cached_engine:
  assumes "ipnetwork N" and "picks_key first_key"
  shows "cached_engine (StandardEngine_RadixEngine (UncompressedTree_RouteTree N)) (se_inv (ut_inv N) ut_abs)
    (\<lambda>e. ut_abs (se_tree e)) (\<lambda>e ip. rt_lookup (UncompressedTree_RouteTree N) ip (se_tree e)) N first_key"
  unfolding cached_engine_def cached_engine_axioms_def
  using lpm_tree.standard_lpm_engine [OF UncompressedTree_lpm_tree [OF assms(1)]] assms by blast

lemma picks_hd: "picks_key hd"
  by (simp add: picks_key_def)

interpretation cached_std: cached_redis "StandardEngine_RadixEngine (UncompressedTree_RouteTree cidr_ops)"
  "se_inv (ut_inv cidr_ops) ut_abs" "\<lambda>e. ut_abs (se_tree e)"
  "\<lambda>e ip. rt_lookup (UncompressedTree_RouteTree cidr_ops) ip (se_tree e)" cidr_ops hd kv_server plain_serde
  unfolding cached_redis_def
  by (intro conjI standard_cached_engine cidr.ipnetwork_axioms picks_hd kv.redis_store_axioms plain.serde_codec_axioms)

end
