(* ===== verification/Hybrid.thy ===== *)
theory Hybrid
  imports EngineWrapper Cache
begin

text \<open>
  The split-plane engine (\<open>engine/src/hybrid.rs\<close>) and the constructors of \<open>engine/src/lib.rs\<close>,
  as built with the default feature \<open>redis\<close>. Writes go to the control plane, reads to the data
  plane; with a Redis client the data plane is written only by the handler of the messages
  received from the channel. An \<open>EngineWrapper\<close> clones by cloning an \<open>Arc\<close>, so the handler works
  on the engine's own data plane. A future handed to \<open>spawn\<close> runs later and stands in
  \<open>hy_spawned\<close> until then; a future that is built and dropped never runs.
\<close>

section \<open>State and construction\<close>

record ('n, 'j, 's) HybridEngine =
  hy_control :: "'n EngineWrapper"
  hy_data :: "'n EngineWrapper"
  hy_redis :: "'s option"
  hy_channel :: string
  hy_spawned :: "('n \<times> 'j) list"

fun fmt_redis_error :: "RedisPubSubError \<Rightarrow> string" where
  "fmt_redis_error (RedisErr e) = ''Redis error: '' @ e"
| "fmt_redis_error SendError = ''Channel send error''"
| "fmt_redis_error RecvError = ''Channel receive error''"

fun boot_load_planes ::
  "('n, 'j) serde \<Rightarrow> 'n ipnet_ops \<Rightarrow> Isa \<Rightarrow> (string \<times> string) list \<Rightarrow> ('n, 'j, 's) HybridEngine
     \<Rightarrow> ('n, 'j, 's) HybridEngine option" where
  "boot_load_planes J N isa [] h = Some h"
| "boot_load_planes J N isa ((cidr, meta_json) # entries) h =
     (case (sj_net_from_str J cidr, sj_from_str J meta_json) of
        (Some ipnet, Some meta) \<Rightarrow>
          (case (wrapper_insert N isa ipnet meta (hy_control h), wrapper_insert N isa ipnet meta (hy_data h)) of
             (Some (_, c), Some (_, d)) \<Rightarrow> boot_load_planes J N isa entries (h\<lparr>hy_control := c, hy_data := d\<rparr>)
           | _ \<Rightarrow> None)
      | _ \<Rightarrow> boot_load_planes J N isa entries h)"

text \<open>\<open>server\<close> is the state of the Redis server a configured client connects to.\<close>

definition HybridEngine_new ::
  "'s redis_server \<Rightarrow> ('n, 'j) serde \<Rightarrow> 'n ipnet_ops \<Rightarrow> Isa \<Rightarrow> Host \<Rightarrow> 's \<Rightarrow> RadixConfig
     \<Rightarrow> (string + ('n, 'j, 's) HybridEngine) option" where
  "HybridEngine_new R J N isa host server config =
     (let control_plane = EngineWrapper_new host (cfg_engine_variant config) (cfg_node_variant config)
            (cfg_write_compressed config) (cfg_num_shards config);
          data_plane = EngineWrapper_new host (cfg_engine_variant config) (cfg_node_variant config)
            (cfg_read_compressed config) (cfg_num_shards config);
          engine = (\<lambda>redis. \<lparr>hy_control = control_plane, hy_data = data_plane, hy_redis = redis,
            hy_channel = cfg_redis_channel config, hy_spawned = []\<rparr>)
      in case cfg_redis config of
           None \<Rightarrow> Some (Inr (engine None))
         | Some redis_config \<Rightarrow>
             (case RedisClient_new R redis_config server of
                Inl e \<Rightarrow> Some (Inl (fmt_redis_error e))
              | Inr _ \<Rightarrow>
                  (case hgetall_sync R ''radixip:entries'' server of
                     Inr entries \<Rightarrow> map_option Inr (boot_load_planes J N isa entries (engine (Some server)))
                   | Inl _ \<Rightarrow> Some (Inr (engine (Some server))))))"

section \<open>Synchronisation\<close>

fun apply_update ::
  "('n, 'j) serde \<Rightarrow> 'n ipnet_ops \<Rightarrow> Isa \<Rightarrow> ('n, 'j) RedisCacheUpdate \<Rightarrow> 'n EngineWrapper \<Rightarrow> 'n EngineWrapper option" where
  "apply_update J N isa (UInsert pfx metadata) dp =
     (case sj_from_value J metadata of
        Some meta \<Rightarrow> map_option snd (wrapper_insert N isa pfx meta dp)
      | None \<Rightarrow> Some dp)"
| "apply_update J N isa (URemove pfx) dp = map_option snd (wrapper_remove N isa pfx dp)"
| "apply_update J N isa UClear dp = wrapper_clear N dp"

text \<open>What the task of \<open>start_sync\<close> does with the messages the server delivers to it.\<close>

definition start_sync ::
  "'s redis_server \<Rightarrow> ('n, 'j) serde \<Rightarrow> 'n ipnet_ops \<Rightarrow> Isa \<Rightarrow> StreamEvent list \<Rightarrow> ('n, 'j, 's) HybridEngine \<Rightarrow> ('n, 'j, 's) HybridEngine option" where
  "start_sync R J N isa events h =
     (case hy_redis h of
        Some s \<Rightarrow>
          map_option (\<lambda>dp. h\<lparr>hy_data := dp\<rparr>)
            (snd (subscribe_engine_updates R J (hy_channel h)
               (\<lambda>update dp. Option.bind dp (apply_update J N isa update)) events s (Some (hy_data h))))
      | None \<Rightarrow> Some h)"

text \<open>A spawned publication runs; its result is ignored.\<close>

definition run_spawned ::
  "'s redis_server \<Rightarrow> ('n, 'j) serde \<Rightarrow> ('n, 'j, 's) HybridEngine \<Rightarrow> ('n, 'j, 's) HybridEngine" where
  "run_spawned R J h =
     (case (hy_spawned h, hy_redis h) of
        ((pfx, meta_value) # rest, Some s) \<Rightarrow>
          h\<lparr>hy_spawned := rest, hy_redis := Some (snd (publish_insert R J (hy_channel h) pfx meta_value s))\<rparr>
      | _ \<Rightarrow> h)"

section \<open>Engine operations\<close>

text \<open>\<open>Handle::current\<close> panics outside a runtime (\<open>in_runtime\<close>). The futures of \<open>publish_json\<close>
  are dropped where they are made.\<close>

definition hybrid_insert ::
  "'s redis_server \<Rightarrow> ('n, 'j) serde \<Rightarrow> 'n ipnet_ops \<Rightarrow> Isa \<Rightarrow> bool \<Rightarrow> 'n \<Rightarrow> Metadata
     \<Rightarrow> ('n, 'j, 's) HybridEngine \<Rightarrow> ((string + unit) \<times> ('n, 'j, 's) HybridEngine) option" where
  "hybrid_insert R J N isa in_runtime pfx metadata h =
     (case wrapper_insert N isa pfx metadata (hy_control h) of
        None \<Rightarrow> None
      | Some (Inl e, c) \<Rightarrow> Some (Inl e, h\<lparr>hy_control := c\<rparr>)
      | Some (Inr _, c) \<Rightarrow>
          (case hy_redis h of
             Some s \<Rightarrow>
               (let s = (case sj_to_string J metadata of
                     Some json_data \<Rightarrow> snd (hset_sync R ''radixip:entries'' (sj_net_to_string J pfx) json_data s)
                   | None \<Rightarrow> s);
                    h = h\<lparr>hy_control := c, hy_redis := Some s\<rparr>
                in case sj_to_value J metadata of
                     Some meta_value \<Rightarrow>
                       (if in_runtime then Some (Inr (), h\<lparr>hy_spawned := hy_spawned h @ [(pfx, meta_value)]\<rparr>) else None)
                   | None \<Rightarrow> Some (Inr (), h))
           | None \<Rightarrow>
               (case wrapper_insert N isa pfx metadata (hy_data h) of
                  None \<Rightarrow> None
                | Some (_, d) \<Rightarrow> Some (Inr (), h\<lparr>hy_control := c, hy_data := d\<rparr>))))"

definition hybrid_lookup ::
  "'n ipnet_ops \<Rightarrow> Isa \<Rightarrow> IpAddr \<Rightarrow> ('n, 'j, 's) HybridEngine \<Rightarrow> (Metadata option \<times> ('n, 'j, 's) HybridEngine) option" where
  "hybrid_lookup N isa ip h = map_option (\<lambda>(r, d). (r, h\<lparr>hy_data := d\<rparr>)) (wrapper_lookup N isa ip (hy_data h))"

definition hybrid_remove ::
  "'s redis_server \<Rightarrow> ('n, 'j) serde \<Rightarrow> 'n ipnet_ops \<Rightarrow> Isa \<Rightarrow> 'n
     \<Rightarrow> ('n, 'j, 's) HybridEngine \<Rightarrow> (Metadata option \<times> ('n, 'j, 's) HybridEngine) option" where
  "hybrid_remove R J N isa pfx h =
     (case wrapper_remove N isa pfx (hy_control h) of
        None \<Rightarrow> None
      | Some (result, c) \<Rightarrow>
          (case hy_redis h of
             Some s \<Rightarrow>
               Some (result, h\<lparr>hy_control := c,
                 hy_redis := Some (snd (hdel_sync R ''radixip:entries'' (sj_net_to_string J pfx) s))\<rparr>)
           | None \<Rightarrow>
               (case wrapper_remove N isa pfx (hy_data h) of
                  None \<Rightarrow> None
                | Some (_, d) \<Rightarrow> Some (result, h\<lparr>hy_control := c, hy_data := d\<rparr>))))"

definition hybrid_contains :: "'n ipnet_ops \<Rightarrow> Isa \<Rightarrow> 'n \<Rightarrow> ('n, 'j, 's) HybridEngine \<Rightarrow> bool" where
  "hybrid_contains N isa pfx h = wrapper_contains N isa pfx (hy_data h)"

definition hybrid_clear :: "'n ipnet_ops \<Rightarrow> ('n, 'j, 's) HybridEngine \<Rightarrow> ('n, 'j, 's) HybridEngine option" where
  "hybrid_clear N h =
     (case wrapper_clear N (hy_control h) of
        None \<Rightarrow> None
      | Some c \<Rightarrow>
          (case hy_redis h of
             Some _ \<Rightarrow> Some (h\<lparr>hy_control := c\<rparr>)
           | None \<Rightarrow> map_option (\<lambda>d. h\<lparr>hy_control := c, hy_data := d\<rparr>) (wrapper_clear N (hy_data h))))"

definition hybrid_size :: "('n, 'j, 's) HybridEngine \<Rightarrow> usize" where
  "hybrid_size h = wrapper_size (hy_data h)"

definition hybrid_stats :: "('n, 'j, 's) HybridEngine \<Rightarrow> EngineStats" where
  "hybrid_stats h = wrapper_stats (hy_data h)"

definition hybrid_RadixEngine ::
  "'s redis_server \<Rightarrow> ('n, 'j) serde \<Rightarrow> 'n ipnet_ops \<Rightarrow> Isa \<Rightarrow> bool \<Rightarrow> (('n, 'j, 's) HybridEngine, 'n) RadixEngine" where
  "hybrid_RadixEngine R J N isa in_runtime = \<lparr>
     re_insert = hybrid_insert R J N isa in_runtime,
     re_lookup = hybrid_lookup N isa,
     re_remove = hybrid_remove R J N isa,
     re_contains = hybrid_contains N isa,
     re_clear = hybrid_clear N,
     re_size = hybrid_size,
     re_stats = hybrid_stats\<rparr>"

section \<open>The engine of a configuration\<close>

text \<open>The boxed engine that \<open>new\<close> of \<open>lib.rs\<close> returns; \<open>None\<close> is the panic of an \<open>expect\<close>.\<close>

datatype ('n, 'j, 's) BoxedEngine =
    BoxHybrid "('n, 'j, 's) HybridEngine"
  | BoxCached "('n EngineWrapper, 's) CachedEngine"
  | BoxWrapper "'n EngineWrapper"

definition radixip_new ::
  "'s redis_server \<Rightarrow> ('n, 'j) serde \<Rightarrow> 'n ipnet_ops \<Rightarrow> Isa \<Rightarrow> Host \<Rightarrow> 's \<Rightarrow> RadixConfig
     \<Rightarrow> ('n, 'j, 's) BoxedEngine option" where
  "radixip_new R J N isa host server config =
     (if cfg_enable_split_plane config then
        (case HybridEngine_new R J N isa host server config of
           Some (Inr h) \<Rightarrow> Some (BoxHybrid h)
         | _ \<Rightarrow> None)
      else
        (let engine = EngineWrapper_new host (cfg_engine_variant config) (cfg_node_variant config)
               (cfg_read_compressed config) (cfg_num_shards config)
         in if cfg_cache_enabled config then
              (let cache_config = \<lparr>cc_max_entries = cfg_cache_max_entries config,
                     cc_ttl_seconds = cfg_cache_ttl_seconds config\<rparr>
               in case cfg_redis config of
                    Some redis_config \<Rightarrow>
                      (case RedisClient_new R redis_config server of
                         Inr _ \<Rightarrow> map_option BoxCached
                           (CachedEngine_new R J (wrapper_RadixEngine N isa) cache_config (Some server) engine)
                       | Inl _ \<Rightarrow> None)
                  | None \<Rightarrow> map_option BoxCached
                      (CachedEngine_new R J (wrapper_RadixEngine N isa) cache_config None engine))
            else Some (BoxWrapper engine)))"

definition new_high_performance ::
  "'s redis_server \<Rightarrow> ('n, 'j) serde \<Rightarrow> 'n ipnet_ops \<Rightarrow> Isa \<Rightarrow> Host \<Rightarrow> 's \<Rightarrow> ('n, 'j, 's) BoxedEngine option" where
  "new_high_performance R J N isa host server = radixip_new R J N isa host server high_performance"

definition new_memory_efficient ::
  "'s redis_server \<Rightarrow> ('n, 'j) serde \<Rightarrow> 'n ipnet_ops \<Rightarrow> Isa \<Rightarrow> Host \<Rightarrow> 's \<Rightarrow> ('n, 'j, 's) BoxedEngine option" where
  "new_memory_efficient R J N isa host server = radixip_new R J N isa host server memory_efficient"

definition new_balanced ::
  "'s redis_server \<Rightarrow> ('n, 'j) serde \<Rightarrow> 'n ipnet_ops \<Rightarrow> Isa \<Rightarrow> Host \<Rightarrow> 's \<Rightarrow> ('n, 'j, 's) BoxedEngine option" where
  "new_balanced R J N isa host server = radixip_new R J N isa host server balanced"

text \<open>The calls through the box.\<close>

definition boxed :: "('h \<Rightarrow> 'b) \<Rightarrow> ('r \<times> 'h) option \<Rightarrow> ('r \<times> 'b) option" where
  "boxed box r = map_option (map_prod id box) r"

definition box_RadixEngine ::
  "(IpAddr list \<Rightarrow> IpAddr) \<Rightarrow> 's redis_server \<Rightarrow> ('n, 'j) serde \<Rightarrow> 'n ipnet_ops \<Rightarrow> Isa \<Rightarrow> bool
     \<Rightarrow> (('n, 'j, 's) BoxedEngine, 'n) RadixEngine" where
  "box_RadixEngine first_key R J N isa in_runtime =
     (let H = hybrid_RadixEngine R J N isa in_runtime;
          W = wrapper_RadixEngine N isa;
          C = CachedEngine_RadixEngine first_key R J N W
      in \<lparr>re_insert = (\<lambda>n m b. case b of
             BoxHybrid h \<Rightarrow> boxed BoxHybrid (re_insert H n m h)
           | BoxCached c \<Rightarrow> boxed BoxCached (re_insert C n m c)
           | BoxWrapper w \<Rightarrow> boxed BoxWrapper (re_insert W n m w)),
          re_lookup = (\<lambda>ip b. case b of
             BoxHybrid h \<Rightarrow> boxed BoxHybrid (re_lookup H ip h)
           | BoxCached c \<Rightarrow> boxed BoxCached (re_lookup C ip c)
           | BoxWrapper w \<Rightarrow> boxed BoxWrapper (re_lookup W ip w)),
          re_remove = (\<lambda>n b. case b of
             BoxHybrid h \<Rightarrow> boxed BoxHybrid (re_remove H n h)
           | BoxCached c \<Rightarrow> boxed BoxCached (re_remove C n c)
           | BoxWrapper w \<Rightarrow> boxed BoxWrapper (re_remove W n w)),
          re_contains = (\<lambda>n b. case b of
             BoxHybrid h \<Rightarrow> re_contains H n h | BoxCached c \<Rightarrow> re_contains C n c | BoxWrapper w \<Rightarrow> re_contains W n w),
          re_clear = (\<lambda>b. case b of
             BoxHybrid h \<Rightarrow> map_option BoxHybrid (re_clear H h)
           | BoxCached c \<Rightarrow> map_option BoxCached (re_clear C c)
           | BoxWrapper w \<Rightarrow> map_option BoxWrapper (re_clear W w)),
          re_size = (\<lambda>b. case b of BoxHybrid h \<Rightarrow> re_size H h | BoxCached c \<Rightarrow> re_size C c | BoxWrapper w \<Rightarrow> re_size W w),
          re_stats = (\<lambda>b. case b of BoxHybrid h \<Rightarrow> re_stats H h | BoxCached c \<Rightarrow> re_stats C c | BoxWrapper w \<Rightarrow> re_stats W w)\<rparr>)"

section \<open>Without Redis the planes agree\<close>

definition hybrid_inv :: "'n ipnet_ops \<Rightarrow> ('n, 'j, 's) HybridEngine \<Rightarrow> bool" where
  "hybrid_inv N h \<longleftrightarrow> hy_redis h = None \<and> wrapper_inv N (hy_control h) \<and> wrapper_inv N (hy_data h)
     \<and> wrapper_abs (hy_control h) = wrapper_abs (hy_data h)"

lemma hybrid_lpm_engine:
  assumes "ipnetwork N"
  shows "lpm_engine (hybrid_RadixEngine R J N isa in_runtime) (hybrid_inv N) (\<lambda>h. wrapper_abs (hy_data h)) (net_bits N)
    (\<lambda>h. wrapper_answer N (hy_data h)) N"
proof -
  note lpm = wrapper_lpm_engine [OF assms, of isa]
  note eng = lpm_engine.axioms(1) [OF lpm]
  note laws = radix_engine.engine_insert [OF eng] radix_engine.engine_lookup [OF eng] radix_engine.engine_remove [OF eng]
  note unfold = hybrid_RadixEngine_def hybrid_insert_def hybrid_lookup_def hybrid_remove_def hybrid_contains_def hybrid_size_def
    hybrid_inv_def wrapper_RadixEngine_def
  show ?thesis
  proof unfold_locales
    fix h :: "('a, 'b, 'c) HybridEngine" and n :: 'a and m ip k
    assume "hybrid_inv N h"
    then have h: "hy_redis h = None" "wrapper_inv N (hy_control h)" "wrapper_inv N (hy_data h)"
      "wrapper_abs (hy_control h) = wrapper_abs (hy_data h)"
      by (simp_all add: hybrid_inv_def)
    show "\<exists>h'. re_insert (hybrid_RadixEngine R J N isa in_runtime) n m h = Some (Inr (), h') \<and> hybrid_inv N h'
        \<and> wrapper_abs (hy_data h') = (wrapper_abs (hy_data h))(net_bits N n \<mapsto> (n, m))"
      using laws(1) [OF h(2), of n m] laws(1) [OF h(3), of n m] h by (auto simp: unfold)
    show "\<exists>h'. re_lookup (hybrid_RadixEngine R J N isa in_runtime) ip h = Some (wrapper_answer N (hy_data h) ip, h')
        \<and> hybrid_inv N h' \<and> wrapper_abs (hy_data h') = wrapper_abs (hy_data h)
        \<and> wrapper_answer N (hy_data h') = wrapper_answer N (hy_data h)"
      using laws(2) [OF h(3), of ip] h by (auto simp: unfold)
    show "\<exists>h'. re_remove (hybrid_RadixEngine R J N isa in_runtime) n h =
          Some (map_option snd (wrapper_abs (hy_data h) (net_bits N n)), h') \<and> hybrid_inv N h'
        \<and> wrapper_abs (hy_data h') = (wrapper_abs (hy_data h))(net_bits N n := None)"
      using laws(3) [OF h(2), of n] laws(3) [OF h(3), of n] h by (auto simp: unfold)
    show "re_contains (hybrid_RadixEngine R J N isa in_runtime) n h \<longleftrightarrow> wrapper_abs (hy_data h) (net_bits N n) \<noteq> None"
      using radix_engine.engine_contains [OF eng h(3)] by (simp add: unfold)
    show "re_size (hybrid_RadixEngine R J N isa in_runtime) h = of_nat (card (dom (wrapper_abs (hy_data h))))"
      using radix_engine.engine_size [OF eng h(3)] by (simp add: unfold)
    show "lpm_result N (ran (wrapper_abs (hy_data h))) ip (wrapper_answer N (hy_data h) ip)"
      by (rule lpm_engine.engine_lpm [OF lpm h(3)])
    show "net_bits N n = k" if "wrapper_abs (hy_data h) k = Some (n, m)"
      by (rule lpm_engine.engine_filed [OF lpm h(3) that])
  qed
qed

interpretation split: lpm_engine "hybrid_RadixEngine kv_server plain_serde cidr_ops isa in_runtime" "hybrid_inv cidr_ops"
  "\<lambda>h. wrapper_abs (hy_data h)" "net_bits cidr_ops" "\<lambda>h. wrapper_answer cidr_ops (hy_data h)" cidr_ops
  for isa in_runtime
  by (rule hybrid_lpm_engine [OF cidr.ipnetwork_axioms])

section \<open>Runs through the box\<close>

lemma engine_ops_map:
  assumes "\<And>x e. engine_op E' x (f e) = map_option f (engine_op E x e)"
  shows "engine_ops E' xs (f e) = map_option f (engine_ops E xs e)"
proof (induction xs arbitrary: e)
  case (Cons x xs)
  then show ?case by (cases "engine_op E x e") (simp_all add: assms)
qed simp

lemma box_ops:
  "engine_ops (box_RadixEngine fk R J N isa rt) xs (BoxHybrid h) =
     map_option BoxHybrid (engine_ops (hybrid_RadixEngine R J N isa rt) xs h)"
  "engine_ops (box_RadixEngine fk R J N isa rt) xs (BoxCached c) =
     map_option BoxCached (engine_ops (CachedEngine_RadixEngine fk R J N (wrapper_RadixEngine N isa)) xs c)"
  "engine_ops (box_RadixEngine fk R J N isa rt) xs (BoxWrapper w) =
     map_option BoxWrapper (engine_ops (wrapper_RadixEngine N isa) xs w)"
  by (rule engine_ops_map; case_tac x; simp add: box_RadixEngine_def boxed_def Let_def option.map_comp comp_def)+

lemma box_lookup:
  "re_lookup (box_RadixEngine fk R J N isa rt) ip (BoxHybrid h) = boxed BoxHybrid (hybrid_lookup N isa ip h)"
  "re_lookup (box_RadixEngine fk R J N isa rt) ip (BoxCached c) =
     boxed BoxCached (CachedEngine_lookup fk R J (wrapper_RadixEngine N isa) ip c)"
  "re_lookup (box_RadixEngine fk R J N isa rt) ip (BoxWrapper w) = boxed BoxWrapper (wrapper_lookup N isa ip w)"
  by (simp_all add: box_RadixEngine_def Let_def hybrid_RadixEngine_def CachedEngine_RadixEngine_def wrapper_RadixEngine_def)

context lpm_engine
begin

lemma engine_run_lookup:
  assumes "inv e"
  shows "\<exists>e' r e''. engine_ops E xs e = Some e' \<and> re_lookup E ip e' = Some (r, e'')
    \<and> lpm_result N (ran (table_engine_ops key xs (abs e))) ip r"
proof -
  obtain e' where e': "engine_ops E xs e = Some e'" "inv e'" "abs e' = table_engine_ops key xs (abs e)"
    using engine_ops_refines [OF assms] by blast
  then show ?thesis using engine_lookup [OF e'(2), of ip] engine_lpm [OF e'(2), of ip] by force
qed

lemma answer_single:
  assumes "inv e" and "abs e = [k \<mapsto> (n, m)]" and "network_contains_ip N n ip"
  shows "answer e ip = Some m"
proof (cases "answer e ip")
  case None
  then show ?thesis using answer_None_iff [OF assms(1), of ip] assms(2,3) by auto
next
  case (Some m')
  then show ?thesis using engine_lpm [OF assms(1), of ip] assms(2) by (auto simp: lpm_result_def best_entry_def)
qed

end

lemma wrapper_cached_engine:
  assumes "ipnetwork N" and "picks_key first_key"
  shows "cached_engine (wrapper_RadixEngine N isa) (wrapper_inv N) wrapper_abs (wrapper_answer N) N first_key"
  unfolding cached_engine_def cached_engine_axioms_def using wrapper_lpm_engine [OF assms(1)] assms by blast

lemma radixip_new_run:
  fixes N :: "'n ipnet_ops" and R :: "'s redis_server" and J :: "('n, 'j) serde"
  assumes "ipnetwork N" and "picks_key first_key" and "cfg_redis cfg = None" and "cfg_engine_variant cfg \<noteq> ART"
    and "\<not> cfg_read_compressed cfg" and "\<not> cfg_write_compressed cfg"
    and "cfg_enable_split_plane cfg \<or> \<not> cfg_cache_enabled cfg \<or> families_apart N xs"
  shows "\<exists>b b' r b''. radixip_new R J N isa host server cfg = Some b
    \<and> engine_ops (box_RadixEngine first_key R J N isa rt) xs b = Some b'
    \<and> re_lookup (box_RadixEngine first_key R J N isa rt) ip b' = Some (r, b'')
    \<and> lpm_result N (ran (table_engine_ops (net_bits N) xs Map.empty)) ip r"
proof -
  note new = wrapper_new_inv [OF assms(4), of N host "cfg_node_variant cfg" "cfg_num_shards cfg"]
  note wlpm = wrapper_lpm_engine [OF assms(1), of isa]
  define w where "w = (EngineWrapper_new host (cfg_engine_variant cfg) (cfg_node_variant cfg) False (cfg_num_shards cfg) :: 'n EngineWrapper)"
  have w: "wrapper_inv N w" "wrapper_abs w = Map.empty" using new by (simp_all add: w_def)
  consider (split) "cfg_enable_split_plane cfg" | (cached) "\<not> cfg_enable_split_plane cfg" "cfg_cache_enabled cfg"
    | (plain) "\<not> cfg_enable_split_plane cfg" "\<not> cfg_cache_enabled cfg" by blast
  then show ?thesis
  proof cases
    case split
    let ?h = "\<lparr>hy_control = w, hy_data = w, hy_redis = None, hy_channel = cfg_redis_channel cfg, hy_spawned = []\<rparr> :: ('n, 'j, 's) HybridEngine"
    have "radixip_new R J N isa host server cfg = Some (BoxHybrid ?h)"
      using split assms(3,5,6) by (simp add: radixip_new_def HybridEngine_new_def w_def Let_def)
    moreover have "hybrid_inv N ?h" using w by (simp add: hybrid_inv_def)
    from lpm_engine.engine_run_lookup [OF hybrid_lpm_engine [OF assms(1)] this, of R J isa rt xs ip]
    have "\<exists>h' r h''. engine_ops (hybrid_RadixEngine R J N isa rt) xs ?h = Some h' \<and> hybrid_lookup N isa ip h' = Some (r, h'')
        \<and> lpm_result N (ran (table_engine_ops (net_bits N) xs Map.empty)) ip r"
      using w(2) by (simp add: hybrid_RadixEngine_def)
    ultimately show ?thesis by (fastforce simp: box_ops box_lookup boxed_def)
  next
    case cached
    let ?cc = "\<lparr>cc_max_entries = cfg_cache_max_entries cfg, cc_ttl_seconds = cfg_cache_ttl_seconds cfg\<rparr>"
    obtain fam where "list_all (op_family N fam) xs" using cached assms(7) by (auto elim: families_apart_family)
    from cached_engine.cached_run [OF wrapper_cached_engine [OF assms(1,2)] w this, of R J isa ?cc ip]
    obtain c c' r c'' where c: "CachedEngine_new R J (wrapper_RadixEngine N isa) ?cc None w = Some c"
      "engine_ops (CachedEngine_RadixEngine first_key R J N (wrapper_RadixEngine N isa)) xs c = Some c'"
      "CachedEngine_lookup first_key R J (wrapper_RadixEngine N isa) ip c' = Some (r, c'')"
      "lpm_result N (ran (table_engine_ops (net_bits N) xs Map.empty)) ip r" by blast
    have "radixip_new R J N isa host server cfg = Some (BoxCached c)"
      using cached assms(3,5) c(1) by (simp add: radixip_new_def w_def Let_def)
    then show ?thesis using c(2-4) by (fastforce simp: box_ops box_lookup boxed_def)
  next
    case plain
    have "radixip_new R J N isa host server cfg = Some (BoxWrapper w)"
      using plain assms(5) by (simp add: radixip_new_def w_def Let_def)
    moreover have "\<exists>w' r w''. engine_ops (wrapper_RadixEngine N isa) xs w = Some w' \<and> wrapper_lookup N isa ip w' = Some (r, w'')
        \<and> lpm_result N (ran (table_engine_ops (net_bits N) xs Map.empty)) ip r"
      using lpm_engine.engine_run_lookup [OF wlpm w(1), of xs ip] w(2) by (simp add: wrapper_RadixEngine_def)
    ultimately show ?thesis by (fastforce simp: box_ops box_lookup boxed_def)
  qed
qed

lemma radixip_new_stale:
  fixes N :: "'n ipnet_ops" and R :: "'s redis_server" and J :: "('n, 'j) serde"
  assumes "ipnetwork N" and "picks_key first_key" and "cfg_redis cfg = None" and "cfg_engine_variant cfg \<noteq> ART"
    and "\<not> cfg_read_compressed cfg" and "\<not> cfg_enable_split_plane cfg" and "cfg_cache_enabled cfg"
    and "net_bits N n' = net_bits N n" and "net_v4 N n' \<noteq> net_v4 N n" and "network_contains_ip N n ip"
  shows "\<exists>b b' b''. radixip_new R J N isa host server cfg = Some b
    \<and> engine_ops (box_RadixEngine first_key R J N isa rt) [EInsert n m, ELookup ip, EInsert n' m'] b = Some b'
    \<and> re_lookup (box_RadixEngine first_key R J N isa rt) ip b' = Some (Some m, b'')
    \<and> lpm_result N (ran (table_engine_ops (net_bits N) [EInsert n m, ELookup ip, EInsert n' m'] Map.empty)) ip None"
proof -
  define w where "w = (EngineWrapper_new host (cfg_engine_variant cfg) (cfg_node_variant cfg) False (cfg_num_shards cfg) :: 'n EngineWrapper)"
  have w: "wrapper_inv N w" "wrapper_abs w = Map.empty" using wrapper_new_inv [OF assms(4), of N] by (simp_all add: w_def)
  let ?cc = "\<lparr>cc_max_entries = cfg_cache_max_entries cfg, cc_ttl_seconds = cfg_cache_ttl_seconds cfg\<rparr>"
  obtain c c' c'' where c: "CachedEngine_new R J (wrapper_RadixEngine N isa) ?cc None w = Some c"
    "engine_ops (CachedEngine_RadixEngine first_key R J N (wrapper_RadixEngine N isa)) [EInsert n m, ELookup ip, EInsert n' m'] c = Some c'"
    "CachedEngine_lookup first_key R J (wrapper_RadixEngine N isa) ip c' = Some (Some m, c'')"
    "lpm_result N (ran (table_engine_ops (net_bits N) [EInsert n m, ELookup ip, EInsert n' m'] Map.empty)) ip None"
    using cached_engine.cached_family_stale [OF wrapper_cached_engine [OF assms(1,2)] w assms(8-10), of R J isa ?cc m m'] by blast
  have "radixip_new R J N isa host server cfg = Some (BoxCached c)"
    using assms(3,5-7) c(1) by (simp add: radixip_new_def w_def Let_def)
  then show ?thesis using c(2-4) by (fastforce simp del: engine_ops.simps simp: box_ops box_lookup boxed_def)
qed

section \<open>With Redis removals do not reach the data plane\<close>

lemma hybrid_remove_not_synced:
  fixes N :: "'n ipnet_ops" and R :: "'s redis_server" and J :: "('n, 'j) serde"
  assumes "ipnetwork N" and "redis_store R" and "serde_codec J"
    and "cfg_redis cfg = Some rc" and "rd_open R (rc_url rc) = Inr ()" and "rd_hgetall R ''radixip:entries'' server = Inr []"
    and "cfg_engine_variant cfg \<noteq> ART" and "\<not> cfg_read_compressed cfg" and "\<not> cfg_write_compressed cfg"
    and v: "sj_to_value J m = Some v" and t: "sj_update_to_string J (UInsert n v) = Some t"
    and "network_contains_ip N n ip"
  shows "\<exists>h0 h1 h2 h3 h4 h5 h6 c. HybridEngine_new R J N isa host server cfg = Some (Inr h0)
    \<and> hybrid_insert R J N isa True n m h0 = Some (Inr (), h1)
    \<and> hybrid_lookup N isa ip h1 = Some (None, h2)
    \<and> start_sync R J N isa [Delivery (hy_channel h2) (Some t)] (run_spawned R J h2) = Some h3
    \<and> hybrid_lookup N isa ip h3 = Some (Some m, h4)
    \<and> hybrid_remove R J N isa n h4 = Some (Some m, h5)
    \<and> hy_spawned h5 = [] \<and> wrapper_lookup N isa ip (hy_control h5) = Some (None, c)
    \<and> hybrid_lookup N isa ip h5 = Some (Some m, h6)"
proof -
  note lpm = wrapper_lpm_engine [OF assms(1), of isa]
  note eng = lpm_engine.axioms(1) [OF lpm]
  note ins = radix_engine.engine_insert [OF eng, simplified wrapper_RadixEngine_def, simplified]
  note look = radix_engine.engine_lookup [OF eng, simplified wrapper_RadixEngine_def, simplified]
  note rem = radix_engine.engine_remove [OF eng, simplified wrapper_RadixEngine_def, simplified]
  define w where "w = (EngineWrapper_new host (cfg_engine_variant cfg) (cfg_node_variant cfg) False (cfg_num_shards cfg) :: 'n EngineWrapper)"
  have w: "wrapper_inv N w" "wrapper_abs w = Map.empty" using wrapper_new_inv [OF assms(7), of N] by (simp_all add: w_def)
  have none: "wrapper_answer N u ip = None" if "wrapper_inv N u" "wrapper_abs u = Map.empty" for u
    using lpm_engine.answer_None_iff [OF lpm that(1)] that(2) by simp
  let ?h0 = "\<lparr>hy_control = w, hy_data = w, hy_redis = Some server, hy_channel = cfg_redis_channel cfg, hy_spawned = []\<rparr> :: ('n, 'j, 's) HybridEngine"
  have h0: "HybridEngine_new R J N isa host server cfg = Some (Inr ?h0)"
    using assms(4-6,8,9) redis_store.connect [OF assms(2)]
    by (simp add: HybridEngine_new_def w_def RedisClient_new_def hgetall_sync_def get_sync_connection_def redis_err_def Let_def)
  obtain c1 where c1: "wrapper_insert N isa n m w = Some (Inr (), c1)" "wrapper_inv N c1" "wrapper_abs c1 = [net_bits N n \<mapsto> (n, m)]"
    using ins [OF w(1), of n m] w(2) by auto
  obtain s1 where h1: "hybrid_insert R J N isa True n m ?h0 =
      Some (Inr (), ?h0\<lparr>hy_control := c1, hy_redis := Some s1, hy_spawned := [(n, v)]\<rparr>)"
    using c1(1) v by (simp add: hybrid_insert_def Let_def)
  let ?h1 = "?h0\<lparr>hy_control := c1, hy_redis := Some s1, hy_spawned := [(n, v)]\<rparr>"
  obtain d1 where d1: "wrapper_lookup N isa ip w = Some (None, d1)" "wrapper_inv N d1" "wrapper_abs d1 = Map.empty"
    using look [OF w(1), of ip] none [OF w] w(2) by auto
  have h2: "hybrid_lookup N isa ip ?h1 = Some (None, ?h1\<lparr>hy_data := d1\<rparr>)" using d1(1) by (simp add: hybrid_lookup_def)
  obtain d2 where d2: "wrapper_insert N isa n m d1 = Some (Inr (), d2)" "wrapper_inv N d2" "wrapper_abs d2 = [net_bits N n \<mapsto> (n, m)]"
    using ins [OF d1(2), of n m] d1(3) by auto
  define s2 where "s2 = snd (publish_insert R J (cfg_redis_channel cfg) n v s1)"
  let ?h3 = "?h0\<lparr>hy_control := c1, hy_data := d2, hy_redis := Some s2\<rparr>"
  have h3: "start_sync R J N isa [Delivery (cfg_redis_channel cfg) (Some t)] (run_spawned R J (?h1\<lparr>hy_data := d1\<rparr>)) = Some ?h3"
    using redis_store.connect [OF assms(2)] redis_store.subscribe_ok [OF assms(2)] serde_codec.update_round_trip [OF assms(3) t] serde_codec.from_to_value [OF assms(3) v] d2(1)
    by (simp add: start_sync_def run_spawned_def subscribe_engine_updates_def subscribe_def get_async_pubsub_def redis_err_def decode_update_def pubsub_msg_def s2_def)
  have some: "wrapper_answer N u ip = Some m" if "wrapper_inv N u" "wrapper_abs u = [net_bits N n \<mapsto> (n, m)]" for u
    by (rule lpm_engine.answer_single [OF lpm that assms(12)])
  obtain d3 where d3: "wrapper_lookup N isa ip d2 = Some (Some m, d3)" "wrapper_inv N d3" "wrapper_abs d3 = wrapper_abs d2"
    using look [OF d2(2), of ip] some [OF d2(2,3)] by auto
  have h4: "hybrid_lookup N isa ip ?h3 = Some (Some m, ?h3\<lparr>hy_data := d3\<rparr>)" using d3(1) by (simp add: hybrid_lookup_def)
  obtain c2 where c2: "wrapper_remove N isa n c1 = Some (Some m, c2)" "wrapper_inv N c2" "wrapper_abs c2 = Map.empty"
    using rem [OF c1(2), of n] c1(3) by auto
  obtain c3 where c3: "wrapper_lookup N isa ip c2 = Some (None, c3)" using look [OF c2(2), of ip] none [OF c2(2,3)] by auto
  obtain d4 where d4: "wrapper_lookup N isa ip d3 = Some (Some m, d4)"
    using look [OF d3(2), of ip] some [OF d3(2)] d3(3) d2(3) by auto
  obtain s3 where h5: "hybrid_remove R J N isa n (?h3\<lparr>hy_data := d3\<rparr>) =
      Some (Some m, ?h3\<lparr>hy_data := d3, hy_control := c2, hy_redis := Some s3\<rparr>)"
    using c2(1) by (simp add: hybrid_remove_def)
  have h6: "hybrid_lookup N isa ip (?h3\<lparr>hy_data := d3, hy_control := c2, hy_redis := Some s3\<rparr>) =
      Some (Some m, ?h3\<lparr>hy_data := d4, hy_control := c2, hy_redis := Some s3\<rparr>)"
    using d4 by (simp add: hybrid_lookup_def)
  show ?thesis
    by (rule exI [of _ ?h0], rule exI [of _ ?h1], rule exI [of _ "?h1\<lparr>hy_data := d1\<rparr>"], rule exI [of _ ?h3],
        rule exI [of _ "?h3\<lparr>hy_data := d3\<rparr>"],
        rule exI [of _ "?h3\<lparr>hy_data := d3, hy_control := c2, hy_redis := Some s3\<rparr>"],
        rule exI [of _ "?h3\<lparr>hy_data := d4, hy_control := c2, hy_redis := Some s3\<rparr>"], rule exI [of _ c3])
      (use h0 h1 h2 h3 h4 h5 h6 c3 in simp)
qed

end
