(* ===== verification/Routeless.thy ===== *)
theory Routeless
  imports WatchedRun Hybrid
begin

text \<open>
  Policies over an engine that holds no routes, which is what the gRPC server and the policy handles of
  the language bindings build. Such an engine answers every lookup with \<open>None\<close>, so the blocklist never
  matches and the limiter keys every request by its address.
\<close>

section \<open>What an engine without routes gives a policy\<close>

locale routeless =
  fixes X :: "('n, 'e, 'c, 'v, 'b) policy_env" and no_routes :: "'e \<Rightarrow> bool"
  assumes lookup_none: "no_routes e \<Longrightarrow> \<exists>e'. re_lookup (env_engine X) ip e = Some (None, e') \<and> no_routes e'"
begin

lemma routeless_key:
  "no_routes e \<Longrightarrow> \<exists>e'. ip_to_key (env_net X) (env_engine X) ip mode (Some e) = Some (Exact ip, Some e') \<and> no_routes e'"
  using lookup_none [of e ip] by (cases mode) (auto simp: ip_to_key_def)

lemma routeless_ask:
  assumes "no_routes e"
  shows "\<exists>ok l' e'. ask_limiter X clk ip l e = Some (ok, l', e') \<and> no_routes e' \<and> lm_config l' = lm_config l"
proof (cases "rl_bucket_mode (lm_config l)")
  case Ip
  with routeless_key [OF assms, of ip Ip] show ?thesis by (auto simp: ask_limiter_def limiter_allow_def case_prod_unfold Let_def)
next
  case (Subnet a b)
  with routeless_key [OF assms, of ip "Subnet a b"] show ?thesis by (auto simp: ask_limiter_def limiter_allow_def case_prod_unfold Let_def)
next
  case (Both a b)
  with routeless_key [OF assms, of ip "Subnet a b"] show ?thesis
    by (cases "fst (consume (env_cache X) (clk 0) (clk 1) (Exact ip) l)")
       (auto simp: ask_limiter_def limiter_allow_def case_prod_unfold Let_def)
qed

lemma routeless_watched_blocked:
  assumes "no_routes e"
  shows "\<exists>e'. watched_blocked X ip st e = Some (False, e') \<and> no_routes e'"
  using lookup_none [OF assms, of ip] assms by (auto simp: watched_blocked_def)

text \<open>A policy engine without tracker: every address gets a decision, and it is never a block.\<close>

definition unarmed :: "('n, 'e, 'c, 'v, 'b) PolicyEngine \<Rightarrow> bool" where
  "unarmed pe \<longleftrightarrow> pe_auto_ban pe = None \<and> no_routes (pe_engine pe)"

lemma unarmed_blocklisted:
  assumes "unarmed pe"
  shows "\<exists>pe'. blocklisted X ip pe = Some (False, pe') \<and> unarmed pe'"
  using lookup_none [of "pe_engine pe" ip] assms by (auto simp: blocklisted_def unarmed_def)

lemma unarmed_check:
  assumes "unarmed pe"
  shows "\<exists>d l' pe'. check_ip_with_limiter X clk now ip l pe = Some (d, l', pe') \<and> unarmed pe' \<and> d \<in> {Allow, Limit}"
proof -
  obtain pe1 where b: "blocklisted X ip pe = Some (False, pe1)" "unarmed pe1" using unarmed_blocklisted [OF assms] by blast
  then have pe1: "no_routes (pe_engine pe1)" "pe_auto_ban pe1 = None" by (simp_all add: unarmed_def)
  show ?thesis
  proof (cases l)
    case None
    obtain ok l1 e1 where "ask_limiter X clk ip (pe_limiter pe1) (pe_engine pe1) = Some (ok, l1, e1)" "no_routes e1"
      using routeless_ask [OF pe1(1)] by blast
    with None b(1) pe1(2) show ?thesis by (simp add: check_ip_with_limiter_def on_violation_def unarmed_def)
  next
    case (Some x)
    obtain ok l1 e1 where "ask_limiter X clk ip x (pe_engine pe1) = Some (ok, l1, e1)" "no_routes e1"
      using routeless_ask [OF pe1(1)] by blast
    with Some b(1) pe1(2) show ?thesis by (simp add: check_ip_with_limiter_def on_violation_def unarmed_def)
  qed
qed

lemma unarmed_new:
  "no_routes e \<Longrightarrow> \<not> ab_enabled (root_auto_ban (radixip cfg)) \<Longrightarrow> unarmed (ph_policy (PolicyHandle_new X e cfg))"
  by (simp add: PolicyHandle_new_def PolicyEngine_new_def unarmed_def case_prod_unfold Let_def)

end

section \<open>The wrapper around an empty compressed tree\<close>

fun wrapper_routeless :: "'n EngineWrapper \<Rightarrow> bool" where
  "wrapper_routeless (StandardCompressed e) \<longleftrightarrow> (\<exists>v. se_tree e = CompressedTree_new v)"
| "wrapper_routeless (ConcurrentCompressed e) \<longleftrightarrow>
     (\<exists>v. sh_tree e = CompressedTree_new v) \<and> sh_num_shards e \<noteq> 0 \<and> length (sh_shards e) = unat (sh_num_shards e)"
| "wrapper_routeless _ \<longleftrightarrow> False"

lemma new_tree_lookup: "CompressedTree_lookup ip (CompressedTree_new v) = None"
  by (simp add: CompressedTree_lookup_def CompressedTree_new_def lookup_inner.simps node_edge_def Let_def)

lemma standard_none:
  "se_tree e = CompressedTree_new v \<Longrightarrow>
     \<exists>e'. StandardEngine_lookup (CompressedTree_RouteTree N) ip e = (None, e') \<and> se_tree e' = CompressedTree_new v"
  by (simp add: StandardEngine_lookup_def CompressedTree_RouteTree_def new_tree_lookup Let_def)

lemma wrapper_lookup_none:
  assumes "wrapper_routeless w"
  shows "\<exists>w'. wrapper_lookup N isa ip w = Some (None, w') \<and> wrapper_routeless w'"
proof (cases w)
  case (StandardCompressed e)
  with assms obtain v where "se_tree e = CompressedTree_new v" by auto
  from standard_none [OF this, of N ip] StandardCompressed show ?thesis by auto
next
  case (ConcurrentCompressed e)
  with assms obtain v where v: "sh_tree e = CompressedTree_new v" and sh: "sh_num_shards e \<noteq> 0" "length (sh_shards e) = unat (sh_num_shards e)"
    by auto
  obtain i where i: "get_shard e ip = Some i" "unat i < length (sh_shards e)" using get_shard_less [OF sh(1), of ip] sh(2) by auto
  have "se_tree (shard_engine (sh_tree e) (sh_shards e ! unat i)) = CompressedTree_new v" by (simp add: shard_engine_def v)
  from standard_none [OF this, of N ip] i sh ConcurrentCompressed show ?thesis by (auto simp: ShardedEngine_lookup_def)
qed (use assms in simp_all)

lemma wrapper_new_routeless:
  assumes "v \<noteq> ART"
  shows "wrapper_routeless (EngineWrapper_new host v nv True k)"
  using assms by (auto simp: EngineWrapper_new_def ShardedEngine_new_def StandardEngine_new_def Let_def split: option.split)

section \<open>The engine of the balanced preset\<close>

definition box_routeless :: "('n, 'j, 's) BoxedEngine \<Rightarrow> bool" where
  "box_routeless b \<longleftrightarrow> (\<exists>c. b = BoxCached c \<and> wrapper_routeless (cd_inner c) \<and> rx_redis (cd_cache c) = None
     \<and> ran (map_of (rx_cache (cd_cache c))) \<subseteq> {None})"

lemma ran_put_bounded: "ran (map_of m) \<subseteq> {v} \<Longrightarrow> ran (map_of (put_bounded f mx k v m)) \<subseteq> {v}"
  by (auto simp: put_bounded_def evict_one_def update_conv' delete_conv' ran_def split: if_splits list.splits)

lemma box_lookup_none:
  assumes "box_routeless b"
  shows "\<exists>b'. re_lookup (box_RadixEngine fk R J N isa rt) ip b = Some (None, b') \<and> box_routeless b'"
proof -
  obtain c where c: "b = BoxCached c" "wrapper_routeless (cd_inner c)" "rx_redis (cd_cache c) = None"
    "ran (map_of (rx_cache (cd_cache c))) \<subseteq> {None}" using assms by (auto simp: box_routeless_def)
  show ?thesis
  proof (cases "map_of (rx_cache (cd_cache c)) ip")
    case None
    obtain w where "wrapper_lookup N isa ip (cd_inner c) = Some (None, w)" "wrapper_routeless w"
      using wrapper_lookup_none [OF c(2)] by blast
    with None c show ?thesis
      by (simp add: box_lookup boxed_def CachedEngine_lookup_def lookup_with_cache_def wrapper_RadixEngine_def redis_lookup_def
          redis_store_result_def box_routeless_def ran_put_bounded Let_def)
  next
    case (Some r)
    then have "r = None" using c(4) by (auto simp: ran_def)
    with Some c show ?thesis by (simp add: box_lookup boxed_def CachedEngine_lookup_def lookup_with_cache_def box_routeless_def)
  qed
qed

lemma new_balanced_routeless:
  obtains b where "new_balanced R J N isa host server = Some b" "box_routeless b"
proof -
  have "wrapper_routeless (EngineWrapper_new host Concurrent NV_AtomicTrieNode True (Some 16))" by (rule wrapper_new_routeless) simp
  then have "\<exists>b. new_balanced R J N isa host server = Some b \<and> box_routeless b"
    by (simp add: new_balanced_def radixip_new_def balanced_def CachedEngine_new_def RadixCache_new_def box_routeless_def Let_def)
  with that show thesis by blast
qed

text \<open>The constructor \<open>from_config\<close> of \<open>policy/src/handle.rs\<close>.\<close>

definition handle_from_config ::
  "('n, ('n, 'j, 's) BoxedEngine, 'c, 'v, 'b) policy_env \<Rightarrow> 's redis_server \<Rightarrow> ('n, 'j) serde \<Rightarrow> Isa \<Rightarrow> Host \<Rightarrow> 's
     \<Rightarrow> 'n RadixIpConfig \<Rightarrow> ('n, ('n, 'j, 's) BoxedEngine, 'c, 'v, 'b) PolicyHandle option" where
  "handle_from_config X R J isa host server config =
     map_option (\<lambda>engine. PolicyHandle_new X engine config) (new_balanced R J (env_net X) isa host server)"

section \<open>Environments\<close>

definition wrapper_env ::
  "'n ipnet_ops \<Rightarrow> Isa \<Rightarrow> ('c, 'n BucketKey) moka_ops \<Rightarrow> ('v, IpAddr, Instant list) dash_ops \<Rightarrow> ('b, IpAddr, Instant) dash_ops
     \<Rightarrow> ('n, 'n EngineWrapper, 'c, 'v, 'b) policy_env" where
  "wrapper_env N isa M DV DB =
     \<lparr>env_net = N, env_engine = wrapper_RadixEngine N isa, env_cache = M, env_violations = DV, env_banned = DB\<rparr>"

definition box_env ::
  "(IpAddr list \<Rightarrow> IpAddr) \<Rightarrow> 's redis_server \<Rightarrow> ('n, 'j) serde \<Rightarrow> 'n ipnet_ops \<Rightarrow> Isa \<Rightarrow> ('c, 'n BucketKey) moka_ops
     \<Rightarrow> ('v, IpAddr, Instant list) dash_ops \<Rightarrow> ('b, IpAddr, Instant) dash_ops
     \<Rightarrow> ('n, ('n, 'j, 's) BoxedEngine, 'c, 'v, 'b) policy_env" where
  "box_env fk R J N isa M DV DB =
     \<lparr>env_net = N, env_engine = box_RadixEngine fk R J N isa False, env_cache = M, env_violations = DV, env_banned = DB\<rparr>"

interpretation wrapper_blind: routeless "wrapper_env N isa M DV DB" wrapper_routeless for N isa M DV DB
  by unfold_locales (simp add: wrapper_env_def wrapper_RadixEngine_def wrapper_lookup_none)

interpretation box_blind: routeless "box_env fk R J N isa M DV DB" box_routeless for fk R J N isa M DV DB
  by unfold_locales (simp add: box_env_def box_lookup_none)

end
