(* ===== verification/Xdp.thy ===== *)
theory Xdp
  imports IpText
begin

text \<open>
  The XDP filter: the kernel program (\<open>ebpf/xdp-kernel/src/main.rs\<close>), which drops packets by their
  source address, and the loader (\<open>ebpf/xdp-loader\<close>), which fills its maps from Redis. The kernel's
  LPM-trie maps and the network type of the \<open>ipnet\<close> crate are parameters; the locales
  \<open>lpm_trie_map\<close> and \<open>ipnet_crate\<close> state what their documentation promises. A packet is its bytes;
  the counters are those of the processor the program runs on.
\<close>

section \<open>Kernel maps\<close>

record 't lpm_trie =
  lt_insert :: "nat \<Rightarrow> u8 list \<Rightarrow> u8 \<Rightarrow> 't \<Rightarrow> 't option"
  lt_remove :: "nat \<Rightarrow> u8 list \<Rightarrow> 't \<Rightarrow> bool \<times> 't"
  lt_get :: "nat \<Rightarrow> u8 list \<Rightarrow> 't \<Rightarrow> u8 option"

text \<open>The value of the longest key that is a prefix of a bit string.\<close>

fun longest_from :: "(bool list \<rightharpoonup> 'v) \<Rightarrow> bool list \<Rightarrow> nat \<Rightarrow> 'v option" where
  "longest_from f bs 0 = f []"
| "longest_from f bs (Suc n) = (case f (take (Suc n) bs) of Some v \<Rightarrow> Some v | None \<Rightarrow> longest_from f bs n)"

definition longest_value :: "(bool list \<rightharpoonup> 'v) \<Rightarrow> bool list \<Rightarrow> 'v option" where
  "longest_value f bs = longest_from f bs (length bs)"

text \<open>The maps are made with room for \<open>1 << 20\<close> keys.\<close>

definition MAX_ENTRIES :: nat where "MAX_ENTRIES = 1048576"

text \<open>An insertion fails only when the map is full or the prefix is longer than the address; a
  removal of a missing key fails and changes nothing; a lookup finds the longest stored prefix.\<close>

locale lpm_trie_map =
  fixes L :: "'t lpm_trie" and content :: "'t \<Rightarrow> bool list \<rightharpoonup> u8"
  assumes insert_room: "\<lbrakk>p \<le> 8 * length a; finite (dom (content t)); card (dom (content t)) < MAX_ENTRIES\<rbrakk>
      \<Longrightarrow> \<exists>t'. lt_insert L p a v t = Some t'"
    and insert_content: "lt_insert L p a v t = Some t' \<Longrightarrow> content t' = (content t)(bits_of_bytes a p \<mapsto> v)"
    and remove_content: "content (snd (lt_remove L p a t)) = (content t)(bits_of_bytes a p := None)"
    and get_content: "lt_get L p a t = longest_value (content t) (bits_of_bytes a p)"

lemma longest_from_None:
  "longest_from f bs n = None \<longleftrightarrow> (\<forall>k\<le>n. f (take k bs) = None)"
  by (induction n) (auto simp: le_Suc_eq split: option.split)

lemma longest_value_None: "longest_value f bs = None \<longleftrightarrow> (\<forall>k. prefix k bs \<longrightarrow> f k = None)"
proof -
  have "(\<forall>n\<le>length bs. f (take n bs) = None) \<longleftrightarrow> (\<forall>k. prefix k bs \<longrightarrow> f k = None)"
    by (metis prefix_length_le take_is_prefix take_eq_prefix append_eq_conv_conj prefixE)
  then show ?thesis by (simp add: longest_value_def longest_from_None)
qed

lemma longest_from_range: "longest_from f bs n = Some v \<Longrightarrow> \<exists>k. f k = Some v"
  by (induction n) (auto split: option.splits)

section \<open>Kernel program\<close>

datatype XdpAction = XDP_DROP | XDP_PASS

record ('t4, 't6) KernelMaps =
  km_v4 :: 't4
  km_v6 :: 't6
  km_stats :: "u64 list"

definition ETH_HLEN :: nat where "ETH_HLEN = 14"

definition VLAN_HLEN :: nat where "VLAN_HLEN = 4"

definition ETH_P_IP :: u16 where "ETH_P_IP = 0x0800"

definition ETH_P_IPV6 :: u16 where "ETH_P_IPV6 = 0x86DD"

definition ETH_P_8021Q :: u16 where "ETH_P_8021Q = 0x8100"

definition ETH_P_8021AD :: u16 where "ETH_P_8021AD = 0x88A8"

definition bump :: "nat \<Rightarrow> ('t4, 't6) KernelMaps \<Rightarrow> ('t4, 't6) KernelMaps" where
  "bump idx m = (if idx < length (km_stats m) then m\<lparr>km_stats := (km_stats m)[idx := km_stats m ! idx + 1]\<rparr> else m)"

definition ptr_at :: "u8 list \<Rightarrow> nat \<Rightarrow> nat \<Rightarrow> u8 list option" where
  "ptr_at pkt offset sz = (if offset + sz > length pkt then None else Some (take sz (drop offset pkt)))"

text \<open>The EtherType behind at most one VLAN tag, and where the IP header starts.\<close>

definition l3_header :: "u8 list \<Rightarrow> (u16 \<times> nat) option" where
  "l3_header pkt =
     (case ptr_at pkt 12 2 of
        None \<Rightarrow> None
      | Some et \<Rightarrow>
          (let proto = of_be_bytes et in
           if proto = ETH_P_8021Q \<or> proto = ETH_P_8021AD
           then map_option (\<lambda>inner. (of_be_bytes inner, ETH_HLEN + VLAN_HLEN)) (ptr_at pkt (ETH_HLEN + 2) 2)
           else Some (proto, ETH_HLEN)))"

definition try_xdp ::
  "'t4 lpm_trie \<Rightarrow> 't6 lpm_trie \<Rightarrow> u8 list \<Rightarrow> ('t4, 't6) KernelMaps \<Rightarrow> (XdpAction \<times> ('t4, 't6) KernelMaps) option" where
  "try_xdp L4 L6 pkt m =
     (case l3_header pkt of
        None \<Rightarrow> None
      | Some (proto, l3) \<Rightarrow>
          if proto = ETH_P_IP then
            (case ptr_at pkt (l3 + 12) 4 of
               None \<Rightarrow> None
             | Some src \<Rightarrow>
                 if (case lt_get L4 32 src (km_v4 m) of Some v \<Rightarrow> v \<noteq> 0 | None \<Rightarrow> False)
                 then Some (XDP_DROP, bump 0 m) else Some (XDP_PASS, bump 1 m))
          else if proto = ETH_P_IPV6 then
            (case ptr_at pkt (l3 + 8) 16 of
               None \<Rightarrow> None
             | Some src \<Rightarrow>
                 if (case lt_get L6 128 src (km_v6 m) of Some v \<Rightarrow> v \<noteq> 0 | None \<Rightarrow> False)
                 then Some (XDP_DROP, bump 2 m) else Some (XDP_PASS, bump 3 m))
          else Some (XDP_PASS, m))"

definition radixip_xdp ::
  "'t4 lpm_trie \<Rightarrow> 't6 lpm_trie \<Rightarrow> u8 list \<Rightarrow> ('t4, 't6) KernelMaps \<Rightarrow> XdpAction \<times> ('t4, 't6) KernelMaps" where
  "radixip_xdp L4 L6 pkt m =
     (case try_xdp L4 L6 pkt m of
        Some (action, m') \<Rightarrow> (action, m')
      | None \<Rightarrow> (XDP_PASS, bump 4 m))"

section \<open>Frames\<close>

text \<open>An Ethernet frame with at most one VLAN tag around an IP packet: the two hardware
  addresses, the tag, the EtherType, the bytes of the IP header before the source address, the
  source address and the rest.\<close>

definition vlan_tag :: "u8 list \<Rightarrow> bool" where
  "vlan_tag tag \<longleftrightarrow> tag = [] \<or> (length tag = 4 \<and> (take 2 tag = [0x81, 0x00] \<or> take 2 tag = [0x88, 0xA8]))"

fun ip_frame :: "u8 list \<Rightarrow> u8 list \<Rightarrow> u8 list \<Rightarrow> IpAddr \<Rightarrow> u8 list \<Rightarrow> u8 list" where
  "ip_frame mac tag hdr (V4 a) rest = mac @ tag @ [0x08, 0x00] @ hdr @ octets (V4 a) @ rest"
| "ip_frame mac tag hdr (V6 a) rest = mac @ tag @ [0x86, 0xDD] @ hdr @ octets (V6 a) @ rest"

definition frame_parts :: "u8 list \<Rightarrow> u8 list \<Rightarrow> u8 list \<Rightarrow> IpAddr \<Rightarrow> bool" where
  "frame_parts mac tag hdr ip \<longleftrightarrow> length mac = 12 \<and> vlan_tag tag \<and> length hdr = (if is_ipv4 ip then 12 else 8)"

definition source_frame :: "u8 list \<Rightarrow> IpAddr \<Rightarrow> bool" where
  "source_frame pkt ip \<longleftrightarrow> (\<exists>mac tag hdr rest. frame_parts mac tag hdr ip \<and> pkt = ip_frame mac tag hdr ip rest)"

definition kernel_hit :: "'t4 lpm_trie \<Rightarrow> 't6 lpm_trie \<Rightarrow> ('t4, 't6) KernelMaps \<Rightarrow> IpAddr \<Rightarrow> bool" where
  "kernel_hit L4 L6 m ip =
     (case (case ip of V4 _ \<Rightarrow> lt_get L4 32 (octets ip) (km_v4 m) | V6 _ \<Rightarrow> lt_get L6 128 (octets ip) (km_v6 m)) of
        Some v \<Rightarrow> v \<noteq> 0 | None \<Rightarrow> False)"

lemma be_bytes_of_be_bytes:
  assumes "8 * k = LENGTH('a)" and "length bs = k"
  shows "be_bytes k (of_be_bytes bs :: 'a::len word) = bs"
proof (rule nth_equalityI)
  fix i assume "i < length (be_bytes k (of_be_bytes bs :: 'a word))"
  then have i: "i < k" by simp
  show "be_bytes k (of_be_bytes bs :: 'a word) ! i = bs ! i"
  proof (rule bit_word_eqI)
    fix n assume "n < LENGTH(8)"
    then have n: "n < 8" by simp
    have pos: "8 * (k - 1 - i) + n < 8 * k" using i n by auto
    have "8 * length bs - 1 - (8 * (k - 1 - i) + n) = 8 * i + (7 - n)" using i n assms(2) by auto
    moreover have "(8 * i + (7 - n)) div 8 = i" using n by simp
    moreover have "(8 * i + (7 - n)) mod 8 = 7 - n"
      using mod_mult_self4 [of 8 i "7 - n"] n by (simp only: mult.commute [of i]) simp
    moreover have "7 - (7 - n) = n" using n by simp
    ultimately show "bit (be_bytes k (of_be_bytes bs :: 'a word) ! i) n = bit (bs ! i) n"
      using i n pos assms
      by (simp add: be_bytes_def bit_ucast_iff bit_drop_bit_eq bit_of_be_bytes bytes_bit_def)
  qed
qed (simp add: assms(2))

lemma ethertype_iff:
  assumes "length et = 2"
  shows "(of_be_bytes et = ETH_P_IP) = (et = [0x08, 0x00]) \<and> (of_be_bytes et = ETH_P_IPV6) = (et = [0x86, 0xDD])
    \<and> (of_be_bytes et = ETH_P_8021Q) = (et = [0x81, 0x00]) \<and> (of_be_bytes et = ETH_P_8021AD) = (et = [0x88, 0xA8])"
proof -
  have inj: "(of_be_bytes et :: u16) = of_be_bytes et' \<longleftrightarrow> et = et'" if "length et' = 2" for et'
    using be_bytes_of_be_bytes [where 'a = 16, of 2] assms that by (metis len_num0 len_bit0 mult_2 numeral_Bit0 len_num1 numeral_One one_add_one mult.commute)
  have e: "ETH_P_IP = of_be_bytes [0x08, 0x00]" "ETH_P_IPV6 = of_be_bytes [0x86, 0xDD]"
    "ETH_P_8021Q = of_be_bytes [0x81, 0x00]" "ETH_P_8021AD = of_be_bytes [0x88, 0xA8]"
    by (simp_all add: of_be_bytes_def ETH_P_IP_def ETH_P_IPV6_def ETH_P_8021Q_def ETH_P_8021AD_def)
  show ?thesis unfolding e by (intro conjI inj) simp_all
qed

lemma ptr_at_Some: "ptr_at pkt off sz = Some bs \<longleftrightarrow> (\<exists>a b. pkt = a @ bs @ b \<and> length a = off \<and> length bs = sz)"
proof
  assume "ptr_at pkt off sz = Some bs"
  then have "off + sz \<le> length pkt" "bs = take sz (drop off pkt)" by (auto simp: ptr_at_def split: if_splits)
  then show "\<exists>a b. pkt = a @ bs @ b \<and> length a = off \<and> length bs = sz"
    by (intro exI [of _ "take off pkt"] exI [of _ "drop sz (drop off pkt)"]) (simp del: drop_drop)
qed (auto simp: ptr_at_def)

lemma ptr_at_append: "length a = off \<Longrightarrow> length bs = sz \<Longrightarrow> ptr_at (a @ bs @ b) off sz = Some bs"
  by (simp add: ptr_at_def)

text \<open>The program on a frame, and the only way it drops a packet.\<close>

lemma l3_header_frame:
  assumes "length mac = 12" and "vlan_tag tag" and "length ty = 2" and "ty \<noteq> [0x81, 0x00]" and "ty \<noteq> [0x88, 0xA8]"
  shows "l3_header (mac @ tag @ ty @ rest) = Some (of_be_bytes ty, 14 + length tag)"
proof (cases "tag = []")
  case True
  then have "ptr_at (mac @ tag @ ty @ rest) 12 2 = Some ty" using assms(1,3) ptr_at_append [of mac 12 ty 2 rest] by simp
  then show ?thesis using True assms(3-5) ethertype_iff [OF assms(3)] by (simp add: l3_header_def ETH_HLEN_def)
next
  case False
  then have t: "length tag = 4" "take 2 tag = [0x81, 0x00] \<or> take 2 tag = [0x88, 0xA8]" using assms(2) by (auto simp: vlan_tag_def)
  have eq: "mac @ tag @ ty @ rest = mac @ take 2 tag @ (drop 2 tag @ ty @ rest)" by (metis append.assoc append_take_drop_id)
  have "ptr_at (mac @ tag @ ty @ rest) 12 2 = Some (take 2 tag)"
    unfolding eq by (rule ptr_at_append) (use assms(1) t(1) in simp_all)
  moreover have "ptr_at (mac @ tag @ ty @ rest) 16 2 = Some ty"
    using assms(1,3) t(1) ptr_at_append [of "mac @ tag" 16 ty 2 rest] by simp
  moreover have "length (take 2 tag) = 2" using t(1) by simp
  ultimately show ?thesis using t ethertype_iff [of "take 2 tag"]
    by (auto simp: l3_header_def ETH_HLEN_def VLAN_HLEN_def)
qed

lemma l3_header_Some:
  assumes "l3_header pkt = Some (proto, l3)"
  obtains mac tag ty rest where "pkt = mac @ tag @ ty @ rest" "length mac = 12" "vlan_tag tag" "length ty = 2"
    "proto = of_be_bytes ty" "l3 = 14 + length tag"
proof -
  from assms obtain et where et: "ptr_at pkt 12 2 = Some et" by (auto simp: l3_header_def split: option.splits)
  then obtain mac b where p: "pkt = mac @ et @ b" "length mac = 12" "length et = 2" by (auto simp: ptr_at_Some)
  show thesis
  proof (cases "of_be_bytes et = ETH_P_8021Q \<or> of_be_bytes et = ETH_P_8021AD")
    case False
    then show thesis using that [of mac "[]" et b] p assms et by (auto simp: l3_header_def vlan_tag_def ETH_HLEN_def)
  next
    case True
    then obtain inner where i: "ptr_at pkt 16 2 = Some inner" "proto = of_be_bytes inner" "l3 = 18"
      using assms et by (auto simp: l3_header_def ETH_HLEN_def VLAN_HLEN_def)
    then obtain a rest where a: "pkt = a @ inner @ rest" "length a = 16" "length inner = 2" by (auto simp: ptr_at_Some)
    have "take 12 a = mac" "take 2 (drop 12 a) = et" using a p by (auto simp: append_eq_append_conv_if)
    then have "vlan_tag (drop 12 a)" using True a(2) ethertype_iff [OF p(3)] by (auto simp: vlan_tag_def)
    moreover have "pkt = take 12 a @ drop 12 a @ inner @ rest" using a(1) by simp
    ultimately show thesis using that [of "take 12 a" "drop 12 a" inner rest] a(2,3) i(2,3) by simp
  qed
qed

lemma xdp_on_frame:
  assumes "frame_parts mac tag hdr ip"
  shows "fst (radixip_xdp L4 L6 (ip_frame mac tag hdr ip rest) m) = (if kernel_hit L4 L6 m ip then XDP_DROP else XDP_PASS)"
proof (cases ip)
  case (V4 a)
  have f: "length mac = 12" "vlan_tag tag" "length hdr = 12" using assms V4 by (simp_all add: frame_parts_def)
  have h: "l3_header (ip_frame mac tag hdr ip rest) = Some (ETH_P_IP, 14 + length tag)"
    using l3_header_frame [OF f(1,2), of "[0x08, 0x00]"] ethertype_iff [of "[0x08, 0x00]"] V4 by simp
  have "ptr_at ((mac @ tag @ [0x08, 0x00] @ hdr) @ octets ip @ rest) (14 + length tag + 12) 4 = Some (octets ip)"
    using f V4 by (intro ptr_at_append) simp_all
  then have "ptr_at (ip_frame mac tag hdr ip rest) (14 + length tag + 12) 4 = Some (octets ip)" using V4 by simp
  then show ?thesis using h V4 by (simp add: radixip_xdp_def try_xdp_def kernel_hit_def)
next
  case (V6 a)
  have f: "length mac = 12" "vlan_tag tag" "length hdr = 8" using assms V6 by (simp_all add: frame_parts_def)
  have h: "l3_header (ip_frame mac tag hdr ip rest) = Some (ETH_P_IPV6, 14 + length tag)"
    using l3_header_frame [OF f(1,2), of "[0x86, 0xDD]"] ethertype_iff [of "[0x86, 0xDD]"] V6 by simp
  have "ptr_at ((mac @ tag @ [0x86, 0xDD] @ hdr) @ octets ip @ rest) (14 + length tag + 8) 16 = Some (octets ip)"
    using f V6 by (intro ptr_at_append) simp_all
  then have "ptr_at (ip_frame mac tag hdr ip rest) (14 + length tag + 8) 16 = Some (octets ip)" using V6 by simp
  moreover have "ETH_P_IPV6 \<noteq> ETH_P_IP" by (simp add: ETH_P_IP_def ETH_P_IPV6_def)
  ultimately show ?thesis using h V6 by (simp add: radixip_xdp_def try_xdp_def kernel_hit_def)
qed

lemma frame_split:
  assumes "pkt = mac @ tag @ ty @ rest" and "length mac = 12" and "length ty = 2" and "ptr_at pkt (14 + length tag + k) sz = Some src"
  obtains hdr rest' where "rest = hdr @ src @ rest'" "length hdr = k"
proof -
  obtain a b where a: "pkt = a @ src @ b" "length a = 14 + length tag + k" using assms(4) by (auto simp: ptr_at_Some)
  have "rest = drop (14 + length tag) pkt" using assms(1-3) by simp
  then have "rest = drop (14 + length tag) a @ src @ b" using a by simp
  then show thesis using that [of "drop (14 + length tag) a" b] a(2) by simp
qed

lemma xdp_drop_only:
  assumes "fst (radixip_xdp L4 L6 pkt m) = XDP_DROP"
  shows "\<exists>ip. source_frame pkt ip \<and> kernel_hit L4 L6 m ip"
proof -
  from assms obtain proto l3 where h: "l3_header pkt = Some (proto, l3)"
    by (auto simp: radixip_xdp_def try_xdp_def split: option.splits)
  from l3_header_Some [OF h] obtain mac tag ty rest where f: "pkt = mac @ tag @ ty @ rest" "length mac = 12" "vlan_tag tag"
    "length ty = 2" "proto = of_be_bytes ty" "l3 = 14 + length tag" by blast
  note ety = ethertype_iff [OF f(4)]
  show ?thesis
  proof (cases "proto = ETH_P_IP")
    case True
    with assms h obtain src where src: "ptr_at pkt (14 + length tag + 12) 4 = Some src"
        "\<exists>v. lt_get L4 32 src (km_v4 m) = Some v \<and> v \<noteq> 0"
      using f(6) by (auto simp: radixip_xdp_def try_xdp_def split: option.splits if_splits)
    obtain hdr rest' where r: "rest = hdr @ src @ rest'" "length hdr = 12" using frame_split [OF f(1,2,4) src(1)] by blast
    have o: "octets (V4 (of_be_bytes src)) = src" using src(1) be_bytes_of_be_bytes [of 4 src, where 'a = 32] by (auto simp: ptr_at_Some)
    have "source_frame pkt (V4 (of_be_bytes src))"
      unfolding source_frame_def
      by (rule exI [of _ mac], rule exI [of _ tag], rule exI [of _ hdr], rule exI [of _ rest'])
         (use f r o True ety in \<open>simp add: frame_parts_def\<close>)
    moreover have "kernel_hit L4 L6 m (V4 (of_be_bytes src))" using src(2) o by (auto simp: kernel_hit_def)
    ultimately show ?thesis by blast
  next
    case False
    with assms h have p6: "proto = ETH_P_IPV6" by (auto simp: radixip_xdp_def try_xdp_def split: option.splits if_splits)
    with False assms h obtain src where src: "ptr_at pkt (14 + length tag + 8) 16 = Some src"
        "\<exists>v. lt_get L6 128 src (km_v6 m) = Some v \<and> v \<noteq> 0"
      using f(6) by (auto simp: radixip_xdp_def try_xdp_def split: option.splits if_splits)
    obtain hdr rest' where r: "rest = hdr @ src @ rest'" "length hdr = 8" using frame_split [OF f(1,2,4) src(1)] by blast
    have o: "octets (V6 (of_be_bytes src)) = src" using src(1) be_bytes_of_be_bytes [of 16 src, where 'a = 128] by (auto simp: ptr_at_Some)
    have "source_frame pkt (V6 (of_be_bytes src))"
      unfolding source_frame_def
      by (rule exI [of _ mac], rule exI [of _ tag], rule exI [of _ hdr], rule exI [of _ rest'])
         (use f r o p6 ety in \<open>simp add: frame_parts_def\<close>)
    moreover have "kernel_hit L4 L6 m (V6 (of_be_bytes src))" using src(2) o by (auto simp: kernel_hit_def)
    ultimately show ?thesis by blast
  qed
qed

text \<open>A packet is dropped exactly when it is a frame whose source address hits.\<close>

lemma xdp_drop_iff: "fst (radixip_xdp L4 L6 pkt m) = XDP_DROP \<longleftrightarrow> (\<exists>ip. source_frame pkt ip \<and> kernel_hit L4 L6 m ip)"
proof
  assume "\<exists>ip. source_frame pkt ip \<and> kernel_hit L4 L6 m ip"
  then obtain ip mac tag hdr rest where "frame_parts mac tag hdr ip" "pkt = ip_frame mac tag hdr ip rest" "kernel_hit L4 L6 m ip"
    unfolding source_frame_def by blast
  then show "fst (radixip_xdp L4 L6 pkt m) = XDP_DROP" by (simp add: xdp_on_frame)
qed (rule xdp_drop_only)

end
