(* ===== verification/XdpLoader.thy ===== *)
theory XdpLoader
  imports Xdp
begin

text \<open>
  The loader of the XDP filter (\<open>ebpf/xdp-loader/src/lib.rs\<close> and \<open>main.rs\<close>): the configuration, the
  maps it shares with the kernel, the seed from Redis, and the messages that change the block
  list. The results of the calls into the kernel and into Redis are a parameter of \<open>start\<close>.
\<close>

section \<open>Networks of the ipnet crate\<close>

record 'n ipnet =
  in_net :: "'n ipnet_ops"
  in_trunc :: "'n \<Rightarrow> 'n"
  in_contains :: "'n \<Rightarrow> 'n \<Rightarrow> bool"
  in_from_str :: "string \<Rightarrow> 'n option"
  in_from_ip :: "IpAddr \<Rightarrow> 'n"

text \<open>\<open>trunc\<close> clears the host bits, \<open>contains\<close> compares networks of one family, and a network
  made from an address is the host itself.\<close>

locale ipnet_crate = ipnetwork "in_net I" for I :: "'n ipnet" +
  assumes trunc_ip: "net_ip (in_net I) (in_trunc I n) = net_network (in_net I) n"
    and trunc_prefix: "net_prefix (in_net I) (in_trunc I n) = net_prefix (in_net I) n"
    and contains_net: "in_contains I a b \<longleftrightarrow> net_v4 (in_net I) a = net_v4 (in_net I) b
      \<and> prefix (net_bits (in_net I) a) (net_bits (in_net I) b)"
    and from_ip_net: "net_ip (in_net I) (in_from_ip I ip) = ip"
      "net_prefix (in_net I) (in_from_ip I ip) = ip_width ip"

section \<open>State\<close>

datatype XdpMode = Skb | Driver

record 'n LoaderConfig =
  lc_iface :: string
  lc_mode :: XdpMode
  lc_pin_dir :: string
  lc_redis_url :: string
  lc_channel :: string
  lc_snapshot_key :: string
  lc_fail_closed :: bool
  lc_min_v4 :: u8
  lc_min_v6 :: u8
  lc_never_block :: "'n list"

record ('n, 't4, 't6) Maps =
  mp_kernel :: "('t4, 't6) KernelMaps"
  mp_entries :: "'n list"

datatype XdpError = MapError | BadPrefixLen | TooBroad nat | NeverBlocked | NetParseError | EmptyMessage | MissingCidr
  | SetupError string | FailClosed

definition maps_put ::
  "'n ipnet \<Rightarrow> 't4 lpm_trie \<Rightarrow> 't6 lpm_trie \<Rightarrow> 'n \<Rightarrow> ('n, 't4, 't6) Maps \<Rightarrow> XdpError + ('n, 't4, 't6) Maps" where
  "maps_put I L4 L6 net m =
     (let N = in_net I; k = mp_kernel m;
          inserted = (if is_ipv4 (net_ip N net)
            then map_option (\<lambda>t. k\<lparr>km_v4 := t\<rparr>) (lt_insert L4 (net_prefix N net) (octets (net_network N net)) 1 (km_v4 k))
            else map_option (\<lambda>t. k\<lparr>km_v6 := t\<rparr>) (lt_insert L6 (net_prefix N net) (octets (net_network N net)) 1 (km_v6 k)))
      in case inserted of
           None \<Rightarrow> Inl MapError
         | Some k' \<Rightarrow> Inr (m\<lparr>mp_kernel := k', mp_entries := List.insert net (mp_entries m)\<rparr>))"

definition maps_delete ::
  "'n ipnet \<Rightarrow> 't4 lpm_trie \<Rightarrow> 't6 lpm_trie \<Rightarrow> 'n \<Rightarrow> ('n, 't4, 't6) Maps \<Rightarrow> ('n, 't4, 't6) Maps" where
  "maps_delete I L4 L6 net m =
     (let N = in_net I; k = mp_kernel m;
          k' = (if is_ipv4 (net_ip N net)
            then k\<lparr>km_v4 := snd (lt_remove L4 (net_prefix N net) (octets (net_network N net)) (km_v4 k))\<rparr>
            else k\<lparr>km_v6 := snd (lt_remove L6 (net_prefix N net) (octets (net_network N net)) (km_v6 k))\<rparr>)
      in m\<lparr>mp_kernel := k', mp_entries := removeAll net (mp_entries m)\<rparr>)"

text \<open>The sum of a counter over the processors, which is 0 when it cannot be read.\<close>

definition maps_stat :: "u64 list list \<Rightarrow> nat \<Rightarrow> u64" where
  "maps_stat cpus index = (if \<forall>c\<in>set cpus. index < length c then sum_list (map (\<lambda>c. c ! index) cpus) else 0)"

section \<open>Networks from text\<close>

text \<open>\<open>to_ipv4_mapped\<close> of the standard library.\<close>

definition to_ipv4_mapped :: "u128 \<Rightarrow> u32 option" where
  "to_ipv4_mapped a = (if drop_bit 32 a = 0xFFFF then Some (ucast a) else None)"

definition normalize :: "'n ipnet \<Rightarrow> 'n LoaderConfig \<Rightarrow> 'n \<Rightarrow> XdpError + 'n" where
  "normalize I config net =
     (let N = in_net I; net = in_trunc I net;
          mapped = (case net_ip N net of
              V6 _ \<Rightarrow>
                (if 96 \<le> net_prefix N net then
                   (case net_network N net of
                      V6 a \<Rightarrow>
                        (case to_ipv4_mapped a of
                           Some address \<Rightarrow>
                             (case net_new N (V4 address) (net_prefix N net - 96) of
                                Some n \<Rightarrow> Inr n
                              | None \<Rightarrow> Inl BadPrefixLen)
                         | None \<Rightarrow> Inr net)
                    | V4 _ \<Rightarrow> Inr net)
                 else Inr net)
            | V4 _ \<Rightarrow> Inr net)
      in case mapped of
           Inl e \<Rightarrow> Inl e
         | Inr net \<Rightarrow>
             (let minimum = unat (if is_ipv4 (net_ip N net) then lc_min_v4 config else lc_min_v6 config) in
              if net_prefix N net < minimum then Inl (TooBroad minimum)
              else if \<exists>p\<in>set (lc_never_block config). in_contains I net p \<or> in_contains I p net then Inl NeverBlocked
              else Inr net))"

definition parse_net :: "'n ipnet \<Rightarrow> string \<Rightarrow> XdpError + 'n" where
  "parse_net I value =
     (let value = trim value in
      if CHR ''/'' \<in> set value then
        (case in_from_str I value of Some n \<Rightarrow> Inr n | None \<Rightarrow> Inl NetParseError)
      else
        (case parse_ip value of Some ip \<Rightarrow> Inr (in_from_ip I ip) | None \<Rightarrow> Inl NetParseError))"

text \<open>\<open>split_whitespace\<close>: the non-empty pieces between whitespace.\<close>

fun split_whitespace_acc :: "string \<Rightarrow> string \<Rightarrow> string list" where
  "split_whitespace_acc acc [] = (if acc = [] then [] else [rev acc])"
| "split_whitespace_acc acc (c # cs) =
     (if is_whitespace c then (if acc = [] then split_whitespace_acc [] cs else rev acc # split_whitespace_acc [] cs)
      else split_whitespace_acc (c # acc) cs)"

definition split_whitespace :: "string \<Rightarrow> string list" where
  "split_whitespace = split_whitespace_acc []"

definition apply_event ::
  "'n ipnet \<Rightarrow> 't4 lpm_trie \<Rightarrow> 't6 lpm_trie \<Rightarrow> 'n LoaderConfig \<Rightarrow> string \<Rightarrow> ('n, 't4, 't6) Maps
     \<Rightarrow> XdpError + ('n, 't4, 't6) Maps" where
  "apply_event I L4 L6 config payload m =
     (case split_whitespace payload of
        [] \<Rightarrow> Inl EmptyMessage
      | first # others \<Rightarrow>
          (let selected = (if first = ''add'' \<or> first = ''del''
             then (case others of [] \<Rightarrow> Inl MissingCidr | cidr # _ \<Rightarrow> Inr (first, cidr))
             else Inr (''add'', first))
           in case selected of
                Inl e \<Rightarrow> Inl e
              | Inr (operation, cidr) \<Rightarrow>
                  (case parse_net I cidr of
                     Inl e \<Rightarrow> Inl e
                   | Inr net \<Rightarrow>
                       (case normalize I config net of
                          Inl e \<Rightarrow> Inl e
                        | Inr net \<Rightarrow>
                            if operation = ''add'' then maps_put I L4 L6 net m
                            else Inr (maps_delete I L4 L6 net m)))))"

section \<open>Start and event loop\<close>

fun seed_loop ::
  "'n ipnet \<Rightarrow> 't4 lpm_trie \<Rightarrow> 't6 lpm_trie \<Rightarrow> 'n LoaderConfig \<Rightarrow> string list \<Rightarrow> ('n, 't4, 't6) Maps \<Rightarrow> ('n, 't4, 't6) Maps" where
  "seed_loop I L4 L6 config [] m = m"
| "seed_loop I L4 L6 config (item # items) m =
     seed_loop I L4 L6 config items
       (case parse_net I item of
          Inl _ \<Rightarrow> m
        | Inr net \<Rightarrow>
            (case normalize I config net of
               Inl _ \<Rightarrow> m
             | Inr net \<Rightarrow> (case maps_put I L4 L6 net m of Inl _ \<Rightarrow> m | Inr m' \<Rightarrow> m')))"

text \<open>What the kernel and Redis answer while the loader starts. The maps are pinned: loading may
  return maps that already hold entries.\<close>

record ('t4, 't6) xdp_setup =
  su_create_dir :: bool
  su_load :: "('t4, 't6) KernelMaps option"
  su_open :: bool
  su_pubsub :: bool
  su_snapshot :: "string list option"
  su_program :: bool
  su_attach :: bool

text \<open>\<open>rt_attached\<close>: the task still holds the loaded program, whose drop detaches it from the interface.\<close>

record ('n, 't4, 't6) Runtime =
  rt_maps :: "('n, 't4, 't6) Maps"
  rt_stream :: bool
  rt_attached :: bool

definition start ::
  "'n ipnet \<Rightarrow> 't4 lpm_trie \<Rightarrow> 't6 lpm_trie \<Rightarrow> ('t4, 't6) xdp_setup \<Rightarrow> 'n LoaderConfig \<Rightarrow> XdpError + ('n, 't4, 't6) Runtime" where
  "start I L4 L6 env config =
     (if \<not> su_create_dir env then Inl (SetupError ''create pin directory'')
      else case su_load env of
        None \<Rightarrow> Inl (SetupError ''load eBPF object'')
      | Some km \<Rightarrow>
          if \<not> su_open env then Inl (SetupError ''redis client'')
          else
            (let maps = \<lparr>mp_kernel = km, mp_entries = []\<rparr>;
                 (seeded, maps) = (case su_snapshot env of
                     Some items \<Rightarrow> (True, seed_loop I L4 L6 config items maps)
                   | None \<Rightarrow> (False, maps))
             in if \<not> seeded \<and> lc_fail_closed config then Inl FailClosed
                else if \<not> su_program env then Inl (SetupError ''verifier rejected XDP program'')
                else if \<not> su_attach env then Inl (SetupError ''attach XDP'')
                else Inr \<lparr>rt_maps = maps, rt_stream = su_pubsub env, rt_attached = True\<rparr>))"

text \<open>What the select loop of the task sees next; a payload that is not text is \<open>None\<close>.\<close>

datatype LoaderEvent = EvShutdown | EvTick | EvMessage "string option" | EvClosed

fun run_loop ::
  "'n ipnet \<Rightarrow> 't4 lpm_trie \<Rightarrow> 't6 lpm_trie \<Rightarrow> 'n LoaderConfig \<Rightarrow> LoaderEvent list \<Rightarrow> ('n, 't4, 't6) Runtime
     \<Rightarrow> ('n, 't4, 't6) Runtime" where
  "run_loop I L4 L6 config [] rt = rt"
| "run_loop I L4 L6 config (EvShutdown # evs) rt = rt\<lparr>rt_attached := False\<rparr>"
| "run_loop I L4 L6 config (EvTick # evs) rt = run_loop I L4 L6 config evs rt"
| "run_loop I L4 L6 config (EvClosed # evs) rt = run_loop I L4 L6 config evs (rt\<lparr>rt_stream := False\<rparr>)"
| "run_loop I L4 L6 config (EvMessage payload # evs) rt =
     run_loop I L4 L6 config evs
       (case (rt_stream rt, payload) of
          (True, Some p) \<Rightarrow>
            (case apply_event I L4 L6 config p (rt_maps rt) of Inl _ \<Rightarrow> rt | Inr maps \<Rightarrow> rt\<lparr>rt_maps := maps\<rparr>)
        | _ \<Rightarrow> rt)"

text \<open>What happens to a packet at the interface: without the program it passes.\<close>

definition interface_verdict :: "'t4 lpm_trie \<Rightarrow> 't6 lpm_trie \<Rightarrow> u8 list \<Rightarrow> ('n, 't4, 't6) Runtime \<Rightarrow> XdpAction" where
  "interface_verdict L4 L6 pkt rt =
     (if rt_attached rt then fst (radixip_xdp L4 L6 pkt (mp_kernel (rt_maps rt))) else XDP_PASS)"

lemma run_loop_attached:
  "rt_attached (run_loop I L4 L6 config evs rt) \<longleftrightarrow> rt_attached rt \<and> EvShutdown \<notin> set evs"
  by (induction I L4 L6 config evs rt rule: run_loop.induct) (auto split: bool.splits option.splits sum.splits)

section \<open>Configuration from the environment\<close>

definition env_or :: "(string \<Rightarrow> string option) \<Rightarrow> string \<Rightarrow> string \<Rightarrow> string" where
  "env_or env key fallback = (case env key of Some v \<Rightarrow> v | None \<Rightarrow> fallback)"

text \<open>\<open>str::parse::<u8>\<close>: an optional plus sign and decimal digits, at most 255.\<close>

definition parse_u8 :: "string \<Rightarrow> u8 option" where
  "parse_u8 s =
     (let ds = (case s of c # cs \<Rightarrow> if c = CHR ''+'' then cs else s | [] \<Rightarrow> []) in
      if ds = [] \<or> (\<exists>c\<in>set ds. to_digit 10 c = None) then None
      else (let v = foldl (\<lambda>acc c. acc * 10 + the (to_digit 10 c)) 0 ds in if v < 256 then Some (of_nat v) else None))"

fun parse_never_block :: "'n ipnet \<Rightarrow> string list \<Rightarrow> XdpError + 'n list" where
  "parse_never_block I [] = Inr []"
| "parse_never_block I (value # vs) =
     (if trim value = [] then parse_never_block I vs
      else (case in_from_str I (trim value) of
          None \<Rightarrow> Inl NetParseError
        | Some n \<Rightarrow> (case parse_never_block I vs of Inl e \<Rightarrow> Inl e | Inr ns \<Rightarrow> Inr (n # ns))))"

definition config_from_env :: "'n ipnet \<Rightarrow> (string \<Rightarrow> string option) \<Rightarrow> XdpError + 'n LoaderConfig option" where
  "config_from_env I env =
     (if env_or env ''RADIXIP_XDP_ENABLED'' ''false'' \<noteq> ''true'' then Inr None
      else case parse_never_block I (split_on (CHR '','') (env_or env ''RADIXIP_XDP_NEVER_BLOCK'' [])) of
        Inl e \<Rightarrow> Inl e
      | Inr never_block \<Rightarrow>
          (let mode_text = env_or env ''RADIXIP_XDP_MODE'' ''skb'';
               mode = (if mode_text = ''skb'' then Some Skb else if mode_text = ''drv'' then Some Driver else None)
           in case mode of
                None \<Rightarrow> Inl (SetupError ''unsupported RADIXIP_XDP_MODE'')
              | Some mode \<Rightarrow> Inr (Some \<lparr>
                  lc_iface = env_or env ''RADIXIP_XDP_IFACE'' ''eth0'', lc_mode = mode,
                  lc_pin_dir = env_or env ''RADIXIP_XDP_PIN_DIR'' ''/sys/fs/bpf/radixip/v1'',
                  lc_redis_url = env_or env ''RADIXIP_REDIS_URL'' ''redis://127.0.0.1:6379'',
                  lc_channel = env_or env ''RADIXIP_XDP_CHANNEL'' ''security:blocklist'',
                  lc_snapshot_key = env_or env ''RADIXIP_XDP_SNAPSHOT_KEY'' ''security:blocklist:set'',
                  lc_fail_closed = (env_or env ''RADIXIP_XDP_FAIL_CLOSED'' ''false'' = ''true''),
                  lc_min_v4 = (case parse_u8 (env_or env ''RADIXIP_XDP_MIN_V4'' ''8'') of Some v \<Rightarrow> v | None \<Rightarrow> 8),
                  lc_min_v6 = (case parse_u8 (env_or env ''RADIXIP_XDP_MIN_V6'' ''16'') of Some v \<Rightarrow> v | None \<Rightarrow> 16),
                  lc_never_block = never_block\<rparr>)))"

text \<open>The standalone loader: without a valid configuration, or when the start fails, nothing is loaded.
  Otherwise the events are handled until the signal, whose handler sends the shutdown.\<close>

definition loader_main ::
  "'n ipnet \<Rightarrow> 't4 lpm_trie \<Rightarrow> 't6 lpm_trie \<Rightarrow> ('t4, 't6) xdp_setup \<Rightarrow> (string \<Rightarrow> string option) \<Rightarrow> LoaderEvent list
     \<Rightarrow> ('n, 't4, 't6) Runtime option" where
  "loader_main I L4 L6 env vars evs =
     (case config_from_env I vars of
        Inr (Some config) \<Rightarrow>
          (case start I L4 L6 env config of
             Inr runtime \<Rightarrow> Some (run_loop I L4 L6 config (evs @ [EvShutdown]) runtime)
           | Inl _ \<Rightarrow> None)
      | _ \<Rightarrow> None)"

section \<open>What the loader keeps in the kernel\<close>

definition allowed :: "'n ipnet \<Rightarrow> 'n LoaderConfig \<Rightarrow> 'n \<Rightarrow> bool" where
  "allowed I config n \<longleftrightarrow>
     unat (if is_ipv4 (net_ip (in_net I) n) then lc_min_v4 config else lc_min_v6 config) \<le> net_prefix (in_net I) n
     \<and> (\<forall>p\<in>set (lc_never_block config). \<not> in_contains I n p \<and> \<not> in_contains I p n)"

text \<open>The networks a snapshot and the messages after it ask to block: a message adds or deletes the
  network it names, until the stream closes or the task is stopped.\<close>

definition named_net :: "'n ipnet \<Rightarrow> 'n LoaderConfig \<Rightarrow> string \<Rightarrow> 'n set" where
  "named_net I config s =
     (case parse_net I s of
        Inl _ \<Rightarrow> {}
      | Inr net \<Rightarrow> (case normalize I config net of Inl _ \<Rightarrow> {} | Inr net \<Rightarrow> {net}))"

definition message_effect :: "'n ipnet \<Rightarrow> 'n LoaderConfig \<Rightarrow> string \<Rightarrow> 'n set \<Rightarrow> 'n set" where
  "message_effect I config payload S =
     (case split_whitespace payload of
        [] \<Rightarrow> S
      | w # ws \<Rightarrow>
          if w = ''del'' then (if ws = [] then S else S - named_net I config (hd ws))
          else if w = ''add'' then (if ws = [] then S else S \<union> named_net I config (hd ws))
          else S \<union> named_net I config w)"

fun messages_effect :: "'n ipnet \<Rightarrow> 'n LoaderConfig \<Rightarrow> LoaderEvent list \<Rightarrow> 'n set \<Rightarrow> 'n set" where
  "messages_effect I config (EvTick # evs) S = messages_effect I config evs S"
| "messages_effect I config (EvMessage None # evs) S = messages_effect I config evs S"
| "messages_effect I config (EvMessage (Some p) # evs) S = messages_effect I config evs (message_effect I config p S)"
| "messages_effect I config evs S = S"

definition block_set :: "'n ipnet \<Rightarrow> 'n LoaderConfig \<Rightarrow> ('t4, 't6) xdp_setup \<Rightarrow> LoaderEvent list \<Rightarrow> 'n set" where
  "block_set I config env evs =
     (let S = (case su_snapshot env of Some items \<Rightarrow> \<Union> (named_net I config ` set items) | None \<Rightarrow> {})
      in if su_pubsub env then messages_effect I config evs S else S)"

lemma mapped_bits:
  assumes "to_ipv4_mapped a = Some b"
  shows "ip_bits (V4 b) = drop 96 (ip_bits (V6 a))"
proof (rule nth_equalityI)
  fix i assume "i < length (ip_bits (V4 b))"
  then show "ip_bits (V4 b) ! i = drop 96 (ip_bits (V6 a)) ! i"
    using assms by (auto simp: ip_bits_V4_nth ip_bits_V6_nth to_ipv4_mapped_def bit_ucast_iff split: if_splits)
qed simp

context ipnet_crate
begin

abbreviation N where "N \<equiv> in_net I"

definition truncated :: "'n \<Rightarrow> bool" where
  "truncated n \<longleftrightarrow> net_ip N n = net_network N n"

lemma truncated_eq:
  assumes "truncated a" and "truncated b" and "net_v4 N a = net_v4 N b" and "net_bits N a = net_bits N b"
  shows "a = b"
proof (rule net_ext)
  show p: "net_prefix N a = net_prefix N b" using assms(4) length_net_bits by metis
  have "is_ipv4 (net_network N a) = is_ipv4 (net_network N b)" using assms(3) by (simp add: net_v4_def)
  moreover from this have "ip_width (net_network N a) = ip_width (net_network N b)" by (rule ip_width_family)
  then have "ip_width (net_ip N a) = ip_width (net_ip N b)" using assms(1,2) by (simp add: truncated_def)
  then have "ip_bits (net_network N a) = ip_bits (net_network N b)"
    using assms(4) p unfolding net_network_bits net_bits_ip by simp
  ultimately show "net_ip N a = net_ip N b" using assms(1,2) ip_bits_inj by (simp add: truncated_def)
qed

lemma truncatedI:
  assumes "drop (net_prefix N n) (ip_bits (net_ip N n)) = replicate (ip_width (net_ip N n) - net_prefix N n) False"
  shows "truncated n"
proof -
  have "ip_bits (net_network N n) = ip_bits (net_ip N n)"
    unfolding net_network_bits assms [symmetric] by simp
  then have "net_network N n = net_ip N n" by (rule ip_bits_inj [OF net_network_family])
  then show ?thesis by (simp add: truncated_def)
qed

lemma truncated_trunc: "truncated (in_trunc I n)"
proof (rule truncatedI)
  have "net_prefix N n \<le> ip_width (net_network N n)" by (rule net_prefix_le_network)
  moreover have "ip_width (net_network N n) = ip_width (net_ip N n)" by (rule ip_width_family [OF net_network_family])
  ultimately show "drop (net_prefix N (in_trunc I n)) (ip_bits (net_ip N (in_trunc I n))) =
      replicate (ip_width (net_ip N (in_trunc I n)) - net_prefix N (in_trunc I n)) False"
    by (simp add: trunc_ip trunc_prefix net_network_bits)
qed

lemma truncated_drop:
  assumes "truncated n"
  shows "drop (net_prefix N n) (ip_bits (net_ip N n)) = replicate (ip_width (net_ip N n) - net_prefix N n) False"
proof -
  have "drop (net_prefix N n) (ip_bits (net_network N n)) = replicate (ip_width (net_ip N n) - net_prefix N n) False"
    unfolding net_network_bits using net_prefix_le [of n] by simp
  then show ?thesis using assms by (simp add: truncated_def)
qed

lemma normalize_allowed:
  assumes "normalize I config n = Inr n'"
  shows "truncated n' \<and> allowed I config n'"
proof -
  let ?t = "in_trunc I n"
  have "truncated n'"
  proof (cases "n' = ?t")
    case True
    then show ?thesis using truncated_trunc by simp
  next
    case False
    then obtain b a where m: "net_ip N ?t = V6 b" "96 \<le> net_prefix N ?t" "net_network N ?t = V6 a"
      and q: "\<exists>ad. to_ipv4_mapped a = Some ad \<and> net_new N (V4 ad) (net_prefix N ?t - 96) = Some n'"
      using assms unfolding normalize_def Let_def
      by (auto split: IpAddr.splits if_splits option.splits sum.splits)
    then obtain ad where ad: "to_ipv4_mapped a = Some ad" "net_new N (V4 ad) (net_prefix N ?t - 96) = Some n'" by blast
    have n': "net_ip N n' = V4 ad" "net_prefix N n' = net_prefix N ?t - 96" using net_new_Some [OF ad(2)] by simp_all
    have ab: "a = b" using truncated_trunc [of n] m(1,3) by (simp add: truncated_def)
    have "drop (net_prefix N ?t) (ip_bits (V6 a)) = replicate (128 - net_prefix N ?t) False"
      using truncated_drop [OF truncated_trunc, of n] m(1) ab by simp
    then have "drop (net_prefix N n') (ip_bits (V4 ad)) = replicate (32 - net_prefix N n') False"
      unfolding mapped_bits [OF ad(1)] n'(2) using m(2) by simp
    then show ?thesis using n'(1) by (intro truncatedI) simp
  qed
  moreover have "allowed I config n'"
    using assms unfolding normalize_def Let_def allowed_def
    by (auto simp: not_less split: IpAddr.splits if_splits option.splits sum.splits)
  ultimately show ?thesis by blast
qed

end

locale xdp_loader = ipnet_crate I + v4: lpm_trie_map L4 c4 + v6: lpm_trie_map L6 c6
  for I :: "'n ipnet" and L4 :: "'t4 lpm_trie" and c4 and L6 :: "'t6 lpm_trie" and c6
begin

text \<open>The kernel maps hold the entries and nothing else, and every entry may be blocked.\<close>

definition loader_inv :: "'n LoaderConfig \<Rightarrow> ('n, 't4, 't6) Maps \<Rightarrow> bool" where
  "loader_inv config m \<longleftrightarrow>
     (\<forall>n\<in>set (mp_entries m). truncated n \<and> allowed I config n)
     \<and> (\<forall>k. c4 (km_v4 (mp_kernel m)) k = (if \<exists>n\<in>set (mp_entries m). net_v4 N n \<and> net_bits N n = k then Some 1 else None))
     \<and> (\<forall>k. c6 (km_v6 (mp_kernel m)) k = (if \<exists>n\<in>set (mp_entries m). \<not> net_v4 N n \<and> net_bits N n = k then Some 1 else None))"

lemma key_bits: "bits_of_bytes (octets (net_network N n)) (net_prefix N n) = net_bits N n"
  using net_prefix_le_network [of n] by (simp add: net_bits_def ip_bits_def take_bits_of_bytes)

lemma ip_v4: "is_ipv4 (net_ip N n) = net_v4 N n"
  by (simp add: net_v4_def net_network_family)

lemma put_inv:
  assumes "loader_inv config m" and "truncated n" and "allowed I config n" and "maps_put I L4 L6 n m = Inr m'"
  shows "loader_inv config m' \<and> set (mp_entries m') = insert n (set (mp_entries m))"
proof (cases "net_v4 N n")
  case True
  then obtain t where t: "lt_insert L4 (net_prefix N n) (octets (net_network N n)) 1 (km_v4 (mp_kernel m)) = Some t"
    and m': "m' = m\<lparr>mp_kernel := (mp_kernel m)\<lparr>km_v4 := t\<rparr>, mp_entries := List.insert n (mp_entries m)\<rparr>"
    using assms(4) by (auto simp: maps_put_def Let_def ip_v4 split: option.splits)
  have c: "c4 t = (c4 (km_v4 (mp_kernel m)))(net_bits N n \<mapsto> 1)" using v4.insert_content [OF t] by (simp add: key_bits)
  show ?thesis using assms(1-3) True unfolding loader_inv_def m' by (auto simp: c)
next
  case False
  then obtain t where t: "lt_insert L6 (net_prefix N n) (octets (net_network N n)) 1 (km_v6 (mp_kernel m)) = Some t"
    and m': "m' = m\<lparr>mp_kernel := (mp_kernel m)\<lparr>km_v6 := t\<rparr>, mp_entries := List.insert n (mp_entries m)\<rparr>"
    using assms(4) by (auto simp: maps_put_def Let_def ip_v4 split: option.splits)
  have c: "c6 t = (c6 (km_v6 (mp_kernel m)))(net_bits N n \<mapsto> 1)" using v6.insert_content [OF t] by (simp add: key_bits)
  show ?thesis using assms(1-3) False unfolding loader_inv_def m' by (auto simp: c)
qed

lemma delete_inv:
  assumes "loader_inv config m" and "truncated n"
  shows "loader_inv config (maps_delete I L4 L6 n m)"
proof -
  have only: "x = n" if "x \<in> set (mp_entries m)" "net_v4 N x = net_v4 N n" "net_bits N x = net_bits N n" for x
    using assms that truncated_eq [of x n] by (simp add: loader_inv_def)
  show ?thesis
  proof (cases "net_v4 N n")
    case True
    then show ?thesis using assms(1) only unfolding loader_inv_def maps_delete_def Let_def
      by (auto simp: v4.remove_content key_bits ip_v4)
  next
    case False
    then show ?thesis using assms(1) only unfolding loader_inv_def maps_delete_def Let_def
      by (auto simp: v6.remove_content key_bits ip_v4)
  qed
qed

lemma delete_entries: "set (mp_entries (maps_delete I L4 L6 n m)) = set (mp_entries m) - {n}"
  by (simp add: maps_delete_def Let_def)

lemma entries_length:
  "maps_put I L4 L6 n m = Inr m' \<Longrightarrow> length (mp_entries m') \<le> Suc (length (mp_entries m))"
  "length (mp_entries (maps_delete I L4 L6 n m)) \<le> length (mp_entries m)"
  by (auto simp: maps_put_def maps_delete_def Let_def List.insert_def length_removeAll_less_eq split: option.splits)

lemma put_room:
  assumes "loader_inv config m" and "length (mp_entries m) < MAX_ENTRIES"
  obtains m' where "maps_put I L4 L6 n m = Inr m'"
proof -
  have room: "finite (dom f) \<and> card (dom f) < MAX_ENTRIES"
    if "\<forall>k. f k = (if \<exists>n\<in>set (mp_entries m). Q n \<and> net_bits N n = k then Some 1 else None)"
    for f :: "bool list \<Rightarrow> u8 option" and Q
  proof -
    have "dom f = net_bits N ` set (filter Q (mp_entries m))" using that by (auto simp: dom_def)
    moreover have "card (net_bits N ` set (filter Q (mp_entries m))) \<le> length (mp_entries m)"
      by (meson card_image_le card_length finite_set le_trans length_filter_le)
    ultimately show ?thesis using assms(2) by simp
  qed
  have len: "net_prefix N n \<le> 8 * length (octets (net_network N n))"
    using net_prefix_le_network [of n] by (cases "net_network N n") simp_all
  have "\<exists>t. lt_insert L4 (net_prefix N n) (octets (net_network N n)) 1 (km_v4 (mp_kernel m)) = Some t"
    using v4.insert_room [OF len] room [of "c4 (km_v4 (mp_kernel m))" "net_v4 N"] assms(1) by (simp add: loader_inv_def)
  moreover have "\<exists>t. lt_insert L6 (net_prefix N n) (octets (net_network N n)) 1 (km_v6 (mp_kernel m)) = Some t"
    using v6.insert_room [OF len] room [of "c6 (km_v6 (mp_kernel m))" "\<lambda>n. \<not> net_v4 N n"] assms(1) by (simp add: loader_inv_def)
  ultimately show thesis using that by (cases "is_ipv4 (net_ip N n)") (auto simp: maps_put_def Let_def)
qed


text \<open>What adding or deleting a named network, a message and a run do to the entries.\<close>

definition grows_to :: "'n LoaderConfig \<Rightarrow> ('n, 't4, 't6) Maps \<Rightarrow> ('n, 't4, 't6) Maps \<Rightarrow> 'n set \<Rightarrow> bool" where
  "grows_to config m m' S \<longleftrightarrow> loader_inv config m' \<and> set (mp_entries m') = S \<and> length (mp_entries m') \<le> Suc (length (mp_entries m))"

lemma add_named:
  assumes "loader_inv config m" and "length (mp_entries m) < MAX_ENTRIES"
  shows "grows_to config m (case parse_net I s of Inl _ \<Rightarrow> m | Inr net \<Rightarrow> (case normalize I config net of Inl _ \<Rightarrow> m
    | Inr net \<Rightarrow> (case maps_put I L4 L6 net m of Inl _ \<Rightarrow> m | Inr m' \<Rightarrow> m'))) (set (mp_entries m) \<union> named_net I config s)"
proof -
  have "grows_to config m (case maps_put I L4 L6 n m of Inl _ \<Rightarrow> m | Inr m' \<Rightarrow> m') (insert n (set (mp_entries m)))"
    if "normalize I config net = Inr n" for net n
  proof -
    obtain m' where m': "maps_put I L4 L6 n m = Inr m'" using put_room [OF assms] by blast
    then show ?thesis using put_inv [OF assms(1) _ _ m'] normalize_allowed [OF that] entries_length(1) [OF m']
      by (simp add: grows_to_def)
  qed
  then show ?thesis using assms(1) by (auto simp: named_net_def grows_to_def split: sum.split)
qed

lemma delete_named:
  assumes "loader_inv config m"
  shows "grows_to config m (case parse_net I s of Inl _ \<Rightarrow> m | Inr net \<Rightarrow> (case normalize I config net of Inl _ \<Rightarrow> m
    | Inr net \<Rightarrow> maps_delete I L4 L6 net m)) (set (mp_entries m) - named_net I config s)"
proof -
  have "grows_to config m (maps_delete I L4 L6 n m) (set (mp_entries m) - {n})" if "normalize I config net = Inr n" for net n
    using delete_inv [OF assms] normalize_allowed [OF that] delete_entries le_SucI [OF entries_length(2)]
    by (simp add: grows_to_def)
  then show ?thesis using assms by (auto simp: named_net_def grows_to_def split: sum.split)
qed

lemma event_entries:
  assumes "loader_inv config m" and "length (mp_entries m) < MAX_ENTRIES"
  shows "grows_to config m (case apply_event I L4 L6 config payload m of Inl _ \<Rightarrow> m | Inr m' \<Rightarrow> m')
    (message_effect I config payload (set (mp_entries m)))"
proof -
  have same: "grows_to config m m (set (mp_entries m))" using assms(1) by (simp add: grows_to_def)
  show ?thesis
  proof (cases "split_whitespace payload")
    case (Cons w ws)
    have "grows_to config m (case apply_event I L4 L6 config payload m of Inl _ \<Rightarrow> m | Inr m' \<Rightarrow> m')
        (set (mp_entries m) \<union> named_net I config c)"
      if "w = ''add'' \<and> ws \<noteq> [] \<and> c = hd ws \<or> w \<noteq> ''add'' \<and> w \<noteq> ''del'' \<and> c = w" for c
      using add_named [OF assms, of c] that Cons by (auto simp: apply_event_def neq_Nil_conv split: sum.splits)
    moreover have "grows_to config m (case apply_event I L4 L6 config payload m of Inl _ \<Rightarrow> m | Inr m' \<Rightarrow> m')
        (set (mp_entries m) - named_net I config (hd ws))" if "w = ''del''" "ws \<noteq> []"
      using delete_named [OF assms(1), of "hd ws"] that Cons by (auto simp: apply_event_def neq_Nil_conv split: sum.splits)
    ultimately show ?thesis using Cons same by (auto simp: message_effect_def apply_event_def)
  qed (use same in \<open>simp add: message_effect_def apply_event_def\<close>)
qed

lemma seed_entries:
  assumes "loader_inv config m" and "length (mp_entries m) + length items \<le> MAX_ENTRIES"
  shows "loader_inv config (seed_loop I L4 L6 config items m)
    \<and> set (mp_entries (seed_loop I L4 L6 config items m)) = set (mp_entries m) \<union> \<Union> (named_net I config ` set items)
    \<and> length (mp_entries (seed_loop I L4 L6 config items m)) \<le> length (mp_entries m) + length items"
  using assms
proof (induction items arbitrary: m)
  case (Cons item items)
  have "length (mp_entries m) < MAX_ENTRIES" using Cons.prems(2) by simp
  from add_named [OF Cons.prems(1) this, of item] show ?case
    using Cons.IH [of "case parse_net I item of Inl _ \<Rightarrow> m | Inr net \<Rightarrow> (case normalize I config net of Inl _ \<Rightarrow> m
      | Inr net \<Rightarrow> (case maps_put I L4 L6 net m of Inl _ \<Rightarrow> m | Inr m' \<Rightarrow> m'))"] Cons.prems(2)
    by (auto simp: grows_to_def)
qed simp

lemma run_entries:
  assumes "loader_inv config (rt_maps rt)" and "length (mp_entries (rt_maps rt)) + length evs \<le> MAX_ENTRIES"
  shows "loader_inv config (rt_maps (run_loop I L4 L6 config evs rt))
    \<and> set (mp_entries (rt_maps (run_loop I L4 L6 config evs rt)))
        = (if rt_stream rt then messages_effect I config evs (set (mp_entries (rt_maps rt))) else set (mp_entries (rt_maps rt)))"
  using assms
proof (induction evs arbitrary: rt)
  case (Cons ev evs)
  show ?case
  proof (cases "\<exists>p. ev = EvMessage (Some p) \<and> rt_stream rt")
    case True
    then obtain p where p: "ev = EvMessage (Some p)" "rt_stream rt" by blast
    let ?m = "case apply_event I L4 L6 config p (rt_maps rt) of Inl _ \<Rightarrow> rt_maps rt | Inr m \<Rightarrow> m"
    have "run_loop I L4 L6 config (ev # evs) rt = run_loop I L4 L6 config evs (rt\<lparr>rt_maps := ?m\<rparr>)"
      using p by (simp split: sum.split)
    moreover have "grows_to config (rt_maps rt) ?m (message_effect I config p (set (mp_entries (rt_maps rt))))"
      using event_entries [OF Cons.prems(1)] Cons.prems(2) by simp
    ultimately show ?thesis using Cons.IH [of "rt\<lparr>rt_maps := ?m\<rparr>"] Cons.prems(2) p by (simp add: grows_to_def)
  next
    case False
    with Cons.IH [of rt] Cons.IH [of "rt\<lparr>rt_stream := False\<rparr>"] Cons.prems show ?thesis
    proof (cases ev)
      case (EvMessage q)
      with False Cons.IH [of rt] Cons.prems show ?thesis by (cases "rt_stream rt"; cases q) simp_all
    qed simp_all
  qed
qed simp

text \<open>A loader started on empty maps blocks what the snapshot and the messages ask for.\<close>

lemma loader_entries:
  assumes "start I L4 L6 env config = Inr rt" and "su_load env = Some k" and "c4 (km_v4 k) = Map.empty" and "c6 (km_v6 k) = Map.empty"
    and "(case su_snapshot env of Some items \<Rightarrow> length items | None \<Rightarrow> 0) + length evs \<le> MAX_ENTRIES"
  shows "loader_inv config (rt_maps (run_loop I L4 L6 config evs rt))
    \<and> set (mp_entries (rt_maps (run_loop I L4 L6 config evs rt))) = block_set I config env evs
    \<and> rt_attached rt"
proof -
  let ?m = "\<lparr>mp_kernel = k, mp_entries = []\<rparr>"
  let ?items = "case su_snapshot env of Some items \<Rightarrow> items | None \<Rightarrow> []"
  have inv: "loader_inv config ?m" using assms(3,4) by (simp add: loader_inv_def)
  have rt: "rt = \<lparr>rt_maps = seed_loop I L4 L6 config ?items ?m, rt_stream = su_pubsub env, rt_attached = True\<rparr>"
    using assms(1,2) by (auto simp: start_def Let_def split: if_splits option.splits)
  have len: "length ?items + length evs \<le> MAX_ENTRIES" using assms(5) by (simp split: option.splits)
  with seed_entries [OF inv, of ?items] run_entries [of config rt evs] show ?thesis
    by (auto simp: rt block_set_def split: option.splits)
qed

text \<open>The kernel program finds an address exactly when an entry contains it.\<close>

lemma hit_iff:
  assumes "loader_inv config m"
  shows "kernel_hit L4 L6 (mp_kernel m) ip \<longleftrightarrow> (\<exists>n\<in>set (mp_entries m). net_contains N n ip)"
proof -
  define f where "f = (case ip of V4 _ \<Rightarrow> c4 (km_v4 (mp_kernel m)) | V6 _ \<Rightarrow> c6 (km_v6 (mp_kernel m)))"
  have f: "f k = (if \<exists>n\<in>set (mp_entries m). net_v4 N n = is_ipv4 ip \<and> net_bits N n = k then Some 1 else None)" for k
    using assms by (cases ip) (simp_all add: f_def loader_inv_def)
  have "kernel_hit L4 L6 (mp_kernel m) ip \<longleftrightarrow> (\<exists>v. longest_value f (ip_bits ip) = Some v \<and> v \<noteq> 0)"
    by (cases ip) (auto simp: kernel_hit_def f_def v4.get_content v6.get_content ip_bits_def split: option.split)
  also have "\<dots> \<longleftrightarrow> longest_value f (ip_bits ip) \<noteq> None"
  proof -
    have "v = 1" if v: "longest_value f (ip_bits ip) = Some v" for v
    proof -
      obtain k where "f k = Some v" using longest_from_range [OF v [unfolded longest_value_def]] by blast
      then show ?thesis using f [of k] by (simp split: if_splits)
    qed
    then show ?thesis by (auto simp: neq0_conv)
  qed
  also have "\<dots> \<longleftrightarrow> (\<exists>n\<in>set (mp_entries m). net_contains N n ip)"
    unfolding longest_value_None by (auto simp: f net_contains_prefix)
  finally show ?thesis .
qed

lemma protected_passes:
  assumes "loader_inv config m" and "p \<in> set (lc_never_block config)" and "net_contains N p ip"
  shows "\<not> kernel_hit L4 L6 (mp_kernel m) ip"
proof
  assume "kernel_hit L4 L6 (mp_kernel m) ip"
  then obtain n where n: "n \<in> set (mp_entries m)" "net_contains N n ip" using hit_iff [OF assms(1)] by blast
  have "\<not> in_contains I n p" "\<not> in_contains I p n" using assms(1,2) n(1) by (auto simp: loader_inv_def allowed_def)
  moreover have "prefix (net_bits N n) (net_bits N p) \<or> prefix (net_bits N p) (net_bits N n)"
    using n(2) assms(3) prefix_same_cases by (auto simp: net_contains_prefix)
  ultimately show False using n(2) assms(3) by (auto simp: contains_net net_contains_prefix)
qed

end

section \<open>Maps and networks that meet the contracts\<close>

text \<open>A map with that room, searched for the longest key.\<close>

definition bit_trie :: "(bool list \<times> u8) list lpm_trie" where
  "bit_trie = \<lparr>
     lt_insert = (\<lambda>p a v t. if bits_of_bytes a p \<notin> fst ` set t \<and> MAX_ENTRIES \<le> card (fst ` set t) then None
       else Some (AList.update (bits_of_bytes a p) v t)),
     lt_remove = (\<lambda>p a t. (bits_of_bytes a p \<in> fst ` set t, AList.delete (bits_of_bytes a p) t)),
     lt_get = (\<lambda>p a t. longest_value (map_of t) (bits_of_bytes a p))\<rparr>"

interpretation bit_trie: lpm_trie_map bit_trie map_of
  by unfold_locales (auto simp: bit_trie_def update_conv' delete_conv' dom_map_of_conv_image_fst split: if_splits)

definition cidr_parse :: "string \<Rightarrow> cidr option" where
  "cidr_parse s =
     (case split_on (CHR ''/'') s of
        [a, l] \<Rightarrow>
          (case (parse_ip a, parse_u8 l) of
             (Some ip, Some p) \<Rightarrow> cidr_new ip (unat p)
           | _ \<Rightarrow> None)
      | _ \<Rightarrow> None)"

definition cidr_ipnet :: "cidr ipnet" where
  "cidr_ipnet = \<lparr>in_net = cidr_ops,
     in_trunc = (\<lambda>c. cidr_of (cidr_network c) (cidr_prefix c)),
     in_contains = (\<lambda>a b. net_v4 cidr_ops a = net_v4 cidr_ops b \<and> prefix (net_bits cidr_ops a) (net_bits cidr_ops b)),
     in_from_str = cidr_parse, in_from_ip = (\<lambda>ip. cidr_of ip (ip_width ip))\<rparr>"

interpretation cidr_net: ipnet_crate cidr_ipnet
proof -
  have w: "cidr_prefix c \<le> ip_width (cidr_network c)" for c
    using cidr.net_prefix_le_network [of c] by (simp add: cidr_ops_def)
  have "ipnetwork (in_net cidr_ipnet)" using cidr.ipnetwork_axioms by (simp add: cidr_ipnet_def)
  moreover have "ipnet_crate_axioms cidr_ipnet"
    by (rule ipnet_crate_axioms.intro) (simp_all add: cidr_ipnet_def cidr_ops_def w)
  ultimately show "ipnet_crate cidr_ipnet" by (rule ipnet_crate.intro)
qed

interpretation xdp_cidr: xdp_loader cidr_ipnet bit_trie map_of bit_trie map_of
  by (intro xdp_loader.intro cidr_net.ipnet_crate_axioms bit_trie.lpm_trie_map_axioms)

end
