(* ===== verification/MapOrder.thy ===== *)
theory MapOrder
  imports Types "HOL-Library.Char_ord" "HOL-Library.List_Lexorder"
begin

text \<open>
  Iteration over a \<open>HashMap\<close>: the standard library leaves the order open, so the list of entries is an
  argument of the code that iterates; it holds every entry once.
\<close>

locale map_order =
  fixes entries :: "(string \<rightharpoonup> string) \<Rightarrow> (string \<times> string) list"
  assumes entries_distinct: "finite (dom a) \<Longrightarrow> distinct (map fst (entries a))"
    and entries_map: "finite (dom a) \<Longrightarrow> map_of (entries a) = a"

lemma foldl_with_attribute:
  "foldl (\<lambda>meta (k, v). with_attribute meta k v) md kvs = md\<lparr>md_attributes := md_attributes md ++ map_of (rev kvs)\<rparr>"
  by (induction kvs arbitrary: md) (auto simp: with_attribute_def map_add_def fun_eq_iff split: option.split)

lemma map_of_rev_distinct: "distinct (map fst kvs) \<Longrightarrow> map_of (rev kvs) = map_of kvs"
  by (subst map_of_inject_set) (simp_all flip: rev_map)

context map_order
begin

text \<open>Copying the attributes one by one gives them back.\<close>

lemma copy_attributes:
  assumes "finite (dom a)"
  shows "foldl (\<lambda>meta (k, v). with_attribute meta k v) (Metadata_new v) (entries a) = \<lparr>md_value = v, md_attributes = a\<rparr>"
  using assms by (simp add: foldl_with_attribute Metadata_new_def map_of_rev_distinct entries_distinct entries_map)

end

definition sorted_entries :: "(string \<rightharpoonup> string) \<Rightarrow> (string \<times> string) list" where
  "sorted_entries a = map (\<lambda>k. (k, the (a k))) (sorted_list_of_set (dom a))"

interpretation by_key: map_order sorted_entries
proof
  fix a :: "string \<rightharpoonup> string" assume fin: "finite (dom a)"
  show "distinct (map fst (sorted_entries a))" by (simp add: sorted_entries_def comp_def)
  show "map_of (sorted_entries a) = a"
  proof
    fix k
    have "map_of (map (\<lambda>k. (k, the (a k))) ks) k = (if k \<in> set ks then Some (the (a k)) else None)" for ks
      by (induction ks) auto
    then show "map_of (sorted_entries a) k = a k" using fin by (auto simp: sorted_entries_def domIff)
  qed
qed

end
