(* ===== verification/GrpcServer.thy ===== *)
theory GrpcServer
  imports Routeless XdpLoader MapOrder
begin

text \<open>
  The Rust gRPC server (\<open>cmd/grpc-server-rust/src/main.rs\<close>): the service over its engine with the
  metrics it exports, the packet filter it may start, and the policy interceptor in front of it, which
  has an engine of its own. The parser of the \<open>ipnetwork\<close> crate, the text of its errors and the order
  in which a \<open>HashMap\<close> is iterated are arguments; counters are natural numbers, and the gauge holds the
  size before its conversion to a float. \<open>None\<close> is a panic.
\<close>

section \<open>Service\<close>

record InsertRequest =
  iq_prefix :: string
  iq_metadata :: "Metadata option"

record InsertResponse =
  ip_success :: bool
  ip_is_new :: bool
  ip_error_message :: string

record LookupResponse =
  lp_found :: bool
  lp_metadata :: "Metadata option"

record StatsResponse =
  sp_inserts :: "64 word"
  sp_lookups :: "64 word"
  sp_hits :: "64 word"
  sp_misses :: "64 word"
  sp_removals :: "64 word"
  sp_size :: "64 word"

text \<open>The exported metrics: counters by label, the gauge, and how often a duration was observed.\<close>

record Metrics =
  mx_lookups_hit :: nat
  mx_lookups_miss :: nat
  mx_lookups_invalid :: nat
  mx_inserts_success :: nat
  mx_inserts_error :: nat
  mx_removals :: nat
  mx_durations :: nat
  mx_active_routes :: usize

definition Metrics_new :: Metrics where
  "Metrics_new = \<lparr>mx_lookups_hit = 0, mx_lookups_miss = 0, mx_lookups_invalid = 0, mx_inserts_success = 0, mx_inserts_error = 0,
     mx_removals = 0, mx_durations = 0, mx_active_routes = 0\<rparr>"

record 'n RadixServiceImpl =
  sv_engine :: "'n EngineWrapper"
  sv_metrics :: Metrics

definition RadixServiceImpl_new :: "Host \<Rightarrow> 'n RadixServiceImpl" where
  "RadixServiceImpl_new host = \<lparr>sv_engine = EngineWrapper_new host Standard NV_AtomicRadixNode True None, sv_metrics = Metrics_new\<rparr>"

text \<open>What the service uses of the crates: parsing a network, the text of a parse error, and the
  entries of a map in iteration order.\<close>

record 'n service_env =
  sx_parse :: "string \<Rightarrow> 'n option"
  sx_parse_error :: "string \<Rightarrow> string"
  sx_entries :: "(string \<rightharpoonup> string) \<Rightarrow> (string \<times> string) list"

definition request_metadata :: "'n service_env \<Rightarrow> InsertRequest \<Rightarrow> Metadata" where
  "request_metadata V req =
     (let meta = Metadata_new (case iq_metadata req of Some m \<Rightarrow> md_value m | None \<Rightarrow> [])
      in case iq_metadata req of
           Some m \<Rightarrow> foldl (\<lambda>meta (k, v). with_attribute meta k v) meta (sx_entries V (md_attributes m))
         | None \<Rightarrow> meta)"

definition service_insert ::
  "'n ipnet_ops \<Rightarrow> Isa \<Rightarrow> 'n service_env \<Rightarrow> InsertRequest \<Rightarrow> 'n RadixServiceImpl \<Rightarrow> (InsertResponse \<times> 'n RadixServiceImpl) option" where
  "service_insert N isa V req s =
     (let m = sv_metrics s in
      case sx_parse V (iq_prefix req) of
        None \<Rightarrow> Some (\<lparr>ip_success = False, ip_is_new = False, ip_error_message = sx_parse_error V (iq_prefix req)\<rparr>,
          s\<lparr>sv_metrics := m\<lparr>mx_inserts_error := mx_inserts_error m + 1\<rparr>\<rparr>)
      | Some pfx \<Rightarrow>
          (case wrapper_insert N isa pfx (request_metadata V req) (sv_engine s) of
             None \<Rightarrow> None
           | Some (Inr _, e) \<Rightarrow>
               Some (\<lparr>ip_success = True, ip_is_new = True, ip_error_message = []\<rparr>,
                 s\<lparr>sv_engine := e, sv_metrics := m\<lparr>mx_inserts_success := mx_inserts_success m + 1, mx_active_routes := wrapper_size e\<rparr>\<rparr>)
           | Some (Inl err, e) \<Rightarrow>
               Some (\<lparr>ip_success = False, ip_is_new = False, ip_error_message = err\<rparr>,
                 s\<lparr>sv_engine := e, sv_metrics := m\<lparr>mx_inserts_error := mx_inserts_error m + 1\<rparr>\<rparr>)))"

definition service_lookup ::
  "'n ipnet_ops \<Rightarrow> Isa \<Rightarrow> string \<Rightarrow> 'n RadixServiceImpl \<Rightarrow> (LookupResponse \<times> 'n RadixServiceImpl) option" where
  "service_lookup N isa text s =
     (let m = (sv_metrics s)\<lparr>mx_durations := mx_durations (sv_metrics s) + 1\<rparr> in
      case parse_ip text of
        None \<Rightarrow> Some (\<lparr>lp_found = False, lp_metadata = None\<rparr>, s\<lparr>sv_metrics := m\<lparr>mx_lookups_invalid := mx_lookups_invalid m + 1\<rparr>\<rparr>)
      | Some ip \<Rightarrow>
          (case wrapper_lookup N isa ip (sv_engine s) of
             None \<Rightarrow> None
           | Some (Some meta, e) \<Rightarrow> Some (\<lparr>lp_found = True, lp_metadata = Some meta\<rparr>,
               s\<lparr>sv_engine := e, sv_metrics := m\<lparr>mx_lookups_hit := mx_lookups_hit m + 1\<rparr>\<rparr>)
           | Some (None, e) \<Rightarrow> Some (\<lparr>lp_found = False, lp_metadata = None\<rparr>,
               s\<lparr>sv_engine := e, sv_metrics := m\<lparr>mx_lookups_miss := mx_lookups_miss m + 1\<rparr>\<rparr>)))"

definition service_remove ::
  "'n ipnet_ops \<Rightarrow> Isa \<Rightarrow> 'n service_env \<Rightarrow> string \<Rightarrow> 'n RadixServiceImpl \<Rightarrow> (LookupResponse \<times> 'n RadixServiceImpl) option" where
  "service_remove N isa V text s =
     (let m = sv_metrics s in
      case sx_parse V text of
        None \<Rightarrow> Some (\<lparr>lp_found = False, lp_metadata = None\<rparr>, s)
      | Some pfx \<Rightarrow>
          (case wrapper_remove N isa pfx (sv_engine s) of
             None \<Rightarrow> None
           | Some (Some meta, e) \<Rightarrow> Some (\<lparr>lp_found = True, lp_metadata = Some meta\<rparr>,
               s\<lparr>sv_engine := e, sv_metrics := m\<lparr>mx_removals := mx_removals m + 1, mx_active_routes := wrapper_size e\<rparr>\<rparr>)
           | Some (None, e) \<Rightarrow> Some (\<lparr>lp_found = False, lp_metadata = None\<rparr>, s\<lparr>sv_engine := e\<rparr>)))"

definition service_contains :: "'n ipnet_ops \<Rightarrow> Isa \<Rightarrow> 'n service_env \<Rightarrow> string \<Rightarrow> 'n RadixServiceImpl \<Rightarrow> bool" where
  "service_contains N isa V text s =
     (case sx_parse V text of None \<Rightarrow> False | Some pfx \<Rightarrow> wrapper_contains N isa pfx (sv_engine s))"

definition service_clear :: "'n ipnet_ops \<Rightarrow> 'n RadixServiceImpl \<Rightarrow> 'n RadixServiceImpl option" where
  "service_clear N s =
     map_option (\<lambda>e. s\<lparr>sv_engine := e, sv_metrics := (sv_metrics s)\<lparr>mx_active_routes := 0\<rparr>\<rparr>) (wrapper_clear N (sv_engine s))"

text \<open>The casts to \<open>i64\<close> keep the bits.\<close>

definition service_get_stats :: "'n RadixServiceImpl \<Rightarrow> StatsResponse" where
  "service_get_stats s =
     (let stats = wrapper_stats (sv_engine s) in
      \<lparr>sp_inserts = st_inserts stats, sp_lookups = st_lookups stats, sp_hits = st_hits stats, sp_misses = st_misses stats,
       sp_removals = st_removals stats, sp_size = st_size stats\<rparr>)"

text \<open>The loop over a stream, with the number of inserted networks.\<close>

fun stream_loop ::
  "'n ipnet_ops \<Rightarrow> Isa \<Rightarrow> 'n service_env \<Rightarrow> InsertRequest list \<Rightarrow> u64 \<Rightarrow> 'n EngineWrapper \<Rightarrow> (u64 \<times> 'n EngineWrapper) option" where
  "stream_loop N isa V [] count e = Some (count, e)"
| "stream_loop N isa V (req # reqs) count e =
     (case sx_parse V (iq_prefix req) of
        None \<Rightarrow> stream_loop N isa V reqs count e
      | Some pfx \<Rightarrow>
          (case wrapper_insert N isa pfx (request_metadata V req) e of
             None \<Rightarrow> None
           | Some (Inr _, e) \<Rightarrow> stream_loop N isa V reqs (count + 1) e
           | Some (Inl _, e) \<Rightarrow> stream_loop N isa V reqs count e))"

text \<open>A stream delivers messages and then ends or fails; after a failure the gauge is not set.\<close>

definition service_stream_insert ::
  "'n ipnet_ops \<Rightarrow> Isa \<Rightarrow> 'n service_env \<Rightarrow> InsertRequest list \<Rightarrow> bool \<Rightarrow> 'n RadixServiceImpl
     \<Rightarrow> (u64 option \<times> 'n RadixServiceImpl) option" where
  "service_stream_insert N isa V reqs failed s =
     (case stream_loop N isa V reqs 0 (sv_engine s) of
        None \<Rightarrow> None
      | Some (count, e) \<Rightarrow>
          if failed then Some (None, s\<lparr>sv_engine := e\<rparr>)
          else Some (Some count, s\<lparr>sv_engine := e, sv_metrics := (sv_metrics s)\<lparr>mx_active_routes := wrapper_size e\<rparr>\<rparr>))"

section \<open>Start\<close>

fun parse_all :: "(string \<Rightarrow> 'a option) \<Rightarrow> string list \<Rightarrow> 'a list option" where
  "parse_all f [] = Some []"
| "parse_all f (t # ts) = (case f t of None \<Rightarrow> None | Some x \<Rightarrow> map_option ((#) x) (parse_all f ts))"

definition start_embedded_xdp ::
  "'m ipnet \<Rightarrow> 't4 lpm_trie \<Rightarrow> 't6 lpm_trie \<Rightarrow> ('t4, 't6) xdp_setup \<Rightarrow> (string \<Rightarrow> string option) \<Rightarrow> 'n RadixIpConfig
     \<Rightarrow> ('m, 't4, 't6) Runtime option" where
  "start_embedded_xdp I L4 L6 env var config =
     (let xdp = root_xdp (radixip config) in
      if \<not> xc_enabled xdp then None
      else case (if xc_mode xdp = ''skb'' then Some Skb else if xc_mode xdp = ''drv'' then Some Driver else None) of
        None \<Rightarrow> None
      | Some mode \<Rightarrow>
          (case parse_all (in_from_str I) (xc_never_block xdp) of
             None \<Rightarrow> None
           | Some never_block \<Rightarrow>
               (case start I L4 L6 env \<lparr>
                    lc_iface = xc_interface xdp, lc_mode = mode, lc_pin_dir = xc_pin_dir xdp,
                    lc_redis_url = (case var ''RADIXIP_XDP_REDIS_URL'' of Some u \<Rightarrow> u
                      | None \<Rightarrow> (case var ''REDIS_URL'' of Some u \<Rightarrow> u | None \<Rightarrow> xr_url (xc_redis xdp))),
                    lc_channel = xr_channel (xc_redis xdp), lc_snapshot_key = xr_snapshot_key (xc_redis xdp),
                    lc_fail_closed = xc_fail_closed xdp, lc_min_v4 = xc_min_v4_prefix xdp, lc_min_v6 = xc_min_v6_prefix xdp,
                    lc_never_block = never_block\<rparr> of
                  Inr runtime \<Rightarrow> Some runtime
                | Inl _ \<Rightarrow> None)))"

text \<open>The policy in front of the service: the watched state, the interceptor's tracker and the engine it
  looks addresses up in.\<close>

record ('n, 'c, 'v, 'b) Interceptor =
  ic_state :: "('n, 'c, 'v, 'b) PolicyState"
  ic_tracker :: "('v, 'b) AutoBanTracker option"
  ic_engine :: "'n EngineWrapper"

record ('n, 'c, 'v, 'b) GrpcServer =
  gs_service :: "'n RadixServiceImpl"
  gs_interceptor :: "('n, 'c, 'v, 'b) Interceptor option"

text \<open>The part of \<open>main\<close> that builds the server. \<open>path_exists\<close> is the test on the configuration file.\<close>

definition config_path :: "(string \<Rightarrow> string option) \<Rightarrow> string" where
  "config_path var =
     (case var ''RADIXIP_CONFIG'' of Some p \<Rightarrow> p
      | None \<Rightarrow> (case var ''CONFIG_PATH'' of Some p \<Rightarrow> p | None \<Rightarrow> ''radixip.yaml''))"

text \<open>The packet filter of the configuration, where there is one.\<close>

definition sidecar_runtime ::
  "'m ipnet \<Rightarrow> 't4 lpm_trie \<Rightarrow> 't6 lpm_trie \<Rightarrow> ('t4, 't6) xdp_setup \<Rightarrow> (string \<Rightarrow> string option) \<Rightarrow> (string \<Rightarrow> string + string)
     \<Rightarrow> (string \<Rightarrow> string + 'n RadixIpConfig) \<Rightarrow> ('m, 't4, 't6) Runtime option" where
  "sidecar_runtime I L4 L6 env var read_to_string from_str =
     (case config_from_file read_to_string from_str (config_path var) of
        Inr config \<Rightarrow> start_embedded_xdp I L4 L6 env var config
      | Inl _ \<Rightarrow> None)"

definition server_new ::
  "('n, 'n EngineWrapper, 'c, 'v, 'b) policy_env \<Rightarrow> Host \<Rightarrow> (string \<Rightarrow> string option) \<Rightarrow> (string \<Rightarrow> bool) \<Rightarrow> (string \<Rightarrow> string + string)
     \<Rightarrow> (string \<Rightarrow> string + 'n RadixIpConfig) \<Rightarrow> bool \<Rightarrow> bool \<Rightarrow> WatchError + ('n, 'c, 'v, 'b) GrpcServer" where
  "server_new X host var path_exists read_to_string from_str notify_ok watch_ok =
     (let service = RadixServiceImpl_new host; path = config_path var in
      if path_exists path then
        (case ConfigWatcher_new X read_to_string from_str notify_ok watch_ok path of
           Inl err \<Rightarrow> Inl err
         | Inr st \<Rightarrow> Inr \<lparr>gs_service = service, gs_interceptor = Some \<lparr>ic_state = st, ic_tracker = watched_interceptor_new X st,
             ic_engine = EngineWrapper_new host Standard NV_AtomicRadixNode True None\<rparr>\<rparr>)
      else Inr \<lparr>gs_service = service, gs_interceptor = None\<rparr>)"

section \<open>Calls\<close>

datatype Rpc = RInsert InsertRequest | RLookup string | RRemove string | RContains string | RClear | RStats
  | RStream "InsertRequest list" bool

datatype RpcResponse = AInsert InsertResponse | ALookup LookupResponse | ARemove LookupResponse | AContains bool | AClear bool
  | AStats StatsResponse | AStream "u64 option"

fun service_call ::
  "'n ipnet_ops \<Rightarrow> Isa \<Rightarrow> 'n service_env \<Rightarrow> Rpc \<Rightarrow> 'n RadixServiceImpl \<Rightarrow> (RpcResponse \<times> 'n RadixServiceImpl) option" where
  "service_call N isa V (RInsert req) s = map_option (map_prod AInsert id) (service_insert N isa V req s)"
| "service_call N isa V (RLookup ip) s = map_option (map_prod ALookup id) (service_lookup N isa ip s)"
| "service_call N isa V (RRemove p) s = map_option (map_prod ARemove id) (service_remove N isa V p s)"
| "service_call N isa V (RContains p) s = Some (AContains (service_contains N isa V p s), s)"
| "service_call N isa V RClear s = map_option (Pair (AClear True)) (service_clear N s)"
| "service_call N isa V RStats s = Some (AStats (service_get_stats s), s)"
| "service_call N isa V (RStream reqs failed) s = map_option (map_prod AStream id) (service_stream_insert N isa V reqs failed s)"

fun service_calls ::
  "'n ipnet_ops \<Rightarrow> Isa \<Rightarrow> 'n service_env \<Rightarrow> Rpc list \<Rightarrow> 'n RadixServiceImpl \<Rightarrow> (RpcResponse list \<times> 'n RadixServiceImpl) option" where
  "service_calls N isa V [] s = Some ([], s)"
| "service_calls N isa V (c # cs) s =
     (case service_call N isa V c s of
        None \<Rightarrow> None
      | Some (r, s') \<Rightarrow> map_option (map_prod ((#) r) id) (service_calls N isa V cs s'))"

text \<open>A call through the interceptor: its refusal is a status, otherwise the service answers.\<close>

definition server_call ::
  "('n, 'n EngineWrapper, 'c, 'v, 'b) policy_env \<Rightarrow> Isa \<Rightarrow> 'n service_env \<Rightarrow> (nat \<Rightarrow> u32) \<Rightarrow> Instant \<Rightarrow> HttpRequest \<Rightarrow> Rpc
     \<Rightarrow> ('n, 'c, 'v, 'b) GrpcServer \<Rightarrow> ((Status + RpcResponse) \<times> ('n, 'c, 'v, 'b) GrpcServer) option" where
  "server_call X isa V clk now req rpc srv =
     (let serve = \<lambda>srv. map_option (\<lambda>(r, s). (Inr r, srv\<lparr>gs_service := s\<rparr>)) (service_call (env_net X) isa V rpc (gs_service srv)) in
      case gs_interceptor srv of
        None \<Rightarrow> serve srv
      | Some ic \<Rightarrow>
          (case watched_interceptor_call X clk now req (ic_tracker ic, ic_state ic, ic_engine ic) of
             None \<Rightarrow> None
           | Some (verdict, tracker, st, e) \<Rightarrow>
               (let srv = srv\<lparr>gs_interceptor := Some \<lparr>ic_state = st, ic_tracker = tracker, ic_engine = e\<rparr>\<rparr> in
                case verdict of Inl status \<Rightarrow> Some (Inl status, srv) | Inr _ \<Rightarrow> serve srv)))"

section \<open>The service as a table of networks\<close>

text \<open>What the calls promise in terms of the table of networks by key; the answers of lookups and
  statistics are left open.\<close>

definition sent_metadata :: "InsertRequest \<Rightarrow> Metadata" where
  "sent_metadata req = (case iq_metadata req of Some m \<Rightarrow> m | None \<Rightarrow> Metadata_new [])"

fun table_stream :: "('n \<Rightarrow> 'k) \<Rightarrow> 'n service_env \<Rightarrow> InsertRequest list \<Rightarrow> ('k \<rightharpoonup> 'n \<times> Metadata) \<Rightarrow> 'k \<rightharpoonup> 'n \<times> Metadata" where
  "table_stream key V [] tab = tab"
| "table_stream key V (req # reqs) tab =
     table_stream key V reqs (case sx_parse V (iq_prefix req) of None \<Rightarrow> tab | Some n \<Rightarrow> tab(key n \<mapsto> (n, sent_metadata req)))"

definition found_response :: "Metadata option \<Rightarrow> LookupResponse" where
  "found_response r = \<lparr>lp_found = (r \<noteq> None), lp_metadata = r\<rparr>"

fun table_call ::
  "('n \<Rightarrow> 'k) \<Rightarrow> 'n service_env \<Rightarrow> Rpc \<Rightarrow> ('k \<rightharpoonup> 'n \<times> Metadata) \<Rightarrow> RpcResponse option \<times> ('k \<rightharpoonup> 'n \<times> Metadata)" where
  "table_call key V (RInsert req) tab =
     (case sx_parse V (iq_prefix req) of
        None \<Rightarrow> (Some (AInsert \<lparr>ip_success = False, ip_is_new = False, ip_error_message = sx_parse_error V (iq_prefix req)\<rparr>), tab)
      | Some n \<Rightarrow> (Some (AInsert \<lparr>ip_success = True, ip_is_new = True, ip_error_message = []\<rparr>), tab(key n \<mapsto> (n, sent_metadata req))))"
| "table_call key V (RLookup ip) tab = (None, tab)"
| "table_call key V (RRemove p) tab =
     (case sx_parse V p of
        None \<Rightarrow> (Some (ARemove (found_response None)), tab)
      | Some n \<Rightarrow> (Some (ARemove (found_response (map_option snd (tab (key n))))), tab(key n := None)))"
| "table_call key V (RContains p) tab =
     (Some (AContains (case sx_parse V p of None \<Rightarrow> False | Some n \<Rightarrow> tab (key n) \<noteq> None)), tab)"
| "table_call key V RClear tab = (Some (AClear True), Map.empty)"
| "table_call key V RStats tab = (None, tab)"
| "table_call key V (RStream reqs failed) tab =
     (Some (AStream (if failed then None else Some (of_nat (length (filter (\<lambda>r. sx_parse V (iq_prefix r) \<noteq> None) reqs))))),
      table_stream key V reqs tab)"

fun table_calls ::
  "('n \<Rightarrow> 'k) \<Rightarrow> 'n service_env \<Rightarrow> Rpc list \<Rightarrow> ('k \<rightharpoonup> 'n \<times> Metadata) \<Rightarrow> RpcResponse option list \<times> ('k \<rightharpoonup> 'n \<times> Metadata)" where
  "table_calls key V [] tab = ([], tab)"
| "table_calls key V (c # cs) tab =
     (let (r, tab) = table_call key V c tab; (rs, tab) = table_calls key V cs tab in (r # rs, tab))"

definition as_promised :: "RpcResponse \<Rightarrow> RpcResponse option \<Rightarrow> bool" where
  "as_promised r s \<longleftrightarrow> s = None \<or> s = Some r"

text \<open>Messages carry finitely many attributes.\<close>

definition finite_request :: "InsertRequest \<Rightarrow> bool" where
  "finite_request req \<longleftrightarrow> finite (dom (md_attributes (sent_metadata req)))"

fun finite_rpc :: "Rpc \<Rightarrow> bool" where
  "finite_rpc (RInsert req) = finite_request req"
| "finite_rpc (RStream reqs _) = list_all finite_request reqs"
| "finite_rpc _ = True"

fun stream_ok :: "Rpc \<Rightarrow> bool" where
  "stream_ok (RStream _ failed) = (\<not> failed)"
| "stream_ok _ = True"

definition service_inv :: "'n ipnet_ops \<Rightarrow> 'n RadixServiceImpl \<Rightarrow> ('n CompressedTree) StandardEngine \<Rightarrow> bool" where
  "service_inv N s e \<longleftrightarrow> sv_engine s = StandardCompressed e \<and> se_inv (ct_inv N) ct_abs e"

locale grpc_service = ipnetwork N + map_order "sx_entries V"
  for N :: "'n ipnet_ops" and V :: "'n service_env"
begin

lemma request_metadata_sent: "finite_request req \<Longrightarrow> request_metadata V req = sent_metadata req"
  by (cases "iq_metadata req")
     (simp_all add: request_metadata_def sent_metadata_def finite_request_def copy_attributes)

lemma compressed_clearing: "clearing_tree (CompressedTree_RouteTree N) (ct_inv N) ct_abs (ckey N)"
  by (rule CompressedTree_clearing_tree [OF ipnetwork_axioms])

lemma compressed_engine:
  "radix_engine (StandardEngine_RadixEngine (CompressedTree_RouteTree N)) (se_inv (ct_inv N) ct_abs) (\<lambda>e. ct_abs (se_tree e)) (ckey N)
     (\<lambda>e ip. rt_lookup (CompressedTree_RouteTree N) ip (se_tree e))"
  by (rule route_tree.standard_engine [OF clearing_tree.axioms(1) [OF compressed_clearing]])

text \<open>The operations of the service's engine.\<close>

lemma compressed_insert:
  assumes "se_inv (ct_inv N) ct_abs e"
  obtains e' where "wrapper_insert N isa n md (StandardCompressed e) = Some (Inr (), StandardCompressed e')"
    "se_inv (ct_inv N) ct_abs e'" "ct_abs (se_tree e') = (ct_abs (se_tree e))(ckey N n \<mapsto> (n, md))"
  using radix_engine.engine_insert [OF compressed_engine assms, of n md] that by (auto simp: StandardEngine_RadixEngine_def)

lemma compressed_lookup:
  assumes "se_inv (ct_inv N) ct_abs e"
  obtains r e' where "wrapper_lookup N isa ip (StandardCompressed e) = Some (r, StandardCompressed e')"
    "se_inv (ct_inv N) ct_abs e'" "ct_abs (se_tree e') = ct_abs (se_tree e)"
  using radix_engine.engine_lookup [OF compressed_engine assms, of ip] that by (auto simp: StandardEngine_RadixEngine_def)

lemma compressed_remove:
  assumes "se_inv (ct_inv N) ct_abs e"
  obtains e' where "wrapper_remove N isa n (StandardCompressed e) = Some (map_option snd (ct_abs (se_tree e) (ckey N n)), StandardCompressed e')"
    "se_inv (ct_inv N) ct_abs e'" "ct_abs (se_tree e') = (ct_abs (se_tree e))(ckey N n := None)"
  using radix_engine.engine_remove [OF compressed_engine assms, of n] that by (auto simp: StandardEngine_RadixEngine_def)

lemma compressed_contains:
  "se_inv (ct_inv N) ct_abs e \<Longrightarrow> wrapper_contains N isa n (StandardCompressed e) \<longleftrightarrow> ct_abs (se_tree e) (ckey N n) \<noteq> None"
  using radix_engine.engine_contains [OF compressed_engine, of e n] by (simp add: StandardEngine_RadixEngine_def)

lemma compressed_clear:
  assumes "se_inv (ct_inv N) ct_abs e"
  obtains e' where "wrapper_clear N (StandardCompressed e) = Some (StandardCompressed e')"
    "se_inv (ct_inv N) ct_abs e'" "ct_abs (se_tree e') = Map.empty"
proof -
  have "ct_inv N (se_tree e)" using assms by (simp add: se_inv_def)
  from clearing_tree.se_clear [OF compressed_clearing this] that show thesis by auto
qed

lemma compressed_size: "se_inv (ct_inv N) ct_abs e \<Longrightarrow> wrapper_size (StandardCompressed e) = of_nat (card (dom (ct_abs (se_tree e))))"
  using radix_engine.engine_size [OF compressed_engine, of e] by (simp add: StandardEngine_RadixEngine_def)

lemma stream_loop_refines:
  assumes "se_inv (ct_inv N) ct_abs e" and "list_all finite_request reqs"
  shows "\<exists>e'. stream_loop N isa V reqs count (StandardCompressed e)
      = Some (count + of_nat (length (filter (\<lambda>r. sx_parse V (iq_prefix r) \<noteq> None) reqs)), StandardCompressed e')
    \<and> se_inv (ct_inv N) ct_abs e' \<and> ct_abs (se_tree e') = table_stream (ckey N) V reqs (ct_abs (se_tree e))"
  using assms
proof (induction reqs arbitrary: e count)
  case (Cons req reqs)
  show ?case
  proof (cases "sx_parse V (iq_prefix req)")
    case None
    with Cons show ?thesis by simp
  next
    case (Some n)
    have md: "request_metadata V req = sent_metadata req" using Cons.prems(2) request_metadata_sent by simp
    obtain e1 where i: "wrapper_insert N isa n (sent_metadata req) (StandardCompressed e) = Some (Inr (), StandardCompressed e1)"
      and e1: "se_inv (ct_inv N) ct_abs e1" "ct_abs (se_tree e1) = (ct_abs (se_tree e))(ckey N n \<mapsto> (n, sent_metadata req))"
      using compressed_insert [OF Cons.prems(1)] by blast
    have "list_all finite_request reqs" using Cons.prems(2) by simp
    from Cons.IH [OF e1(1) this, of "count + 1", unfolded e1(2)] Some i md show ?thesis
      by (simp add: add.assoc fun_upd_def del: wrapper_insert.simps)
  qed
qed simp

lemma service_call_refines:
  assumes "service_inv N s e" and "finite_rpc c"
  shows "\<exists>r s' e'. service_call N isa V c s = Some (r, s') \<and> service_inv N s' e'
    \<and> ct_abs (se_tree e') = snd (table_call (ckey N) V c (ct_abs (se_tree e)))
    \<and> as_promised r (fst (table_call (ckey N) V c (ct_abs (se_tree e))))
    \<and> (stream_ok c \<and> mx_active_routes (sv_metrics s) = wrapper_size (sv_engine s)
       \<longrightarrow> mx_active_routes (sv_metrics s') = wrapper_size (sv_engine s'))"
proof -
  have s: "sv_engine s = StandardCompressed e" and e: "se_inv (ct_inv N) ct_abs e" using assms(1) by (simp_all add: service_inv_def)
  show ?thesis
  proof (cases c)
    case (RInsert req)
    show ?thesis
    proof (cases "sx_parse V (iq_prefix req)")
      case None
      then show ?thesis using RInsert s e by (simp add: service_insert_def service_inv_def as_promised_def Let_def)
    next
      case (Some n)
      obtain e' where "wrapper_insert N isa n (request_metadata V req) (StandardCompressed e) = Some (Inr (), StandardCompressed e')"
        "se_inv (ct_inv N) ct_abs e'" "ct_abs (se_tree e') = (ct_abs (se_tree e))(ckey N n \<mapsto> (n, request_metadata V req))"
        using compressed_insert [OF e] by blast
      then show ?thesis using RInsert Some s assms(2)
        by (simp add: service_insert_def service_inv_def as_promised_def request_metadata_sent Let_def)
    qed
  next
    case (RLookup t)
    show ?thesis
    proof (cases "parse_ip t")
      case None
      then show ?thesis using RLookup s e by (simp add: service_lookup_def service_inv_def as_promised_def Let_def)
    next
      case (Some ip)
      obtain r e' where "wrapper_lookup N isa ip (StandardCompressed e) = Some (r, StandardCompressed e')"
        "se_inv (ct_inv N) ct_abs e'" "ct_abs (se_tree e') = ct_abs (se_tree e)" using compressed_lookup [OF e] by blast
      then show ?thesis using RLookup Some s e compressed_size
        by (cases r) (simp_all add: service_lookup_def service_inv_def as_promised_def Let_def)
    qed
  next
    case (RRemove t)
    show ?thesis
    proof (cases "sx_parse V t")
      case None
      then show ?thesis using RRemove s e by (simp add: service_remove_def service_inv_def as_promised_def found_response_def Let_def)
    next
      case (Some n)
      obtain e' where r: "wrapper_remove N isa n (StandardCompressed e) = Some (map_option snd (ct_abs (se_tree e) (ckey N n)), StandardCompressed e')"
        "se_inv (ct_inv N) ct_abs e'" "ct_abs (se_tree e') = (ct_abs (se_tree e))(ckey N n := None)"
        using compressed_remove [OF e] by blast
      then have "ct_abs (se_tree e) (ckey N n) = None \<Longrightarrow> wrapper_size (StandardCompressed e') = wrapper_size (StandardCompressed e)"
        using compressed_size [OF e] compressed_size [OF r(2)] by (simp only: fun_upd_idem)
      then show ?thesis using RRemove Some s r
        by (cases "ct_abs (se_tree e) (ckey N n)")
           (simp_all add: service_remove_def service_inv_def as_promised_def found_response_def Let_def)
    qed
  next
    case (RContains t)
    then show ?thesis using s e compressed_contains
      by (simp add: service_contains_def service_inv_def as_promised_def split: option.split)
  next
    case RClear
    obtain e' where r: "wrapper_clear N (StandardCompressed e) = Some (StandardCompressed e')"
      "se_inv (ct_inv N) ct_abs e'" "ct_abs (se_tree e') = Map.empty" using compressed_clear [OF e] by blast
    then show ?thesis using RClear s compressed_size [OF r(2)] by (simp add: service_clear_def service_inv_def as_promised_def)
  next
    case RStats
    then show ?thesis using s e by (simp add: service_inv_def as_promised_def)
  next
    case (RStream reqs failed)
    obtain e' where "stream_loop N isa V reqs 0 (StandardCompressed e)
        = Some (of_nat (length (filter (\<lambda>r. sx_parse V (iq_prefix r) \<noteq> None) reqs)), StandardCompressed e')"
      "se_inv (ct_inv N) ct_abs e'" "ct_abs (se_tree e') = table_stream (ckey N) V reqs (ct_abs (se_tree e))"
      using stream_loop_refines [OF e, of reqs isa 0] assms(2) RStream by auto
    then show ?thesis using RStream s
      by (simp add: service_stream_insert_def service_inv_def as_promised_def)
  qed
qed

lemma service_calls_refine:
  assumes "service_inv N s e" and "list_all finite_rpc cs"
  shows "\<exists>rs s' e'. service_calls N isa V cs s = Some (rs, s') \<and> service_inv N s' e'
    \<and> ct_abs (se_tree e') = snd (table_calls (ckey N) V cs (ct_abs (se_tree e)))
    \<and> list_all2 as_promised rs (fst (table_calls (ckey N) V cs (ct_abs (se_tree e))))
    \<and> (list_all stream_ok cs \<and> mx_active_routes (sv_metrics s) = wrapper_size (sv_engine s)
       \<longrightarrow> mx_active_routes (sv_metrics s') = wrapper_size (sv_engine s'))"
  using assms
proof (induction cs arbitrary: s e)
  case (Cons c cs)
  obtain r s1 e1 where step: "service_call N isa V c s = Some (r, s1)" "service_inv N s1 e1"
      "ct_abs (se_tree e1) = snd (table_call (ckey N) V c (ct_abs (se_tree e)))"
      "as_promised r (fst (table_call (ckey N) V c (ct_abs (se_tree e))))"
      "stream_ok c \<and> mx_active_routes (sv_metrics s) = wrapper_size (sv_engine s) \<longrightarrow> mx_active_routes (sv_metrics s1) = wrapper_size (sv_engine s1)"
    using service_call_refines [OF Cons.prems(1), of c isa] Cons.prems(2) by auto
  obtain rs s' e' where "service_calls N isa V cs s1 = Some (rs, s')" "service_inv N s' e'"
      "ct_abs (se_tree e') = snd (table_calls (ckey N) V cs (ct_abs (se_tree e1)))"
      "list_all2 as_promised rs (fst (table_calls (ckey N) V cs (ct_abs (se_tree e1))))"
      "list_all stream_ok cs \<and> mx_active_routes (sv_metrics s1) = wrapper_size (sv_engine s1)
         \<longrightarrow> mx_active_routes (sv_metrics s') = wrapper_size (sv_engine s')"
    using Cons.IH [OF step(2)] Cons.prems(2) by auto
  with step show ?case
    by (intro exI [of _ "r # rs"] exI [of _ s'] exI [of _ e']) (auto simp: Let_def case_prod_unfold)
qed auto

lemma service_new_inv:
  "\<exists>e. service_inv N (RadixServiceImpl_new host) e \<and> ct_abs (se_tree e) = Map.empty
     \<and> mx_active_routes (sv_metrics (RadixServiceImpl_new host :: 'n RadixServiceImpl)) = wrapper_size (sv_engine (RadixServiceImpl_new host :: 'n RadixServiceImpl))"
proof -
  let ?e = "StandardEngine_new (CompressedTree_new NV_AtomicRadixNode) :: 'n CompressedTree StandardEngine"
  have "sv_engine (RadixServiceImpl_new host) = StandardCompressed ?e"
    by (simp add: RadixServiceImpl_new_def EngineWrapper_new_def resolved_node_variant_def Let_def)
  moreover have "StandardEngine_size ?e = 0" by (simp add: StandardEngine_size_def StandardEngine_new_def)
  moreover have "mx_active_routes (sv_metrics (RadixServiceImpl_new host :: 'n RadixServiceImpl)) = 0"
    by (simp add: RadixServiceImpl_new_def Metrics_new_def)
  ultimately show ?thesis by (intro exI [of _ ?e]) (simp add: service_inv_def)
qed

end

text \<open>A parser of the networks that carry their length, and attributes in the order of their keys.\<close>

definition cidr_service :: "cidr service_env" where
  "cidr_service = \<lparr>sx_parse = cidr_parse, sx_parse_error = (\<lambda>_. ''invalid address''), sx_entries = sorted_entries\<rparr>"

interpretation cidr_rpc: grpc_service cidr_ops cidr_service
  by (intro grpc_service.intro cidr.ipnetwork_axioms) (simp add: cidr_service_def by_key.map_order_axioms)

section \<open>The interceptor's engine\<close>

datatype ServerEvent = SCall "nat \<Rightarrow> u32" Instant HttpRequest Rpc | SReload "string \<Rightarrow> string + string" "string + Event"

fun server_step ::
  "('n, 'n EngineWrapper, 'c, 'v, 'b) policy_env \<Rightarrow> Isa \<Rightarrow> 'n service_env \<Rightarrow> (string \<Rightarrow> string + 'n RadixIpConfig) \<Rightarrow> string
     \<Rightarrow> ServerEvent \<Rightarrow> ('n, 'c, 'v, 'b) GrpcServer \<Rightarrow> ((Status + RpcResponse) list \<times> ('n, 'c, 'v, 'b) GrpcServer) option" where
  "server_step X isa V fs path (SCall clk now req rpc) srv = map_option (map_prod (\<lambda>r. [r]) id) (server_call X isa V clk now req rpc srv)"
| "server_step X isa V fs path (SReload rd res) srv =
     Some ([], srv\<lparr>gs_interceptor := map_option (\<lambda>ic. ic\<lparr>ic_state := handle_event X rd fs path False res (ic_state ic)\<rparr>) (gs_interceptor srv)\<rparr>)"

fun server_run ::
  "('n, 'n EngineWrapper, 'c, 'v, 'b) policy_env \<Rightarrow> Isa \<Rightarrow> 'n service_env \<Rightarrow> (string \<Rightarrow> string + 'n RadixIpConfig) \<Rightarrow> string
     \<Rightarrow> ServerEvent list \<Rightarrow> ('n, 'c, 'v, 'b) GrpcServer \<Rightarrow> ((Status + RpcResponse) list \<times> ('n, 'c, 'v, 'b) GrpcServer) option" where
  "server_run X isa V fs path [] srv = Some ([], srv)"
| "server_run X isa V fs path (ev # evs) srv =
     (case server_step X isa V fs path ev srv of
        None \<Rightarrow> None
      | Some (rs, srv') \<Rightarrow> map_option (map_prod ((@) rs) id) (server_run X isa V fs path evs srv'))"

text \<open>A server whose interceptor has no tracker and an engine without routes.\<close>

definition blind :: "('n, 'c, 'v, 'b) GrpcServer \<Rightarrow> bool" where
  "blind srv \<longleftrightarrow> (\<forall>ic. gs_interceptor srv = Some ic \<longrightarrow> ic_tracker ic = None \<and> wrapper_routeless (ic_engine ic))"

definition permission_denied :: "Status + 'a \<Rightarrow> bool" where
  "permission_denied r \<longleftrightarrow> (case r of Inl s \<Rightarrow> st_code s = PermissionDenied | Inr _ \<Rightarrow> False)"

fun is_call :: "ServerEvent \<Rightarrow> bool" where
  "is_call (SCall _ _ _ _) = True"
| "is_call (SReload _ _) = False"

fun finite_event :: "ServerEvent \<Rightarrow> bool" where
  "finite_event (SCall _ _ _ c) = finite_rpc c"
| "finite_event (SReload _ _) = True"

context routeless
begin

lemma blind_interceptor:
  assumes "no_routes w"
  shows "\<exists>v st' w'. watched_interceptor_call X clk now req (None, st, w) = Some (v, None, st', w') \<and> no_routes w' \<and> \<not> permission_denied v"
proof (cases rule: watched_cases [where X = X and xff = "req_xff req" and real = "req_real_ip req" and remote = "rq_remote req" and st = st and e = w])
  case (bad err)
  then show ?thesis using assms by (simp add: watched_interceptor_call_def permission_denied_def)
next
  case (panic ip)
  then show ?thesis using routeless_watched_blocked [OF assms, of ip st] by simp
next
  case (blocked ip w1)
  then show ?thesis using routeless_watched_blocked [OF assms, of ip st] by simp
next
  case (free ip w1)
  then show ?thesis using routeless_watched_blocked [OF assms, of ip st] by (simp add: watched_interceptor_call_def permission_denied_def)
next
  case (asked ip w1)
  then have "no_routes w1" using routeless_watched_blocked [OF assms, of ip st] by simp
  from routeless_ask [OF this] obtain ok l w2 where ask: "ask_limiter X clk ip (ps_limiter st) w1 = Some (ok, l, w2)" "no_routes w2" by blast
  then have "watched_denied X clk ip None st w1 = Some (\<not> ok, st\<lparr>ps_limiter := l\<rparr>, w2)" by (simp add: watched_denied_def)
  with asked ask(2) show ?thesis by (cases ok) (simp_all add: watched_interceptor_call_def permission_denied_def)
qed

end

text \<open>The whole server: its interceptor and its service.\<close>

locale grpc_server = routeless X wrapper_routeless + grpc_service "env_net X" V
  for X :: "('n, 'n EngineWrapper, 'c, 'v, 'b) policy_env" and V :: "'n service_env"
begin

definition server_inv :: "('n, 'c, 'v, 'b) GrpcServer \<Rightarrow> bool" where
  "server_inv srv \<longleftrightarrow> blind srv \<and> (\<exists>e. service_inv (env_net X) (gs_service srv) e)"

lemma blind_call:
  assumes "server_inv srv" and "finite_rpc c"
  shows "\<exists>r srv'. server_call X isa V clk now req c srv = Some (r, srv') \<and> server_inv srv' \<and> \<not> permission_denied r"
proof -
  obtain e where e: "service_inv (env_net X) (gs_service srv) e" using assms(1) by (auto simp: server_inv_def)
  obtain r s' e' where c: "service_call (env_net X) isa V c (gs_service srv) = Some (r, s')" "service_inv (env_net X) s' e'"
    using service_call_refines [OF e assms(2), of isa] by blast
  show ?thesis
  proof (cases "gs_interceptor srv")
    case None
    then show ?thesis using c by (auto simp: server_call_def server_inv_def blind_def permission_denied_def)
  next
    case (Some ic)
    then have ic: "ic_tracker ic = None" "wrapper_routeless (ic_engine ic)" using assms(1) by (auto simp: server_inv_def blind_def)
    from blind_interceptor [OF ic(2), of clk now req "ic_state ic"] obtain v st' w' where
      "watched_interceptor_call X clk now req (None, ic_state ic, ic_engine ic) = Some (v, None, st', w')"
      "wrapper_routeless w'" "\<not> permission_denied v" by blast
    then show ?thesis using Some ic(1) c e
      by (cases v) (auto simp: server_call_def server_inv_def blind_def permission_denied_def)
  qed
qed

lemma blind_step:
  assumes "server_inv srv" and "finite_event ev"
  shows "\<exists>rs srv'. server_step X isa V fs path ev srv = Some (rs, srv') \<and> server_inv srv'
    \<and> length rs = length (filter is_call [ev]) \<and> \<not> list_ex permission_denied rs"
proof (cases ev)
  case (SCall clk now req c)
  with blind_call [OF assms(1), where c = c and clk = clk and now = now and req = req and isa = isa] assms(2) show ?thesis by auto
next
  case (SReload rd res)
  with assms(1) show ?thesis by (auto simp: server_inv_def blind_def)
qed

lemma blind_run:
  assumes "server_inv srv" and "list_all finite_event evs"
  shows "\<exists>rs srv'. server_run X isa V fs path evs srv = Some (rs, srv') \<and> server_inv srv'
    \<and> length rs = length (filter is_call evs) \<and> \<not> list_ex permission_denied rs"
  using assms
proof (induction evs arbitrary: srv)
  case (Cons ev evs)
  obtain rs srv1 where a: "server_step X isa V fs path ev srv = Some (rs, srv1)" "server_inv srv1"
      "length rs = length (filter is_call [ev])" "\<not> list_ex permission_denied rs"
    using blind_step [OF Cons.prems(1), where ev = ev and fs = fs and path = path and isa = isa] Cons.prems(2) by auto
  obtain rs' srv' where "server_run X isa V fs path evs srv1 = Some (rs', srv')" "server_inv srv'"
      "length rs' = length (filter is_call evs)" "\<not> list_ex permission_denied rs'"
    using Cons.IH [OF a(2)] Cons.prems(2) by auto
  with a show ?case by auto
qed auto

lemma server_new_inv:
  assumes "server_new X host var pe rd fs notify_ok watch_ok = Inr srv"
    and "\<And>ic. gs_interceptor srv = Some ic \<Longrightarrow> \<not> ab_enabled (root_auto_ban (radixip (ps_config (ic_state ic))))"
  shows "server_inv srv"
proof -
  have "gs_service srv = RadixServiceImpl_new host"
    using assms(1) by (auto simp: server_new_def Let_def split: if_splits sum.splits)
  moreover have "blind srv"
    using assms by (auto simp: server_new_def blind_def watched_interceptor_new_def wrapper_new_routeless Let_def split: if_splits sum.splits)
  ultimately show ?thesis using service_new_inv [of host] by (auto simp: server_inv_def)
qed

end

lemma grpc_server_env: "grpc_service N V \<Longrightarrow> grpc_server (wrapper_env N isa M DV DB) V"
  by (intro grpc_server.intro wrapper_blind.routeless_axioms) (simp add: wrapper_env_def)

interpretation cidr_server: grpc_server "wrapper_env cidr_ops isa map_cache alist_dash alist_dash" cidr_service for isa
  by (intro grpc_server_env cidr_rpc.grpc_service_axioms)

end
