(* ===== verification/CApi.thy ===== *)
theory CApi
  imports Hybrid Policy Node16Simd
begin

text \<open>
  The C interfaces: the engine (\<open>engine/src/ffi.rs\<close>), the policy (\<open>policy-ffi/src/lib.rs\<close>) and the key
  search of the 16-way node (\<open>node16_simd_ffi/src/lib.rs\<close>). Handles and returned strings are addresses in
  a heap, and \<open>None\<close> is the null pointer. A C string given by the caller is null, text, or bytes that are
  not UTF-8. The outer \<open>None\<close> of a result is a panic or the use of an address that holds nothing.
\<close>

section \<open>Pointers\<close>

datatype c_str = CNull | CText string | CBytes

type_synonym c_int = "32 word"
type_synonym ptr = "nat option"

record 'h c_heap =
  hp_objects :: "nat \<rightharpoonup> 'h"
  hp_strings :: "nat \<rightharpoonup> string"
  hp_next :: nat

fun read_c_str :: "c_str \<Rightarrow> string option" where
  "read_c_str CNull = None"
| "read_c_str (CText t) = Some t"
| "read_c_str CBytes = None"

text \<open>\<open>Box::into_raw\<close> and, for text without a zero byte, \<open>CString::into_raw\<close>.\<close>

definition box_into_raw :: "'h \<Rightarrow> 'h c_heap \<Rightarrow> ptr \<times> 'h c_heap" where
  "box_into_raw x hp = (Some (hp_next hp), hp\<lparr>hp_objects := (hp_objects hp)(hp_next hp \<mapsto> x), hp_next := hp_next hp + 1\<rparr>)"

definition cstring_into_raw :: "string option \<Rightarrow> 'h c_heap \<Rightarrow> ptr \<times> 'h c_heap" where
  "cstring_into_raw text hp =
     (case text of
        Some t \<Rightarrow>
          if CHR 0x00 \<in> set t then (None, hp)
          else (Some (hp_next hp), hp\<lparr>hp_strings := (hp_strings hp)(hp_next hp \<mapsto> t), hp_next := hp_next hp + 1\<rparr>)
      | None \<Rightarrow> (None, hp))"

definition drop_object :: "ptr \<Rightarrow> 'h c_heap \<Rightarrow> 'h c_heap option" where
  "drop_object handle hp =
     (case handle of
        None \<Rightarrow> Some hp
      | Some a \<Rightarrow> if hp_objects hp a = None then None else Some (hp\<lparr>hp_objects := (hp_objects hp)(a := None)\<rparr>))"

text \<open>A call on the object behind a handle that is not null.\<close>

definition on_object :: "nat \<Rightarrow> 'h c_heap \<Rightarrow> ('h \<Rightarrow> ('r \<times> 'h) option) \<Rightarrow> ('r \<times> 'h c_heap) option" where
  "on_object a hp f =
     (case hp_objects hp a of
        None \<Rightarrow> None
      | Some x \<Rightarrow> map_option (\<lambda>(r, x). (r, hp\<lparr>hp_objects := (hp_objects hp)(a \<mapsto> x)\<rparr>)) (f x))"

section \<open>The engine\<close>

text \<open>\<open>runtime\<close> says whether the runtime can be created; it is gone when the function returns.\<close>

definition radix_engine_new ::
  "'s redis_server \<Rightarrow> ('n, 'j) serde \<Rightarrow> 'n ipnet_ops \<Rightarrow> Isa \<Rightarrow> Host \<Rightarrow> 's \<Rightarrow> bool
     \<Rightarrow> ('n, 'j, 's) BoxedEngine c_heap \<Rightarrow> (ptr \<times> ('n, 'j, 's) BoxedEngine c_heap) option" where
  "radix_engine_new R J N isa host server runtime hp =
     (if runtime then map_option (\<lambda>inner. box_into_raw inner hp) (radixip_new R J N isa host server RadixConfig_default) else None)"

definition redis_engine_config :: "c_str \<Rightarrow> c_str \<Rightarrow> RadixConfig" where
  "redis_engine_config redis_url channel =
     (let redis_url = (case read_c_str redis_url of Some u \<Rightarrow> u | None \<Rightarrow> ''redis://127.0.0.1:6379'');
          channel = (case read_c_str channel of Some c \<Rightarrow> c | None \<Rightarrow> ''radixip:updates'')
      in RadixConfig_default\<lparr>cfg_cache_enabled := True,
           cfg_redis := Some \<lparr>rc_url = redis_url, rc_pool_size = 10, rc_connect_timeout = 5000000000, rc_max_retries = 3\<rparr>,
           cfg_redis_channel := channel\<rparr>)"

definition radix_engine_new_with_redis ::
  "'s redis_server \<Rightarrow> ('n, 'j) serde \<Rightarrow> 'n ipnet_ops \<Rightarrow> Isa \<Rightarrow> Host \<Rightarrow> 's \<Rightarrow> bool \<Rightarrow> c_str \<Rightarrow> c_str
     \<Rightarrow> ('n, 'j, 's) BoxedEngine c_heap \<Rightarrow> (ptr \<times> ('n, 'j, 's) BoxedEngine c_heap) option" where
  "radix_engine_new_with_redis R J N isa host server runtime redis_url channel hp =
     (if runtime then map_option (\<lambda>inner. box_into_raw inner hp)
        (radixip_new R J N isa host server (redis_engine_config redis_url channel)) else None)"

definition radix_engine_free :: "ptr \<Rightarrow> 'e c_heap \<Rightarrow> 'e c_heap option" where
  "radix_engine_free handle hp = drop_object handle hp"

definition radix_engine_insert ::
  "('n, 'j) serde \<Rightarrow> ('e, 'n) RadixEngine \<Rightarrow> ptr \<Rightarrow> c_str \<Rightarrow> c_str \<Rightarrow> 'e c_heap \<Rightarrow> (c_int \<times> 'e c_heap) option" where
  "radix_engine_insert J E handle subnet metadata hp =
     (case handle of
        None \<Rightarrow> Some (- 1, hp)
      | Some a \<Rightarrow>
          (case read_c_str subnet of
             None \<Rightarrow> Some (- 1, hp)
           | Some subnet_str \<Rightarrow>
               (case read_c_str metadata of
                  None \<Rightarrow> Some (- 1, hp)
                | Some metadata_str \<Rightarrow>
                    (case sj_net_from_str J subnet_str of
                       None \<Rightarrow> Some (- 1, hp)
                     | Some pfx \<Rightarrow>
                         (let metadata = (case sj_from_str J metadata_str of Some m \<Rightarrow> m | None \<Rightarrow> Metadata_new metadata_str) in
                          on_object a hp (\<lambda>e. map_option (map_prod (\<lambda>r. case r of Inr _ \<Rightarrow> 0 | Inl _ \<Rightarrow> - 1) id)
                            (re_insert E pfx metadata e)))))))"

definition radix_engine_match ::
  "('n, 'j) serde \<Rightarrow> ('e, 'n) RadixEngine \<Rightarrow> ptr \<Rightarrow> c_str \<Rightarrow> 'e c_heap \<Rightarrow> (ptr \<times> 'e c_heap) option" where
  "radix_engine_match J E handle ip hp =
     (case handle of
        None \<Rightarrow> Some (None, hp)
      | Some a \<Rightarrow>
          (case Option.bind (read_c_str ip) parse_ip of
             None \<Rightarrow> Some (None, hp)
           | Some ip \<Rightarrow>
               map_option (\<lambda>(r, hp). case r of Some metadata \<Rightarrow> cstring_into_raw (sj_to_string J metadata) hp | None \<Rightarrow> (None, hp))
                 (on_object a hp (re_lookup E ip))))"

definition radix_engine_free_string :: "ptr \<Rightarrow> 'e c_heap \<Rightarrow> 'e c_heap option" where
  "radix_engine_free_string p hp =
     (case p of
        None \<Rightarrow> Some hp
      | Some a \<Rightarrow> if hp_strings hp a = None then None else Some (hp\<lparr>hp_strings := (hp_strings hp)(a := None)\<rparr>))"

definition radix_engine_contains :: "('e, 'n) RadixEngine \<Rightarrow> ptr \<Rightarrow> c_str \<Rightarrow> 'e c_heap \<Rightarrow> (bool \<times> 'e c_heap) option" where
  "radix_engine_contains E handle ip hp =
     (case handle of
        None \<Rightarrow> Some (False, hp)
      | Some a \<Rightarrow>
          (case read_c_str ip of
             None \<Rightarrow> Some (False, hp)
           | Some ip_str \<Rightarrow>
               (case parse_ip ip_str of
                  None \<Rightarrow> Some (False, hp)
                | Some ip \<Rightarrow> map_option (map_prod (\<lambda>r. r \<noteq> None) id) (on_object a hp (re_lookup E ip)))))"

definition radix_engine_size :: "('e, 'n) RadixEngine \<Rightarrow> ptr \<Rightarrow> 'e c_heap \<Rightarrow> (usize \<times> 'e c_heap) option" where
  "radix_engine_size E handle hp =
     (case handle of
        None \<Rightarrow> Some (0, hp)
      | Some a \<Rightarrow> on_object a hp (\<lambda>e. Some (re_size E e, e)))"

definition radix_engine_clear :: "('e, 'n) RadixEngine \<Rightarrow> ptr \<Rightarrow> 'e c_heap \<Rightarrow> (unit \<times> 'e c_heap) option" where
  "radix_engine_clear E handle hp =
     (case handle of
        None \<Rightarrow> Some ((), hp)
      | Some a \<Rightarrow> on_object a hp (\<lambda>e. map_option (Pair ()) (re_clear E e)))"

definition radix_engine_remove ::
  "('n, 'j) serde \<Rightarrow> ('e, 'n) RadixEngine \<Rightarrow> ptr \<Rightarrow> c_str \<Rightarrow> 'e c_heap \<Rightarrow> (c_int \<times> 'e c_heap) option" where
  "radix_engine_remove J E handle subnet hp =
     (case handle of
        None \<Rightarrow> Some (- 1, hp)
      | Some a \<Rightarrow>
          (case read_c_str subnet of
             None \<Rightarrow> Some (- 1, hp)
           | Some subnet_str \<Rightarrow>
               (case sj_net_from_str J subnet_str of
                  None \<Rightarrow> Some (- 1, hp)
                | Some pfx \<Rightarrow> map_option (map_prod (\<lambda>r. if r \<noteq> None then 0 else - 1) id) (on_object a hp (re_remove E pfx)))))"

text \<open>\<open>json_object\<close> prints the object with these members.\<close>

definition radix_engine_stats_json ::
  "((string \<times> u64) list \<Rightarrow> string) \<Rightarrow> ('e, 'n) RadixEngine \<Rightarrow> ptr \<Rightarrow> 'e c_heap \<Rightarrow> (ptr \<times> 'e c_heap) option" where
  "radix_engine_stats_json json_object E handle hp =
     (case handle of
        None \<Rightarrow> Some (None, hp)
      | Some a \<Rightarrow>
          map_option (\<lambda>(stats, hp). cstring_into_raw (Some (json_object
              [(''size'', st_size stats), (''inserts'', st_inserts stats), (''lookups'', st_lookups stats),
               (''hits'', st_hits stats), (''misses'', st_misses stats), (''removals'', st_removals stats)])) hp)
            (on_object a hp (\<lambda>e. Some (re_stats E e, e))))"

section \<open>The policy\<close>

record RadixIpValue =
  iv_family :: u8
  iv_bytes :: "u8 list"

datatype RadixPolicyDecision = DecisionAllow | DecisionBlock | DecisionLimit | DecisionBadRequest

record RadixPolicyResult =
  rp_decision :: RadixPolicyDecision
  rp_retry_after_seconds :: u32

fun read_path :: "c_str \<Rightarrow> c_int + string" where
  "read_path CNull = Inl 1"
| "read_path (CText t) = Inr t"
| "read_path CBytes = Inl 2"

text \<open>The value stored through \<open>error_code\<close>, which may be null (\<open>wants_code\<close> is false then).\<close>

definition store_code :: "bool \<Rightarrow> c_int \<Rightarrow> c_int option" where
  "store_code wants_code c = (if wants_code then Some c else None)"

definition radix_policy_new_from_yaml ::
  "('n, 'e, 'c, 'v, 'b) policy_env \<Rightarrow> 'e option \<Rightarrow> (string \<Rightarrow> string + string) \<Rightarrow> (string \<Rightarrow> string + 'n RadixIpConfig)
     \<Rightarrow> bool \<Rightarrow> c_str \<Rightarrow> bool \<Rightarrow> ('n, 'e, 'c, 'v, 'b) PolicyHandle c_heap
     \<Rightarrow> ((ptr \<times> c_int option) \<times> ('n, 'e, 'c, 'v, 'b) PolicyHandle c_heap) option" where
  "radix_policy_new_from_yaml X balanced_engine read_to_string from_str runtime config_path wants_code hp =
     (case read_path config_path of
        Inl code \<Rightarrow> Some ((None, store_code wants_code code), hp)
      | Inr path \<Rightarrow>
          (case config_from_file read_to_string from_str path of
             Inl _ \<Rightarrow> Some ((None, store_code wants_code 3), hp)
           | Inr config \<Rightarrow>
               if \<not> runtime then Some ((None, store_code wants_code 4), hp)
               else (case balanced_engine of
                       None \<Rightarrow> None
                     | Some engine \<Rightarrow>
                         (case box_into_raw (PolicyHandle_new X engine config) hp of
                            (p, hp) \<Rightarrow> Some ((p, store_code wants_code 0), hp)))))"

fun c_decision :: "PolicyDecisionCode \<Rightarrow> RadixPolicyDecision" where
  "c_decision CodeAllow = DecisionAllow"
| "c_decision CodeBlock = DecisionBlock"
| "c_decision CodeLimit = DecisionLimit"
| "c_decision CodeBadRequest = DecisionBadRequest"

text \<open>The result code, and the value stored through \<open>result\<close> (\<open>wants_result\<close> is false when it is null).\<close>

definition radix_policy_check ::
  "('n, 'e, 'c, 'v, 'b) policy_env \<Rightarrow> (nat \<Rightarrow> u32) \<Rightarrow> Instant \<Rightarrow> ptr \<Rightarrow> RadixIpValue option \<Rightarrow> bool
     \<Rightarrow> ('n, 'e, 'c, 'v, 'b) PolicyHandle c_heap
     \<Rightarrow> ((c_int \<times> RadixPolicyResult option) \<times> ('n, 'e, 'c, 'v, 'b) PolicyHandle c_heap) option" where
  "radix_policy_check X clk now handle ip wants_result hp =
     (case (handle, ip, wants_result) of
        (Some a, Some packed, True) \<Rightarrow>
          on_object a hp (\<lambda>h. map_option (map_prod
              (\<lambda>r. case r of
                 None \<Rightarrow> (2, None)
               | Some policy_result \<Rightarrow> (0, Some \<lparr>rp_decision = c_decision (pr_decision policy_result),
                   rp_retry_after_seconds = pr_retry_after_seconds policy_result\<rparr>)) id)
            (PolicyHandle_check X clk now \<lparr>pk_family = iv_family packed, pk_bytes = iv_bytes packed\<rparr> h))
      | _ \<Rightarrow> Some ((1, None), hp))"

definition radix_policy_free :: "ptr \<Rightarrow> 'h c_heap \<Rightarrow> 'h c_heap option" where
  "radix_policy_free handle hp = drop_object handle hp"

section \<open>The key search\<close>

definition node16_simd_find :: "Isa \<Rightarrow> u8 list \<Rightarrow> u8 \<Rightarrow> u8 \<Rightarrow> 8 word" where
  "node16_simd_find isa keys target count =
     (case simd_find_child isa keys target count of Some idx \<Rightarrow> of_nat idx | None \<Rightarrow> - 1)"

end
