(* ===== verification/NodeApi.thy ===== *)
theory NodeApi
  imports Hybrid Policy
begin

text \<open>
  The Node.js binding (\<open>lib/node/src/lib.rs\<close>): the objects \<open>RadixIP\<close> and \<open>RadixPolicy\<close> over the boxed
  engine and the policy handle. \<open>Inl\<close> is the error thrown to the caller, \<open>None\<close> a panic. Methods run
  outside of a runtime: the one of a constructor is gone when the constructor returns.
\<close>

datatype NapiStatus = InvalidArg | GenericFailure

record NapiError =
  ne_status :: NapiStatus
  ne_reason :: string

definition napi_error :: "NapiStatus \<Rightarrow> string \<Rightarrow> NapiError" where
  "napi_error status reason = \<lparr>ne_status = status, ne_reason = reason\<rparr>"

fun ConfigError_to_string :: "ConfigError \<Rightarrow> string" where
  "ConfigError_to_string (Io e) = ''IO error reading config: '' @ e"
| "ConfigError_to_string (Yaml e) = ''YAML parse error: '' @ e"
| "ConfigError_to_string (Validation e) = ''Validation error: '' @ e"

section \<open>Configuration\<close>

record EngineConfig =
  ec_variant :: "string option"
  ec_read_compressed :: "bool option"
  ec_write_compressed :: "bool option"
  ec_enable_split_plane :: "bool option"
  ec_cache_enabled :: "bool option"
  ec_cache_max_entries :: "u32 option"
  ec_cache_ttl_seconds :: "u32 option"
  ec_redis_url :: "string option"
  ec_redis_channel :: "string option"

definition node_variant :: "string \<Rightarrow> EngineVariant \<Rightarrow> EngineVariant" where
  "node_variant variant d =
     (if variant = ''standard'' then Standard
      else if variant = ''concurrent'' then Concurrent
      else if variant = ''lockfree'' then LockFree
      else if variant = ''adaptive'' then Adaptive
      else if variant = ''art'' then ART
      else d)"

definition node_config :: "EngineConfig option \<Rightarrow> RadixConfig" where
  "node_config config =
     (let cfg = RadixConfig_default in
      case config of
        None \<Rightarrow> cfg
      | Some c \<Rightarrow>
          (let cfg = (case ec_variant c of Some v \<Rightarrow> cfg\<lparr>cfg_engine_variant := node_variant v (cfg_engine_variant cfg)\<rparr> | None \<Rightarrow> cfg);
               cfg = cfg\<lparr>cfg_read_compressed := unwrap_or (ec_read_compressed c) (cfg_read_compressed cfg),
                 cfg_write_compressed := unwrap_or (ec_write_compressed c) (cfg_write_compressed cfg),
                 cfg_enable_split_plane := unwrap_or (ec_enable_split_plane c) (cfg_enable_split_plane cfg),
                 cfg_cache_enabled := unwrap_or (ec_cache_enabled c) (cfg_cache_enabled cfg),
                 cfg_cache_max_entries := unwrap_or (map_option ucast (ec_cache_max_entries c)) (cfg_cache_max_entries cfg),
                 cfg_cache_ttl_seconds := map_option ucast (ec_cache_ttl_seconds c)\<rparr>
           in case ec_redis_url c of
                Some redis_url \<Rightarrow>
                  cfg\<lparr>cfg_redis := Some \<lparr>rc_url = redis_url, rc_pool_size = 10, rc_connect_timeout = 5000000000, rc_max_retries = 3\<rparr>,
                    cfg_redis_channel := unwrap_or (ec_redis_channel c) ''radixip:updates''\<rparr>
              | None \<Rightarrow> cfg))"

section \<open>RadixIP\<close>

record JsMetadata =
  js_value :: string
  js_attributes :: "string \<rightharpoonup> string"

record JsEngineStats =
  jst_size :: u32
  jst_inserts :: u32
  jst_lookups :: u32
  jst_hits :: u32
  jst_misses :: u32
  jst_removals :: u32

definition RadixIP_new ::
  "'s redis_server \<Rightarrow> ('n, 'j) serde \<Rightarrow> 'n ipnet_ops \<Rightarrow> Isa \<Rightarrow> Host \<Rightarrow> 's \<Rightarrow> bool \<Rightarrow> EngineConfig option
     \<Rightarrow> ('n, 'j, 's) BoxedEngine option" where
  "RadixIP_new R J N isa host server runtime config =
     (if runtime then radixip_new R J N isa host server (node_config config) else None)"

definition RadixIP_insert ::
  "('n, 'j) serde \<Rightarrow> ('e, 'n) RadixEngine \<Rightarrow> string \<Rightarrow> JsMetadata \<Rightarrow> 'e \<Rightarrow> ((NapiError + unit) \<times> 'e) option" where
  "RadixIP_insert J E subnet metadata e =
     (case sj_net_from_str J subnet of
        None \<Rightarrow> Some (Inl (napi_error InvalidArg (''Invalid CIDR: '' @ subnet)), e)
      | Some pfx \<Rightarrow>
          (let meta = \<lparr>md_value = js_value metadata, md_attributes = js_attributes metadata\<rparr> in
           map_option (map_prod (\<lambda>r. case r of Inl err \<Rightarrow> Inl (napi_error GenericFailure err) | Inr _ \<Rightarrow> Inr ()) id)
             (re_insert E pfx meta e)))"

definition RadixIP_lookup ::
  "('e, 'n) RadixEngine \<Rightarrow> string \<Rightarrow> 'e \<Rightarrow> ((NapiError + JsMetadata option) \<times> 'e) option" where
  "RadixIP_lookup E ip e =
     (case parse_ip ip of
        None \<Rightarrow> Some (Inl (napi_error InvalidArg (''Invalid IP: '' @ ip)), e)
      | Some addr \<Rightarrow>
          map_option (map_prod (\<lambda>r. Inr (map_option (\<lambda>m. \<lparr>js_value = md_value m, js_attributes = md_attributes m\<rparr>) r)) id)
            (re_lookup E addr e))"

definition RadixIP_remove ::
  "('n, 'j) serde \<Rightarrow> ('e, 'n) RadixEngine \<Rightarrow> string \<Rightarrow> 'e \<Rightarrow> ((NapiError + bool) \<times> 'e) option" where
  "RadixIP_remove J E subnet e =
     (case sj_net_from_str J subnet of
        None \<Rightarrow> Some (Inl (napi_error InvalidArg (''Invalid CIDR: '' @ subnet)), e)
      | Some pfx \<Rightarrow> map_option (map_prod (\<lambda>r. Inr (r \<noteq> None)) id) (re_remove E pfx e))"

definition RadixIP_contains :: "('e, 'n) RadixEngine \<Rightarrow> string \<Rightarrow> 'e \<Rightarrow> ((NapiError + bool) \<times> 'e) option" where
  "RadixIP_contains E ip e =
     (case parse_ip ip of
        None \<Rightarrow> Some (Inl (napi_error InvalidArg (''Invalid IP: '' @ ip)), e)
      | Some addr \<Rightarrow> map_option (map_prod (\<lambda>r. Inr (r \<noteq> None)) id) (re_lookup E addr e))"

definition RadixIP_clear :: "('e, 'n) RadixEngine \<Rightarrow> 'e \<Rightarrow> 'e option" where
  "RadixIP_clear E e = re_clear E e"

definition RadixIP_size :: "('e, 'n) RadixEngine \<Rightarrow> 'e \<Rightarrow> u32" where
  "RadixIP_size E e = ucast (re_size E e)"

definition RadixIP_stats :: "('e, 'n) RadixEngine \<Rightarrow> 'e \<Rightarrow> JsEngineStats" where
  "RadixIP_stats E e =
     (let s = re_stats E e in
      \<lparr>jst_size = ucast (st_size s), jst_inserts = ucast (st_inserts s), jst_lookups = ucast (st_lookups s),
       jst_hits = ucast (st_hits s), jst_misses = ucast (st_misses s), jst_removals = ucast (st_removals s)\<rparr>)"

section \<open>RadixPolicy\<close>

record JsPolicyResult =
  jp_decision :: string
  jp_retry_after_seconds :: u32

fun decision_name :: "PolicyDecisionCode \<Rightarrow> string" where
  "decision_name CodeAllow = ''allow''"
| "decision_name CodeBlock = ''block''"
| "decision_name CodeLimit = ''limit''"
| "decision_name CodeBadRequest = ''bad_request''"

definition js_result :: "PolicyResult option \<Rightarrow> NapiError + JsPolicyResult" where
  "js_result r =
     (case r of
        None \<Rightarrow> Inl (napi_error InvalidArg ''Invalid IP address family'')
      | Some result \<Rightarrow> Inr \<lparr>jp_decision = decision_name (pr_decision result), jp_retry_after_seconds = pr_retry_after_seconds result\<rparr>)"

text \<open>\<open>runtime\<close> is the outcome of building the runtime, with the text of its error.\<close>

definition RadixPolicy_from_yaml ::
  "('n, 'e, 'c, 'v, 'b) policy_env \<Rightarrow> 'e option \<Rightarrow> (string \<Rightarrow> string + string) \<Rightarrow> (string \<Rightarrow> string + 'n RadixIpConfig)
     \<Rightarrow> string + unit \<Rightarrow> string \<Rightarrow> (NapiError + ('n, 'e, 'c, 'v, 'b) PolicyHandle) option" where
  "RadixPolicy_from_yaml X balanced_engine read_to_string from_str runtime path =
     (case config_from_file read_to_string from_str path of
        Inl e \<Rightarrow> Some (Inl (napi_error InvalidArg (ConfigError_to_string e)))
      | Inr config \<Rightarrow>
          (case runtime of
             Inl e \<Rightarrow> Some (Inl (napi_error GenericFailure e))
           | Inr _ \<Rightarrow> map_option (\<lambda>engine. Inr (PolicyHandle_new X engine config)) balanced_engine))"

definition RadixPolicy_check_ip ::
  "('n, 'e, 'c, 'v, 'b) policy_env \<Rightarrow> (nat \<Rightarrow> u32) \<Rightarrow> Instant \<Rightarrow> string \<Rightarrow> ('n, 'e, 'c, 'v, 'b) PolicyHandle
     \<Rightarrow> ((NapiError + JsPolicyResult) \<times> ('n, 'e, 'c, 'v, 'b) PolicyHandle) option" where
  "RadixPolicy_check_ip X clk now ip h =
     (case parse_ip ip of
        None \<Rightarrow> Some (Inl (napi_error InvalidArg (''Invalid IP: '' @ ip)), h)
      | Some addr \<Rightarrow> map_option (map_prod js_result id) (PolicyHandle_check X clk now (PackedIp_from addr) h))"

definition RadixPolicy_check_request ::
  "('n, 'e, 'c, 'v, 'b) policy_env \<Rightarrow> (nat \<Rightarrow> u32) \<Rightarrow> Instant \<Rightarrow> string \<Rightarrow> string \<Rightarrow> string \<Rightarrow> ('n, 'e, 'c, 'v, 'b) PolicyHandle
     \<Rightarrow> ((NapiError + JsPolicyResult) \<times> ('n, 'e, 'c, 'v, 'b) PolicyHandle) option" where
  "RadixPolicy_check_request X clk now ip meth path h =
     (case parse_ip ip of
        None \<Rightarrow> Some (Inl (napi_error InvalidArg (''Invalid IP: '' @ ip)), h)
      | Some addr \<Rightarrow> map_option (map_prod js_result id) (check_request X clk now (PackedIp_from addr) meth path h))"

end
