(* ===== verification/PyApi.thy ===== *)
theory PyApi
  imports NodeApi MapOrder
begin

text \<open>
  The Python binding (\<open>lib/python/src/lib.rs\<close>): \<open>RadixEngine\<close> and \<open>RadixPolicy\<close> with metadata and results
  as dictionaries. A dictionary is the list of its items in insertion order. \<open>Inl\<close> is the exception
  raised, \<open>None\<close> a panic. The exception of a failed conversion to a string, the text of a failed parse of
  a network and the order in which a \<open>HashMap\<close> is iterated are arguments.
\<close>

section \<open>Objects\<close>

datatype PyObj = PyStr string | PyInt nat | PyNone | PyDict "(PyObj \<times> PyObj) list"

datatype PyErr = PyTypeError string | PyValueError string

record py_env =
  py_extract_error :: "PyObj \<Rightarrow> PyErr"
  py_cidr_error :: "string \<Rightarrow> string"
  py_entries :: "(string \<rightharpoonup> string) \<Rightarrow> (string \<times> string) list"

definition extract_str :: "py_env \<Rightarrow> PyObj \<Rightarrow> PyErr + string" where
  "extract_str P v = (case v of PyStr t \<Rightarrow> Inr t | _ \<Rightarrow> Inl (py_extract_error P v))"

fun set_item :: "PyObj \<Rightarrow> PyObj \<Rightarrow> (PyObj \<times> PyObj) list \<Rightarrow> (PyObj \<times> PyObj) list" where
  "set_item k v [] = [(k, v)]"
| "set_item k v ((k', v') # d) = (if k' = k then (k', v) # d else (k', v') # set_item k v d)"

section \<open>Metadata\<close>

fun extract_attributes :: "py_env \<Rightarrow> (PyObj \<times> PyObj) list \<Rightarrow> (string \<rightharpoonup> string) \<Rightarrow> PyErr + (string \<rightharpoonup> string)" where
  "extract_attributes P [] attributes = Inr attributes"
| "extract_attributes P ((k, v) # d) attributes =
     (case extract_str P k of
        Inl e \<Rightarrow> Inl e
      | Inr k' \<Rightarrow>
          (case extract_str P v of
             Inl e \<Rightarrow> Inl e
           | Inr v' \<Rightarrow> extract_attributes P d (attributes(k' \<mapsto> v'))))"

definition meta_from_dict :: "py_env \<Rightarrow> (PyObj \<times> PyObj) list \<Rightarrow> PyErr + Metadata" where
  "meta_from_dict P dict =
     (case (case map_of dict (PyStr ''value'') of None \<Rightarrow> Inr [] | Some v \<Rightarrow> extract_str P v) of
        Inl e \<Rightarrow> Inl e
      | Inr value \<Rightarrow>
          (case map_of dict (PyStr ''attributes'') of
             None \<Rightarrow> Inr \<lparr>md_value = value, md_attributes = Map.empty\<rparr>
           | Some attrs \<Rightarrow>
               (case attrs of
                  PyDict d \<Rightarrow>
                    (case extract_attributes P d Map.empty of
                       Inl e \<Rightarrow> Inl e
                     | Inr attributes \<Rightarrow> Inr \<lparr>md_value = value, md_attributes = attributes\<rparr>)
                | _ \<Rightarrow> Inl (PyTypeError ([CHR 0x27] @ ''attributes'' @ [CHR 0x27] @ '' must be a dict'')))))"

definition meta_to_dict :: "py_env \<Rightarrow> Metadata \<Rightarrow> (PyObj \<times> PyObj) list" where
  "meta_to_dict P meta =
     (let dict = set_item (PyStr ''value'') (PyStr (md_value meta)) [];
          attrs = foldl (\<lambda>attrs (k, v). set_item (PyStr k) (PyStr v) attrs) [] (py_entries P (md_attributes meta))
      in set_item (PyStr ''attributes'') (PyDict attrs) dict)"

section \<open>RadixEngine\<close>

definition py_config ::
  "string option \<Rightarrow> bool \<Rightarrow> usize \<Rightarrow> u64 option \<Rightarrow> string option \<Rightarrow> string \<Rightarrow> RadixConfig" where
  "py_config variant cache max_entries ttl_seconds redis_url redis_channel =
     (let config =
            (if variant = Some ''standard'' then RadixConfig_default\<lparr>cfg_engine_variant := Standard\<rparr>
             else if variant = Some ''lockfree'' then RadixConfig_default\<lparr>cfg_engine_variant := LockFree\<rparr>
             else if variant = Some ''adaptive'' then RadixConfig_default\<lparr>cfg_engine_variant := Adaptive\<rparr>
             else memory_efficient);
          config = config\<lparr>cfg_cache_enabled := cache, cfg_cache_max_entries := max_entries, cfg_cache_ttl_seconds := ttl_seconds\<rparr>
      in case redis_url of
           Some url \<Rightarrow>
             config\<lparr>cfg_redis := Some \<lparr>rc_url = url, rc_pool_size = 10, rc_connect_timeout = 5000000000, rc_max_retries = 3\<rparr>,
               cfg_redis_channel := redis_channel\<rparr>
         | None \<Rightarrow> config)"

definition PyRadixEngine_new ::
  "'s redis_server \<Rightarrow> ('n, 'j) serde \<Rightarrow> 'n ipnet_ops \<Rightarrow> Isa \<Rightarrow> Host \<Rightarrow> 's \<Rightarrow> string + unit \<Rightarrow> RadixConfig
     \<Rightarrow> (PyErr + ('n, 'j, 's) BoxedEngine) option" where
  "PyRadixEngine_new R J N isa host server runtime config =
     (case runtime of
        Inl e \<Rightarrow> Some (Inl (PyValueError e))
      | Inr _ \<Rightarrow> map_option Inr (radixip_new R J N isa host server config))"

definition invalid_cidr :: "py_env \<Rightarrow> string \<Rightarrow> PyErr" where
  "invalid_cidr P subnet = PyValueError (''Invalid CIDR '' @ [CHR 0x27] @ subnet @ [CHR 0x27] @ '': '' @ py_cidr_error P subnet)"

definition PyRadixEngine_insert ::
  "py_env \<Rightarrow> ('n, 'j) serde \<Rightarrow> ('e, 'n) RadixEngine \<Rightarrow> string \<Rightarrow> (PyObj \<times> PyObj) list \<Rightarrow> 'e \<Rightarrow> ((PyErr + unit) \<times> 'e) option" where
  "PyRadixEngine_insert P J E subnet metadata e =
     (case sj_net_from_str J subnet of
        None \<Rightarrow> Some (Inl (invalid_cidr P subnet), e)
      | Some pfx \<Rightarrow>
          (case meta_from_dict P metadata of
             Inl err \<Rightarrow> Some (Inl err, e)
           | Inr meta \<Rightarrow>
               map_option (map_prod (\<lambda>r. case r of Inl err \<Rightarrow> Inl (PyValueError err) | Inr _ \<Rightarrow> Inr ()) id) (re_insert E pfx meta e)))"

definition PyRadixEngine_lookup ::
  "py_env \<Rightarrow> ('e, 'n) RadixEngine \<Rightarrow> string \<Rightarrow> 'e \<Rightarrow> ((PyErr + (PyObj \<times> PyObj) list option) \<times> 'e) option" where
  "PyRadixEngine_lookup P E ip e =
     (case parse_ip ip of
        None \<Rightarrow> Some (Inl (PyValueError (''Invalid IP address: '' @ ip)), e)
      | Some addr \<Rightarrow> map_option (map_prod (\<lambda>r. Inr (map_option (meta_to_dict P) r)) id) (re_lookup E addr e))"

definition PyRadixEngine_remove ::
  "py_env \<Rightarrow> ('n, 'j) serde \<Rightarrow> ('e, 'n) RadixEngine \<Rightarrow> string \<Rightarrow> 'e \<Rightarrow> ((PyErr + bool) \<times> 'e) option" where
  "PyRadixEngine_remove P J E subnet e =
     (case sj_net_from_str J subnet of
        None \<Rightarrow> Some (Inl (invalid_cidr P subnet), e)
      | Some pfx \<Rightarrow> map_option (map_prod (\<lambda>r. Inr (r \<noteq> None)) id) (re_remove E pfx e))"

definition PyRadixEngine_contains :: "('e, 'n) RadixEngine \<Rightarrow> string \<Rightarrow> 'e \<Rightarrow> ((PyErr + bool) \<times> 'e) option" where
  "PyRadixEngine_contains E ip e =
     (case parse_ip ip of
        None \<Rightarrow> Some (Inl (PyValueError (''Invalid IP address: '' @ ip)), e)
      | Some addr \<Rightarrow> map_option (map_prod (\<lambda>r. Inr (r \<noteq> None)) id) (re_lookup E addr e))"

definition PyRadixEngine_clear :: "('e, 'n) RadixEngine \<Rightarrow> 'e \<Rightarrow> 'e option" where
  "PyRadixEngine_clear E e = re_clear E e"

definition PyRadixEngine_len :: "('e, 'n) RadixEngine \<Rightarrow> 'e \<Rightarrow> usize" where
  "PyRadixEngine_len E e = re_size E e"

definition PyRadixEngine_stats :: "('e, 'n) RadixEngine \<Rightarrow> 'e \<Rightarrow> (PyObj \<times> PyObj) list" where
  "PyRadixEngine_stats E e =
     (let s = re_stats E e in
      foldl (\<lambda>dict (k, v). set_item (PyStr k) (PyInt (unat v)) dict) []
        [(''size'', st_size s), (''inserts'', st_inserts s), (''lookups'', st_lookups s), (''hits'', st_hits s),
         (''misses'', st_misses s), (''removals'', st_removals s)])"

section \<open>RadixPolicy\<close>

definition PyRadixPolicy_from_yaml ::
  "('n, 'e, 'c, 'v, 'b) policy_env \<Rightarrow> 'e option \<Rightarrow> (string \<Rightarrow> string + string) \<Rightarrow> (string \<Rightarrow> string + 'n RadixIpConfig)
     \<Rightarrow> string + unit \<Rightarrow> string \<Rightarrow> (PyErr + ('n, 'e, 'c, 'v, 'b) PolicyHandle) option" where
  "PyRadixPolicy_from_yaml X balanced_engine read_to_string from_str runtime path =
     (case config_from_file read_to_string from_str path of
        Inl e \<Rightarrow> Some (Inl (PyValueError (ConfigError_to_string e)))
      | Inr config \<Rightarrow>
          (case runtime of
             Inl e \<Rightarrow> Some (Inl (PyValueError e))
           | Inr _ \<Rightarrow> map_option (\<lambda>engine. Inr (PolicyHandle_new X engine config)) balanced_engine))"

definition py_result :: "PolicyResult option \<Rightarrow> PyErr + (PyObj \<times> PyObj) list" where
  "py_result r =
     (case r of
        None \<Rightarrow> Inl (PyValueError ''invalid IP address family'')
      | Some result \<Rightarrow>
          (let output = set_item (PyStr ''decision'') (PyStr (decision_name (pr_decision result))) [];
               output = set_item (PyStr ''retry_after_seconds'') (PyInt (unat (pr_retry_after_seconds result))) output
           in Inr output))"

definition PyRadixPolicy_check_ip ::
  "('n, 'e, 'c, 'v, 'b) policy_env \<Rightarrow> (nat \<Rightarrow> u32) \<Rightarrow> Instant \<Rightarrow> string \<Rightarrow> ('n, 'e, 'c, 'v, 'b) PolicyHandle
     \<Rightarrow> ((PyErr + (PyObj \<times> PyObj) list) \<times> ('n, 'e, 'c, 'v, 'b) PolicyHandle) option" where
  "PyRadixPolicy_check_ip X clk now ip h =
     (case parse_ip ip of
        None \<Rightarrow> Some (Inl (PyValueError (''Invalid IP address: '' @ ip)), h)
      | Some addr \<Rightarrow> map_option (map_prod py_result id) (PolicyHandle_check X clk now (PackedIp_from addr) h))"

definition PyRadixPolicy_check_request ::
  "('n, 'e, 'c, 'v, 'b) policy_env \<Rightarrow> (nat \<Rightarrow> u32) \<Rightarrow> Instant \<Rightarrow> string \<Rightarrow> string \<Rightarrow> string \<Rightarrow> ('n, 'e, 'c, 'v, 'b) PolicyHandle
     \<Rightarrow> ((PyErr + (PyObj \<times> PyObj) list) \<times> ('n, 'e, 'c, 'v, 'b) PolicyHandle) option" where
  "PyRadixPolicy_check_request X clk now ip meth path h =
     (case parse_ip ip of
        None \<Rightarrow> Some (Inl (PyValueError (''Invalid IP address: '' @ ip)), h)
      | Some addr \<Rightarrow> map_option (map_prod py_result id) (check_request X clk now (PackedIp_from addr) meth path h))"

section \<open>Metadata round trip\<close>

lemma set_item_new: "k \<notin> fst ` set d \<Longrightarrow> set_item k v d = d @ [(k, v)]"
  by (induction k v d rule: set_item.induct) auto

lemma set_items_distinct:
  "distinct (map fst kvs) \<Longrightarrow> (\<And>k. k \<in> fst ` set kvs \<Longrightarrow> PyStr k \<notin> fst ` set d) \<Longrightarrow>
     foldl (\<lambda>d (k, v). set_item (PyStr k) (PyStr v) d) d kvs = d @ map (\<lambda>(k, v). (PyStr k, PyStr v)) kvs"
proof (induction kvs arbitrary: d)
  case (Cons kv kvs)
  obtain k v where kv: "kv = (k, v)" by (cases kv)
  have "set_item (PyStr k) (PyStr v) d = d @ [(PyStr k, PyStr v)]" using Cons.prems(2) [of k] kv by (simp add: set_item_new)
  moreover have "PyStr k' \<notin> fst ` set (d @ [(PyStr k, PyStr v)])" if "k' \<in> fst ` set kvs" for k'
    using that Cons.prems(1) Cons.prems(2) [of k'] kv by auto
  ultimately show ?case using Cons.IH [of "d @ [(PyStr k, PyStr v)]"] Cons.prems(1) kv by simp
qed simp

lemma extract_attributes_strings:
  "extract_attributes P (map (\<lambda>(k, v). (PyStr k, PyStr v)) kvs) a = Inr (a ++ map_of (rev kvs))"
  by (induction kvs arbitrary: a) (auto simp: extract_str_def map_add_def fun_eq_iff split: option.split)

lemma py_meta_roundtrip:
  assumes "map_order (py_entries P)" and "finite (dom (md_attributes m))"
  shows "meta_from_dict P (meta_to_dict P m) = Inr m"
proof -
  have "distinct (map fst (py_entries P (md_attributes m)))" by (rule map_order.entries_distinct [OF assms])
  then have "meta_to_dict P m = [(PyStr ''value'', PyStr (md_value m)),
      (PyStr ''attributes'', PyDict (map (\<lambda>(k, v). (PyStr k, PyStr v)) (py_entries P (md_attributes m))))]"
    by (simp add: meta_to_dict_def set_items_distinct Let_def)
  then show ?thesis
    by (simp add: meta_from_dict_def extract_attributes_strings extract_str_def map_of_rev_distinct
        map_order.entries_distinct [OF assms] map_order.entries_map [OF assms])
qed

end
