(* ===== verification/Bindings.thy ===== *)
theory Bindings
  imports CApi PyApi Routeless
begin

text \<open>
  The language bindings compared: what the C, Node.js and Python interfaces make of the same sequence of
  calls. Each is a view of one reference interface over the engine, and of the policy handle.
\<close>

section \<open>Interfaces that follow a reference\<close>

fun call_run :: "('q \<Rightarrow> 's \<Rightarrow> ('r \<times> 's) option) \<Rightarrow> 'q list \<Rightarrow> 's \<Rightarrow> ('r list \<times> 's) option" where
  "call_run f [] s = Some ([], s)"
| "call_run f (q # qs) s =
     (case f q s of None \<Rightarrow> None | Some (r, s') \<Rightarrow> map_option (map_prod ((#) r) id) (call_run f qs s'))"

text \<open>An interface whose calls give the view of the reference's results and keep its state related to
  the reference's; it panics exactly when the reference does.\<close>

locale binding =
  fixes step :: "'q \<Rightarrow> 'e \<Rightarrow> ('a \<times> 'e) option" and call :: "'q \<Rightarrow> 's \<Rightarrow> ('r \<times> 's) option"
    and view :: "'q \<Rightarrow> 'a \<Rightarrow> 'r" and related :: "'s \<Rightarrow> 'e \<Rightarrow> bool" and ok :: "'q \<Rightarrow> bool"
  assumes call_none: "ok q \<Longrightarrow> related s e \<Longrightarrow> step q e = None \<Longrightarrow> call q s = None"
    and call_some: "ok q \<Longrightarrow> related s e \<Longrightarrow> step q e = Some (a, e') \<Longrightarrow>
      \<exists>s'. call q s = Some (view q a, s') \<and> related s' e'"
begin

lemma run_none:
  "list_all ok qs \<Longrightarrow> related s e \<Longrightarrow> call_run step qs e = None \<Longrightarrow> call_run call qs s = None"
proof (induction qs arbitrary: s e)
  case (Cons q qs)
  then have ok: "ok q" "list_all ok qs" by simp_all
  show ?case
  proof (cases "step q e")
    case None
    then show ?thesis using call_none [OF ok(1) Cons.prems(2)] by simp
  next
    case (Some r)
    obtain a e' where r: "r = (a, e')" by (cases r)
    obtain s' where s': "call q s = Some (view q a, s')" "related s' e'" using call_some [OF ok(1) Cons.prems(2)] Some r by blast
    have "call_run step qs e' = None" using Cons.prems(3) Some r by simp
    from Cons.IH [OF ok(2) s'(2) this] s'(1) show ?thesis by simp
  qed
qed simp

lemma run_some:
  "list_all ok qs \<Longrightarrow> related s e \<Longrightarrow> call_run step qs e = Some (as, e') \<Longrightarrow>
     \<exists>s'. call_run call qs s = Some (map2 view qs as, s') \<and> related s' e'"
proof (induction qs arbitrary: s e as)
  case (Cons q qs)
  then have ok: "ok q" "list_all ok qs" by simp_all
  obtain a e1 where q: "step q e = Some (a, e1)" using Cons.prems(3) by (auto split: option.splits)
  then obtain as' where as: "as = a # as'" "call_run step qs e1 = Some (as', e')" using Cons.prems(3) by (auto split: option.splits)
  obtain s1 where s1: "call q s = Some (view q a, s1)" "related s1 e1" using call_some [OF ok(1) Cons.prems(2) q] by blast
  from Cons.IH [OF ok(2) s1(2) as(2)] s1(1) as(1) show ?case by auto
qed auto

end

lemma view_binding:
  assumes "\<And>q s. ok q \<Longrightarrow> call q s = map_option (map_prod (view q) id) (step q s)"
  shows "binding step call view (=) ok"
  by unfold_locales (simp_all add: assms)

lemma view_run:
  assumes "binding step call view (=) ok" and "list_all ok qs"
  shows "call_run call qs s = map_option (map_prod (map2 view qs) id) (call_run step qs s)"
proof (cases "call_run step qs s")
  case None
  then show ?thesis using binding.run_none [OF assms refl] by simp
next
  case (Some r)
  then show ?thesis using binding.run_some [OF assms refl, of s "fst r" "snd r"] by (cases r) auto
qed

section \<open>The engine\<close>

datatype ApiOp = ApiInsert string Metadata | ApiLookup string | ApiRemove string | ApiContains string | ApiClear | ApiSize

datatype ApiResult = Rejected | Failed string | Stored | Found "Metadata option" | Removed bool | Covered bool | Cleared | Sized usize

fun api_call :: "('n, 'j) serde \<Rightarrow> ('e, 'n) RadixEngine \<Rightarrow> ApiOp \<Rightarrow> 'e \<Rightarrow> (ApiResult \<times> 'e) option" where
  "api_call J E (ApiInsert t m) e =
     (case sj_net_from_str J t of
        None \<Rightarrow> Some (Rejected, e)
      | Some n \<Rightarrow> map_option (map_prod (case_sum Failed (\<lambda>_. Stored)) id) (re_insert E n m e))"
| "api_call J E (ApiLookup t) e =
     (case parse_ip t of None \<Rightarrow> Some (Rejected, e) | Some ip \<Rightarrow> map_option (map_prod Found id) (re_lookup E ip e))"
| "api_call J E (ApiRemove t) e =
     (case sj_net_from_str J t of
        None \<Rightarrow> Some (Rejected, e)
      | Some n \<Rightarrow> map_option (map_prod (\<lambda>r. Removed (r \<noteq> None)) id) (re_remove E n e))"
| "api_call J E (ApiContains t) e =
     (case parse_ip t of
        None \<Rightarrow> Some (Rejected, e)
      | Some ip \<Rightarrow> map_option (map_prod (\<lambda>r. Covered (r \<noteq> None)) id) (re_lookup E ip e))"
| "api_call J E ApiClear e = map_option (Pair Cleared) (re_clear E e)"
| "api_call J E ApiSize e = Some (Sized (re_size E e), e)"

text \<open>Metadata that can be sent through every interface.\<close>

fun sendable :: "('n, 'j) serde \<Rightarrow> ApiOp \<Rightarrow> bool" where
  "sendable J (ApiInsert _ m) \<longleftrightarrow> sj_to_string J m \<noteq> None \<and> finite (dom (md_attributes m))"
| "sendable J _ \<longleftrightarrow> True"

subsection \<open>C\<close>

datatype CResult = CCode c_int | CJson "string option" | CBool bool | CVoid | CSize usize

text \<open>A C client sends metadata as JSON, reads the string it gets and frees it.\<close>

fun c_call :: "('n, 'j) serde \<Rightarrow> ('e, 'n) RadixEngine \<Rightarrow> ptr \<Rightarrow> ApiOp \<Rightarrow> 'e c_heap \<Rightarrow> (CResult \<times> 'e c_heap) option" where
  "c_call J E p (ApiInsert t m) hp =
     map_option (map_prod CCode id) (radix_engine_insert J E p (CText t) (case sj_to_string J m of Some j \<Rightarrow> CText j | None \<Rightarrow> CNull) hp)"
| "c_call J E p (ApiLookup t) hp =
     (case radix_engine_match J E p (CText t) hp of
        None \<Rightarrow> None
      | Some (s, hp) \<Rightarrow> map_option (Pair (CJson (Option.bind s (hp_strings hp)))) (radix_engine_free_string s hp))"
| "c_call J E p (ApiRemove t) hp = map_option (map_prod CCode id) (radix_engine_remove J E p (CText t) hp)"
| "c_call J E p (ApiContains t) hp = map_option (map_prod CBool id) (radix_engine_contains E p (CText t) hp)"
| "c_call J E p ApiClear hp = map_option (map_prod (\<lambda>_. CVoid) id) (radix_engine_clear E p hp)"
| "c_call J E p ApiSize hp = map_option (map_prod CSize id) (radix_engine_size E p hp)"

definition c_json :: "('n, 'j) serde \<Rightarrow> Metadata \<Rightarrow> string option" where
  "c_json J m = Option.bind (sj_to_string J m) (\<lambda>t. if CHR 0x00 \<in> set t then None else Some t)"

fun c_view :: "('n, 'j) serde \<Rightarrow> ApiOp \<Rightarrow> ApiResult \<Rightarrow> CResult" where
  "c_view J (ApiInsert _ _) r = CCode (if r = Stored then 0 else - 1)"
| "c_view J (ApiLookup _) r = CJson (case r of Found m \<Rightarrow> Option.bind m (c_json J) | _ \<Rightarrow> None)"
| "c_view J (ApiRemove _) r = CCode (if r = Removed True then 0 else - 1)"
| "c_view J (ApiContains _) r = CBool (r = Covered True)"
| "c_view J ApiClear r = CVoid"
| "c_view J ApiSize r = CSize (case r of Sized n \<Rightarrow> n | _ \<Rightarrow> 0)"

text \<open>The heap behind the handle \<open>a\<close>: besides the engine, its objects and strings stay what they were.\<close>

definition c_related :: "nat \<Rightarrow> 'e c_heap \<Rightarrow> 'e c_heap \<Rightarrow> 'e \<Rightarrow> bool" where
  "c_related a hp0 hp e \<longleftrightarrow> hp_objects hp = (hp_objects hp0)(a \<mapsto> e) \<and> hp_strings hp = hp_strings hp0
     \<and> hp_next hp0 \<le> hp_next hp \<and> (\<forall>b \<ge> hp_next hp0. hp_strings hp0 b = None)"

lemma on_object_related:
  assumes "c_related a hp0 hp e"
  shows "on_object a hp f = map_option (\<lambda>(r, e'). (r, hp\<lparr>hp_objects := (hp_objects hp)(a \<mapsto> e')\<rparr>)) (f e)"
    and "c_related a hp0 (hp\<lparr>hp_objects := (hp_objects hp)(a \<mapsto> e')\<rparr>) e'"
  using assms by (auto simp: c_related_def on_object_def)

lemma match_related:
  assumes "c_related a hp0 hp e" and "parse_ip t = Some ip" and "re_lookup E ip e = Some (r, e')"
  shows "\<exists>hp'. c_call J E (Some a) (ApiLookup t) hp = Some (CJson (Option.bind r (c_json J)), hp') \<and> c_related a hp0 hp' e'"
proof -
  let ?hp = "hp\<lparr>hp_objects := (hp_objects hp)(a \<mapsto> e')\<rparr>"
  have rel: "c_related a hp0 ?hp e'" by (rule on_object_related(2) [OF assms(1)])
  have "hp_strings ?hp (hp_next ?hp) = None" using rel by (auto simp: c_related_def)
  then have fresh: "(hp_strings ?hp)(hp_next ?hp := None) = hp_strings ?hp" by (rule fun_upd_idem)
  have "radix_engine_match J E (Some a) (CText t) hp
      = Some (case r of Some m \<Rightarrow> cstring_into_raw (sj_to_string J m) ?hp | None \<Rightarrow> (None, ?hp))"
    using assms(2,3) on_object_related(1) [OF assms(1), of "re_lookup E ip"] by (simp add: radix_engine_match_def)
  moreover have "\<exists>hp'. map_option (Pair (CJson (Option.bind (fst (cstring_into_raw j ?hp)) (hp_strings (snd (cstring_into_raw j ?hp))))))
        (radix_engine_free_string (fst (cstring_into_raw j ?hp)) (snd (cstring_into_raw j ?hp)))
      = Some (CJson (Option.bind j (\<lambda>t. if CHR 0x00 \<in> set t then None else Some t)), hp') \<and> c_related a hp0 hp' e'" for j
    using rel fresh
    by (cases j; cases "CHR 0x00 \<in> set (the j)") (simp_all add: cstring_into_raw_def radix_engine_free_string_def c_related_def)
  ultimately show ?thesis using rel
    by (cases r) (auto simp: c_json_def radix_engine_free_string_def case_prod_unfold)
qed

lemma c_run_view:
  assumes "binding step call view (c_related a hp) ok" and "list_all ok qs"
    and "hp_objects hp a = Some e" and "\<forall>b \<ge> hp_next hp. hp_strings hp b = None"
  shows "map_option (\<lambda>(rs, hp'). (rs, hp_objects hp', hp_strings hp')) (call_run call qs hp)
    = map_option (\<lambda>(rs, e'). (map2 view qs rs, (hp_objects hp)(a \<mapsto> e'), hp_strings hp)) (call_run step qs e)"
proof -
  have rel: "c_related a hp hp e" using assms(3,4) by (auto simp: c_related_def)
  show ?thesis
  proof (cases "call_run step qs e")
    case None
    then show ?thesis using binding.run_none [OF assms(1,2) rel] by simp
  next
    case (Some r)
    then show ?thesis using binding.run_some [OF assms(1,2) rel, of "fst r" "snd r"] by (cases r) (auto simp: c_related_def)
  qed
qed

context serde_codec
begin

lemma c_binding: "binding (api_call J E) (c_call J E (Some a)) (c_view J) (c_related a hp0) (sendable J)"
proof
  fix q hp e assume ok: "sendable J q" and rel: "c_related a hp0 hp e"
  note obj = on_object_related [OF rel]
  note defs = radix_engine_insert_def radix_engine_remove_def radix_engine_contains_def radix_engine_clear_def radix_engine_size_def
    radix_engine_match_def
  show "c_call J E (Some a) q hp = None" if "api_call J E q e = None"
    using that ok by (cases q) (auto simp: defs obj(1) from_to_string split: option.splits)
  show "\<exists>hp'. c_call J E (Some a) q hp = Some (c_view J q r, hp') \<and> c_related a hp0 hp' e'"
    if run: "api_call J E q e = Some (r, e')" for r e'
  proof (cases q)
    case (ApiInsert t m)
    obtain j where j: "sj_to_string J m = Some j" "sj_from_str J j = Some m" using ok ApiInsert from_to_string by auto
    show ?thesis
    proof (cases "sj_net_from_str J t")
      case None
      then show ?thesis using run ApiInsert j rel by (auto simp: defs)
    next
      case (Some n)
      obtain x where x: "re_insert E n m e = Some (x, e')" "r = case_sum Failed (\<lambda>_. Stored) x"
        using run ApiInsert Some by auto
      then show ?thesis using ApiInsert Some j by (cases x) (simp_all add: defs obj)
    qed
  next
    case (ApiLookup t)
    show ?thesis
    proof (cases "parse_ip t")
      case None
      then show ?thesis using run ApiLookup rel by (auto simp: defs radix_engine_free_string_def)
    next
      case (Some ip)
      then show ?thesis using run ApiLookup match_related [OF rel Some] by auto
    qed
  next
    case (ApiRemove t)
    show ?thesis
    proof (cases "sj_net_from_str J t")
      case None
      then show ?thesis using run ApiRemove rel by (auto simp: defs)
    next
      case (Some n)
      obtain x where "re_remove E n e = Some (x, e')" "r = Removed (x \<noteq> None)" using run ApiRemove Some by auto
      then show ?thesis using ApiRemove Some by (cases x) (simp_all add: defs obj)
    qed
  next
    case (ApiContains t)
    show ?thesis
    proof (cases "parse_ip t")
      case None
      then show ?thesis using run ApiContains rel by (auto simp: defs)
    next
      case (Some n)
      obtain x where "re_lookup E n e = Some (x, e')" "r = Covered (x \<noteq> None)" using run ApiContains Some by auto
      then show ?thesis using ApiContains Some by (cases x) (simp_all add: defs obj)
    qed
  next
    case ApiClear
    then show ?thesis using run by (auto simp: defs obj)
  next
    case ApiSize
    then show ?thesis using run by (auto simp: defs obj)
  qed
qed

end

subsection \<open>Node.js\<close>

datatype NodeResult = NDone "NapiError + unit" | NMeta "NapiError + JsMetadata option" | NBool "NapiError + bool" | NVoid | NSize u32

definition to_js :: "Metadata \<Rightarrow> JsMetadata" where
  "to_js m = \<lparr>js_value = md_value m, js_attributes = md_attributes m\<rparr>"

fun node_call :: "('n, 'j) serde \<Rightarrow> ('e, 'n) RadixEngine \<Rightarrow> ApiOp \<Rightarrow> 'e \<Rightarrow> (NodeResult \<times> 'e) option" where
  "node_call J E (ApiInsert t m) e = map_option (map_prod NDone id) (RadixIP_insert J E t (to_js m) e)"
| "node_call J E (ApiLookup t) e = map_option (map_prod NMeta id) (RadixIP_lookup E t e)"
| "node_call J E (ApiRemove t) e = map_option (map_prod NBool id) (RadixIP_remove J E t e)"
| "node_call J E (ApiContains t) e = map_option (map_prod NBool id) (RadixIP_contains E t e)"
| "node_call J E ApiClear e = map_option (Pair NVoid) (RadixIP_clear E e)"
| "node_call J E ApiSize e = Some (NSize (RadixIP_size E e), e)"

fun node_view :: "ApiOp \<Rightarrow> ApiResult \<Rightarrow> NodeResult" where
  "node_view (ApiInsert t _) r = NDone (case r of Stored \<Rightarrow> Inr () | Failed err \<Rightarrow> Inl (napi_error GenericFailure err)
     | _ \<Rightarrow> Inl (napi_error InvalidArg (''Invalid CIDR: '' @ t)))"
| "node_view (ApiLookup t) r = NMeta (case r of Found m \<Rightarrow> Inr (map_option to_js m)
     | _ \<Rightarrow> Inl (napi_error InvalidArg (''Invalid IP: '' @ t)))"
| "node_view (ApiRemove t) r = NBool (case r of Removed b \<Rightarrow> Inr b | _ \<Rightarrow> Inl (napi_error InvalidArg (''Invalid CIDR: '' @ t)))"
| "node_view (ApiContains t) r = NBool (case r of Covered b \<Rightarrow> Inr b | _ \<Rightarrow> Inl (napi_error InvalidArg (''Invalid IP: '' @ t)))"
| "node_view ApiClear r = NVoid"
| "node_view ApiSize r = NSize (case r of Sized n \<Rightarrow> ucast n | _ \<Rightarrow> 0)"

lemma metadata_eta: "\<lparr>md_value = md_value m, md_attributes = md_attributes m\<rparr> = m"
  by (cases m) simp

lemma node_call_view: "node_call J E q e = map_option (map_prod (node_view q) id) (api_call J E q e)"
  by (cases q) (auto simp: RadixIP_insert_def RadixIP_lookup_def RadixIP_remove_def RadixIP_contains_def RadixIP_clear_def
      RadixIP_size_def to_js_def metadata_eta option.map_comp comp_def map_prod_def case_prod_unfold
      intro!: option.map_cong0 split: option.split sum.split)

interpretation node: binding "api_call J E" "node_call J E" node_view "(=)" "\<lambda>_. True" for J :: "('n, 'j) serde" and E :: "('e, 'n) RadixEngine"
  by (rule view_binding) (rule node_call_view)

subsection \<open>Python\<close>

datatype PyResult = PDone "PyErr + unit" | PMeta "PyErr + (PyObj \<times> PyObj) list option" | PBool "PyErr + bool" | PVoid | PSize usize

fun py_call :: "py_env \<Rightarrow> ('n, 'j) serde \<Rightarrow> ('e, 'n) RadixEngine \<Rightarrow> ApiOp \<Rightarrow> 'e \<Rightarrow> (PyResult \<times> 'e) option" where
  "py_call P J E (ApiInsert t m) e = map_option (map_prod PDone id) (PyRadixEngine_insert P J E t (meta_to_dict P m) e)"
| "py_call P J E (ApiLookup t) e = map_option (map_prod PMeta id) (PyRadixEngine_lookup P E t e)"
| "py_call P J E (ApiRemove t) e = map_option (map_prod PBool id) (PyRadixEngine_remove P J E t e)"
| "py_call P J E (ApiContains t) e = map_option (map_prod PBool id) (PyRadixEngine_contains E t e)"
| "py_call P J E ApiClear e = map_option (Pair PVoid) (PyRadixEngine_clear E e)"
| "py_call P J E ApiSize e = Some (PSize (PyRadixEngine_len E e), e)"

fun py_view :: "py_env \<Rightarrow> ApiOp \<Rightarrow> ApiResult \<Rightarrow> PyResult" where
  "py_view P (ApiInsert t _) r = PDone (case r of Stored \<Rightarrow> Inr () | Failed err \<Rightarrow> Inl (PyValueError err) | _ \<Rightarrow> Inl (invalid_cidr P t))"
| "py_view P (ApiLookup t) r = PMeta (case r of Found m \<Rightarrow> Inr (map_option (meta_to_dict P) m)
     | _ \<Rightarrow> Inl (PyValueError (''Invalid IP address: '' @ t)))"
| "py_view P (ApiRemove t) r = PBool (case r of Removed b \<Rightarrow> Inr b | _ \<Rightarrow> Inl (invalid_cidr P t))"
| "py_view P (ApiContains t) r = PBool (case r of Covered b \<Rightarrow> Inr b | _ \<Rightarrow> Inl (PyValueError (''Invalid IP address: '' @ t)))"
| "py_view P ApiClear r = PVoid"
| "py_view P ApiSize r = PSize (case r of Sized n \<Rightarrow> n | _ \<Rightarrow> 0)"

lemma py_binding:
  fixes E :: "('e, 'n) RadixEngine" and J :: "('n, 'j) serde"
  assumes "map_order (py_entries P)"
  shows "binding (api_call J E) (py_call P J E) (py_view P) (=) (sendable J)"
proof (rule view_binding)
  fix q and e :: 'e assume ok: "sendable J q"
  have meta: "meta_from_dict P (meta_to_dict P m) = Inr m" if "q = ApiInsert t m" for t m
    using py_meta_roundtrip [OF assms, of m] ok that by simp
  show "py_call P J E q e = map_option (map_prod (py_view P q) id) (api_call J E q e)"
    using meta by (cases q) (auto simp: PyRadixEngine_insert_def PyRadixEngine_lookup_def PyRadixEngine_remove_def
      PyRadixEngine_contains_def PyRadixEngine_clear_def PyRadixEngine_len_def option.map_comp comp_def map_prod_def case_prod_unfold
      intro!: option.map_cong0 split: option.split sum.split)
qed

definition plain_py :: py_env where
  "plain_py = \<lparr>py_extract_error = (\<lambda>_. PyTypeError ''str expected''), py_cidr_error = (\<lambda>_. ''invalid address''),
     py_entries = sorted_entries\<rparr>"

interpretation c_engine: binding "api_call plain_serde E" "c_call plain_serde E (Some a)" "c_view plain_serde" "c_related a hp0"
    "sendable plain_serde" for E :: "('e, cidr) RadixEngine" and a hp0
  by (rule plain.c_binding)

interpretation py_engine: binding "api_call J E" "py_call plain_py J E" "py_view plain_py" "(=)" "sendable J"
    for J :: "('n, 'j) serde" and E :: "('e, 'n) RadixEngine"
  by (rule py_binding) (simp add: plain_py_def by_key.map_order_axioms)

section \<open>The policy\<close>

text \<open>A check of an address or of a request, with its clock readings. \<open>None\<close> in the result is the
  rejection of the text.\<close>

datatype PolicyQuery = QIp "nat \<Rightarrow> u32" Instant string | QRequest "nat \<Rightarrow> u32" Instant string string string

fun policy_query ::
  "('n, 'e, 'c, 'v, 'b) policy_env \<Rightarrow> PolicyQuery \<Rightarrow> ('n, 'e, 'c, 'v, 'b) PolicyHandle
     \<Rightarrow> (PolicyResult option \<times> ('n, 'e, 'c, 'v, 'b) PolicyHandle) option" where
  "policy_query X (QIp clk now t) h =
     (case parse_ip t of
        None \<Rightarrow> Some (None, h)
      | Some ip \<Rightarrow> map_option (\<lambda>(d, pe). (Some (from_decision d), h\<lparr>ph_policy := pe\<rparr>)) (check_ip X clk now ip (ph_policy h)))"
| "policy_query X (QRequest clk now t meth path) h =
     (case parse_ip t of
        None \<Rightarrow> Some (None, h)
      | Some ip \<Rightarrow> check_request X clk now (PackedIp_from ip) meth path h)"

fun query_text :: "PolicyQuery \<Rightarrow> string" where
  "query_text (QIp _ _ t) = t"
| "query_text (QRequest _ _ t _ _) = t"

lemma check_request_packed:
  "check_request X clk now (PackedIp_from ip) meth path h = Some (r, h') \<Longrightarrow> r \<noteq> None"
  by (auto simp: check_request_def into_from_packed split: option.splits)

subsection \<open>Node.js and Python\<close>

fun node_query ::
  "('n, 'e, 'c, 'v, 'b) policy_env \<Rightarrow> PolicyQuery \<Rightarrow> ('n, 'e, 'c, 'v, 'b) PolicyHandle
     \<Rightarrow> ((NapiError + JsPolicyResult) \<times> ('n, 'e, 'c, 'v, 'b) PolicyHandle) option" where
  "node_query X (QIp clk now t) h = RadixPolicy_check_ip X clk now t h"
| "node_query X (QRequest clk now t meth path) h = RadixPolicy_check_request X clk now t meth path h"

text \<open>The words of the documentation for the four codes, and the values of the C header.\<close>

definition code_word :: "PolicyDecisionCode \<Rightarrow> string" where
  "code_word c = (case c of CodeAllow \<Rightarrow> ''allow'' | CodeBlock \<Rightarrow> ''block'' | CodeLimit \<Rightarrow> ''limit'' | CodeBadRequest \<Rightarrow> ''bad_request'')"

definition code_value :: "PolicyDecisionCode \<Rightarrow> RadixPolicyDecision" where
  "code_value c = (case c of CodeAllow \<Rightarrow> DecisionAllow | CodeBlock \<Rightarrow> DecisionBlock | CodeLimit \<Rightarrow> DecisionLimit
     | CodeBadRequest \<Rightarrow> DecisionBadRequest)"

lemma decision_words: "decision_name c = code_word c" "c_decision c = code_value c"
  by (cases c; simp add: code_word_def code_value_def)+

definition node_query_view :: "PolicyQuery \<Rightarrow> PolicyResult option \<Rightarrow> NapiError + JsPolicyResult" where
  "node_query_view q r =
     (case r of None \<Rightarrow> Inl (napi_error InvalidArg (''Invalid IP: '' @ query_text q))
      | Some x \<Rightarrow> Inr \<lparr>jp_decision = code_word (pr_decision x), jp_retry_after_seconds = pr_retry_after_seconds x\<rparr>)"

fun py_query ::
  "('n, 'e, 'c, 'v, 'b) policy_env \<Rightarrow> PolicyQuery \<Rightarrow> ('n, 'e, 'c, 'v, 'b) PolicyHandle
     \<Rightarrow> ((PyErr + (PyObj \<times> PyObj) list) \<times> ('n, 'e, 'c, 'v, 'b) PolicyHandle) option" where
  "py_query X (QIp clk now t) h = PyRadixPolicy_check_ip X clk now t h"
| "py_query X (QRequest clk now t meth path) h = PyRadixPolicy_check_request X clk now t meth path h"

definition py_query_view :: "PolicyQuery \<Rightarrow> PolicyResult option \<Rightarrow> PyErr + (PyObj \<times> PyObj) list" where
  "py_query_view q r =
     (case r of None \<Rightarrow> Inl (PyValueError (''Invalid IP address: '' @ query_text q))
      | Some x \<Rightarrow> Inr [(PyStr ''decision'', PyStr (code_word (pr_decision x))),
          (PyStr ''retry_after_seconds'', PyInt (unat (pr_retry_after_seconds x)))])"

lemma handle_check_packed:
  "PolicyHandle_check X clk now (PackedIp_from ip) h =
     map_option (\<lambda>(d, pe). (Some (from_decision d), h\<lparr>ph_policy := pe\<rparr>)) (check_ip X clk now ip (ph_policy h))"
  by (simp add: PolicyHandle_check_def into_from_packed)

lemma map_check_request:
  assumes "\<And>x. f (Some x) = g (Some x)"
  shows "map_option (map_prod f id) (check_request X clk now (PackedIp_from ip) meth path h)
    = map_option (map_prod g id) (check_request X clk now (PackedIp_from ip) meth path h)"
proof (rule option.map_cong0)
  fix z assume "z \<in> set_option (check_request X clk now (PackedIp_from ip) meth path h)"
  then have "fst z \<noteq> None" using check_request_packed [of X clk now ip meth path h "fst z" "snd z"] by (cases z) simp
  then show "map_prod f id z = map_prod g id z" using assms by (cases z) auto
qed

lemma node_query_view: "node_query X q h = map_option (map_prod (node_query_view q) id) (policy_query X q h)"
proof (cases q)
  case (QIp clk now t)
  then show ?thesis
    by (auto simp: RadixPolicy_check_ip_def handle_check_packed node_query_view_def js_result_def decision_words option.map_comp comp_def case_prod_unfold
        split: option.split intro!: option.map_cong0)
next
  case (QRequest clk now t meth path)
  then show ?thesis
    by (auto simp: RadixPolicy_check_request_def node_query_view_def js_result_def decision_words split: option.split intro!: map_check_request)
qed

lemma py_query_view: "py_query X q h = map_option (map_prod (py_query_view q) id) (policy_query X q h)"
proof (cases q)
  case (QIp clk now t)
  then show ?thesis
    by (auto simp: PyRadixPolicy_check_ip_def handle_check_packed py_query_view_def py_result_def decision_words option.map_comp comp_def case_prod_unfold
        split: option.split intro!: option.map_cong0)
next
  case (QRequest clk now t meth path)
  then show ?thesis
    by (auto simp: PyRadixPolicy_check_request_def py_query_view_def py_result_def decision_words split: option.split intro!: map_check_request)
qed

interpretation node_policy: binding "policy_query X" "node_query X" node_query_view "(=)" "\<lambda>_. True" for X
  by (rule view_binding) (rule node_query_view)

interpretation py_policy: binding "policy_query X" "py_query X" py_query_view "(=)" "\<lambda>_. True" for X
  by (rule view_binding) (rule py_query_view)

subsection \<open>C\<close>

text \<open>A C client checks addresses, which it packs.\<close>

fun c_query ::
  "('n, 'e, 'c, 'v, 'b) policy_env \<Rightarrow> ptr \<Rightarrow> PolicyQuery \<Rightarrow> ('n, 'e, 'c, 'v, 'b) PolicyHandle c_heap
     \<Rightarrow> ((c_int \<times> RadixPolicyResult option) \<times> ('n, 'e, 'c, 'v, 'b) PolicyHandle c_heap) option" where
  "c_query X p (QIp clk now t) hp =
     (case parse_ip t of
        None \<Rightarrow> radix_policy_check X clk now p None True hp
      | Some ip \<Rightarrow> radix_policy_check X clk now p
          (Some \<lparr>iv_family = pk_family (PackedIp_from ip), iv_bytes = pk_bytes (PackedIp_from ip)\<rparr>) True hp)"
| "c_query X p (QRequest clk now t meth path) hp = radix_policy_check X clk now p None True hp"

fun address_query :: "PolicyQuery \<Rightarrow> bool" where
  "address_query (QIp _ _ t) \<longleftrightarrow> parse_ip t \<noteq> None"
| "address_query (QRequest _ _ _ _ _) \<longleftrightarrow> False"

definition c_query_view :: "PolicyQuery \<Rightarrow> PolicyResult option \<Rightarrow> c_int \<times> RadixPolicyResult option" where
  "c_query_view q r =
     (case r of None \<Rightarrow> (1, None)
      | Some x \<Rightarrow> (0, Some \<lparr>rp_decision = code_value (pr_decision x), rp_retry_after_seconds = pr_retry_after_seconds x\<rparr>))"

interpretation c_policy: binding "policy_query X" "c_query X (Some a)" c_query_view "c_related a hp0" address_query for X a hp0
proof
  fix q hp h assume "address_query q" and rel: "c_related a hp0 hp h"
  then obtain clk now t ip where q: "q = QIp clk now t" "parse_ip t = Some ip" by (cases q) auto
  note obj = on_object_related [OF rel]
  have packed: "\<lparr>pk_family = pk_family (PackedIp_from ip), pk_bytes = pk_bytes (PackedIp_from ip)\<rparr> = PackedIp_from ip" by simp
  show "c_query X (Some a) q hp = None" if "policy_query X q h = None"
    using that q by (simp add: radix_policy_check_def obj(1) packed handle_check_packed)
  show "\<exists>hp'. c_query X (Some a) q hp = Some (c_query_view q r, hp') \<and> c_related a hp0 hp' h'"
    if "policy_query X q h = Some (r, h')" for r h'
    using that q obj(2) by (auto simp: radix_policy_check_def obj(1) packed handle_check_packed c_query_view_def decision_words)
qed

subsection \<open>Handles over an engine without routes\<close>

definition no_block :: "PolicyResult option \<Rightarrow> bool" where
  "no_block r \<longleftrightarrow> (\<forall>x. r = Some x \<longrightarrow> pr_decision x \<in> {CodeAllow, CodeLimit})"

context routeless
begin

lemma unarmed_query:
  assumes "unarmed (ph_policy h)"
  shows "\<exists>r h'. policy_query X q h = Some (r, h') \<and> unarmed (ph_policy h') \<and> no_block r"
proof (cases "parse_ip (query_text q)")
  case None
  then show ?thesis using assms by (cases q) (auto simp: no_block_def)
next
  case (Some ip)
  show ?thesis
  proof (cases q)
    case (QIp clk now t)
    obtain d l' pe' where "check_ip_with_limiter X clk now ip None (ph_policy h) = Some (d, l', pe')" "unarmed pe'" "d \<in> {Allow, Limit}"
      using unarmed_check [OF assms] by blast
    with QIp Some show ?thesis by (auto simp: check_ip_def no_block_def from_decision_def)
  next
    case (QRequest clk now t meth path)
    define l where "l = map_option (\<lambda>i. ph_limiters h ! i) (Option.bind (ph_route_trie h) (match_route meth path))"
    obtain d l' pe' where "check_ip_with_limiter X clk now ip l (ph_policy h) = Some (d, l', pe')" "unarmed pe'" "d \<in> {Allow, Limit}"
      using unarmed_check [OF assms] by blast
    with QRequest Some show ?thesis
      by (cases "Option.bind (ph_route_trie h) (match_route meth path)")
         (auto simp: l_def check_request_def into_from_packed no_block_def from_decision_def)
  qed
qed

lemma unarmed_run:
  assumes "unarmed (ph_policy h)"
  shows "\<exists>rs h'. call_run (policy_query X) qs h = Some (rs, h') \<and> list_all no_block rs \<and> length rs = length qs"
  using assms
proof (induction qs arbitrary: h)
  case (Cons q qs)
  obtain r h1 where q: "policy_query X q h = Some (r, h1)" "unarmed (ph_policy h1)" "no_block r"
    using unarmed_query [OF Cons.prems] by blast
  from Cons.IH [OF q(2)] q(1,3) show ?case by auto
qed simp

end

section \<open>Split planes with Redis in Node.js\<close>

definition split_redis :: "EngineConfig \<Rightarrow> bool" where
  "split_redis c \<longleftrightarrow> ec_enable_split_plane c = Some True \<and> ec_redis_url c \<noteq> None
     \<and> ec_write_compressed c \<noteq> Some True \<and> ec_variant c \<noteq> Some ''art''"

definition connected :: "'n ipnet_ops \<Rightarrow> ('n, 'j, 's) HybridEngine \<Rightarrow> bool" where
  "connected N h \<longleftrightarrow> hy_redis h \<noteq> None \<and> wrapper_inv N (hy_control h)"

lemma connected_insert:
  assumes "ipnetwork N" and "wrapper_inv N w"
  obtains w' where "wrapper_insert N isa n m w = Some (Inr (), w')" "wrapper_inv N w'"
  using radix_engine.engine_insert [OF lpm_engine.axioms(1) [OF wrapper_lpm_engine [OF assms(1)]] assms(2), of isa n m] that
  by (auto simp: wrapper_RadixEngine_def)

lemma boot_load_connected:
  assumes "ipnetwork N"
  shows "connected N h \<Longrightarrow> boot_load_planes J N isa entries h = Some h' \<Longrightarrow> connected N h'"
proof (induction entries arbitrary: h)
  case (Cons x entries)
  obtain cidr meta_json where x: "x = (cidr, meta_json)" by (cases x)
  show ?case
  proof (cases "sj_net_from_str J cidr = None \<or> sj_from_str J meta_json = None")
    case True
    then have "boot_load_planes J N isa (x # entries) h = boot_load_planes J N isa entries h" by (auto simp: x split: option.split)
    with Cons show ?thesis by simp
  next
    case False
    then obtain n m where nm: "sj_net_from_str J cidr = Some n" "sj_from_str J meta_json = Some m" by auto
    obtain c where c: "wrapper_insert N isa n m (hy_control h) = Some (Inr (), c)" "wrapper_inv N c"
      using connected_insert [OF assms] Cons.prems(1) by (metis connected_def)
    obtain y d where d: "wrapper_insert N isa n m (hy_data h) = Some (y, d)"
      using Cons.prems(2) nm c x by (auto split: option.splits)
    have "connected N (h\<lparr>hy_control := c, hy_data := d\<rparr>)" using Cons.prems(1) c(2) by (simp add: connected_def)
    moreover have "boot_load_planes J N isa entries (h\<lparr>hy_control := c, hy_data := d\<rparr>) = Some h'"
      using Cons.prems(2) nm c(1) d x by simp
    ultimately show ?thesis by (rule Cons.IH)
  qed
qed simp

lemma node_split_connected:
  fixes N :: "'n ipnet_ops" and J :: "('n, 'j) serde" and R :: "'s redis_server"
  assumes "ipnetwork N" and "split_redis c" and "RadixIP_new R J N isa host server rt (Some c) = Some b"
  obtains h where "b = BoxHybrid h" "connected N h"
proof -
  define cfg where "cfg = node_config (Some c)"
  have cfg: "cfg_enable_split_plane cfg" "cfg_redis cfg \<noteq> None" "\<not> cfg_write_compressed cfg" "cfg_engine_variant cfg \<noteq> ART"
    using assms(2) by (auto simp: cfg_def node_config_def split_redis_def unwrap_or_def node_variant_def RadixConfig_default_def Let_def
        split: option.splits)
  obtain h where h: "b = BoxHybrid h" "HybridEngine_new R J N isa host server cfg = Some (Inr h)"
    using assms(3) cfg(1) by (auto simp: RadixIP_new_def radixip_new_def cfg_def split: if_splits option.splits sum.splits)
  define h0 :: "('n, 'j, 's) HybridEngine" where "h0 = \<lparr>hy_control = EngineWrapper_new host (cfg_engine_variant cfg) (cfg_node_variant cfg) False (cfg_num_shards cfg),
    hy_data = EngineWrapper_new host (cfg_engine_variant cfg) (cfg_node_variant cfg) (cfg_read_compressed cfg) (cfg_num_shards cfg),
    hy_redis = Some server, hy_channel = cfg_redis_channel cfg, hy_spawned = []\<rparr>"
  have "connected N h0" by (simp add: connected_def h0_def wrapper_new_inv [OF cfg(4)])
  moreover have "h = h0 \<or> (\<exists>entries. boot_load_planes J N isa entries h0 = Some h)"
    using h(2) cfg(2,3) by (auto simp: HybridEngine_new_def h0_def Let_def split: option.splits sum.splits)
  ultimately have "connected N h" using boot_load_connected [OF assms(1)] by blast
  with h(1) that show thesis by blast
qed

lemma split_insert_panics:
  assumes "ipnetwork N" and "connected N h" and "sj_to_value J m \<noteq> None"
  shows "re_insert (box_RadixEngine fk R J N isa False) n m (BoxHybrid h) = None"
proof -
  obtain c where "wrapper_insert N isa n m (hy_control h) = Some (Inr (), c)"
    using connected_insert [OF assms(1)] assms(2) by (metis connected_def)
  with assms(2,3) show ?thesis
    by (auto simp: box_RadixEngine_def hybrid_RadixEngine_def hybrid_insert_def boxed_def connected_def Let_def split: option.split)
qed

end
