(* ===== verification/AtomicRef.thy ===== *)
theory AtomicRef
  imports Types
begin

text \<open>
  The node reference of \<open>engine/src/atomic.rs\<close>. An \<open>Arc\<close> is the address of its allocation with the
  value there, and \<open>Arc::ptr_eq\<close> compares addresses. Every method holds the lock, so it is one step.
\<close>

type_synonym 'a Arc = "nat \<times> 'a"

definition ptr_eq :: "'a Arc \<Rightarrow> 'a Arc \<Rightarrow> bool" where
  "ptr_eq a b \<longleftrightarrow> fst a = fst b"

record 'a AtomicNodeRef =
  ar_ptr :: "'a Arc option"

definition AtomicNodeRef_new :: "'a AtomicNodeRef" where
  "AtomicNodeRef_new = \<lparr>ar_ptr = None\<rparr>"

definition ref_load :: "'a AtomicNodeRef \<Rightarrow> 'a Arc option" where
  "ref_load r = ar_ptr r"

definition ref_store :: "'a Arc \<Rightarrow> 'a AtomicNodeRef \<Rightarrow> 'a AtomicNodeRef" where
  "ref_store node r = r\<lparr>ar_ptr := Some node\<rparr>"

text \<open>\<open>Inl\<close> is the failure; on an empty reference it carries the new node.\<close>

definition ref_compare_exchange :: "'a Arc \<Rightarrow> 'a Arc \<Rightarrow> 'a AtomicNodeRef \<Rightarrow> ('a Arc + 'a Arc) \<times> 'a AtomicNodeRef" where
  "ref_compare_exchange current new r =
     (case ar_ptr r of
        Some existing \<Rightarrow> if ptr_eq existing current then (Inr new, r\<lparr>ar_ptr := Some new\<rparr>) else (Inl existing, r)
      | None \<Rightarrow> (Inl new, r))"

text \<open>Of two exchanges from the same node to other nodes, only the first succeeds.\<close>

lemma second_exchange_fails:
  assumes "ref_compare_exchange current new r = (Inr x, r')" and "\<not> ptr_eq new current"
  shows "ref_compare_exchange current new' r' = (Inl new, r')"
  using assms by (auto simp: ref_compare_exchange_def split: option.splits if_splits)

lemma failed_exchange_keeps: "ref_compare_exchange current new r = (Inl x, r') \<Longrightarrow> r' = r"
  by (auto simp: ref_compare_exchange_def split: option.splits if_splits)

end
