(* ===== verification/Spec2Isabelle.thy ===== *)
theory Spec2Isabelle
  imports GrpcServer Bindings AtomicRef
begin

text \<open>
  Verification of radixip, a longest-prefix-match engine for IP routes with a policy layer (blocklist,
  rate limits, automatic bans), middlewares for Rust web frameworks, a gRPC server, a packet filter and
  bindings for C, Node.js and Python. The development covers the Rust implementation under \<open>src/lib/rust\<close>,
  \<open>src/lib/node\<close>, \<open>src/lib/python\<close>, \<open>src/cmd/grpc-server-rust\<close> and \<open>src/ebpf\<close>.

  \<^bold>\<open>The parts and how they interact.\<close> An engine maps networks to metadata. It is a route tree (a bit trie
  or a Patricia trie over one of eight node types, or an adaptive radix tree) with counters, alone or in
  shards, behind a lookup cache or split into a control and a data plane that synchronise through Redis.
  The policy layer asks an engine whether an address is blocked, takes tokens from a bucket for the
  address, its subnet or the route of the request, counts violations and bans an address by inserting its
  host route into the engine, which a sweeper removes later. The middlewares extract the address of the
  client and turn the decision into an answer, around a fixed policy or around a state that a file
  watcher replaces. The gRPC server exposes an engine behind such an interceptor; the packet filter drops
  packets in the kernel by a list that its loader keeps in step with Redis; the bindings wrap an engine
  and a policy handle.

  \<^bold>\<open>How the code is modelled.\<close> A struct is a record, an enum a datatype, a trait a record of its methods.
  State is passed and returned; a panic is \<open>None\<close>, an error a value of a sum type. Integers keep their
  width and wrap as in a release build (indices and lengths that cannot overflow are \<open>nat\<close>). Locks and
  atomics are modelled by the value they guard, one operation at a time, except where the interleaving is
  the point: the compare-exchange loop of a bucket, the stages of the sweeper and the events of a watched
  service are steps of a relation or of a sequence. Clock readings, file contents, kernel and server
  answers are arguments. Code outside \<open>src/\<close> is a record of operations given as a parameter, and what the
  code relies on is a locale over it: \<open>ipnetwork\<close> and \<open>ipnet_crate\<close> (the network crates), \<open>moka\<close> (a cache
  that may evict at any time) and \<open>moka_keeping\<close> (one that does not), \<open>dashmap\<close>, \<open>redis_store\<close>, \<open>serde_codec\<close>,
  \<open>lpm_trie_map\<close> (the kernel's tries), \<open>map_order\<close> (the open order of a \<open>HashMap\<close>). Each is interpreted on a
  concrete instance, which the witnesses use. The Rust standard library is written out where it is used
  (address parsing and printing, string splitting, saturating arithmetic, \<open>Instant\<close>).

  \<^bold>\<open>Engine.\<close>
  \<^item> \<open>Prelude\<close>, \<open>IpNet\<close>: words, bits and bytes; addresses, networks and their bit strings (\<open>net_bits\<close>).
  \<^item> \<open>Types\<close>, \<open>Nodes\<close>, \<open>Lpm\<close>: \<open>types.rs\<close>, \<open>errors.rs\<close>, \<open>traits.rs\<close>, \<open>config.rs\<close>; the node types of \<open>node/\<close> under
    one interface (locale \<open>node_api\<close>); the reference search and the tree walk of \<open>lpm.rs\<close>.
  \<^item> \<open>RouteTree\<close>: the trait, its contract (\<open>route_tree\<close>: a tree is a table of networks by key; \<open>lpm_tree\<close>: its
    lookup is longest-prefix matching) and what follows for any run of operations.
  \<^item> \<open>UncompressedTree\<close>, \<open>CompressedTree\<close>, \<open>PatriciaMap\<close>: \<open>tree.rs\<close>. The bit trie meets \<open>lpm_tree\<close> (C2, C6).
    The Patricia trie meets \<open>route_tree\<close> with the key it computes (C4), is a longest-prefix matcher for IPv6
    routes where no barren node hides a subtree (C5), and collapses IPv4 routes (C7).
  \<^item> \<open>Engine\<close>, \<open>EngineWrapper\<close>: \<open>engine.rs\<close>; the contracts \<open>radix_engine\<close> and \<open>lpm_engine\<close>, met by the standard
    and the sharded engine over every tree (C3) and by the choice among the variants.
  \<^item> \<open>Node16Simd\<close>, \<open>ArtNode\<close>, \<open>ArtTree\<close>, \<open>EngineArt\<close>: \<open>art/\<close> and \<open>engine_art.rs\<close>. Vector searches over
    written-out intrinsics against the scalar search (C29), nodes as finite maps and where they are not
    (C30, locale \<open>byte_map\<close>), the tree with owned pointers, the adapters with an explicit heap (C31, C32).
  \<^item> \<open>MemCache\<close>, \<open>Redis\<close>, \<open>Cache\<close>, \<open>Hybrid\<close>: the cache crate, \<open>cache.rs\<close>, \<open>hybrid.rs\<close> and \<open>new\<close> of \<open>lib.rs\<close>. The
    engine that \<open>new\<close> builds is a longest-prefix matcher (C1); with Redis, removals leave a stale lookup key
    (C33) and do not reach the data plane (C34).
  \<^item> \<open>AtomicRef\<close>: \<open>atomic.rs\<close>, which no other module uses.

  \<^bold>\<open>Policy.\<close>
  \<^item> \<open>Config\<close>: \<open>config/src/lib.rs\<close>, with defaults, validation and loading.
  \<^item> \<open>TokenBucket\<close>, \<open>Limiter\<close>: \<open>token_bucket.rs\<close> and \<open>limiter.rs\<close>. What a bucket admits (C8), no token spent twice
    and termination under every interleaving (C9, C10), the limiter as a map from keys to buckets (C11,
    C12), subnet keys (C13). For caches that evict, \<open>buckets_made_for\<close> counts the buckets made for a key and
    the bound has one capacity for each.
  \<^item> \<open>Clock\<close>, \<open>DashMap\<close>, \<open>AutoBan\<close>: \<open>auto_ban.rs\<close>, when an address is banned, that bans are enforced and end
    (C14, C15, C16), and the race between the sweeper and a new ban (C17).
  \<^item> \<open>IpText\<close>, \<open>IpExtractor\<close>, \<open>RouteTrie\<close>: \<open>ip_extractor.rs\<close> (C18) and \<open>route_trie.rs\<close> (C19, C20).
  \<^item> \<open>Policy\<close>: \<open>lib.rs\<close> and \<open>handle.rs\<close>. When no run of requests panics (C21), what an address is allowed
    (C22), that a banned address is blocked (C23).
  \<^item> \<open>Watcher\<close>, \<open>Adapters\<close>, \<open>WatchedRun\<close>: \<open>watcher.rs\<close> and the crates under \<open>adapters/\<close>. Requests, reloads and
    sweepers in any order (C24, C25), watched against fixed services (C26).

  \<^bold>\<open>Server, packet filter, bindings.\<close>
  \<^item> \<open>MapOrder\<close>, \<open>Routeless\<close>, \<open>GrpcServer\<close>: \<open>grpc-server-rust/src/main.rs\<close>. The service as a table (C27) and its
    interceptor, whose engine stays empty (C28).
  \<^item> \<open>Xdp\<close>, \<open>XdpLoader\<close>: the kernel program on the bytes of a packet and the loader with its event loop, up to
    the detachment at shutdown (C35).
  \<^item> \<open>CApi\<close>, \<open>NodeApi\<close>, \<open>PyApi\<close>, \<open>Bindings\<close>: \<open>ffi.rs\<close>, \<open>policy-ffi\<close>, \<open>node16_simd_ffi\<close> and the two binding crates.
    Metadata survives Python (C36), the interfaces agree (C37, C38), their policies never block (C39), and
    one configuration of the Node.js engine panics (C40).

  \<^bold>\<open>Bounds.\<close> No definition uses fuel: every loop is a structural recursion or a function with a termination
  proof (by the bits of a key or the size of a subtree that are left). The clock is an integer number of
  nanoseconds with the range \<open>instant_bound\<close> of 64-bit seconds; where a property needs a sum to stay in that
  range, or a subnet depth to fit an address, the condition is a hypothesis (\<open>requests_in_range\<close>, \<open>config_fits\<close>,
  \<open>in_range\<close>, \<open>depth_ok\<close>), and C13 and C21 show the panic without it. The kernel maps hold \<open>MAX_ENTRIES\<close>
  entries, the constant of the kernel program.

  \<^bold>\<open>What the properties leave out.\<close> Some hold on a part of the inputs only, because the code fails outside
  it. The condition is stated with the property, and where the failure is not itself a property the
  theorems \<open>uncompressed_family_overwrite\<close> (families share a trie), \<open>uncompressed_clear_keeps_default\<close>,
  \<open>compressed_fork_blind\<close>, \<open>preset_ipv4_collapse\<close>, \<open>art_second_host_lost\<close> and \<open>eviction_refills\<close> show it.

  \<^bold>\<open>Not modelled.\<close> Logging, sockets and the HTTP endpoint of the metrics; memory layout, padding and memory
  ordering; the reclamation of dropped trees; latency histograms; the conversions that the binding
  generators write; constructors and \<open>poll_ready\<close> functions that only clone or delegate. Files that are
  not compiled (\<open>art/node4.rs\<close>, \<open>engine/src/redis.rs\<close>), build scripts, tests, benchmarks, demonstration
  programs and deployment files. The implementations in Go, C and C++ and the middlewares in JavaScript
  and Python, which are other programs over the same interfaces.
\<close>

section \<open>Route trees\<close>

lemma contains_lan [simp]:
  "network_contains_ip cidr_ops (cidr_of (V4 0x0A000000) 8) (V4 0x0A000001)"
  by (simp add: network_contains_ip_def cidr_literal_contains)

text \<open>C1. The engine built from a configuration without Redis, over uncompressed trees and with any
  variant but ART, whether it is split into two planes, cached or plain: no run of insertions,
  lookups and removals panics, and every lookup after it is a longest-prefix match over the routes
  that remain, where a route replaces any earlier one with the same bits, of either family. For a
  cached engine this holds of the runs in which no two networks have the same bits in different
  families, and the second part shows that the condition is needed: after an insertion, a lookup
  inside the network and the insertion of the network with the same bits in the other family, a
  cached engine still answers from its cache with the route that is gone.\<close>

theorem engine_new_run:
  fixes N :: "'n ipnet_ops" and R :: "'s redis_server" and J :: "('n, 'j) serde"
  assumes "ipnetwork N" and "picks_key first_key" and "cfg_redis cfg = None" and "cfg_engine_variant cfg \<noteq> ART"
    and "\<not> cfg_read_compressed cfg" and "\<not> cfg_write_compressed cfg"
  shows "(cfg_enable_split_plane cfg \<or> \<not> cfg_cache_enabled cfg \<or> families_apart N xs \<longrightarrow>
      (\<exists>b b' r b''. radixip_new R J N isa host server cfg = Some b
        \<and> engine_ops (box_RadixEngine first_key R J N isa rt) xs b = Some b'
        \<and> re_lookup (box_RadixEngine first_key R J N isa rt) ip b' = Some (r, b'')
        \<and> lpm_result N (ran (table_engine_ops (net_bits N) xs Map.empty)) ip r))
    \<and> (\<not> cfg_enable_split_plane cfg \<and> cfg_cache_enabled cfg \<and> net_bits N n' = net_bits N n
        \<and> net_v4 N n' \<noteq> net_v4 N n \<and> network_contains_ip N n ip \<longrightarrow>
      (\<exists>b b' b''. radixip_new R J N isa host server cfg = Some b
        \<and> engine_ops (box_RadixEngine first_key R J N isa rt) [EInsert n m, ELookup ip, EInsert n' m'] b = Some b'
        \<and> re_lookup (box_RadixEngine first_key R J N isa rt) ip b' = Some (Some m, b'')
        \<and> lpm_result N (ran (table_engine_ops (net_bits N) [EInsert n m, ELookup ip, EInsert n' m'] Map.empty)) ip None))"
  using radixip_new_run [OF assms, of xs R J isa host server rt ip]
    radixip_new_stale [OF assms(1-5), of n' n ip R J isa host server rt m m'] by blast

lemma contains_default [simp]: "network_contains_ip cidr_ops (cidr_of (V4 0) 0) (V4 a)"
  by (simp add: network_contains_ip_def cidr_literal_contains)

theorem engine_new_run_witness:
  "(\<exists>b b' r b''. radixip_new kv_server plain_serde cidr_ops Scalar \<lparr>host_parallelism = Some 8, host_available_memory = 4096\<rparr>
        kv_empty (RadixConfig_default\<lparr>cfg_read_compressed := False\<rparr>) = Some b
    \<and> engine_ops (box_RadixEngine hd kv_server plain_serde cidr_ops Scalar True)
        [ELookup (V4 0x0A000001), EInsert (cidr_of (V4 0x0A000000) 8) (Metadata_new ''lan'')] b = Some b'
    \<and> re_lookup (box_RadixEngine hd kv_server plain_serde cidr_ops Scalar True) (V4 0x0A000001) b'
        = Some (Some (Metadata_new ''lan''), b''))
   \<and> (\<exists>b b' b''. radixip_new kv_server plain_serde cidr_ops Scalar \<lparr>host_parallelism = Some 8, host_available_memory = 4096\<rparr>
        kv_empty (RadixConfig_default\<lparr>cfg_read_compressed := False\<rparr>) = Some b
    \<and> engine_ops (box_RadixEngine hd kv_server plain_serde cidr_ops Scalar True)
        [EInsert (cidr_of (V4 0) 0) (Metadata_new ''all4''), ELookup (V4 0x0A000001),
         EInsert (cidr_of (V6 0) 0) (Metadata_new ''all6'')] b = Some b'
    \<and> re_lookup (box_RadixEngine hd kv_server plain_serde cidr_ops Scalar True) (V4 0x0A000001) b'
        = Some (Some (Metadata_new ''all4''), b''))"
proof -
  let ?cfg = "RadixConfig_default\<lparr>cfg_read_compressed := False\<rparr>"
  let ?xs = "[ELookup (V4 0x0A000001), EInsert (cidr_of (V4 0x0A000000) 8) (Metadata_new ''lan'')]"
  have cfg: "cfg_redis ?cfg = None" "cfg_engine_variant ?cfg \<noteq> ART" "\<not> cfg_read_compressed ?cfg" "\<not> cfg_write_compressed ?cfg"
    "\<not> cfg_enable_split_plane ?cfg" "cfg_cache_enabled ?cfg" by (simp_all add: RadixConfig_default_def)
  have apart: "families_apart cidr_ops ?xs" by (simp add: families_apart_def)
  have tab: "ran (table_engine_ops (net_bits cidr_ops) ?xs Map.empty) = {(cidr_of (V4 0x0A000000) 8, Metadata_new ''lan'')}"
    by (simp add: table_engine_ops_def)
  note run = engine_new_run [OF cidr.ipnetwork_axioms picks_hd cfg(1-4), of ?xs kv_server plain_serde Scalar
      "\<lparr>host_parallelism = Some 8, host_available_memory = 4096\<rparr>" kv_empty True "V4 0x0A000001"
      "cidr_of (V6 0) 0" "cidr_of (V4 0) 0" "Metadata_new ''all4''" "Metadata_new ''all6''"]
  have bits: "net_bits cidr_ops (cidr_of (V6 0) 0) = net_bits cidr_ops (cidr_of (V4 0) 0)"
    "net_v4 cidr_ops (cidr_of (V6 0) 0) \<noteq> net_v4 cidr_ops (cidr_of (V4 0) 0)" by (simp_all add: net_bits_def)
  show ?thesis
    using mp [OF conjunct1 [OF run]] mp [OF conjunct2 [OF run]] apart bits cfg(5,6)
    unfolding tab by (simp add: lpm_result_singleton del: engine_ops.simps) blast
qed

text \<open>C2. After any sequence of insertions and removals on a new \<open>UncompressedTree\<close>, none of
  which fails, \<open>lookup\<close> is longest-prefix matching over the routes the sequence leaves: it
  returns the metadata of a route that contains the address and has the longest prefix among
  those that do, and nothing exactly when no route contains it.\<close>

theorem uncompressed_run_lookup:
  assumes "ipnetwork N"
  shows "\<exists>t. run_ops (UncompressedTree_RouteTree N) xs (UncompressedTree_new v) = Some t
    \<and> lpm_result N (ran (table_ops (net_bits N) xs Map.empty)) ip (UncompressedTree_lookup N ip t)"
  using lpm_tree.run_ops_lookup [OF UncompressedTree_lpm_tree [OF assms] UncompressedTree_new_table(1), of xs v ip]
  by (simp add: UncompressedTree_RouteTree_def)

theorem uncompressed_run_lookup_witness:
  "\<exists>t. run_ops (UncompressedTree_RouteTree cidr_ops)
      [OpInsert (cidr_of (V4 0x0A000000) 8) (Metadata_new ''lan'')]
      (UncompressedTree_new NV_NormalTrieNode) = Some t
    \<and> UncompressedTree_lookup cidr_ops (V4 0x0A000001) t = Some (Metadata_new ''lan'')"
  using uncompressed_run_lookup [OF cidr.ipnetwork_axioms,
      of "[OpInsert (cidr_of (V4 0x0A000000) 8) (Metadata_new ''lan'')]" NV_NormalTrieNode "V4 0x0A000001"]
  by (simp add: table_ops_def lpm_result_singleton)

text \<open>A standard engine over an \<open>UncompressedTree\<close> answers every lookup after any run of
  insertions, lookups and removals by longest-prefix matching, and its size counter is the
  number of routes of the table (modulo the width of the counter).\<close>

theorem standard_uncompressed_run:
  assumes "ipnetwork N"
  shows "\<exists>e r e'. engine_ops (StandardEngine_RadixEngine (UncompressedTree_RouteTree N)) xs
        (StandardEngine_new (UncompressedTree_new v)) = Some e
    \<and> StandardEngine_lookup (UncompressedTree_RouteTree N) ip e = (r, e')
    \<and> lpm_result N (ran (table_engine_ops (net_bits N) xs Map.empty)) ip r
    \<and> StandardEngine_size e = of_nat (card (dom (table_engine_ops (net_bits N) xs Map.empty)))"
  using lpm_tree.se_run_lookup [OF UncompressedTree_lpm_tree [OF assms],
      of "StandardEngine_new (UncompressedTree_new v)" xs ip]
  by (simp add: StandardEngine_RadixEngine_def)

theorem standard_uncompressed_run_witness:
  "\<exists>e e'. engine_ops (StandardEngine_RadixEngine (UncompressedTree_RouteTree cidr_ops))
        [EInsert (cidr_of (V4 0x0A000000) 8) (Metadata_new ''lan'')]
        (StandardEngine_new (UncompressedTree_new NV_PaddedTrieNode)) = Some e
    \<and> StandardEngine_lookup (UncompressedTree_RouteTree cidr_ops) (V4 0x0A000001) e
        = (Some (Metadata_new ''lan''), e')
    \<and> StandardEngine_size e = 1"
  using standard_uncompressed_run [OF cidr.ipnetwork_axioms,
      of "[EInsert (cidr_of (V4 0x0A000000) 8) (Metadata_new ''lan'')]" NV_PaddedTrieNode "V4 0x0A000001"]
  by (simp add: table_engine_ops_def lpm_result_singleton)

text \<open>C3. A sharded engine with at least one shard over an \<open>UncompressedTree\<close> never fails and
  gives the same answers and the same size, whichever shard an address is routed to.\<close>

theorem sharded_uncompressed_run:
  assumes "ipnetwork N" and "0 < k"
  shows "\<exists>e r e'. engine_ops (ShardedEngine_RadixEngine (UncompressedTree_RouteTree N)) xs
        (ShardedEngine_new k (UncompressedTree_new v)) = Some e
    \<and> ShardedEngine_lookup (UncompressedTree_RouteTree N) ip e = Some (r, e')
    \<and> lpm_result N (ran (table_engine_ops (net_bits N) xs Map.empty)) ip r
    \<and> ShardedEngine_size e = of_nat (card (dom (table_engine_ops (net_bits N) xs Map.empty)))"
  using lpm_tree.sh_run_lookup [OF UncompressedTree_lpm_tree [OF assms(1)],
      of "ShardedEngine_new k (UncompressedTree_new v)" xs ip] assms(2)
  by (simp add: ShardedEngine_RadixEngine_def)

theorem sharded_uncompressed_run_witness:
  "\<exists>e e'. engine_ops (ShardedEngine_RadixEngine (UncompressedTree_RouteTree cidr_ops))
        [EInsert (cidr_of (V4 0x0A000000) 8) (Metadata_new ''lan'')]
        (ShardedEngine_new 16 (UncompressedTree_new NV_AtomicTrieNode)) = Some e
    \<and> ShardedEngine_lookup (UncompressedTree_RouteTree cidr_ops) (V4 0x0A000001) e
        = Some (Some (Metadata_new ''lan''), e')
    \<and> ShardedEngine_size e = 1"
  using sharded_uncompressed_run [OF cidr.ipnetwork_axioms, of 16
      "[EInsert (cidr_of (V4 0x0A000000) 8) (Metadata_new ''lan'')]" NV_AtomicTrieNode "V4 0x0A000001"]
  by (simp add: table_engine_ops_def lpm_result_singleton)

text \<open>C4. \<open>CompressedTree\<close> with any node variant: no run of insertions and removals panics
  (node splits included), and after it \<open>contains\<close> and \<open>remove\<close> answer from the map
  that files each network under the leading bits of its 16-byte key.\<close>

theorem compressed_run_table:
  assumes "ipnetwork N"
  shows "\<exists>t. run_ops (CompressedTree_RouteTree N) xs (CompressedTree_new v) = Some t
    \<and> (CompressedTree_contains N n t \<longleftrightarrow> table_ops (ckey N) xs Map.empty (ckey N n) \<noteq> None)
    \<and> fst (CompressedTree_remove N n t) = map_option snd (table_ops (ckey N) xs Map.empty (ckey N n))"
proof -
  note tree = clearing_tree.axioms(1) [OF CompressedTree_clearing_tree [OF assms]]
  obtain t where t: "run_ops (CompressedTree_RouteTree N) xs (CompressedTree_new v) = Some t" "ct_inv N t"
      "ct_abs t = table_ops (ckey N) xs Map.empty"
    using route_tree.run_ops_refines [OF tree CompressedTree_new_table(1)] by fastforce
  then show ?thesis
    using route_tree.contains_law [OF tree t(2), of n] route_tree.remove_law [OF tree t(2), of n]
    by (auto simp: CompressedTree_RouteTree_def)
qed

theorem compressed_run_table_witness:
  "\<exists>t. run_ops (CompressedTree_RouteTree cidr_ops)
      [OpInsert (cidr_of (V6 1) 128) (Metadata_new ''a''), OpInsert (cidr_of (V6 2) 128) (Metadata_new ''b''),
       OpRemove (cidr_of (V6 2) 128)] (CompressedTree_new NV_AtomicTrieNode) = Some t
    \<and> \<not> CompressedTree_contains cidr_ops (cidr_of (V6 2) 128) t"
  using compressed_run_table [OF cidr.ipnetwork_axioms,
      of "[OpInsert (cidr_of (V6 1) 128) (Metadata_new ''a''), OpInsert (cidr_of (V6 2) 128) (Metadata_new ''b''),
       OpRemove (cidr_of (V6 2) 128)]" NV_AtomicTrieNode "cidr_of (V6 2) 128"]
  by (auto simp: table_ops_def)

text \<open>C5. After any run of insertions and removals of IPv6 routes, a lookup in the \<open>CompressedTree\<close> is
  longest-prefix matching, as long as the tree has no barren node, that is no node with an empty edge and
  no metadata above other nodes. An IPv6 address is matched as it is; an IPv4 address is matched as the
  IPv6 address with the same low 32 bits, so that an IPv6 route can answer for it.\<close>

theorem compressed_ipv6_lookup:
  assumes "ipnetwork N" and "\<forall>x \<in> set xs. \<not> net_v4 N (op_net x)"
    and "run_ops (CompressedTree_RouteTree N) xs (CompressedTree_new v) = Some t"
    and "no_barren (ct_root t)"
  shows "lpm_result N (ran (table_ops (net_bits N) xs Map.empty)) (as_v6 ip) (CompressedTree_lookup ip t)"
proof -
  note tree = clearing_tree.axioms(1) [OF CompressedTree_clearing_tree [OF assms(1)]]
  have keys: "table_ops (ckey N) xs Map.empty = table_ops (net_bits N) xs Map.empty"
    using assms(2) by (intro table_ops_cong) (simp add: ipnetwork.ckey_V6 [OF assms(1)])
  have t: "ct_inv N t" "ct_abs t = table_ops (net_bits N) xs Map.empty"
    using route_tree.run_ops_refines [OF tree CompressedTree_new_table(1), of xs v] assms(3) keys by auto
  have v6: "\<not> net_v4 N n" if "(n, m) \<in> ran (ct_abs t)" for n m
    using that ran_table_ops [of n m "net_bits N" xs Map.empty] assms(2) t(2) by fastforce
  obtain a where a: "as_v6 ip = V6 a" using as_v6_V6 by blast
  show ?thesis
    unfolding t(2) [symmetric] CompressedTree_lookup_as_v6 [of ip, symmetric] a
    by (rule ipnetwork.ct_lookup_lpm [OF assms(1) t(1) assms(4)]) (rule v6)
qed

theorem compressed_ipv6_lookup_witness:
  "\<exists>t. run_ops (CompressedTree_RouteTree cidr_ops) [OpInsert (cidr_of (V6 0) 0) (Metadata_new ''all6'')]
      (CompressedTree_new NV_NormalRadixNode) = Some t
    \<and> CompressedTree_lookup (V6 0x20010DB8000000000000000000000001) t = Some (Metadata_new ''all6'')
    \<and> CompressedTree_lookup (V4 0x0A000001) t = Some (Metadata_new ''all6'')"
proof -
  let ?n = "cidr_of (V6 0) 0" and ?m = "Metadata_new ''all6''"
  obtain r t where t: "CompressedTree_insert cidr_ops ?n ?m (CompressedTree_new NV_NormalRadixNode) = Some (r, t)"
    using cidr.ct_insert_table [OF CompressedTree_new_table(1)] by blast
  have run: "run_ops (CompressedTree_RouteTree cidr_ops) [OpInsert ?n ?m] (CompressedTree_new NV_NormalRadixNode) = Some t"
    using t by (simp add: CompressedTree_RouteTree_def)
  have v6: "\<forall>x \<in> set [OpInsert ?n ?m]. \<not> net_v4 cidr_ops (op_net x)" by simp
  have in6: "network_contains_ip cidr_ops ?n (V6 a)" for a by (simp add: network_contains_ip_def cidr_literal_contains)
  note look = compressed_ipv6_lookup [OF cidr.ipnetwork_axioms v6 run cidr.ct_first_insert(5) [OF t]]
  show ?thesis
    using look [of "V6 0x20010DB8000000000000000000000001"] look [of "V4 0x0A000001"] run in6
    by (auto simp: table_ops_def lpm_result_singleton)
qed

text \<open>An engine over a \<open>CompressedTree\<close>, standard or sharded, counts the keys of its table
  after any run of insertions, lookups and removals, and \<open>clear\<close> then leaves an empty engine:
  size zero, no member, no hit.\<close>

theorem sharded_compressed_clear:
  assumes "ipnetwork N" and "0 < k"
  shows "\<exists>e e'. engine_ops (ShardedEngine_RadixEngine (CompressedTree_RouteTree N)) xs
        (ShardedEngine_new k (CompressedTree_new v)) = Some e
    \<and> ShardedEngine_size e = of_nat (card (dom (table_engine_ops (ckey N) xs Map.empty)))
    \<and> ShardedEngine_clear (CompressedTree_RouteTree N) e = Some e'
    \<and> ShardedEngine_size e' = 0 \<and> \<not> ShardedEngine_contains (CompressedTree_RouteTree N) n e'
    \<and> CompressedTree_lookup ip (sh_tree e') = None"
proof -
  note clearing = CompressedTree_clearing_tree [OF assms(1)]
  note tree = clearing_tree.axioms(1) [OF clearing]
  note engine = route_tree.sharded_engine [OF tree]
  have new: "sh_inv (ct_inv N) ct_abs (ShardedEngine_new k (CompressedTree_new v))"
    using assms(2) by simp
  obtain e where e: "engine_ops (ShardedEngine_RadixEngine (CompressedTree_RouteTree N)) xs
        (ShardedEngine_new k (CompressedTree_new v)) = Some e" "sh_inv (ct_inv N) ct_abs e"
      "ct_abs (sh_tree e) = table_engine_ops (ckey N) xs Map.empty"
    using radix_engine.engine_ops_refines [OF engine new, of xs] by auto
  obtain e' where e': "ShardedEngine_clear (CompressedTree_RouteTree N) e = Some e'"
      "sh_inv (ct_inv N) ct_abs e'" "ct_abs (sh_tree e') = Map.empty"
    using clearing_tree.sh_clear [OF clearing e(2)] by blast
  have "CompressedTree_lookup ip (sh_tree e') = None"
  proof (cases "CompressedTree_lookup ip (sh_tree e')")
    case (Some m)
    have "ct_inv N (sh_tree e')" using e'(2) by (simp add: sh_inv_def)
    from ipnetwork.ct_lookup_sound [OF assms(1) this Some] e'(3) show ?thesis by simp
  qed
  with e e' radix_engine.engine_size [OF engine e(2)] radix_engine.engine_size [OF engine e'(2)]
    radix_engine.engine_contains [OF engine e'(2), of n]
  show ?thesis by (simp add: ShardedEngine_RadixEngine_def)
qed

theorem sharded_compressed_clear_witness:
  "\<exists>e e'. engine_ops (ShardedEngine_RadixEngine (CompressedTree_RouteTree cidr_ops))
        [EInsert (cidr_of (V6 1) 128) (Metadata_new ''a'')]
        (ShardedEngine_new 8 (CompressedTree_new NV_LockFreeRadixNode)) = Some e
    \<and> ShardedEngine_size e = 1
    \<and> ShardedEngine_clear (CompressedTree_RouteTree cidr_ops) e = Some e' \<and> ShardedEngine_size e' = 0"
  using sharded_compressed_clear [OF cidr.ipnetwork_axioms, of 8
      "[EInsert (cidr_of (V6 1) 128) (Metadata_new ''a'')]" NV_LockFreeRadixNode "cidr_of (V6 1) 128" "V6 1"]
  by (auto simp: table_engine_ops_def)

text \<open>Whatever \<open>CompressedTree::lookup\<close> returns is the metadata of a route of the table
  whose filed bits are a prefix of the key of the address.\<close>

theorem compressed_lookup_sound:
  assumes "ipnetwork N" and "run_ops (CompressedTree_RouteTree N) xs (CompressedTree_new v) = Some t"
    and "CompressedTree_lookup ip t = Some m"
  shows "\<exists>n. table_ops (ckey N) xs Map.empty (ckey N n) = Some (n, m)
    \<and> prefix (ckey N n) (key_from (ip_to_bytes ip) 0 128)"
proof -
  note tree = clearing_tree.axioms(1) [OF CompressedTree_clearing_tree [OF assms(1)]]
  have "ct_inv N t" "ct_abs t = table_ops (ckey N) xs Map.empty"
    using route_tree.run_ops_refines [OF tree CompressedTree_new_table(1), of xs v] assms(2) by auto
  with ipnetwork.ct_lookup_sound [OF assms(1) _ assms(3)] show ?thesis by auto
qed

theorem compressed_lookup_sound_witness:
  "\<exists>n m. table_ops (ckey cidr_ops) [OpInsert (cidr_of (V4 0) 8) (Metadata_new ''a'')] Map.empty (ckey cidr_ops n) = Some (n, m)
    \<and> prefix (ckey cidr_ops n) (key_from (ip_to_bytes (V4 0x0B000001)) 0 128)"
proof -
  let ?n = "cidr_of (V4 0) 8" and ?m = "Metadata_new ''a''"
  obtain r t where t: "CompressedTree_insert cidr_ops ?n ?m (CompressedTree_new NV_NormalRadixNode) = Some (r, t)"
    using cidr.ct_insert_table [OF CompressedTree_new_table(1)] by blast
  have run: "run_ops (CompressedTree_RouteTree cidr_ops) [OpInsert ?n ?m] (CompressedTree_new NV_NormalRadixNode) = Some t"
    using t by (simp add: CompressedTree_RouteTree_def)
  have "net_v4 cidr_ops ?n" by simp
  from compressed_lookup_sound [OF cidr.ipnetwork_axioms run cidr.ct_V4_any [OF t this]]
  show ?thesis by blast
qed

text \<open>C6. The walk of \<open>UncompressedTree::lookup\<close> equals the reference search
  \<open>LPM::lookup\<close> over the entries of the tree, after any run, and those entries are the
  routes of the table.\<close>

theorem uncompressed_reference:
  assumes "ipnetwork N"
  shows "\<exists>t. run_ops (UncompressedTree_RouteTree N) xs (UncompressedTree_new v) = Some t
    \<and> UncompressedTree_lookup N ip t = LPM_lookup N (node_entries (ut_root t)) ip
    \<and> set (node_entries (ut_root t)) = ran (table_ops (net_bits N) xs Map.empty)"
proof -
  note tree = lpm_tree.axioms(1) [OF UncompressedTree_lpm_tree [OF assms]]
  obtain t where "run_ops (UncompressedTree_RouteTree N) xs (UncompressedTree_new v) = Some t" "ut_inv N t"
      "ut_abs t = table_ops (net_bits N) xs Map.empty"
    using route_tree.run_ops_refines [OF tree UncompressedTree_new_table(1)] by fastforce
  with ipnetwork.ut_lookup_reference [OF assms, of t ip] show ?thesis
    by (metis ran_slot set_node_entries ut_abs_def)
qed

theorem uncompressed_reference_witness:
  "\<exists>t. run_ops (UncompressedTree_RouteTree cidr_ops)
      [OpInsert (cidr_of (V4 0x0A000000) 8) (Metadata_new ''lan'')]
      (UncompressedTree_new NV_LockFreeTrieNode) = Some t
    \<and> LPM_lookup cidr_ops (node_entries (ut_root t)) (V4 0x0A000001)
        = UncompressedTree_lookup cidr_ops (V4 0x0A000001) t
    \<and> set (node_entries (ut_root t)) = {(cidr_of (V4 0x0A000000) 8, Metadata_new ''lan'')}"
  using uncompressed_reference [OF cidr.ipnetwork_axioms,
      of "[OpInsert (cidr_of (V4 0x0A000000) 8) (Metadata_new ''lan'')]" NV_LockFreeTrieNode "V4 0x0A000001"]
  by (auto simp: table_ops_def)

text \<open>The statistics of a standard engine after a run on a new engine: the insert counter
  is the number of insertions, the lookup counter the number of lookups, and hits and misses
  add up to it (in the arithmetic of the counters).\<close>

theorem standard_stats:
  assumes "ipnetwork N"
  shows "\<exists>e. engine_ops (StandardEngine_RadixEngine (UncompressedTree_RouteTree N)) xs
        (StandardEngine_new (UncompressedTree_new v)) = Some e
    \<and> st_inserts (StandardEngine_stats e) = of_nat (count_inserts xs)
    \<and> st_lookups (StandardEngine_stats e) = of_nat (count_lookups xs)
    \<and> st_hits (StandardEngine_stats e) + st_misses (StandardEngine_stats e) = of_nat (count_lookups xs)"
  using route_tree.stats_run [OF lpm_tree.axioms(1) [OF UncompressedTree_lpm_tree [OF assms]],
      of "StandardEngine_new (UncompressedTree_new v)" xs]
  by (simp add: StandardEngine_stats_def StandardEngine_new_def EngineStats_default_def)

theorem standard_stats_witness:
  "\<exists>e. engine_ops (StandardEngine_RadixEngine (UncompressedTree_RouteTree cidr_ops))
        [ELookup (V4 1), EInsert (cidr_of (V4 0) 0) (Metadata_new ''a''), ELookup (V4 1)]
        (StandardEngine_new (UncompressedTree_new NV_NormalTrieNode)) = Some e
    \<and> st_hits (StandardEngine_stats e) + st_misses (StandardEngine_stats e) = 2"
  using standard_stats [OF cidr.ipnetwork_axioms,
      of "[ELookup (V4 1), EInsert (cidr_of (V4 0) 0) (Metadata_new ''a''), ELookup (V4 1)]" NV_NormalTrieNode]
  by (auto simp: count_lookups_def)

text \<open>\<open>longest_common_prefix_len\<close> on the binary strings of two addresses is the
  number of leading bits the addresses share, for both families.\<close>

theorem binary_string_common_prefix:
  "longest_common_prefix_len (ip_to_binary_string a) (ip_to_binary_string b)
     = lcp_len (ip_bits a) (ip_bits b)"
  by (simp add: longest_common_prefix_len_lcp ip_to_binary_string_bits)

section \<open>Deviations of the route trees\<close>

text \<open>C7. An IPv4 route in a \<open>CompressedTree\<close> is filed under zero bits only, because
  \<open>ip_to_bytes\<close> puts the address into the last four of the sixteen bytes while the key
  length is the IPv4 prefix length: after one IPv4 insertion every IPv4 address is answered with
  that route, and every IPv4 network of the same prefix length is reported as contained.\<close>

theorem compressed_ipv4_collapse:
  assumes "ipnetwork N" and "net_v4 N n" and "net_v4 N n'" and "net_prefix N n' = net_prefix N n"
  shows "\<exists>t. CompressedTree_insert N n m (CompressedTree_new v) = Some (Inr True, t)
    \<and> CompressedTree_lookup (V4 a) t = Some m \<and> CompressedTree_contains N n' t"
proof -
  obtain t where t: "CompressedTree_insert N n m (CompressedTree_new v) = Some (Inr True, t)"
    using ipnetwork.ct_insert_table [OF assms(1) CompressedTree_new_table(1)] by fastforce
  note first = ipnetwork.ct_first_insert [OF assms(1) t]
  have "ckey N n' = ckey N n" using assms by (simp add: ipnetwork.ckey_V4)
  with t first(2,3) ipnetwork.ct_V4_any [OF assms(1) t assms(2)]
    ipnetwork.ct_contains_table [OF assms(1) first(2), of n'] show ?thesis by simp
qed

theorem compressed_ipv4_collapse_witness:
  "\<exists>t. CompressedTree_insert cidr_ops (cidr_of (V4 0x0A000000) 8) (Metadata_new ''lan'')
        (CompressedTree_new NV_AtomicTrieNode) = Some (Inr True, t)
    \<and> CompressedTree_lookup (V4 0xC0A80001) t = Some (Metadata_new ''lan'')
    \<and> \<not> network_contains_ip cidr_ops (cidr_of (V4 0x0A000000) 8) (V4 0xC0A80001)
    \<and> CompressedTree_contains cidr_ops (cidr_of (V4 0xC0000000) 8) t"
proof -
  have "net_v4 cidr_ops (cidr_of (V4 0x0A000000) 8)" "net_v4 cidr_ops (cidr_of (V4 0xC0000000) 8)"
      "net_prefix cidr_ops (cidr_of (V4 0xC0000000) 8) = net_prefix cidr_ops (cidr_of (V4 0x0A000000) 8)"
    by simp_all
  moreover have "\<not> network_contains_ip cidr_ops (cidr_of (V4 0x0A000000) 8) (V4 0xC0A80001)"
    by (simp add: network_contains_ip_def cidr_literal_contains)
  ultimately show ?thesis
    using compressed_ipv4_collapse [OF cidr.ipnetwork_axioms, of "cidr_of (V4 0x0A000000) 8"
        "cidr_of (V4 0xC0000000) 8" "Metadata_new ''lan''" NV_AtomicTrieNode "0xC0A80001"]
    by blast
qed

text \<open>Two IPv6 routes whose first bits differ leave the root of a \<open>CompressedTree\<close>
  barren: both are reported as contained, but every lookup misses.\<close>

theorem compressed_fork_blind:
  assumes "ipnetwork N" and "\<not> net_v4 N n" and "\<not> net_v4 N n'"
    and "net_bits N n = b # ks" and "net_bits N n' = (\<not> b) # ks'"
  shows "\<exists>t. run_ops (CompressedTree_RouteTree N) [OpInsert n m, OpInsert n' m'] (CompressedTree_new v) = Some t
    \<and> CompressedTree_contains N n t \<and> CompressedTree_contains N n' t
    \<and> CompressedTree_lookup ip t = None"
proof -
  note ins = ipnetwork.ct_insert_table [OF assms(1)] and key = ipnetwork.ckey_V6 [OF assms(1)]
  obtain r t where t: "CompressedTree_insert N n m (CompressedTree_new v) = Some (r, t)" "ct_inv N t"
      "ct_abs t = [ckey N n \<mapsto> (n, m)]"
    using ins [OF CompressedTree_new_table(1)] by fastforce
  obtain r' t' where t': "CompressedTree_insert N n' m' t = Some (r', t')" "ct_inv N t'"
      "ct_abs t' = [ckey N n \<mapsto> (n, m), ckey N n' \<mapsto> (n', m')]"
    using ins [OF t(2)] t(3) by fastforce
  have "CompressedTree_lookup ip t' = None"
    using ipnetwork.ct_fork_blind [OF assms(1) t(1) t'(1)] assms key by metis
  moreover have "CompressedTree_contains N n t'" "CompressedTree_contains N n' t'"
    using t'(2,3) by (simp_all add: ipnetwork.ct_contains_table [OF assms(1)])
  ultimately show ?thesis using t(1) t'(1) by (simp add: CompressedTree_RouteTree_def)
qed

lemma take_first_bit: "take (Suc 0) (ip_bits (V6 x)) = [bit x 127]"
  by (simp add: take_Suc_conv_app_nth ip_bits_V6_nth)

lemma net_bits_half:
  "net_bits cidr_ops (cidr_of (V6 0) 1) = [False]"
  "net_bits cidr_ops (cidr_of (V6 0x80000000000000000000000000000000) 1) = [True]"
  by (simp_all add: net_bits_def take_first_bit)

theorem compressed_fork_blind_witness:
  "\<exists>t. run_ops (CompressedTree_RouteTree cidr_ops)
        [OpInsert (cidr_of (V6 0) 1) (Metadata_new ''low''),
         OpInsert (cidr_of (V6 0x80000000000000000000000000000000) 1) (Metadata_new ''high'')]
        (CompressedTree_new NV_NormalRadixNode) = Some t
    \<and> CompressedTree_contains cidr_ops (cidr_of (V6 0) 1) t \<and> CompressedTree_lookup (V6 1) t = None"
  using compressed_fork_blind [OF cidr.ipnetwork_axioms _ _ net_bits_half(1),
      of "cidr_of (V6 0x80000000000000000000000000000000) 1" "[]"
      "Metadata_new ''low''" "Metadata_new ''high''" NV_NormalRadixNode "V6 1"]
  by (auto simp: net_bits_half(2) [unfolded One_nat_def] simp del: run_ops.simps)

text \<open>\<open>UncompressedTree::clear\<close> does not reset the root: a default route survives
  \<open>StandardEngine::clear\<close>, is still returned for every address of its family although the
  size is zero, and removing it then takes the size counter below zero, to its largest value.\<close>

theorem uncompressed_clear_keeps_default:
  assumes "ipnetwork N" and "net_prefix N n = 0" and "is_ipv4 ip = net_v4 N n"
  shows "\<exists>e e'. StandardEngine_insert (UncompressedTree_RouteTree N) n m
        (StandardEngine_new (UncompressedTree_new v)) = Some (Inr (), e)
    \<and> StandardEngine_clear (UncompressedTree_RouteTree N) e = Some e' \<and> StandardEngine_size e' = 0
    \<and> fst (StandardEngine_lookup (UncompressedTree_RouteTree N) ip e') = Some m
    \<and> StandardEngine_size (snd (StandardEngine_remove (UncompressedTree_RouteTree N) n e')) = - 1"
proof -
  note lpm = UncompressedTree_lpm_tree [OF assms(1)]
  note tree = lpm_tree.axioms(1) [OF lpm]
  let ?T = "UncompressedTree_RouteTree N"
  have key: "net_bits N n = []"
    using ipnetwork.length_net_bits [OF assms(1), of n] assms(2) by simp
  obtain e where e: "StandardEngine_insert ?T n m (StandardEngine_new (UncompressedTree_new v)) = Some (Inr (), e)"
      "ut_inv N (se_tree e)" "ut_abs (se_tree e) = [[] \<mapsto> (n, m)]"
    using route_tree.se_insert [OF tree, of "StandardEngine_new (UncompressedTree_new v)" n m] key by auto
  obtain t where t: "UncompressedTree_clear (se_tree e) = Some t" "ut_inv N t" "ut_abs t = [[] \<mapsto> (n, m)]"
    using UncompressedTree_clear_table [OF e(2)] e(3) by (auto simp: restrict_map_def fun_eq_iff)
  define e' where "e' = e\<lparr>se_tree := t, se_size := 0, se_stats := (se_stats e)\<lparr>st_size := 0\<rparr>\<rparr>"
  have clear: "StandardEngine_clear ?T e = Some e'"
    using t(1) by (simp add: StandardEngine_clear_def UncompressedTree_RouteTree_def e'_def)
  have "network_contains_ip N n ip"
    using assms(3) key by (simp add: ipnetwork.network_contains_ip_iff [OF assms(1)])
  then have "rt_lookup ?T ip t = Some m"
    using lpm_tree.lookup_law [OF lpm t(2), of ip] t(3) by (simp add: lpm_result_singleton)
  moreover have "se_size (snd (StandardEngine_remove ?T n e')) = - 1"
    using route_tree.se_remove [OF tree, of e' n] t(2,3) key by (auto simp: e'_def)
  ultimately show ?thesis
    using e(1) clear by (auto simp: e'_def StandardEngine_size_def StandardEngine_lookup_def Let_def)
qed

theorem uncompressed_clear_keeps_default_witness:
  "\<exists>e e'. StandardEngine_insert (UncompressedTree_RouteTree cidr_ops) (cidr_of (V4 0) 0) (Metadata_new ''gw'')
        (StandardEngine_new (UncompressedTree_new NV_NormalTrieNode)) = Some (Inr (), e)
    \<and> StandardEngine_clear (UncompressedTree_RouteTree cidr_ops) e = Some e' \<and> StandardEngine_size e' = 0
    \<and> fst (StandardEngine_lookup (UncompressedTree_RouteTree cidr_ops) (V4 7) e') = Some (Metadata_new ''gw'')"
  using uncompressed_clear_keeps_default [OF cidr.ipnetwork_axioms, of "cidr_of (V4 0) 0" "V4 7"
      "Metadata_new ''gw''" NV_NormalTrieNode]
  by auto

text \<open>An \<open>UncompressedTree\<close> files both families in one trie without marking the family:
  an IPv6 route with the same bits as an IPv4 route replaces it, and IPv4 lookups then miss.\<close>

theorem uncompressed_family_overwrite:
  assumes "ipnetwork N" and "net_v4 N n" and "\<not> net_v4 N n'" and "net_bits N n = net_bits N n'"
  shows "\<exists>t. run_ops (UncompressedTree_RouteTree N) [OpInsert n m, OpInsert n' m'] (UncompressedTree_new v) = Some t
    \<and> UncompressedTree_contains N n t \<and> UncompressedTree_lookup N (V4 a) t = None"
proof -
  note lpm = UncompressedTree_lpm_tree [OF assms(1)]
  note tree = lpm_tree.axioms(1) [OF lpm]
  obtain t where t: "run_ops (UncompressedTree_RouteTree N) [OpInsert n m, OpInsert n' m'] (UncompressedTree_new v) = Some t"
      "ut_inv N t" "ut_abs t = [net_bits N n' \<mapsto> (n', m')]"
    using route_tree.run_ops_refines [OF tree UncompressedTree_new_table(1), of "[OpInsert n m, OpInsert n' m']" v]
    by (auto simp: table_ops_def assms(4))
  have "\<not> network_contains_ip N n' (V4 a)"
    using assms(3) by (simp add: ipnetwork.network_contains_ip_iff [OF assms(1)])
  then have "UncompressedTree_lookup N (V4 a) t = None"
    using lpm_tree.lookup_law [OF lpm t(2), of "V4 a"] t(3)
    by (simp add: lpm_result_singleton UncompressedTree_RouteTree_def)
  moreover have "UncompressedTree_contains N n t"
    using t(2,3) assms(4) by (simp add: ipnetwork.ut_contains_table [OF assms(1)])
  ultimately show ?thesis using t(1) by blast
qed

theorem uncompressed_family_overwrite_witness:
  "\<exists>t. run_ops (UncompressedTree_RouteTree cidr_ops)
        [OpInsert (cidr_of (V4 0) 0) (Metadata_new ''v4''), OpInsert (cidr_of (V6 0) 0) (Metadata_new ''v6'')]
        (UncompressedTree_new NV_NormalTrieNode) = Some t
    \<and> UncompressedTree_lookup cidr_ops (V4 9) t = None"
  using uncompressed_family_overwrite [OF cidr.ipnetwork_axioms, of "cidr_of (V4 0) 0" "cidr_of (V6 0) 0"
      "Metadata_new ''v4''" "Metadata_new ''v6''" NV_NormalTrieNode 9]
  by (auto simp: net_bits_def simp del: run_ops.simps)

section \<open>Rate limiting\<close>

text \<open>C8. Whatever a token bucket holds, calls of \<open>allow\<close> at clock readings that do not
  decrease are admitted at most as often as its capacity plus its refill rate times the elapsed
  seconds (in thousandths of a token; both products wrap at 64 bits and the capacity saturates at
  32 bits, as in the code).\<close>

theorem bucket_bound:
  assumes "sorted (map unat (now # nows))"
  shows "fst (allow_run capacity rate (now # nows) bucket) * 1000
    \<le> unat (capacity_fp capacity) + (unat (last (now # nows)) - unat now) * unat (rate * 1000)"
  by (rule allow_run_bound [OF assms])

theorem bucket_bound_witness:
  "fst (allow_run 2 1 [100, 100, 100, 101] (TokenBucket_new 100 2)) * 1000 \<le> 3000"
  using bucket_bound [of 100 "[100, 100, 101]" 2 1 "TokenBucket_new 100 2"]
  by (simp add: unat_capacity_fp)

text \<open>C9. Any number of threads calling \<open>allow\<close> on one bucket in the second of its time stamp, in any
  interleaving of their loads and compare-exchanges, when it holds at most its capacity: each admission
  takes exactly one token out of the bucket, so no token is spent twice.\<close>

theorem bucket_interleaving:
  assumes "(allow_step c r (\<lambda>_. now))\<^sup>*\<^sup>* (b, \<lambda>_. Start) (b', pcs)"
    and "tb_ts b = unat now" and "tb_tokens b \<le> unat (capacity_fp c)"
  shows "tb_tokens b' + 1000 * card (admitted pcs) = tb_tokens b"
proof -
  have "bucket_balance now c (tb_tokens b) (b, \<lambda>_. Start)"
    using assms(2,3) by (simp add: bucket_balance_def admitted_def)
  from bucket_balance_reach [OF assms(1) this] show ?thesis by (simp add: bucket_balance_def)
qed

text \<open>Two threads load a bucket with one token; the first takes it, the second fails its exchange, loads again
  and is rejected.\<close>

theorem bucket_interleaving_witness:
  "\<exists>b'. (allow_step 1 0 (\<lambda>_. 7))\<^sup>*\<^sup>* (TokenBucket_new 7 1, \<lambda>_. Start) (b', (\<lambda>_. Start)(1 := Returned True, 2 := Returned False))
    \<and> tb_tokens b' = 0"
proof -
  have full: "tb_ts (TokenBucket_new 7 1) = 7" "tb_tokens (TokenBucket_new 7 1) = 1000" "unat (capacity_fp 1) = 1000"
    by (simp_all add: TokenBucket_new_def unat_capacity_fp)
  then have r: "unat (refilled 7 1 0 (TokenBucket_new 7 1)) = 1000" by (simp add: unat_refilled)
  then have enough: "\<not> refilled 7 1 0 (TokenBucket_new 7 1) < 1000" by (simp add: word_less_nat_alt)
  let ?b = "TokenBucket_new 7 1" and ?s = "(\<lambda>_ :: nat. Start)" and ?step = "allow_step 1 0 (\<lambda>_. 7)"
  let ?b' = "pack 7 (refilled 7 1 0 ?b - 1000)"
  have gone: "tb_tokens ?b' = 0" using r by (simp add: unat_sub_if' word_le_nat_alt)
  then have less: "refilled 7 1 0 ?b' < 1000" by (simp add: word_less_nat_alt unat_refilled)
  have ne: "?b' \<noteq> ?b" using gone full(2) by (metis zero_neq_numeral)
  have "?step (?b, ?s) (?b, ?s(1 := Loaded ?b))" by (rule allow_step.load) simp
  moreover have "?step (?b, ?s(1 := Loaded ?b)) (?b, ?s(1 := Loaded ?b, 2 := Loaded ?b))" by (rule allow_step.load) simp
  moreover have "?step (?b, ?s(1 := Loaded ?b, 2 := Loaded ?b)) (?b', (?s(1 := Loaded ?b, 2 := Loaded ?b))(1 := Returned True))"
    by (rule allow_step.exchange) (use enough in simp_all)
  moreover have "?step (?b', ?s(1 := Loaded ?b, 2 := Loaded ?b, 1 := Returned True))
      (?b', (?s(1 := Loaded ?b, 2 := Loaded ?b, 1 := Returned True))(2 := Start))"
    by (rule allow_step.retry) (use enough ne in simp_all)
  moreover have "?step (?b', ?s(1 := Loaded ?b, 2 := Loaded ?b, 1 := Returned True, 2 := Start))
      (?b', (?s(1 := Loaded ?b, 2 := Loaded ?b, 1 := Returned True, 2 := Start))(2 := Loaded ?b'))" by (rule allow_step.load) simp
  moreover have "?step (?b', ?s(1 := Loaded ?b, 2 := Loaded ?b, 1 := Returned True, 2 := Start, 2 := Loaded ?b'))
      (?b', (?s(1 := Loaded ?b, 2 := Loaded ?b, 1 := Returned True, 2 := Start, 2 := Loaded ?b'))(2 := Returned False))"
    by (rule allow_step.reject) (use less in simp_all)
  ultimately have "?step\<^sup>*\<^sup>* (?b, ?s) (?b', ?s(1 := Loaded ?b, 2 := Loaded ?b, 1 := Returned True, 2 := Start, 2 := Loaded ?b', 2 := Returned False))"
    by (meson converse_rtranclp_into_rtranclp rtranclp.rtrancl_refl)
  moreover have "?s(1 := Loaded ?b, 2 := Loaded ?b, 1 := Returned True, 2 := Start, 2 := Loaded ?b', 2 := Returned False)
      = ?s(1 := Returned True, 2 := Returned False)" by (simp add: fun_eq_iff)
  ultimately have reach: "?step\<^sup>*\<^sup>* (?b, ?s) (?b', ?s(1 := Returned True, 2 := Returned False))" by simp
  have "tb_tokens ?b' + 1000 * card (admitted (?s(1 := Returned True, 2 := Returned False))) = tb_tokens ?b"
    by (rule bucket_interleaving [OF reach]) (use full in simp_all)
  moreover have "admitted (?s(1 := Returned True, 2 := Returned False)) = {1}" by (auto simp: admitted_def)
  ultimately have "tb_tokens ?b' = 0" using full(2) by simp
  with reach show ?thesis by blast
qed

text \<open>C10. The compare-exchange loop of \<open>allow\<close> ends under contention: with finitely many threads
  in it, every interleaving stops after at most quadratically many steps, whatever clock values
  the threads read, and an interleaving that has stopped has returned from every call.\<close>

theorem bucket_terminates:
  assumes "finite (running pcs)" and "(allow_step c r clk ^^ n) (b, pcs) (b', pcs')"
  shows "n \<le> 3 * card (running pcs) * (card (running pcs) + 1)
    \<and> ((\<exists>s. allow_step c r clk (b', pcs') s) \<or> (\<forall>i. \<exists>x. pcs' i = Returned x))"
proof
  have "n + steps_left (b', pcs') \<le> steps_left (b, pcs)" using allow_steps_bound [OF assms(2)] assms(1) by simp
  then show "n \<le> 3 * card (running pcs) * (card (running pcs) + 1)"
    using steps_left_initial [OF assms(1), of b] by linarith
  show "(\<exists>s. allow_step c r clk (b', pcs') s) \<or> (\<forall>i. \<exists>x. pcs' i = Returned x)"
    using allow_step_progress [of _ pcs' c r clk b'] unfolding running_def by blast
qed

theorem bucket_terminates_witness:
  "\<exists>s. allow_step 1 0 (\<lambda>_. 7) (TokenBucket_new 7 1, (\<lambda>_. Returned True)(0 := Loaded (TokenBucket_new 7 1))) s"
proof -
  let ?pcs = "(\<lambda>_ :: nat. Returned True)(0 := Start)" and ?b = "TokenBucket_new 7 1"
  have "running ?pcs = {0}" by (auto simp: running_def)
  then have fin: "finite (running ?pcs)" by simp
  have "allow_step 1 0 (\<lambda>_. 7) (?b, ?pcs) (?b, ?pcs(0 := Loaded ?b))" by (rule allow_step.load) simp
  then have step: "(allow_step 1 0 (\<lambda>_. 7) ^^ 1) (?b, ?pcs) (?b, ?pcs(0 := Loaded ?b))" by (simp only: relpowp_1)
  have "\<not> (\<forall>i. \<exists>x. (?pcs(0 := Loaded ?b)) i = Returned x)" by (auto intro: exI [of _ 0])
  with bucket_terminates [OF fin step] show ?thesis unfolding fun_upd_upd by blast
qed

text \<open>C11. While its cache evicts nothing, the limiter refines a map from keys to buckets:
  \<open>consume\<close> takes a token from the bucket of its key, a full one if the key is new.\<close>

theorem limiter_refines:
  assumes "moka_keeping M" and "lm_inv M l"
  shows "fst (consume M now_new now k l) = fst (spec_consume (lm_config l) now_new now k (lm_view M l))
    \<and> lm_view M (snd (consume M now_new now k l)) = snd (spec_consume (lm_config l) now_new now k (lm_view M l))
    \<and> lm_inv M (snd (consume M now_new now k l))"
  using moka_keeping.consume_refines [OF assms] moka.consume_inv [OF moka_keeping.axioms(1) [OF assms(1)] assms(2)]
  by blast

theorem limiter_refines_witness:
  "fst (consume map_cache 5 5 (Exact (V4 1) :: cidr BucketKey) (TokenBucketLimiter_new map_cache (RateLimitConfig_default\<lparr>rl_capacity := 1\<rparr>)))"
proof -
  have "fst (TokenBucket_allow 5 1 10 (TokenBucket_new 5 1))"
    by (simp add: allow_iff unat_refilled TokenBucket_new_def unat_capacity_fp)
  then show ?thesis
    using limiter_refines [OF map_cache.moka_keeping_axioms map_cache.lm_inv_new,
        of 5 5 "Exact (V4 1) :: cidr BucketKey" "RateLimitConfig_default\<lparr>rl_capacity := 1\<rparr>"]
    by (simp add: spec_consume_def map_cache.lm_view_new RateLimitConfig_default_def case_prod_unfold Let_def)
qed

text \<open>C12. Whatever its cache evicts, the limiter never lets two keys share a bucket: a call for
  one key keeps that invariant and leaves every other key's bucket as it is, or without an entry.\<close>

theorem limiter_isolation:
  assumes "moka M" and "lm_inv M l"
  shows "lm_inv M (snd (consume M now_new now k l))
    \<and> (\<forall>k'. k' = k \<or> lm_view M (snd (consume M now_new now k l)) k' = lm_view M l k'
          \<or> lm_view M (snd (consume M now_new now k l)) k' = None)"
  using moka.consume_inv [OF assms] moka.consume_other [OF assms, of _ k] by fastforce

theorem limiter_isolation_witness:
  "lm_inv map_cache (snd (consume map_cache 5 5 (Exact (V4 1) :: cidr BucketKey) (TokenBucketLimiter_new map_cache RateLimitConfig_default)))"
  using limiter_isolation [OF map_cache.moka_axioms map_cache.lm_inv_new,
      of 5 5 "Exact (V4 1) :: cidr BucketKey" RateLimitConfig_default] by simp

text \<open>C13. Subnet keys: truncating an address to the configured depth succeeds exactly when the
  depth fits the address family (otherwise the \<open>unwrap\<close> panics, though configuration
  validation accepts the depth), the key is a network of that length that contains the address,
  and two addresses of one family share a key exactly when they agree on that many leading bits.\<close>

theorem subnet_key:
  assumes "ipnetwork N" and "is_ipv4 a = is_ipv4 b"
  shows "(case truncate_to_prefix N a d4 d6 of
      None \<Rightarrow> ip_width a < depth_for a d4 d6
    | Some n \<Rightarrow> net_prefix N n = depth_for a d4 d6 \<and> net_contains N n a
        \<and> (truncate_to_prefix N b d4 d6 = Some n \<longleftrightarrow>
             take (depth_for a d4 d6) (ip_bits a) = take (depth_for a d4 d6) (ip_bits b)))"
proof (cases "depth_for a d4 d6 \<le> ip_width a")
  case True
  then obtain n where "truncate_to_prefix N a d4 d6 = Some n" "net_prefix N n = depth_for a d4 d6" "net_contains N n a"
    using ipnetwork.truncate_fits [OF assms(1)] by blast
  then show ?thesis using ipnetwork.truncate_eq_iff [OF assms True] by auto
next
  case False
  then show ?thesis using ipnetwork.truncate_panics [OF assms(1), of a d4 d6] by simp
qed

theorem subnet_key_witness:
  "\<exists>n. truncate_to_prefix cidr_ops (V4 0x0A000001) 24 64 = Some n \<and> net_prefix cidr_ops n = 24"
  using subnet_key [OF cidr.ipnetwork_axioms, of "V4 0x0A000001" "V4 0" 24 64]
  by (cases "truncate_to_prefix cidr_ops (V4 0x0A000001) 24 64") simp_all

section \<open>Automatic bans\<close>

text \<open>The blocklist engine the following properties use: a standard engine over an uncompressed
  tree, new and empty.\<close>

abbreviation block_engine :: "'n ipnet_ops \<Rightarrow> ('n UncompressedTree StandardEngine, 'n) RadixEngine" where
  "block_engine N \<equiv> StandardEngine_RadixEngine (UncompressedTree_RouteTree N)"

abbreviation new_blocklist :: "NodeVariant \<Rightarrow> 'n UncompressedTree StandardEngine" where
  "new_blocklist v \<equiv> StandardEngine_new (UncompressedTree_new v)"

lemma ban_inv_start:
  assumes "ipnetwork N" and "dashmap DV" and "dashmap DB"
  shows "auto_ban.ban_inv N (se_inv (ut_inv N) ut_abs) (\<lambda>e. ut_abs (se_tree e)) (net_bits N) DB
    (AutoBanTracker_new DV DB cfg, new_blocklist v)"
  by (rule auto_ban.ban_inv_new [OF auto_ban_standard [OF assms]]) simp

lemma stamps_start: "dashmap DV \<Longrightarrow> stamps DV (AutoBanTracker_new DV DB cfg) ip = []"
  by (simp add: stamps_def AutoBanTracker_new_def dashmap.dm_get_new)

text \<open>No address is banned too early: when a report bans it, at least as many reports of that
  address as the threshold says lie within the window that ends with it, whatever was reported
  and swept before.\<close>

theorem autoban_threshold:
  assumes "ipnetwork N" and "dashmap DV" and "dashmap DB"
    and "list_all (in_range (from_secs (ab_ban_duration_seconds cfg))) xs"
    and "ban_events N (block_engine N) DV DB xs (AutoBanTracker_new DV DB cfg, new_blocklist v) = Some (tr, e)"
    and "record_violation N (block_engine N) DV DB now ip tr e = Some (True, r)"
  shows "unat (ab_threshold_violations cfg)
    \<le> length (filter (\<lambda>t. cutoff now (from_secs (ab_window_seconds cfg)) \<le> t) (times_of ip xs)) + 1"
  using auto_ban.ban_needs_threshold [OF auto_ban_standard [OF assms(1-3)] ban_inv_start [OF assms(1-3)] _ _ assms(5,6)]
    assms(4) stamps_start [OF assms(2), of DB cfg]
  by (simp add: AutoBanTracker_new_def)

theorem autoban_threshold_witness:
  "(2 :: nat) \<le> length (filter (\<lambda>t. cutoff 5 (from_secs 60) \<le> t) (times_of (V4 1) [Violation 3 (V4 1)])) + 1"
proof -
  let ?cfg = "AutoBanConfig_default\<lparr>ab_threshold_violations := 2\<rparr>" and ?e = "new_blocklist NV_NormalTrieNode :: cidr UncompressedTree StandardEngine"
  let ?tr = "AutoBanTracker_new alist_dash alist_dash ?cfg :: ((IpAddr, int list) alist, (IpAddr, int) alist) AutoBanTracker"
  let ?tr1 = "?tr\<lparr>at_violations := dm_insert alist_dash (V4 1) [3] (at_violations ?tr)\<rparr>"
  have run: "ban_events cidr_ops (block_engine cidr_ops) alist_dash alist_dash [Violation 3 (V4 1)] (?tr, ?e) = Some (?tr1, ?e)"
    by (simp add: record_violation_def Let_def AutoBanTracker_new_def AutoBanConfig_default_def)
  have st: "stamps alist_dash ?tr1 (V4 1) = [3]" by (simp add: stamps_def)
  have "cutoff 5 (at_window ?tr1) \<le> 3"
    by (simp add: AutoBanTracker_new_def AutoBanConfig_default_def from_secs_def cutoff_def checked_sub_def instant_bound_def)
  then obtain r where "record_violation cidr_ops (block_engine cidr_ops) alist_dash alist_dash 5 (V4 1) ?tr1 ?e = Some (True, r)"
    using ab.record_violation_bans [of ?e 5 ?tr1 "V4 1"] st
    by (auto simp: AutoBanTracker_new_def AutoBanConfig_default_def from_secs_def instant_bound_def)
  from autoban_threshold [OF cidr.ipnetwork_axioms alist_dash.dashmap_axioms alist_dash.dashmap_axioms _ run this]
  show ?thesis
    by (simp add: AutoBanConfig_default_def from_secs_def instant_bound_def)
qed

text \<open>C14. A new tracker over an empty block list gets reports of one address, as many as the threshold,
  within one window, where the window and the ban duration are within the clock's range: the last of
  them bans the address and none before it does; afterwards the ban table holds the expiry and the
  blocklist engine answers for the address.\<close>

theorem autoban_bans:
  assumes "ipnetwork N" and "dashmap DV" and "dashmap DB" and "nows \<noteq> []"
    and "unat (ab_threshold_violations cfg) = length nows"
    and "sorted nows" and "0 \<le> hd nows" and "last nows - hd nows \<le> int (from_secs (ab_window_seconds cfg))"
    and "int (from_secs (ab_window_seconds cfg)) \<le> instant_bound"
    and "last nows + int (from_secs (ab_ban_duration_seconds cfg)) < instant_bound"
  shows "\<exists>tr e. reports N (block_engine N) DV DB ip nows (AutoBanTracker_new DV DB cfg) (new_blocklist v)
      = Some (replicate (length nows - 1) False @ [True], tr, e)
    \<and> dm_get DB (at_banned tr) ip = Some (last nows + int (from_secs (ab_ban_duration_seconds cfg)))
    \<and> rt_lookup (UncompressedTree_RouteTree N) ip (se_tree e) \<noteq> None"
proof -
  let ?tr = "AutoBanTracker_new DV DB cfg"
  have set: "at_window ?tr = from_secs (ab_window_seconds cfg)" "at_threshold ?tr = ab_threshold_violations cfg"
      "at_ban_duration ?tr = from_secs (ab_ban_duration_seconds cfg)" by (simp_all add: AutoBanTracker_new_def)
  have "u + int (at_ban_duration ?tr) < instant_bound \<and> (\<forall>t\<in>set (stamps DV ?tr ip @ nows). cutoff u (at_window ?tr) \<le> t)"
    if u: "u \<in> set nows" for u
  proof -
    have lo: "hd nows \<le> t" if "t \<in> set nows" for t using assms(4,6) that by (cases nows) auto
    have hi: "u \<le> last nows" using sorted_le_last [OF assms(6) u] .
    have "cutoff u (at_window ?tr) = u - int (at_window ?tr)"
      using lo [OF u] assms(7,9) set by (intro cutoff_window) simp_all
    then show ?thesis
      using hi lo assms(8,10) set stamps_start [OF assms(2), of DB cfg ip] by fastforce
  qed
  then show ?thesis
    using auto_ban.reports_ban [OF auto_ban_standard [OF assms(1-3)], of "new_blocklist v" nows ?tr ip] assms(4,5) set
      stamps_start [OF assms(2), of DB cfg ip]
    by auto
qed

theorem autoban_bans_witness:
  "\<exists>tr e. reports cidr_ops (block_engine cidr_ops) alist_dash alist_dash (V4 1) [0, 5, 5]
      (AutoBanTracker_new alist_dash alist_dash (AutoBanConfig_default\<lparr>ab_threshold_violations := 3\<rparr>)) (new_blocklist NV_NormalTrieNode)
      = Some ([False, False, True], tr, e)
    \<and> dm_get alist_dash (at_banned tr) (V4 1) = Some (5 + 3600 * 10 ^ 9)"
  using autoban_bans [OF cidr.ipnetwork_axioms alist_dash.dashmap_axioms alist_dash.dashmap_axioms,
      of "[0, 5, 5]" "AutoBanConfig_default\<lparr>ab_threshold_violations := 3\<rparr>" "V4 1" NV_NormalTrieNode]
  by (auto simp: AutoBanConfig_default_def from_secs_def instant_bound_def)





text \<open>C17. The sweeper is not atomic: with a threshold of at most one violation, when another thread bans an expired address again between
  the sweeper's update of the ban table and its update of the engine, the sweeper takes the new
  host route away. The ban table then says the address is banned and the engine lets it pass.\<close>

theorem sweeper_race:
  assumes "ipnetwork N" and "dashmap DV" and "dashmap DB" and "unat (ab_threshold_violations cfg) \<le> 1"
    and "t + int (from_secs (ab_ban_duration_seconds cfg)) \<le> now"
    and "now \<le> later" and "later + int (from_secs (ab_ban_duration_seconds cfg)) < instant_bound"
  shows "\<exists>tr e tr' e'. record_violation N (block_engine N) DV DB t ip (AutoBanTracker_new DV DB cfg) (new_blocklist v) = Some (True, tr, e)
    \<and> (sweeper_step N (block_engine N) DV DB)\<^sup>*\<^sup>* (tr, e, Asleep) (tr', e', Asleep)
    \<and> dm_get DB (at_banned tr') ip = Some (later + int (from_secs (ab_ban_duration_seconds cfg)))
    \<and> rt_lookup (UncompressedTree_RouteTree N) ip (se_tree e') = None"
proof -
  note ab = auto_ban_standard [OF assms(1-3)]
  let ?tr = "AutoBanTracker_new DV DB cfg" and ?inv = "se_inv (ut_inv N) ut_abs"
  let ?key = "auto_ban.host_key N (net_bits N) ip"
  have set: "at_threshold ?tr = ab_threshold_violations cfg" "at_ban_duration ?tr = from_secs (ab_ban_duration_seconds cfg)"
    by (simp_all add: AutoBanTracker_new_def)
  have new: "?inv (new_blocklist v :: 'a UncompressedTree StandardEngine)"
    by simp
  have first: "t + int (at_ban_duration ?tr) < instant_bound" using assms(5-7) set by linarith
  obtain e n where e: "record_violation N (block_engine N) DV DB t ip ?tr (new_blocklist v) =
      Some (True, ?tr\<lparr>at_violations := dm_insert DV ip [] (at_violations ?tr),
        at_banned := dm_insert DB ip (t + int (at_ban_duration ?tr)) (at_banned ?tr)\<rparr>, e)"
      "?inv e" "ut_abs (se_tree e) = [?key \<mapsto> (n, ban_metadata)]"
    using auto_ban.record_violation_bans [OF ab new first, of ip] assms(4) set by auto
  let ?tr1 = "?tr\<lparr>at_violations := dm_insert DV ip [] (at_violations ?tr),
        at_banned := dm_insert DB ip (t + int (at_ban_duration ?tr)) (at_banned ?tr)\<rparr>"
  have "dm_get DB (at_banned ?tr1) = [ip \<mapsto> t + int (at_ban_duration ?tr)]"
    using assms(3) by (simp add: AutoBanTracker_new_def dashmap.dm_get_new dashmap.dm_get_insert)
  from auto_ban.sweep_race [OF ab e(2) this, of now later] assms(4,5,7) set obtain tr' e' where r:
    "(sweeper_step N (block_engine N) DV DB)\<^sup>*\<^sup>* (?tr1, e, Asleep) (tr', e', Asleep)"
    "dm_get DB (at_banned tr') ip = Some (later + int (at_ban_duration ?tr))"
    "?inv e'" "ut_abs (se_tree e') = (ut_abs (se_tree e))(?key := None)" by auto
  have "rt_lookup (UncompressedTree_RouteTree N) ip (se_tree e') = None"
    using lpm_engine.answer_None_iff [OF auto_ban.axioms(2) [OF ab] r(3), of ip] r(4) e(3) by simp
  with e(1) r(1,2) set show ?thesis by auto
qed

theorem sweeper_race_witness:
  "\<exists>tr e tr' e'. (sweeper_step cidr_ops (block_engine cidr_ops) alist_dash alist_dash)\<^sup>*\<^sup>* (tr, e, Asleep) (tr', e', Asleep)
    \<and> dm_get alist_dash (at_banned tr') (V4 1) = Some (4000 * 10 ^ 9 + 3600 * 10 ^ 9)
    \<and> rt_lookup (UncompressedTree_RouteTree cidr_ops) (V4 1) (se_tree e') = None"
  using sweeper_race [OF cidr.ipnetwork_axioms alist_dash.dashmap_axioms alist_dash.dashmap_axioms,
      of "AutoBanConfig_default\<lparr>ab_threshold_violations := 1\<rparr>" 0 "3600 * 10 ^ 9" "4000 * 10 ^ 9" "V4 1" NV_NormalTrieNode]
  by (simp add: AutoBanConfig_default_def from_secs_def instant_bound_def) blast

section \<open>Requests\<close>

text \<open>C18. \<open>extract_ip\<close> with an \<open>X-Forwarded-For\<close> header: either every hop is a trusted
  proxy and the fallbacks decide, or the rightmost hop that is not one decides, with an error if
  it is not an address. What stands to its left never matters.\<close>

theorem extract_forwarded:
  "(list_all (trusted_hop N trusted) (xff_hops v)
      \<and> extract_ip N (Some v) real remote trusted = extract_ip N None real remote trusted)
   \<or> (\<exists>left raw right. xff_hops v = left @ raw # right \<and> \<not> trusted_hop N trusted raw
      \<and> list_all (trusted_hop N trusted) right
      \<and> extract_ip N (Some v) real remote trusted
          = (case parse_ip raw of None \<Rightarrow> Inl (Invalid raw) | Some ip \<Rightarrow> Inr ip))"
proof (cases "xff_walk N trusted (rev (xff_hops v))")
  case None
  then show ?thesis using xff_walk_None_iff [of N trusted "rev (xff_hops v)"]
    by (simp add: extract_ip_all_trusted)
next
  case (Some r)
  then obtain ts raw rest where w: "rev (xff_hops v) = ts @ raw # rest" "list_all (trusted_hop N trusted) ts"
    "case r of Inr ip \<Rightarrow> parse_ip raw = Some ip \<and> \<not> is_trusted N ip trusted
             | Inl e \<Rightarrow> parse_ip raw = None \<and> e = Invalid raw"
    using xff_walk_SomeD [OF Some] by blast
  have "xff_hops v = rev rest @ raw # rev ts" using w(1) by (simp add: rev_swap)
  moreover have "\<not> trusted_hop N trusted raw" using w(3) by (auto simp: trusted_hop_def split: sum.splits)
  moreover have "extract_ip N (Some v) real remote trusted = (case parse_ip raw of None \<Rightarrow> Inl (Invalid raw) | Some ip \<Rightarrow> Inr ip)"
    using Some w(3) by (auto simp: extract_ip_def split: sum.splits)
  moreover have "list_all (trusted_hop N trusted) (rev ts)" using w(2) by simp
  ultimately show ?thesis by blast
qed

text \<open>C19. A route just inserted is found: for its own path, and for one of its methods in any
  case of letters, or for any method when it was inserted for all of them and the path has no
  limiter for that method of its own.\<close>

theorem route_exact:
  assumes "to_uppercase m \<in> to_uppercase ` set methods
    \<or> methods = [] \<and> filed_at root (split_path path) (to_uppercase m) = None"
  shows "match_route m path (RouteTrie_insert path methods i root) = Some i"
proof -
  let ?t = "RouteTrie_insert path methods i root" and ?p = "split_path path" and ?m = "to_uppercase m"
  have filed: "filed_at ?t ?p k = (if k \<in> method_keys methods then Some i else filed_at root ?p k)" for k
    by (simp add: RouteTrie_insert_def trie_insert_filed)
  have "method_keys methods \<noteq> {}" by (simp add: method_keys_def)
  then obtain k where "k \<in> method_keys methods" by blast
  with filed [of k] obtain n where n: "node_at ?p ?t = Some n"
    by (cases "node_at ?p ?t") (auto simp: filed_at_def)
  have lim: "rn_limiters n k = filed_at ?t ?p k" for k using n by (simp add: filed_at_def)
  have "rn_lookup n ?m = Some i"
    using assms by (auto simp: rn_lookup_def lim filed method_keys_def)
  with n show ?thesis unfolding match_route_def by (rule match_loop_exact)
qed

theorem route_exact_witness:
  "match_route ''post'' ''/api/v1/login'' (RouteTrie_insert ''/api/v1/login'' [''POST''] 7 RouteTrieNode_default) = Some 7"
proof -
  have "to_uppercase ''post'' = ''POST''" "to_uppercase ''POST'' = ''POST''" by code_simp+
  then show ?thesis by (intro route_exact) simp
qed

text \<open>C20. A match is never invented: the limiter it returns was filed for the method or for all
  methods, under a pattern whose segments equal those of the path or are \<open>*\<close>, over the whole
  path or over a leading part of it that ends with \<open>*\<close>.\<close>

theorem route_sound:
  assumes "match_route m path root = Some i"
  shows "\<exists>q m'. filed_at root q m' = Some i \<and> m' \<in> {to_uppercase m, []} \<and> covers q (split_path path)
    \<and> (length q = length (split_path path) \<or> q \<noteq> [] \<and> last q = ''*'')"
  using match_loop_sound [of "to_uppercase m" "split_path path" root None i "[]" root "[]"] assms
  by (simp add: match_route_def)

theorem route_sound_witness:
  "\<exists>q m'. filed_at (RouteTrie_insert ''/api/*'' [] 3 RouteTrieNode_default) q m' = Some 3 \<and> covers q [''api'', ''x'', ''y'']"
proof -
  have "match_route ''GET'' ''/api/x/y'' (RouteTrie_insert ''/api/*'' [] 3 RouteTrieNode_default) = Some 3"
    by (simp add: match_route_def RouteTrie_insert_def split_path_def RouteTrieNode_default_def rn_lookup_def
        put_limiters_def to_uppercase_def char_to_uppercase_def)
  from route_sound [OF this] show ?thesis by (auto simp: split_path_def)
qed

text \<open>Packing an address for a language binding and unpacking it gives the address back.\<close>

theorem packed_roundtrip: "into_ip_addr (PackedIp_from ip) = Some ip"
  by (rule into_from_packed)

text \<open>The policy a handle is built with over a new blocklist, for some configuration.\<close>

abbreviation start_policy ::
  "'n ipnet_ops \<Rightarrow> ('c, 'n BucketKey) moka_ops \<Rightarrow> ('v, IpAddr, Instant list) dash_ops \<Rightarrow> ('b, IpAddr, Instant) dash_ops
     \<Rightarrow> NodeVariant \<Rightarrow> 'n RadixIpConfig \<Rightarrow> ('n, 'n UncompressedTree StandardEngine, 'c, 'v, 'b) PolicyEngine" where
  "start_policy N M DV DB v config \<equiv> ph_policy (PolicyHandle_new (standard_env N M DV DB) (new_blocklist v) config)"

text \<open>With automatic bans, the tracker can add its ban duration to the instants of the requests.\<close>

definition requests_in_range :: "'n RadixIpConfig \<Rightarrow> request list \<Rightarrow> bool" where
  "requests_in_range config rs \<longleftrightarrow> (ab_enabled (root_auto_ban (radixip config)) \<longrightarrow> list_all (\<lambda>(_, now, _).
     now + int (from_secs (ab_ban_duration_seconds (root_auto_ban (radixip config)))) < instant_bound) rs)"

text \<open>A configuration that \<^const>\<open>validate\<close> accepts: one token for each address, one violation to be banned, and the
  longest ban that can be written.\<close>

definition endless_ban :: "'n RadixIpConfig" where
  "endless_ban = \<lparr>radixip = RootConfig_defaults\<lparr>
     root_rate_limit := rb_build (rb_with_refill_rate 1 (rb_with_capacity 1 RateLimitConfig_builder)),
     root_auto_ban := \<lparr>ab_enabled = True, ab_threshold_violations = 1, ab_window_seconds = 60, ab_ban_duration_seconds = - 1\<rparr>\<rparr>\<rparr>"

lemma one_token_bucket:
  "TokenBucket_allow 9 1 1 (TokenBucket_new 9 1) = (True, pack 9 0)"
  "TokenBucket_allow 9 1 1 (pack 9 0) = (False, pack 9 0)"
  by (simp_all add: TokenBucket_allow_def TokenBucket_new_def refilled_def capacity_fp_def TokenBucket.saturating_mul_def
      TokenBucket.saturating_add_def TokenBucket.saturating_sub_def Let_def)

lemmas policy_start_defs = PolicyHandle_new_def PolicyEngine_new_def with_auto_ban_def AutoBanTracker_new_def
  TokenBucketLimiter_new_def RootConfig_defaults_def BlocklistConfig_default_def rb_build_def rb_with_capacity_def
  rb_with_refill_rate_def RateLimitConfig_builder_def unwrap_or_def

lemmas policy_check_defs = check_ip_def check_ip_with_limiter_def blocklisted_def ask_limiter_def limiter_allow_def
  ip_to_key_def consume_def on_violation_def

lemma endless_ban_panics:
  assumes "dashmap DV"
  shows "check_run (standard_env N map_cache DV DB) [(\<lambda>_. 9, 9, ip), (\<lambda>_. 9, 9, ip)]
      (start_policy N map_cache DV DB v endless_ban) = None"
proof -
  have none: "dm_get DV (dm_new DV) ip = None" using assms by (simp add: dashmap.dm_get_new)
  have late: "checked_add 9 (from_secs (- 1)) = None" by (simp add: checked_add_def from_secs_def instant_bound_def)
  show ?thesis
    by (simp add: endless_ban_def policy_start_defs policy_check_defs record_violation_def map_cache_def standard_env_def
        one_token_bucket none late Let_def case_prod_unfold)
qed

text \<open>C21. A policy built from any configuration, over a cache that may evict, answers every sequence of
  requests without a panic, as long as the subnet depths fit the address families and, where automatic
  bans are enabled, the configured ban duration added to the instants of the requests stays within the
  clock's range. Validation checks neither, and the second condition is needed: a valid configuration
  with the longest ban duration panics at the first ban.\<close>

theorem policy_total:
  fixes N :: "'n ipnet_ops"
  assumes "ipnetwork N" and "moka M" and "dashmap DV" and "dashmap DB"
  shows "(requests_in_range config rs
      \<and> list_all (\<lambda>(_, _, a). depth_ok (rl_bucket_mode (root_rate_limit (radixip config))) a) rs \<longrightarrow>
      (\<exists>ds pe. check_run (standard_env N M DV DB) rs (start_policy N M DV DB v config) = Some (ds, pe)
        \<and> length ds = length rs))
    \<and> validate (endless_ban :: 'n RadixIpConfig) = Inr ()
    \<and> check_run (standard_env N map_cache DV DB) [(\<lambda>_. 9, 9, ip), (\<lambda>_. 9, 9, ip)]
        (start_policy N map_cache DV DB v endless_ban) = None"
proof (intro conjI impI)
  note pol = policy_standard [OF assms]
  have new: "se_inv (ut_inv N) ut_abs (new_blocklist v :: 'n UncompressedTree StandardEngine)" by simp
  note start = policy.handle_start [OF pol new]
  assume rs: "requests_in_range config rs \<and> list_all (\<lambda>(_, _, a). depth_ok (rl_bucket_mode (root_rate_limit (radixip config))) a) rs"
  then have "\<forall>(clk, now, a) \<in> set rs. policy.clock_ok now (start_policy N M DV DB v config)
      \<and> depth_ok (rl_bucket_mode (lm_config (pe_limiter (start_policy N M DV DB v config)))) a"
    unfolding start(2,3) by (auto simp: requests_in_range_def list_all_iff)
  from policy.check_run_total [OF pol start(1) this]
  show "\<exists>ds pe. check_run (standard_env N M DV DB) rs (start_policy N M DV DB v config) = Some (ds, pe) \<and> length ds = length rs" by blast
next
  show "validate (endless_ban :: 'n RadixIpConfig) = Inr ()" by (simp add: validate_def endless_ban_def policy_start_defs)
  show "check_run (standard_env N map_cache DV DB) [(\<lambda>_. 9, 9, ip), (\<lambda>_. 9, 9, ip)]
        (start_policy N map_cache DV DB v endless_ban) = None" by (rule endless_ban_panics [OF assms(3)])
qed

theorem policy_total_witness:
  "\<exists>ds pe. check_run (standard_env cidr_ops map_cache alist_dash alist_dash) [(\<lambda>_. 9, 9, V4 1), (\<lambda>_. 9, 9, V6 1)]
      (start_policy cidr_ops map_cache alist_dash alist_dash NV_AtomicTrieNode \<lparr>radixip = RootConfig_defaults\<rparr>) = Some (ds, pe)
    \<and> length ds = 2"
proof -
  let ?rs = "[(\<lambda>_. 9, 9, V4 1), (\<lambda>_. 9, 9, V6 1)] :: request list"
  let ?cfg = "\<lparr>radixip = RootConfig_defaults\<rparr> :: cidr RadixIpConfig"
  have "requests_in_range ?cfg ?rs \<and> list_all (\<lambda>(_, _, a). depth_ok (rl_bucket_mode (root_rate_limit (radixip ?cfg))) a) ?rs"
    by (simp add: requests_in_range_def depth_ok_def RootConfig_defaults_def RateLimitConfig_default_def AutoBanConfig_default_def)
  from mp [OF conjunct1 [OF policy_total [OF cidr.ipnetwork_axioms map_cache.moka_axioms alist_dash.dashmap_axioms alist_dash.dashmap_axioms]] this,
      of NV_AtomicTrieNode]
  show ?thesis by (simp del: check_run.simps add: numeral_2_eq_2)
qed

text \<open>A cache that keeps nothing, as one under pressure or after the idle time does.\<close>

definition no_cache :: "(unit, 'k) moka_ops" where
  "no_cache = \<lparr>mk_new = (\<lambda>_ _. ()), mk_get_with = (\<lambda>k fresh c. (fresh, c)), mk_entries = (\<lambda>c. Map.empty), mk_entry_count = (\<lambda>c. 0)\<rparr>"

lemma no_cache_moka: "moka no_cache"
  by unfold_locales (simp_all add: no_cache_def)

text \<open>C22. The whole policy, blocklist and automatic bans included, with rate limiting enabled and one
  bucket per address: over any sequence of requests, over a cache that may evict, one address is allowed
  at most its capacity for every bucket the cache made for it plus its refill rate times the seconds
  between its first and its last request, whatever the other addresses do. A cache that evicts nothing
  makes one bucket for it; a cache that has dropped the bucket makes a full one again.\<close>

theorem policy_bound:
  assumes "ipnetwork N" and "moka M" and "dashmap DV" and "dashmap DB" and "requests_in_range config rs"
    and "rl_enabled (root_rate_limit (radixip config))" and "rl_bucket_mode (root_rate_limit (radixip config)) = Ip"
    and "request_readings ip rs = t # ts" and "sorted (map unat (t # ts))"
  shows "(\<exists>ds pe. check_run (standard_env N M DV DB) rs (start_policy N M DV DB v config) = Some (ds, pe)
      \<and> allowed_for ip rs ds * 1000
        \<le> buckets_made (standard_env N M DV DB) ip rs (start_policy N M DV DB v config)
            * unat (capacity_fp (rl_capacity (root_rate_limit (radixip config))))
          + (unat (last (t # ts)) - unat t) * unat (rl_refill_rate (root_rate_limit (radixip config)) * 1000))
    \<and> (moka_keeping M \<longrightarrow> buckets_made (standard_env N M DV DB) ip rs (start_policy N M DV DB v config) \<le> 1)"
proof -
  note pol = policy_standard [OF assms(1-4)]
  have new: "se_inv (ut_inv N) ut_abs (new_blocklist v :: 'a UncompressedTree StandardEngine)" by simp
  note start = policy.handle_start [OF pol new]
  have ok: "\<forall>(clk, now, a) \<in> set rs. policy.clock_ok now (start_policy N M DV DB v config)"
    using assms(5) unfolding start(2) by (auto simp: requests_in_range_def list_all_iff)
  have mode: "pe_rate_limit_enabled (start_policy N M DV DB v config)"
    "rl_bucket_mode (lm_config (pe_limiter (start_policy N M DV DB v config))) = Ip"
    using assms(6,7) unfolding start(3,4) by simp_all
  have "buckets_made (standard_env N M DV DB) ip rs (start_policy N M DV DB v config) \<le> 1" if "moka_keeping M"
    by (rule policy_keeping.check_run_one_bucket [OF policy_keeping_standard [OF assms(1) that assms(3,4)] start(1) mode ok])
  with policy.check_run_bound [OF pol start(1) mode ok policy.handle_no_buckets [OF pol] assms(8,9)] show ?thesis
    unfolding start(3) by blast
qed

theorem policy_bound_witness:
  "\<exists>ds pe. check_run (standard_env cidr_ops map_cache alist_dash alist_dash) [(\<lambda>_. 9, 9, V4 1), (\<lambda>_. 9, 9, V4 1)]
      (start_policy cidr_ops map_cache alist_dash alist_dash NV_AtomicTrieNode
        \<lparr>radixip = RootConfig_defaults\<lparr>root_rate_limit := rb_build (rb_with_capacity 1 RateLimitConfig_builder)\<rparr>\<rparr>) = Some (ds, pe)
    \<and> allowed_for (V4 1) [(\<lambda>_. 9, 9, V4 1), (\<lambda>_. 9, 9, V4 1)] ds * 1000 \<le> 1000"
proof -
  let ?cfg = "\<lparr>radixip = RootConfig_defaults\<lparr>root_rate_limit := rb_build (rb_with_capacity 1 RateLimitConfig_builder)\<rparr>\<rparr> :: cidr RadixIpConfig"
  have "requests_in_range ?cfg [(\<lambda>_. 9, 9, V4 1), (\<lambda>_. 9, 9, V4 1)]"
    by (simp add: requests_in_range_def RootConfig_defaults_def AutoBanConfig_default_def from_secs_def instant_bound_def)
  from policy_bound [OF cidr.ipnetwork_axioms map_cache.moka_axioms alist_dash.dashmap_axioms alist_dash.dashmap_axioms this,
      of "V4 1" 9 "[9]" NV_AtomicTrieNode] map_cache.moka_keeping_axioms
  show ?thesis
    by (fastforce simp: rb_build_def rb_with_capacity_def RateLimitConfig_builder_def unwrap_or_def unat_capacity_fp
        simp del: check_run.simps buckets_made.simps intro: order_trans)
qed

text \<open>Over a cache that keeps nothing, an address with one token is allowed as often as it asks.\<close>

lemma eviction_refills:
  "\<exists>pe. check_run (standard_env N no_cache DV DB) [(\<lambda>_. 9, 9, ip), (\<lambda>_. 9, 9, ip)]
      (start_policy N no_cache DV DB v endless_ban) = Some ([Allow, Allow], pe)"
  by (simp add: endless_ban_def policy_start_defs policy_check_defs no_cache_def standard_env_def one_token_bucket Let_def case_prod_unfold
      nth_append)

text \<open>The two entry points agree: with rate limiting enabled, a request from which an
  address can be extracted is decided exactly as \<open>check_ip\<close> decides that address.\<close>

theorem check_equivalence:
  assumes "extract_ip (env_net X) xff real remote (mw_trusted_proxies (pe_middleware_cfg pe)) = Inr ip"
    and "pe_rate_limit_enabled pe"
  shows "check X clk now xff real remote pe = check_ip X clk now ip pe"
  by (rule check_as_check_ip [OF assms])

theorem check_equivalence_witness:
  "check (standard_env cidr_ops map_cache alist_dash alist_dash) (\<lambda>_. 9) 9 None None (Some (V4 1))
     (PolicyEngine_new (standard_env cidr_ops map_cache alist_dash alist_dash) (new_blocklist NV_AtomicTrieNode)
       MiddlewareConfig_default (rb_build RateLimitConfig_builder) False)
   = check_ip (standard_env cidr_ops map_cache alist_dash alist_dash) (\<lambda>_. 9) 9 (V4 1)
     (PolicyEngine_new (standard_env cidr_ops map_cache alist_dash alist_dash) (new_blocklist NV_AtomicTrieNode)
       MiddlewareConfig_default (rb_build RateLimitConfig_builder) False)"
  by (rule check_equivalence) (simp_all add: extract_ip_def PolicyEngine_new_def rb_build_def)




section \<open>Middlewares\<close>


text \<open>A watcher on a file that always decodes to the default configuration, and a request.\<close>

definition default_file :: "string \<Rightarrow> string + cidr RadixIpConfig" where
  "default_file raw = Inr \<lparr>radixip = RootConfig_defaults\<lparr>root_blocklist := \<lparr>bl_enabled = True, bl_sources = []\<rparr>\<rparr>\<rparr>"















section \<open>gRPC server\<close>

text \<open>C27. The gRPC service is the table of the networks it was told, filed by their key: after its start no
  sequence of calls, streams included, makes it panic; every insertion, removal, membership test, clear
  and stream is answered from the table with the metadata that was sent; and as long as no stream
  failed, the exported gauge of active routes is the number of entries of the table.\<close>

theorem grpc_service_run:
  assumes "grpc_service N V" and "list_all finite_rpc cs"
  shows "\<exists>rs s. service_calls N isa V cs (RadixServiceImpl_new host) = Some (rs, s)
    \<and> list_all2 as_promised rs (fst (table_calls (ckey N) V cs Map.empty))
    \<and> (list_all stream_ok cs \<longrightarrow> mx_active_routes (sv_metrics s) = of_nat (card (dom (snd (table_calls (ckey N) V cs Map.empty)))))"
proof -
  obtain e where e: "service_inv N (RadixServiceImpl_new host) e" "ct_abs (se_tree e) = Map.empty"
      "mx_active_routes (sv_metrics (RadixServiceImpl_new host :: 'a RadixServiceImpl)) = wrapper_size (sv_engine (RadixServiceImpl_new host :: 'a RadixServiceImpl))"
    using grpc_service.service_new_inv [OF assms(1)] by blast
  from grpc_service.service_calls_refine [OF assms(1) e(1) assms(2), of isa] obtain rs s e' where
    run: "service_calls N isa V cs (RadixServiceImpl_new host) = Some (rs, s)" "service_inv N s e'"
      "ct_abs (se_tree e') = snd (table_calls (ckey N) V cs Map.empty)"
      "list_all2 as_promised rs (fst (table_calls (ckey N) V cs Map.empty))"
      "list_all stream_ok cs \<longrightarrow> mx_active_routes (sv_metrics s) = wrapper_size (sv_engine s)"
    unfolding e(2) using e(3) by blast
  have "wrapper_size (sv_engine s) = of_nat (card (dom (ct_abs (se_tree e'))))"
    using grpc_service.compressed_size [OF assms(1)] run(2) unfolding service_inv_def by metis
  with run show ?thesis by (metis (no_types, lifting))
qed

text \<open>A network, inserted with an attribute and asked for.\<close>

definition sample_insert :: InsertRequest where
  "sample_insert = \<lparr>iq_prefix = ''10.0.0.0/8'', iq_metadata = Some \<lparr>md_value = ''lan'', md_attributes = [''asn'' \<mapsto> ''AS1'']\<rparr>\<rparr>"

lemma sample_insert_parses: "sx_parse cidr_service (iq_prefix sample_insert) = Some (cidr_of (V4 0x0A000000) 8)"
proof -
  have "split_on (CHR ''/'') ''10.0.0.0/8'' = [''10.0.0.0'', ''8'']" by simp
  moreover have "parse_ip ''10.0.0.0'' = Some (V4 0x0A000000)" by code_simp
  moreover have "parse_u8 ''8'' = Some 8" by code_simp
  ultimately show ?thesis by (simp add: cidr_service_def sample_insert_def cidr_parse_def cidr_new_def cidr_of_def)
qed

theorem grpc_service_run_witness:
  "\<exists>r s. service_calls cidr_ops Scalar cidr_service [RInsert sample_insert, RContains ''10.0.0.0/8'']
      (RadixServiceImpl_new \<lparr>host_parallelism = Some 8, host_available_memory = 4096\<rparr>) = Some ([r, AContains True], s)
    \<and> mx_active_routes (sv_metrics s) = 1"
proof -
  have "list_all finite_rpc [RInsert sample_insert, RContains ''10.0.0.0/8'']"
    by (simp add: finite_request_def sent_metadata_def sample_insert_def)
  note run = grpc_service_run [OF cidr_rpc.grpc_service_axioms this, of Scalar "\<lparr>host_parallelism = Some 8, host_available_memory = 4096\<rparr>"]
  let ?n = "cidr_of (V4 0x0A000000) 8"
  have parse: "sx_parse cidr_service ''10.0.0.0/8'' = Some ?n" using sample_insert_parses by (simp add: sample_insert_def)
  have tab: "table_calls (ckey cidr_ops) cidr_service [RInsert sample_insert, RContains ''10.0.0.0/8''] Map.empty
      = ([Some (AInsert \<lparr>ip_success = True, ip_is_new = True, ip_error_message = []\<rparr>), Some (AContains True)],
         [ckey cidr_ops ?n \<mapsto> (?n, sent_metadata sample_insert)])"
    by (simp add: sample_insert_parses parse Let_def)
  show ?thesis using run unfolding tab by (auto simp: list_all2_Cons2 as_promised_def)
qed




section \<open>Adaptive radix tree\<close>

text \<open>C29. The key search of the 16-way node, with at most sixteen keys, is the scalar search on every
  instruction set, whatever the unused slots hold. The one exception is NEON with all sixteen slots in use: its mask
  shift wraps to zero and every key is missed.\<close>

theorem simd_search:
  assumes "length keys = 16" and "unat count \<le> 16"
  shows "simd_find_child isa keys target count =
    (if isa = Neon \<and> count = 16 then None else find_scalar keys target count)"
proof (cases "isa = Neon \<and> count = 16")
  case True
  then show ?thesis by (simp add: simd_find_child_def find_neon_full)
next
  case False
  then have "isa = Neon \<Longrightarrow> unat count \<noteq> unat (16 :: u8)" unfolding unat_eq_u8 by simp
  then have "isa = Neon \<Longrightarrow> unat count < 16" using assms(2) by simp
  with simd_find_child_scalar [OF assms] show ?thesis using False by auto
qed

theorem simd_search_witness:
  "simd_find_child Avx2 (map of_nat [100..<116]) 103 16 = Some 3
   \<and> simd_find_child Neon (map of_nat [100..<116]) 103 16 = None"
proof -
  have "find_scalar (map of_nat [100..<116]) 103 16 = Some 3" by code_simp
  then show ?thesis
    using simd_search [of "map of_nat [100..<116]" 16 Avx2 103] simd_search [of "map of_nat [100..<116]" 16 Neon 103]
    by simp
qed

text \<open>C30. Outside NEON, on every node kind: \<open>remove_child\<close> and \<open>update_child\<close> act on \<open>find_child\<close> as the
  operations of a finite map and keep the node's invariant, and so does \<open>add_child\<close> on a compact node, one
  whose slots are filled without a hole, through every growth (4, 16, 48, 256 slots). Only a 48-way node
  can fail to be compact, and a removal makes it so: the last part shows that after the removal of any
  child but the one in the last slot, the next child added to the 48-way node replaces the child there,
  which is then found under two bytes while its old value is lost.\<close>

theorem art_node_map:
  assumes "isa \<noteq> Neon" and "node_inv nb" and "v \<noteq> None"
  shows "(compact nb \<and> find_child isa nb b = None \<longrightarrow>
      node_inv (add_child b v nb) \<and> compact (add_child b v nb)
      \<and> (\<forall>b'. find_child isa (add_child b v nb) b' = (if b' = b then Some v else find_child isa nb b')))
    \<and> node_inv (remove_child b nb)
    \<and> (\<forall>b'. find_child isa (remove_child b nb) b' = (if b' = b then None else find_child isa nb b'))
    \<and> (find_child isa nb b \<noteq> None \<longrightarrow> node_inv (update_child b v nb)
      \<and> (\<forall>b'. find_child isa (update_child b v nb) b' = (if b' = b then Some v else find_child isa nb b')))
    \<and> (\<forall>h index ch b0 b1. nb = N48 h index ch \<and> compact nb \<and> 17 < h_num_children h \<and> index ! unat b0 < 48
        \<and> index ! unat b1 = h_num_children h - 1 \<and> b0 \<noteq> b1 \<and> b \<noteq> b1 \<longrightarrow>
      find_child isa (add_child b v (remove_child b0 nb)) b1 = Some v)"
  using byte_map.put_inv [OF byte_map_nodes [OF assms(1)] assms(2) _ _ assms(3)]
    byte_map.find_put [OF byte_map_nodes [OF assms(1)] assms(2) _ _ assms(3)]
    byte_map.del_inv [OF byte_map_nodes [OF assms(1)] assms(2)]
    byte_map.find_del [OF byte_map_nodes [OF assms(1)] assms(2)]
    byte_map.upd_inv [OF byte_map_nodes [OF assms(1)] assms(2) _ assms(3)]
    byte_map.find_upd [OF byte_map_nodes [OF assms(1)] assms(2) _ assms(3)]
    add_after_remove_48 [OF _ _ _ assms(3)] assms(2)
  by (intro conjI allI impI) (auto simp del: find_child.simps add_child.simps remove_child.simps)

text \<open>A 48-way node with eighteen children, the byte \<open>i\<close> in slot \<open>i\<close>.\<close>

definition sample_node48 :: "nat NodeBox" where
  "sample_node48 = N48 \<lparr>h_node_type = NT_Node48, h_num_children = 18, h_prefix_len = 0, h_prefix = []\<rparr>
     (map of_nat [0..<18] @ replicate 238 48) (map Some [0..<18] @ replicate 30 None)"

lemma sample_node48_inv: "node_inv sample_node48" "compact sample_node48"
proof -
  define ix where "ix = (map of_nat [0..<18] @ replicate 238 48 :: u8 list)"
  define ch where "ch = (map Some [0..<18] @ replicate 30 None :: nat option list)"
  have node: "sample_node48 = N48 \<lparr>h_node_type = NT_Node48, h_num_children = 18, h_prefix_len = 0, h_prefix = []\<rparr> ix ch"
    by (simp only: sample_node48_def ix_def ch_def)
  have small: "unat (of_nat i :: u8) = i" if "i < 18" for i using that by (simp add: unat_of_nat)
  have nth: "ix ! i = (if i < 18 then of_nat i else 48)" if "i < 256" for i using that by (auto simp: ix_def nth_append)
  have used: "used ix = {..<18}"
    unfolding used_def using nth small by (auto simp: word_less_nat_alt split: if_splits)
  have at: "unat (ix ! i) = i" if "i < 18" for i using nth [of i] small that by simp
  have len: "length ix = 256" "length ch = 48" by (simp_all add: ix_def ch_def)
  have val: "ch ! i \<noteq> None" if "i < 18" for i using that by (simp add: ch_def nth_append)
  have "inj_on (nth ix) {..<18}" using at by (metis inj_onI lessThan_iff)
  then show "node_inv sample_node48" using at val len
    unfolding node node_inv.simps index_inv_def used by simp
  show "compact sample_node48" using at unfolding node compact.simps used by (simp add: word_less_nat_alt)
qed

theorem art_node_map_witness:
  "find_child Avx2 (add_child 7 (Some True) Node4_default) 7 = Some (Some True)
   \<and> find_child Avx2 (add_child 7 (Some True) Node4_default) 8 = (None :: bool option option)
   \<and> find_child Avx2 sample_node48 17 = Some (Some 17)
   \<and> find_child Avx2 (add_child 200 (Some 99) (remove_child 3 sample_node48)) 17 = Some (Some 99)"
proof -
  let ?h = "\<lparr>h_node_type = NT_Node48, h_num_children = 18, h_prefix_len = 0, h_prefix = []\<rparr>"
  have "find_child Avx2 (add_child 200 (Some 99) (remove_child 3 sample_node48)) 17 = Some (Some 99)"
    using art_node_map [of Avx2 sample_node48 "Some 99" 200] sample_node48_inv
    by (auto simp: sample_node48_def nth_append simp del: find_child.simps add_child.simps remove_child.simps
        elim!: allE [of _ ?h] allE [of _ 3] allE [of _ 17])
  then show ?thesis using art_node_map [of Avx2 Node4_default "Some True" 7]
    by (simp add: Node4_default_inv sample_node48_def nth_append del: add_child.simps remove_child.simps)
qed

text \<open>C31. On every instruction set but NEON, whose search misses every key of a full 16-way node (C29):
  after inserting routes of one address family into a new ART adapter, each at least eight bits long and
  no two with the same first octet, a lookup of an address of that family is the reference search over
  the routes, and the sharded adapter, with at least one shard, gives that answer.\<close>

theorem art_lookup_lpm:
  assumes "ipnetwork N" and "isa \<noteq> Neon" and "0 < k"
    and "distinct (map (\<lambda>(n, md). first_octet N n) rs)"
    and "\<forall>(n, md) \<in> set rs. is_ipv4 (net_ip N n) = is_ipv4 ip \<and> 8 \<le> net_prefix N n"
  shows "ART_lookup isa ip (fold (\<lambda>(n, md) e. snd (ART_insert N isa n md e)) rs ARTEngineAdapter_new)
      = Some (LPM_lookup N rs ip)
    \<and> ShardedART_lookup isa ip (fold (\<lambda>(n, md) e. snd (ShardedART_insert N isa n md e)) rs (ShardedART_new k sz mb))
      = Some (LPM_lookup N rs ip)"
proof -
  have "mirrors ARTEngineAdapter_new (ShardedART_new k sz mb)"
    using assms(3) by (intro mirrors_new) (simp add: word_neq_0_conv)
  from mirrors_lookup [OF mirrors_inserts [OF this, of N isa rs], of isa ip]
  show ?thesis using ipnetwork.art_lookup_is_lpm [OF assms(1,2,4,5)] by simp
qed

theorem art_lookup_lpm_witness:
  "ART_lookup Avx2 (V4 0x0A000001) (fold (\<lambda>(n, md) e. snd (ART_insert cidr_ops Avx2 n md e))
      [(cidr_of (V4 0x0A000000) 8, Metadata_new ''lan''), (cidr_of (V4 0xC0A80000) 16, Metadata_new ''home'')]
      ARTEngineAdapter_new) = Some (Some (Metadata_new ''lan''))"
proof -
  let ?rs = "[(cidr_of (V4 0x0A000000) 8, Metadata_new ''lan''), (cidr_of (V4 0xC0A80000) 16, Metadata_new ''home'')]"
  have o: "octets (V4 0x0A000000) ! 0 = 10" "octets (V4 0xC0A80000) ! 0 = 192" by code_simp+
  have "LPM_lookup cidr_ops ?rs (V4 0x0A000001) = Some (Metadata_new ''lan'')"
    by (simp add: LPM_lookup_def longest_prefix_match_entries_def network_contains_ip_def cidr_literal_contains)
  then show ?thesis
    using art_lookup_lpm [OF cidr.ipnetwork_axioms, of Avx2 1 ?rs "V4 0x0A000001"] o
    by (simp add: first_octet_def cidr_ops_def)
qed

text \<open>Splitting a leaf files the old and the new host under the same byte when they agree
  there, and the search finds only the old one: of two hosts that share their first two octets,
  the one inserted second is never found.\<close>

theorem art_second_host_lost:
  assumes "length k1 = length k2" and "1 < length k1" and "length k1 \<le> 16" and "k1 \<noteq> k2"
    and "k1 ! 0 = k2 ! 0" and "k1 ! 1 = k2 ! 1"
  shows "match_ip isa k2 (Tree_insert isa k2 v2 (Tree_insert isa k1 v1 Tree_new)) = None"
  using assms by (rule second_host_hidden)

theorem art_second_host_lost_witness:
  "match_ip Scalar [10, 0, 0, 2] (Tree_insert Scalar [10, 0, 0, 2] (Some (Val 1))
     (Tree_insert Scalar [10, 0, 0, 1] (Some (Val 0)) Tree_new)) = None"
  by (rule art_second_host_lost) simp_all

text \<open>C32. Outside NEON, \<open>ARTEngineAdapter::remove\<close> frees the metadata that the network's address
  matches even when the stored route has another length and stays in the tree: with one route stored
  and both networks at least eight bits long, every later lookup below that route reads freed memory.\<close>

theorem art_remove_dangling:
  assumes "ipnetwork N" and "isa \<noteq> Neon" and "8 \<le> net_prefix N n" and "8 \<le> net_prefix N n'"
    and "network_contains_ip N n (net_ip N n')" and "net_prefix N n' \<noteq> net_prefix N n"
    and "network_contains_ip N n ip"
  shows "\<exists>e. ART_remove N isa n' (snd (ART_insert N isa n md ARTEngineAdapter_new)) = Some (Some md, e)
    \<and> ART_size e = 1 \<and> ART_lookup isa ip e = None"
proof -
  have fam: "is_ipv4 (net_ip N n') = is_ipv4 (net_ip N n)"
    using assms(5) ipnetwork.network_contains_ip_iff [OF assms(1)] ipnetwork.net_network_family [OF assms(1)]
    by (simp add: net_v4_def)
  have oct: "first_octet N n' = first_octet N n"
    using ipnetwork.contains_first_octet [OF assms(1,5,3)] by (simp add: first_octet_def)
  have "packed_root (ad_tree ARTEngineAdapter_new)" by (simp add: ARTEngineAdapter_new_def flat_new)
  note ins = ipnetwork.art_insert_state [OF assms(1,2) art_state_new this, where n = n and md = md]
  have st: "art_state N isa (is_ipv4 (net_ip N n)) [first_octet N n \<mapsto> (n, md)] (snd (ART_insert N isa n md ARTEngineAdapter_new))"
    and size: "ART_size (snd (ART_insert N isa n md ARTEngineAdapter_new)) = 1"
    using ins assms(3) by (simp_all add: ART_size_def ARTEngineAdapter_new_def Tree_new_def)
  have "[first_octet N n \<mapsto> (n, md)] (first_octet N n') = Some (n, md)" using oct by simp
  from ipnetwork.art_remove_other_length [OF assms(1,2) st this assms(5,6,4)] show ?thesis
    using size assms(7) by auto
qed

theorem art_remove_dangling_witness:
  "\<exists>e. ART_remove cidr_ops Scalar (cidr_of (V4 0x0A010000) 16)
      (snd (ART_insert cidr_ops Scalar (cidr_of (V4 0x0A000000) 8) (Metadata_new ''lan'') ARTEngineAdapter_new))
      = Some (Some (Metadata_new ''lan''), e)
    \<and> ART_size e = 1 \<and> ART_lookup Scalar (V4 0x0A000001) e = None"
proof (rule art_remove_dangling [OF cidr.ipnetwork_axioms])
  show "network_contains_ip cidr_ops (cidr_of (V4 0x0A000000) 8) (net_ip cidr_ops (cidr_of (V4 0x0A010000) 16))"
  proof -
    have "net_ip cidr_ops (cidr_of (V4 0x0A010000) 16) = V4 0x0A010000" by (simp add: cidr_ops_def)
    then show ?thesis by (simp add: network_contains_ip_def cidr_literal_contains)
  qed
  show "network_contains_ip cidr_ops (cidr_of (V4 0x0A000000) 8) (V4 0x0A000001)" by (rule contains_lan)
qed (simp_all add: cidr_ops_def)

section \<open>Choice of the engine\<close>

text \<open>Whatever the host, the configured variant other than ART, the node variant and the shard
  count, an uncompressed \<open>EngineWrapper\<close> never fails and refines the route table: lookups are
  longest-prefix matches and the size counts the routes.\<close>

theorem wrapper_run:
  assumes "ipnetwork N" and "v \<noteq> ART"
  shows "\<exists>w r w'. wrapper_ops N isa xs (EngineWrapper_new host v nv False k) = Some w
    \<and> wrapper_lookup N isa ip w = Some (r, w')
    \<and> lpm_result N (ran (table_engine_ops (net_bits N) xs Map.empty)) ip r
    \<and> wrapper_size w = of_nat (card (dom (table_engine_ops (net_bits N) xs Map.empty)))"
  using assms by (rule wrapper_uncompressed_lookup)

theorem wrapper_run_witness:
  "\<exists>w w'. wrapper_ops cidr_ops Scalar [EInsert (cidr_of (V4 0x0A000000) 8) (Metadata_new ''lan'')]
        (EngineWrapper_new \<lparr>host_parallelism = Some 8, host_available_memory = 4096\<rparr> Concurrent NV_AtomicTrieNode False None) = Some w
    \<and> wrapper_lookup cidr_ops Scalar (V4 0x0A000001) w = Some (Some (Metadata_new ''lan''), w')
    \<and> wrapper_size w = 1"
  using wrapper_run [OF cidr.ipnetwork_axioms, of Concurrent Scalar "[EInsert (cidr_of (V4 0x0A000000) 8) (Metadata_new ''lan'')]"
      "\<lparr>host_parallelism = Some 8, host_available_memory = 4096\<rparr>" NV_AtomicTrieNode None "V4 0x0A000001"]
  by (simp add: table_engine_ops_def lpm_result_singleton)

text \<open>Every preset of \<open>RadixConfig\<close> reads from a compressed tree, on which one IPv4 route
  answers for all of IPv4: after a single IPv4 insertion into the engine built from any preset,
  every IPv4 address is answered with that route.\<close>

theorem preset_ipv4_collapse:
  assumes "ipnetwork N" and "net_v4 N n"
    and "cfg \<in> {RadixConfig_default, high_performance, memory_efficient, balanced}"
  shows "\<exists>w w'. wrapper_insert N isa n m (EngineWrapper_new host (cfg_engine_variant cfg) (cfg_node_variant cfg)
        (cfg_read_compressed cfg) (cfg_num_shards cfg)) = Some (Inr (), w)
    \<and> wrapper_lookup N isa (V4 a) w = Some (Some m, w')"
proof -
  have "cfg_read_compressed cfg" "cfg_engine_variant cfg \<noteq> ART"
    using assms(3) by (auto simp: RadixConfig_default_def high_performance_def memory_efficient_def balanced_def)
  then show ?thesis using ipnetwork.wrapper_compressed_ipv4 [OF assms(1) _ assms(2)] by simp
qed

theorem preset_ipv4_collapse_witness:
  "\<exists>w w'. wrapper_insert cidr_ops Scalar (cidr_of (V4 0x0A000000) 8) (Metadata_new ''lan'')
      (EngineWrapper_new \<lparr>host_parallelism = Some 8, host_available_memory = 4096\<rparr> (cfg_engine_variant balanced)
        (cfg_node_variant balanced) (cfg_read_compressed balanced) (cfg_num_shards balanced)) = Some (Inr (), w)
    \<and> wrapper_lookup cidr_ops Scalar (V4 0xC0A80001) w = Some (Some (Metadata_new ''lan''), w')"
  by (rule preset_ipv4_collapse [OF cidr.ipnetwork_axioms]) simp_all

section \<open>Redis\<close>

text \<open>C33. A removal does not reach the lookup cache the engines share through Redis: after a route
  is inserted, looked up and removed again, the wrapped engine no longer answers for the address
  and the cached engine still returns the removed route.\<close>

theorem cache_redis_stale:
  fixes N :: "'n ipnet_ops" and R :: "'s redis_server" and J :: "('n, 'j) serde"
  defines "E \<equiv> StandardEngine_RadixEngine (UncompressedTree_RouteTree N)"
  assumes "ipnetwork N" and "redis_store R" and "serde_codec J" and "picks_key first_key"
    and "rd_hgetall R ''radixip:entries'' s = Inr []" and "network_contains_ip N n ip" and "sj_to_string J m = Some t"
  shows "\<exists>ce0 ce1 ce2 ce3 ce4 e'. CachedEngine_new R J E config (Some s) (StandardEngine_new (UncompressedTree_new v)) = Some ce0
    \<and> CachedEngine_insert R J N E n m ce0 = Some (Inr (), ce1)
    \<and> CachedEngine_lookup first_key R J E ip ce1 = Some (Some m, ce2)
    \<and> CachedEngine_remove R J N E n ce2 = Some (Some m, ce3)
    \<and> re_lookup E ip (cd_inner ce3) = Some (None, e')
    \<and> CachedEngine_lookup first_key R J E ip ce3 = Some (Some m, ce4)"
proof -
  have "cached_redis E (se_inv (ut_inv N) ut_abs) (\<lambda>e. ut_abs (se_tree e))
      (\<lambda>e ip. rt_lookup (UncompressedTree_RouteTree N) ip (se_tree e)) N first_key R J"
    unfolding cached_redis_def E_def using standard_cached_engine [OF assms(2,5)] assms(3,4) by blast
  from cached_redis.stale_after_remove [OF this _ _ assms(6-8)] show ?thesis by simp
qed

theorem cache_redis_stale_witness:
  "\<exists>ce0 ce1 ce2 ce3 ce4.
      CachedEngine_new kv_server plain_serde (block_engine cidr_ops) \<lparr>cc_max_entries = 10, cc_ttl_seconds = None\<rparr> (Some kv_empty)
        (new_blocklist NV_NormalTrieNode) = Some ce0
    \<and> CachedEngine_insert kv_server plain_serde cidr_ops (block_engine cidr_ops) (cidr_of (V4 0x0A000000) 8) (Metadata_new ''lan'') ce0
        = Some (Inr (), ce1)
    \<and> CachedEngine_lookup hd kv_server plain_serde (block_engine cidr_ops) (V4 0x0A000001) ce1 = Some (Some (Metadata_new ''lan''), ce2)
    \<and> CachedEngine_remove kv_server plain_serde cidr_ops (block_engine cidr_ops) (cidr_of (V4 0x0A000000) 8) ce2
        = Some (Some (Metadata_new ''lan''), ce3)
    \<and> CachedEngine_lookup hd kv_server plain_serde (block_engine cidr_ops) (V4 0x0A000001) ce3 = Some (Some (Metadata_new ''lan''), ce4)"
proof -
  have c: "rd_hgetall kv_server ''radixip:entries'' kv_empty = Inr []"
    "network_contains_ip cidr_ops (cidr_of (V4 0x0A000000) 8) (V4 0x0A000001)"
    "sj_to_string plain_serde (Metadata_new ''lan'') = Some ''lan''"
    by (simp_all add: kv_server_def kv_empty_def plain_serde_def Metadata_new_def)
  show ?thesis
    using cache_redis_stale [OF cidr.ipnetwork_axioms kv.redis_store_axioms plain.serde_codec_axioms picks_hd c,
        of "\<lparr>cc_max_entries = 10, cc_ttl_seconds = None\<rparr>" NV_NormalTrieNode] by blast
qed

text \<open>C34. A split-plane engine with Redis publishes insertions but not removals: an inserted route is
  served by the data plane once its message has been delivered; after it is removed the control
  plane has lost it, nothing is left to publish, and the data plane still answers with it.\<close>

theorem hybrid_remove_lost:
  fixes N :: "'n ipnet_ops" and R :: "'s redis_server" and J :: "('n, 'j) serde"
  assumes "ipnetwork N" and "redis_store R" and "serde_codec J"
    and "cfg_redis cfg = Some rc" and "rd_open R (rc_url rc) = Inr ()" and "rd_hgetall R ''radixip:entries'' server = Inr []"
    and "cfg_engine_variant cfg \<noteq> ART" and "\<not> cfg_read_compressed cfg" and "\<not> cfg_write_compressed cfg"
    and "sj_to_value J m = Some v" and "sj_update_to_string J (UInsert n v) = Some t"
    and "network_contains_ip N n ip"
  shows "\<exists>h0 h1 h2 h3 h4 h5 h6 c. HybridEngine_new R J N isa host server cfg = Some (Inr h0)
    \<and> hybrid_insert R J N isa True n m h0 = Some (Inr (), h1)
    \<and> hybrid_lookup N isa ip h1 = Some (None, h2)
    \<and> start_sync R J N isa [Delivery (hy_channel h2) (Some t)] (run_spawned R J h2) = Some h3
    \<and> hybrid_lookup N isa ip h3 = Some (Some m, h4)
    \<and> hybrid_remove R J N isa n h4 = Some (Some m, h5)
    \<and> hy_spawned h5 = [] \<and> wrapper_lookup N isa ip (hy_control h5) = Some (None, c)
    \<and> hybrid_lookup N isa ip h5 = Some (Some m, h6)"
  by (rule hybrid_remove_not_synced [OF assms])

theorem hybrid_remove_lost_witness:
  "\<exists>h h' h'' c. hybrid_remove kv_server plain_serde cidr_ops Scalar (cidr_of (V4 0x0A000000) 8) h = Some (Some (Metadata_new ''lan''), h')
    \<and> wrapper_lookup cidr_ops Scalar (V4 0x0A000001) (hy_control h') = Some (None, c)
    \<and> hybrid_lookup cidr_ops Scalar (V4 0x0A000001) h' = Some (Some (Metadata_new ''lan''), h'')"
proof -
  let ?cfg = "RadixConfig_default\<lparr>cfg_read_compressed := False, cfg_redis := Some RedisConfig_default, cfg_enable_split_plane := True\<rparr>"
  have c: "cfg_redis ?cfg = Some RedisConfig_default" "rd_open kv_server (rc_url RedisConfig_default) = Inr ()"
    "rd_hgetall kv_server ''radixip:entries'' kv_empty = Inr []" "cfg_engine_variant ?cfg \<noteq> ART"
    "\<not> cfg_read_compressed ?cfg" "\<not> cfg_write_compressed ?cfg"
    "sj_to_value plain_serde (Metadata_new ''lan'') = Some ''lan''"
    "sj_update_to_string plain_serde (UInsert (cidr_of (V4 0x0A000000) 8) ''lan'') = Some (enc_update (UInsert (cidr_of (V4 0x0A000000) 8) ''lan''))"
    "network_contains_ip cidr_ops (cidr_of (V4 0x0A000000) 8) (V4 0x0A000001)"
    by (simp_all add: kv_server_def kv_empty_def plain_serde_def Metadata_new_def RadixConfig_default_def)
  show ?thesis
    using hybrid_remove_lost [OF cidr.ipnetwork_axioms kv.redis_store_axioms plain.serde_codec_axioms c,
        of Scalar "\<lparr>host_parallelism = Some 8, host_available_memory = 4096\<rparr>"] by blast
qed

section \<open>Packet filter\<close>

text \<open>C35. The packet filter as a whole, from the loader's start on empty kernel maps to the kernel
  program: after any sequence of messages, as long as the snapshot and the messages together do not
  exceed the room of the maps, the kernel program drops a packet exactly when it is an Ethernet frame,
  with at most one VLAN tag, of an IP packet whose source address lies in a network the snapshot and the
  messages ask to block; and a packet from a protected network always passes. At the interface the
  verdict is the program's until the shutdown, which detaches it: then every packet passes.\<close>

theorem xdp_filter:
  fixes I :: "'n ipnet"
  assumes "xdp_loader I L4 c4 L6 c6" and "start I L4 L6 env config = Inr rt" and "su_load env = Some k"
    and "c4 (km_v4 k) = Map.empty" and "c6 (km_v6 k) = Map.empty"
    and "(case su_snapshot env of Some items \<Rightarrow> length items | None \<Rightarrow> 0) + length evs \<le> MAX_ENTRIES"
  shows "fst (radixip_xdp L4 L6 pkt (mp_kernel (rt_maps (run_loop I L4 L6 config evs rt)))) =
      (if \<exists>ip. source_frame pkt ip \<and> (\<exists>n\<in>block_set I config env evs. net_contains (in_net I) n ip) then XDP_DROP else XDP_PASS)
    \<and> (source_frame pkt ip \<and> p \<in> set (lc_never_block config) \<and> net_contains (in_net I) p ip \<longrightarrow>
         fst (radixip_xdp L4 L6 pkt (mp_kernel (rt_maps (run_loop I L4 L6 config evs rt)))) = XDP_PASS)
    \<and> interface_verdict L4 L6 pkt (run_loop I L4 L6 config evs rt) =
      (if EvShutdown \<notin> set evs \<and> (\<exists>ip. source_frame pkt ip \<and> (\<exists>n\<in>block_set I config env evs. net_contains (in_net I) n ip))
       then XDP_DROP else XDP_PASS)"
proof -
  let ?m = "rt_maps (run_loop I L4 L6 config evs rt)"
  have inv: "xdp_loader.loader_inv I c4 c6 config ?m" "set (mp_entries ?m) = block_set I config env evs" "rt_attached rt"
    using xdp_loader.loader_entries [OF assms] by simp_all
  have hit: "kernel_hit L4 L6 (mp_kernel ?m) a \<longleftrightarrow> (\<exists>n\<in>block_set I config env evs. net_contains (in_net I) n a)" for a
    using xdp_loader.hit_iff [OF assms(1) inv(1)] inv(2) by simp
  have act: "a = XDP_PASS \<longleftrightarrow> a \<noteq> XDP_DROP" for a by (cases a) simp_all
  have "fst (radixip_xdp L4 L6 pkt (mp_kernel ?m)) = XDP_PASS"
    if p: "source_frame pkt ip" "p \<in> set (lc_never_block config)" "net_contains (in_net I) p ip"
  proof -
    obtain mac tag hdr rest where "frame_parts mac tag hdr ip" "pkt = ip_frame mac tag hdr ip rest"
      using p(1) by (auto simp: source_frame_def)
    then show ?thesis using xdp_loader.protected_passes [OF assms(1) inv(1) p(2,3)] by (simp add: xdp_on_frame)
  qed
  then show ?thesis using xdp_drop_iff [of L4 L6 pkt "mp_kernel ?m"] act inv(3)
    by (auto simp: hit interface_verdict_def run_loop_attached)
qed

text \<open>A loader that starts on a snapshot of one address.\<close>

definition sample_loader :: "cidr LoaderConfig" where
  "sample_loader = \<lparr>lc_iface = ''eth0'', lc_mode = Skb, lc_pin_dir = [], lc_redis_url = [], lc_channel = [], lc_snapshot_key = [],
     lc_fail_closed = True, lc_min_v4 = 8, lc_min_v6 = 16, lc_never_block = [cidr_of (V4 0x0A000001) 32]\<rparr>"

definition sample_setup :: "((bool list \<times> u8) list, (bool list \<times> u8) list) xdp_setup" where
  "sample_setup = \<lparr>su_create_dir = True, su_load = Some \<lparr>km_v4 = [], km_v6 = [], km_stats = [0, 0, 0, 0, 0]\<rparr>, su_open = True,
     su_pubsub = True, su_snapshot = Some [''10.0.1.2''], su_program = True, su_attach = True\<rparr>"

lemma sample_named: "named_net cidr_ipnet sample_loader ''10.0.1.2'' = {cidr_of (V4 0x0A000102) 32}"
proof -
  have "parse_ip ''10.0.1.2'' = Some (V4 0x0A000102)" by code_simp
  then have "parse_net cidr_ipnet ''10.0.1.2'' = Inr (cidr_of (V4 0x0A000102) 32)"
    by (simp add: parse_net_def cidr_ipnet_def trim_def is_whitespace_def)
  moreover have "normalize cidr_ipnet sample_loader (cidr_of (V4 0x0A000102) 32) = Inr (cidr_of (V4 0x0A000102) 32)"
  proof -
    have h: "clear_host (V4 0x0A000102) 32 = V4 0x0A000102" "clear_host (V4 0x0A000001) 32 = V4 0x0A000001" by code_simp+
    have t: "in_trunc cidr_ipnet (cidr_of (V4 0x0A000102) 32) = cidr_of (V4 0x0A000102) 32"
      using h(1) by (simp add: cidr_ipnet_def cidr_network_def)
    have b: "net_bits cidr_ops (cidr_of (V4 a) 32) = ip_bits (clear_host (V4 a) 32)" for a by (simp add: net_bits_def)
    have "ip_bits (V4 0x0A000102) \<noteq> ip_bits (V4 0x0A000001)"
      using ip_bits_inj [of "V4 0x0A000102" "V4 0x0A000001"] by auto
    then have "\<not> prefix (ip_bits (V4 0x0A000102)) (ip_bits (V4 0x0A000001))" "\<not> prefix (ip_bits (V4 0x0A000001)) (ip_bits (V4 0x0A000102))"
      using not_equal_is_parallel [of "ip_bits (V4 0x0A000102)" "ip_bits (V4 0x0A000001)"] by (simp_all add: parallel_def)
    then show ?thesis using t h by (simp add: normalize_def sample_loader_def cidr_ipnet_def b)
  qed
  ultimately show ?thesis by (simp add: named_net_def)
qed

theorem xdp_filter_witness:
  "\<exists>rt. start cidr_ipnet bit_trie bit_trie sample_setup sample_loader = Inr rt
    \<and> fst (radixip_xdp bit_trie bit_trie (ip_frame (replicate 12 0) [] (replicate 12 0) (V4 0x0A000102) [])
        (mp_kernel (rt_maps (run_loop cidr_ipnet bit_trie bit_trie sample_loader [EvTick, EvClosed] rt)))) = XDP_DROP
    \<and> interface_verdict bit_trie bit_trie (ip_frame (replicate 12 0) [] (replicate 12 0) (V4 0x0A000102) [])
        (run_loop cidr_ipnet bit_trie bit_trie sample_loader [EvTick, EvClosed] rt) = XDP_DROP"
proof -
  let ?pkt = "ip_frame (replicate 12 0) [] (replicate 12 0) (V4 0x0A000102) []"
  obtain rt where rt: "start cidr_ipnet bit_trie bit_trie sample_setup sample_loader = Inr rt"
    by (simp add: start_def sample_setup_def Let_def)
  have "source_frame ?pkt (V4 0x0A000102)"
    unfolding source_frame_def
    by (rule exI [of _ "replicate 12 0"], rule exI [of _ "[]"], rule exI [of _ "replicate 12 0"], rule exI [of _ "[]"])
       (simp add: frame_parts_def vlan_tag_def)
  moreover have "block_set cidr_ipnet sample_loader sample_setup [EvTick, EvClosed] = {cidr_of (V4 0x0A000102) 32}"
    by (simp add: block_set_def sample_setup_def sample_named)
  moreover have "net_contains (in_net cidr_ipnet) (cidr_of (V4 0x0A000102) 32) (V4 0x0A000102)"
    by (simp add: cidr_ipnet_def cidr_literal_contains)
  ultimately have "\<exists>ip. source_frame ?pkt ip \<and> (\<exists>n\<in>block_set cidr_ipnet sample_loader sample_setup [EvTick, EvClosed].
      net_contains (in_net cidr_ipnet) n ip)" by auto
  moreover note xdp_filter [OF xdp_cidr.xdp_loader_axioms rt, where k = "\<lparr>km_v4 = [], km_v6 = [], km_stats = [0, 0, 0, 0, 0]\<rparr>"
      and evs = "[EvTick, EvClosed]" and pkt = ?pkt]
  ultimately show ?thesis using rt by (simp add: sample_setup_def MAX_ENTRIES_def)
qed

section \<open>Language bindings\<close>

text \<open>C36. Python and Rust agree on metadata: the dictionary made of metadata is read back as the same value and
  attributes, in whatever order the attributes are iterated.\<close>

theorem metadata_roundtrip:
  assumes "map_order (py_entries P)" and "finite (dom (md_attributes m))"
  shows "meta_from_dict P (meta_to_dict P m) = Inr m"
  by (rule py_meta_roundtrip [OF assms])

theorem metadata_roundtrip_witness:
  "meta_from_dict plain_py (meta_to_dict plain_py \<lparr>md_value = ''lan'', md_attributes = [''asn'' \<mapsto> ''AS1'', ''site'' \<mapsto> ''x'']\<rparr>)
    = Inr \<lparr>md_value = ''lan'', md_attributes = [''asn'' \<mapsto> ''AS1'', ''site'' \<mapsto> ''x'']\<rparr>"
  by (rule metadata_roundtrip) (simp_all add: plain_py_def by_key.map_order_axioms)

text \<open>C37. The C, Node.js and Python interfaces are views of one engine: over any engine, the same calls, with
  metadata sent as JSON text, as an object or as a dictionary, leave the same engine behind, panic in the
  same place, and return the codes, values or exceptions that stand for the same results. The C
  interface changes nothing else in its heap, and its clients leak no string by freeing what they get.\<close>

theorem bindings_agree:
  fixes E :: "('e, 'n) RadixEngine" and J :: "('n, 'j) serde"
  assumes "serde_codec J" and "map_order (py_entries P)" and "list_all (sendable J) ops"
    and "hp_objects hp a = Some e" and "\<forall>b \<ge> hp_next hp. hp_strings hp b = None"
  shows "call_run (node_call J E) ops e = map_option (map_prod (map2 node_view ops) id) (call_run (api_call J E) ops e)
    \<and> call_run (py_call P J E) ops e = map_option (map_prod (map2 (py_view P) ops) id) (call_run (api_call J E) ops e)
    \<and> map_option (\<lambda>(rs, hp'). (rs, hp_objects hp', hp_strings hp')) (call_run (c_call J E (Some a)) ops hp)
      = map_option (\<lambda>(rs, e'). (map2 (c_view J) ops rs, (hp_objects hp)(a \<mapsto> e'), hp_strings hp)) (call_run (api_call J E) ops e)"
  using view_run [OF node.binding_axioms, of ops J E e] view_run [OF py_binding [OF assms(2)] assms(3), of E e]
    c_run_view [OF serde_codec.c_binding [OF assms(1)] assms(3-5), of E]
  by (simp add: list.pred_True)

text \<open>A network stored and an address looked up, over a standard engine.\<close>

definition sample_ops :: "ApiOp list" where
  "sample_ops = [ApiInsert (enc_net (cidr_of (V4 0x0A000000) 8)) (Metadata_new ''lan''), ApiLookup ''10.0.0.1'', ApiSize]"

definition sample_heap :: "cidr UncompressedTree StandardEngine c_heap" where
  "sample_heap = \<lparr>hp_objects = [0 \<mapsto> new_blocklist NV_AtomicTrieNode], hp_strings = Map.empty, hp_next = 1\<rparr>"

theorem bindings_agree_witness:
  "\<exists>e rs. call_run (api_call plain_serde (StandardEngine_RadixEngine (UncompressedTree_RouteTree cidr_ops))) sample_ops
        (new_blocklist NV_AtomicTrieNode) = Some (rs, e)
    \<and> call_run (node_call plain_serde (StandardEngine_RadixEngine (UncompressedTree_RouteTree cidr_ops))) sample_ops
        (new_blocklist NV_AtomicTrieNode) = Some (map2 node_view sample_ops rs, e)
    \<and> call_run (py_call plain_py plain_serde (StandardEngine_RadixEngine (UncompressedTree_RouteTree cidr_ops))) sample_ops
        (new_blocklist NV_AtomicTrieNode) = Some (map2 (py_view plain_py) sample_ops rs, e)
    \<and> map_option (\<lambda>(rs, hp). (rs, hp_objects hp, hp_strings hp))
        (call_run (c_call plain_serde (StandardEngine_RadixEngine (UncompressedTree_RouteTree cidr_ops)) (Some 0)) sample_ops sample_heap)
      = Some (map2 (c_view plain_serde) sample_ops rs, [0 \<mapsto> e], Map.empty)"
proof -
  let ?E = "StandardEngine_RadixEngine (UncompressedTree_RouteTree cidr_ops)" and ?e = "new_blocklist NV_AtomicTrieNode"
  have send: "list_all (sendable plain_serde) sample_ops"
    by (simp add: sample_ops_def plain_serde_def Metadata_new_def)
  have order: "map_order (py_entries plain_py)" by (simp add: plain_py_def by_key.map_order_axioms)
  have heap: "hp_objects sample_heap 0 = Some ?e" "\<forall>b \<ge> hp_next sample_heap. hp_strings sample_heap b = None"
    by (simp_all add: sample_heap_def)
  note eng = lpm_engine.axioms(1) [OF lpm_tree.standard_lpm_engine [OF UncompressedTree_lpm_tree [OF cidr.ipnetwork_axioms]]]
  have new: "se_inv (ut_inv cidr_ops) ut_abs (?e :: cidr UncompressedTree StandardEngine)" by simp
  obtain e1 where e1: "re_insert ?E (cidr_of (V4 0x0A000000) 8) (Metadata_new ''lan'') ?e = Some (Inr (), e1)" "se_inv (ut_inv cidr_ops) ut_abs e1"
    using radix_engine.engine_insert [OF eng new] by blast
  obtain r e2 where e2: "re_lookup ?E (V4 0x0A000001) e1 = Some (r, e2)" using radix_engine.engine_lookup [OF eng e1(2)] by blast
  have "sj_net_from_str plain_serde (enc_net (cidr_of (V4 0x0A000000) 8)) = Some (cidr_of (V4 0x0A000000) 8)"
    unfolding plain_serde_def serde.select_convs by (rule dec_enc_net)
  moreover have "parse_ip ''10.0.0.1'' = Some (V4 0x0A000001)" by code_simp
  ultimately have "call_run (api_call plain_serde ?E) sample_ops ?e = Some ([Stored, Found r, Sized (re_size ?E e2)], e2)"
    using e1(1) e2 by (simp add: sample_ops_def)
  with bindings_agree [OF plain.serde_codec_axioms order send heap, of ?E] show ?thesis by (auto simp: sample_heap_def)
qed

text \<open>C38. The policy handles of the Node.js and Python interfaces decide alike: any sequence of checks of
  addresses and requests leaves the same policy behind and gives the same decisions under the names of
  each language. The C interface checks addresses only: any sequence of checks of addresses that parse
  gives the same decisions as codes, leaves the same policy behind and the rest of its heap as it was.\<close>

theorem policy_bindings_agree:
  assumes "hp_objects hp a = Some h" and "\<forall>b \<ge> hp_next hp. hp_strings hp b = None"
  shows "call_run (node_query X) qs h = map_option (map_prod (map2 node_query_view qs) id) (call_run (policy_query X) qs h)
    \<and> call_run (py_query X) qs h = map_option (map_prod (map2 py_query_view qs) id) (call_run (policy_query X) qs h)
    \<and> (list_all address_query qs \<longrightarrow>
        map_option (\<lambda>(rs, hp'). (rs, hp_objects hp', hp_strings hp')) (call_run (c_query X (Some a)) qs hp)
        = map_option (\<lambda>(rs, h'). (map2 c_query_view qs rs, (hp_objects hp)(a \<mapsto> h'), hp_strings hp)) (call_run (policy_query X) qs h))"
  using view_run [OF node_policy.binding_axioms, of qs X h] view_run [OF py_policy.binding_axioms, of qs X h]
    c_run_view [OF c_policy.binding_axioms _ assms, of qs X]
  by (simp add: list.pred_True)

definition sample_handle where
  "sample_handle = PolicyHandle_new (standard_env cidr_ops map_cache alist_dash alist_dash) (new_blocklist NV_AtomicTrieNode)
     \<lparr>radixip = RootConfig_defaults\<rparr>"

theorem policy_bindings_agree_witness:
  "call_run (node_query (standard_env cidr_ops map_cache alist_dash alist_dash)) [QIp (\<lambda>_. 9) 9 ''10.0.0.1''] sample_handle
    = map_option (map_prod (map2 node_query_view [QIp (\<lambda>_. 9) 9 ''10.0.0.1'']) id)
        (call_run (policy_query (standard_env cidr_ops map_cache alist_dash alist_dash)) [QIp (\<lambda>_. 9) 9 ''10.0.0.1''] sample_handle)
   \<and> map_option fst (call_run (c_query (standard_env cidr_ops map_cache alist_dash alist_dash) (Some 0)) [QIp (\<lambda>_. 9) 9 ''10.0.0.1'']
        \<lparr>hp_objects = [0 \<mapsto> sample_handle], hp_strings = Map.empty, hp_next = 1\<rparr>)
    = map_option (map2 c_query_view [QIp (\<lambda>_. 9) 9 ''10.0.0.1''] \<circ> fst)
        (call_run (policy_query (standard_env cidr_ops map_cache alist_dash alist_dash)) [QIp (\<lambda>_. 9) 9 ''10.0.0.1''] sample_handle)"
proof -
  let ?X = "standard_env cidr_ops map_cache alist_dash alist_dash" and ?qs = "[QIp (\<lambda>_. 9) 9 ''10.0.0.1'']"
  let ?hp = "\<lparr>hp_objects = [0 \<mapsto> sample_handle], hp_strings = Map.empty, hp_next = 1\<rparr>"
  have "parse_ip ''10.0.0.1'' = Some (V4 0x0A000001)" by code_simp
  then have addr: "list_all address_query ?qs" by simp
  have hp: "hp_objects ?hp 0 = Some sample_handle" "\<forall>b \<ge> hp_next ?hp. hp_strings ?hp b = None" by simp_all
  from policy_bindings_agree [OF hp, of ?X ?qs] addr
  have node: "call_run (node_query ?X) ?qs sample_handle = map_option (map_prod (map2 node_query_view ?qs) id) (call_run (policy_query ?X) ?qs sample_handle)"
    and c: "map_option (\<lambda>(rs, hp'). (rs, hp_objects hp', hp_strings hp')) (call_run (c_query ?X (Some 0)) ?qs ?hp)
      = map_option (\<lambda>(rs, h'). (map2 c_query_view ?qs rs, (hp_objects ?hp)(0 \<mapsto> h'), hp_strings ?hp)) (call_run (policy_query ?X) ?qs sample_handle)"
    by blast+
  have "map_option fst (call_run (c_query ?X (Some 0)) ?qs ?hp) = map_option (map2 c_query_view ?qs \<circ> fst) (call_run (policy_query ?X) ?qs sample_handle)"
    using arg_cong [OF c, of "map_option fst"] by (simp only: option.map_comp comp_def case_prod_unfold fst_conv)
  with node show ?thesis by blast
qed

text \<open>C39. The policies of the language bindings never block an address when automatic bans are disabled: the
  engine behind a handle is new and cannot be filled, so whatever the configuration lists, every check of
  an address or a request is answered by an allowance, by a limit, or by the rejection of the text. The
  Node.js and the Python constructor make the same handle.\<close>

theorem policy_never_blocks:
  assumes "config_from_file rd fs path = Inr cfg" and "\<not> ab_enabled (root_auto_ban (radixip cfg))"
  shows "\<exists>h rs h'. RadixPolicy_from_yaml (box_env fk R J N isa M DV DB) (new_balanced R J N isa host server) rd fs (Inr ()) path = Some (Inr h)
    \<and> PyRadixPolicy_from_yaml (box_env fk R J N isa M DV DB) (new_balanced R J N isa host server) rd fs (Inr ()) path = Some (Inr h)
    \<and> call_run (node_query (box_env fk R J N isa M DV DB)) qs h = Some (rs, h') \<and> length rs = length qs
    \<and> (\<forall>r\<in>set rs. \<forall>x. r = Inr x \<longrightarrow> jp_decision x \<in> {''allow'', ''limit''})"
proof -
  let ?X = "box_env fk R J N isa M DV DB"
  obtain b where b: "new_balanced R J N isa host server = Some b" "box_routeless b" by (rule new_balanced_routeless)
  define h where "h = PolicyHandle_new ?X b cfg"
  have "box_blind.unarmed (ph_policy h)" unfolding h_def using b(2) assms(2) by (rule box_blind.unarmed_new)
  from box_blind.unarmed_run [OF this, where qs = qs] obtain rs h' where
    run: "call_run (policy_query ?X) qs h = Some (rs, h')" "list_all no_block rs" "length rs = length qs" by blast
  have node: "call_run (node_query ?X) qs h = Some (map2 node_query_view qs rs, h')"
    using view_run [OF node_policy.binding_axioms, of qs ?X h] run(1) by (simp add: list.pred_True)
  have "jp_decision x \<in> {''allow'', ''limit''}" if x: "Inr x \<in> set (map2 node_query_view qs rs)" for x
  proof -
    obtain q r where r: "r \<in> set rs" "Inr x = node_query_view q r" using x by (auto dest: set_zip_rightD)
    then obtain y where "r = Some y" "jp_decision x = code_word (pr_decision y)" by (auto simp: node_query_view_def split: option.splits)
    moreover from this r(1) run(2) have "pr_decision y \<in> {CodeAllow, CodeLimit}" by (auto simp: list_all_iff no_block_def)
    ultimately show ?thesis by (auto simp: code_word_def)
  qed
  then have "\<forall>r\<in>set (map2 node_query_view qs rs). \<forall>x. r = Inr x \<longrightarrow> jp_decision x \<in> {''allow'', ''limit''}" by blast
  moreover have "length (map2 node_query_view qs rs) = length qs" using run(3) by simp
  moreover have "RadixPolicy_from_yaml ?X (new_balanced R J N isa host server) rd fs (Inr ()) path = Some (Inr h)"
    "PyRadixPolicy_from_yaml ?X (new_balanced R J N isa host server) rd fs (Inr ()) path = Some (Inr h)"
    using b(1) assms(1) by (simp_all add: RadixPolicy_from_yaml_def PyRadixPolicy_from_yaml_def h_def)
  ultimately show ?thesis using node by blast
qed

lemma default_file_config: "config_from_file (\<lambda>_. Inr []) default_file path
    = Inr \<lparr>radixip = RootConfig_defaults\<lparr>root_blocklist := \<lparr>bl_enabled = True, bl_sources = []\<rparr>\<rparr>\<rparr>"
  by (simp add: config_from_file_def default_file_def validate_def RootConfig_defaults_def RateLimitConfig_default_def Let_def)

theorem policy_never_blocks_witness:
  "\<exists>h r h'. RadixPolicy_from_yaml (box_env hd kv_server plain_serde cidr_ops Scalar map_cache alist_dash alist_dash)
      (new_balanced kv_server plain_serde cidr_ops Scalar \<lparr>host_parallelism = Some 8, host_available_memory = 4096\<rparr> kv_empty)
      (\<lambda>_. Inr []) default_file (Inr ()) ''radixip.yaml'' = Some (Inr h)
    \<and> call_run (node_query (box_env hd kv_server plain_serde cidr_ops Scalar map_cache alist_dash alist_dash))
        [QRequest (\<lambda>_. 9) 9 ''10.0.0.1'' ''GET'' ''/''] h = Some ([r], h')
    \<and> (case r of Inr x \<Rightarrow> jp_decision x \<in> {''allow'', ''limit''} | Inl _ \<Rightarrow> True)"
proof -
  have ab: "\<not> ab_enabled (root_auto_ban (radixip (\<lparr>radixip = RootConfig_defaults\<lparr>root_blocklist := \<lparr>bl_enabled = True, bl_sources = []\<rparr>\<rparr>\<rparr> :: cidr RadixIpConfig)))"
    by (simp add: RootConfig_defaults_def AutoBanConfig_default_def)
  from policy_never_blocks [OF default_file_config ab, where fk = hd and R = kv_server and J = plain_serde and N = cidr_ops and isa = Scalar
      and M = map_cache and DV = alist_dash and DB = alist_dash and host = "\<lparr>host_parallelism = Some 8, host_available_memory = 4096\<rparr>"
      and server = kv_empty and path = "''radixip.yaml''" and qs = "[QRequest (\<lambda>_. 9) 9 ''10.0.0.1'' ''GET'' ''/'']"]
  obtain h rs h' where "RadixPolicy_from_yaml (box_env hd kv_server plain_serde cidr_ops Scalar map_cache alist_dash alist_dash)
      (new_balanced kv_server plain_serde cidr_ops Scalar \<lparr>host_parallelism = Some 8, host_available_memory = 4096\<rparr> kv_empty)
      (\<lambda>_. Inr []) default_file (Inr ()) ''radixip.yaml'' = Some (Inr h)"
    and run: "call_run (node_query (box_env hd kv_server plain_serde cidr_ops Scalar map_cache alist_dash alist_dash))
        [QRequest (\<lambda>_. 9) 9 ''10.0.0.1'' ''GET'' ''/''] h = Some (rs, h')" "length rs = 1"
      "\<forall>r\<in>set rs. \<forall>x. r = Inr x \<longrightarrow> jp_decision x \<in> {''allow'', ''limit''}"
    by auto
  moreover obtain r where "rs = [r]" using run(2) by (auto simp: length_Suc_conv)
  ultimately show ?thesis by (intro exI [of _ h] exI [of _ r] exI [of _ h']) (auto split: sum.split)
qed

text \<open>C40. A Node.js engine with split planes and Redis cannot be written to: the publication of an insertion
  asks for the current runtime, and the only one, that of the constructor, is gone. The first insertion
  of a network with metadata that can be published panics.\<close>

theorem node_split_insert_panics:
  assumes "ipnetwork N" and "split_redis c" and "RadixIP_new R J N isa host server rt (Some c) = Some b"
    and "sj_net_from_str J t = Some n" and "sj_to_value J \<lparr>md_value = js_value m, md_attributes = js_attributes m\<rparr> \<noteq> None"
  shows "RadixIP_insert J (box_RadixEngine fk R J N isa False) t m b = None"
proof -
  obtain h where "b = BoxHybrid h" "connected N h" using node_split_connected [OF assms(1-3)] .
  with split_insert_panics [OF assms(1) _ assms(5), of h fk R isa n] assms(4) show ?thesis by (simp add: RadixIP_insert_def)
qed

definition sample_split :: EngineConfig where
  "sample_split = \<lparr>ec_variant = None, ec_read_compressed = None, ec_write_compressed = None, ec_enable_split_plane = Some True,
     ec_cache_enabled = None, ec_cache_max_entries = None, ec_cache_ttl_seconds = None,
     ec_redis_url = Some ''redis://127.0.0.1'', ec_redis_channel = None\<rparr>"

theorem node_split_insert_panics_witness:
  "\<exists>b. RadixIP_new kv_server plain_serde cidr_ops Scalar \<lparr>host_parallelism = Some 8, host_available_memory = 4096\<rparr> kv_empty True
      (Some sample_split) = Some b
    \<and> RadixIP_insert plain_serde (box_RadixEngine hd kv_server plain_serde cidr_ops Scalar False)
        (enc_net (cidr_of (V4 0x0A000000) 8)) \<lparr>js_value = ''lan'', js_attributes = Map.empty\<rparr> b = None"
proof -
  have split: "split_redis sample_split" by (simp add: split_redis_def sample_split_def)
  obtain b where b: "RadixIP_new kv_server plain_serde cidr_ops Scalar \<lparr>host_parallelism = Some 8, host_available_memory = 4096\<rparr> kv_empty True
      (Some sample_split) = Some b"
    by (simp add: RadixIP_new_def radixip_new_def node_config_def sample_split_def unwrap_or_def RadixConfig_default_def HybridEngine_new_def
        RedisClient_new_def redis_err_def hgetall_sync_def get_sync_connection_def kv_server_def kv_empty_def Let_def)
  have n: "sj_net_from_str plain_serde (enc_net (cidr_of (V4 0x0A000000) 8)) = Some (cidr_of (V4 0x0A000000) 8)"
    unfolding plain_serde_def serde.select_convs by (rule dec_enc_net)
  have v: "sj_to_value plain_serde \<lparr>md_value = js_value \<lparr>js_value = ''lan'', js_attributes = Map.empty\<rparr>,
      md_attributes = js_attributes \<lparr>js_value = ''lan'', js_attributes = Map.empty\<rparr>\<rparr> \<noteq> None"
    by (simp add: plain_serde_def)
  show ?thesis using b node_split_insert_panics [OF cidr.ipnetwork_axioms split b n v, of hd] by blast
qed

end
